(* ===== verification/Prelude.thy ===== *)
theory Prelude
  imports Main "HOL-Library.Word"
begin

text \<open>
  Shared vocabulary of the development: the fixed-width integer types of the C
  sources, byte strings, little- and big-endian encodings, the byte-addressed
  memory in which the shared-memory transport lives, and the generic facts
  about them that the component theories use.  The named collection
  \<open>mem_simps\<close> holds the read-over-write laws of the memory.
\<close>

unbundle bit_operations_syntax

type_synonym u8 = "8 word"
type_synonym u16 = "16 word"
type_synonym u32 = "32 word"
type_synonym u64 = "64 word"
type_synonym bytes = "8 word list"
type_synonym mem = "nat \<Rightarrow> 8 word"

text \<open>The error numbers of the Linux code; a call returns \<open>Inl\<close> of one or
  \<open>Inr\<close> of its result.\<close>

datatype errno = EINVAL | ENODEV | EMSGSIZE | ENOMEM | EBUSY | EIO | ETIMEDOUT | EROFS | EOPNOTSUPP
  | ENXIO | EAGAIN | ENOENT | EACCES | ENOSYS

named_theorems mem_simps "read-over-write laws of the byte memory"
named_theorems len_simps "lengths of encodings"

section \<open>Words\<close>

lemma unat_and_mask:
  fixes x :: "'a::len word"
  shows "unat (x AND mask k) = unat x mod 2 ^ k"
proof -
  have "unat (x AND mask k) = unat (take_bit k x)"
    by (simp only: take_bit_eq_mask)
  also have "\<dots> = take_bit k (unat x)"
    by (rule unsigned_take_bit_eq)
  finally show ?thesis
    by (simp only: take_bit_eq_mod)
qed

lemma unat_and_not_mask:
  fixes x :: "'a::len word"
  shows "unat (x AND NOT (mask k)) = unat x div 2 ^ k * 2 ^ k"
proof -
  have "x AND NOT (mask k) = push_bit k (drop_bit k x)"
    by (rule bit_word_eqI) (auto simp: bit_simps)
  moreover have "push_bit k (drop_bit k x) + (x AND mask k) = x"
    using bits_ident [of k x] by (simp only: take_bit_eq_mask)
  ultimately have "x AND NOT (mask k) = x - (x AND mask k)"
    by (metis add_diff_cancel_right')
  moreover have "x AND mask k \<le> x"
    by (rule word_and_le2)
  ultimately have "unat (x AND NOT (mask k)) = unat x - unat (x AND mask k)"
    by (simp only: unat_sub)
  then show ?thesis
    by (simp only: unat_and_mask minus_mod_eq_div_mult)
qed

lemma unat_pow2: "k < LENGTH('a::len) \<Longrightarrow> unat (2 ^ k :: 'a word) = 2 ^ k"
  using unat_of_nat [where 'a='a, of "2 ^ k"] by (simp add: power_strict_increasing)

lemma unat_ucast_up:
  fixes x :: "'a::len word"
  assumes "LENGTH('a) \<le> LENGTH('b::len)"
  shows "unat (ucast x :: 'b word) = unat x"
proof -
  have "unat x < 2 ^ LENGTH('b)"
    by (rule less_le_trans [OF unsigned_less]) (use assms in simp)
  then show ?thesis
    by (simp add: unsigned_ucast_eq take_bit_nat_eq_self)
qed

lemma unat_add_mod:
  fixes x y :: "'a::len word"
  assumes "k \<le> LENGTH('a)"
  shows "unat (x + y) mod 2 ^ k = (unat x + unat y) mod 2 ^ k"
proof -
  have "(2::nat) ^ k dvd 2 ^ LENGTH('a)"
    using assms by (simp add: le_imp_power_dvd)
  then show ?thesis
    by (simp add: unat_word_ariths mod_mod_cancel)
qed

lemma unat_diff_add_mod:
  fixes h t :: "'a::len word"
  assumes "k \<le> LENGTH('a)"
  shows "unat h mod 2 ^ k = (unat t + unat (h - t)) mod 2 ^ k"
  using unat_add_mod [OF assms, of t "h - t"] by simp

lemma unat_add_eq_iff:
  fixes x y :: "'a::len word"
  shows "unat x + unat y < 2 ^ LENGTH('a) \<Longrightarrow> unat (x + y) = unat x + unat y"
  by (simp add: unat_word_ariths)

lemma unat_sub_le:
  fixes x y :: "'a::len word"
  shows "y \<le> x \<Longrightarrow> unat (x - y) = unat x - unat y"
  by (rule unat_sub)

lemma unat_below: "unat (w :: 'a :: len word) < 2 ^ LENGTH('a)"
  by (rule unsigned_less)

lemma unat_drop: "unat (drop_bit n (w :: 'a :: len word)) = unat w div 2 ^ n"
  unfolding unsigned_drop_bit_eq using unat_below [of w] by (simp add: take_bit_nat_eq_self drop_bit_eq_div)

text \<open>Fields: what a read sees after bits \<open>k\<close> of a word were replaced.\<close>

lemma field_set: "(((x :: u32) AND NOT m) OR b) AND m = b AND m"
  by (rule bit_word_eqI) (auto simp: bit_simps)

lemma field_other: "m AND k = 0 \<Longrightarrow> (((x :: u32) AND NOT k) OR b) AND m = (x AND m) OR (b AND m)"
proof (rule bit_word_eqI)
  fix n
  assume m: "m AND k = 0" and n: "n < LENGTH(32)"
  have "\<not> (bit m n \<and> bit k n)"
    using arg_cong [where f = "\<lambda>w. bit w n", OF m] by (simp add: bit_simps)
  then show "bit (((x AND NOT k) OR b) AND m) n = bit ((x AND m) OR (b AND m)) n"
    using n by (auto simp: bit_simps)
qed

lemma field_sub:
  assumes "m AND k = m"
  shows "(((x :: u32) AND NOT k) OR b) AND m = b AND m"
proof (rule bit_word_eqI)
  fix n
  assume n: "n < LENGTH(32)"
  have "bit m n \<Longrightarrow> bit k n"
    using arg_cong [where f = "\<lambda>w. bit w n", OF assms] by (simp add: bit_simps)
  then show "bit (((x AND NOT k) OR b) AND m) n = bit (b AND m) n"
    using n by (auto simp: bit_simps)
qed

section \<open>Little-endian and big-endian encodings\<close>

definition put_le16 :: "u16 \<Rightarrow> bytes" where
  "put_le16 v = [ucast v, ucast (drop_bit 8 v)]"

fun get_le16 :: "bytes \<Rightarrow> u16" where
  "get_le16 (a # b # _) = ucast a OR push_bit 8 (ucast b)"
| "get_le16 _ = 0"

definition put_le32 :: "u32 \<Rightarrow> bytes" where
  "put_le32 v = [ucast v, ucast (drop_bit 8 v), ucast (drop_bit 16 v), ucast (drop_bit 24 v)]"

fun get_le32 :: "bytes \<Rightarrow> u32" where
  "get_le32 (a # b # c # d # _) =
     ucast a OR push_bit 8 (ucast b) OR push_bit 16 (ucast c) OR push_bit 24 (ucast d)"
| "get_le32 _ = 0"

lemma length_put_le [simp, len_simps]:
  "length (put_le16 v) = 2" "length (put_le32 w) = 4"
  by (simp_all add: put_le16_def put_le32_def)

lemma get_put_le16 [simp]: "get_le16 (put_le16 v @ xs) = v"
  by (simp add: put_le16_def, rule bit_word_eqI) (auto simp: bit_simps)

lemma get_put_le32_aux:
  "ucast (ucast v :: u8) OR push_bit 8 (ucast (ucast (drop_bit 8 v) :: u8))
     OR push_bit 16 (ucast (ucast (drop_bit 16 v) :: u8))
     OR push_bit 24 (ucast (ucast (drop_bit 24 v) :: u8)) = (v :: u32)"
proof (rule bit_word_eqI, goal_cases)
  case (1 n)
  then consider "n < 8" | "8 \<le> n" "n < 16" | "16 \<le> n" "n < 24" | "24 \<le> n" "n < 32"
    by simp linarith
  then show ?case
    by cases (auto simp: bit_simps)
qed

lemma get_put_le32_append [simp]: "get_le32 (put_le32 v @ xs) = v"
  by (simp add: put_le32_def get_put_le32_aux)

lemma get_put_le32 [simp]: "get_le32 (put_le32 v) = v"
  using get_put_le32_append [of v "[]"] by simp

lemma list4_cases:
  "length bs = 4 \<Longrightarrow> \<exists>a b c d. bs = [a, b, c, d]"
  by (auto simp: numeral_eq_Suc length_Suc_conv)

lemma put_get_le32 [simp]:
  assumes "length bs = 4"
  shows "put_le32 (get_le32 bs) = bs"
proof -
  obtain a b c d where bs: "bs = [a, b, c, d]"
    using list4_cases [OF assms] by blast
  have "ucast (ucast a OR push_bit 8 (ucast b) OR push_bit 16 (ucast c) OR push_bit 24 (ucast d) :: u32) = a"
    "ucast (drop_bit 8 (ucast a OR push_bit 8 (ucast b) OR push_bit 16 (ucast c) OR push_bit 24 (ucast d) :: u32)) = b"
    "ucast (drop_bit 16 (ucast a OR push_bit 8 (ucast b) OR push_bit 16 (ucast c) OR push_bit 24 (ucast d) :: u32)) = c"
    "ucast (drop_bit 24 (ucast a OR push_bit 8 (ucast b) OR push_bit 16 (ucast c) OR push_bit 24 (ucast d) :: u32)) = d"
    by (rule bit_word_eqI; auto simp: bit_simps dest: bit_imp_le_length)+
  then show ?thesis
    by (simp add: bs put_le32_def)
qed

section \<open>Byte memory\<close>

definition load_bytes :: "mem \<Rightarrow> nat \<Rightarrow> nat \<Rightarrow> bytes" where
  "load_bytes m a n = map m [a..<a + n]"

definition store_bytes :: "mem \<Rightarrow> nat \<Rightarrow> bytes \<Rightarrow> mem" where
  "store_bytes m a bs = (\<lambda>i. if a \<le> i \<and> i < a + length bs then bs ! (i - a) else m i)"

lemma length_load_bytes [simp, len_simps]: "length (load_bytes m a n) = n"
  by (simp add: load_bytes_def)

lemma nth_load_bytes: "i < n \<Longrightarrow> load_bytes m a n ! i = m (a + i)"
  by (simp add: load_bytes_def)

lemma store_bytes_Nil [simp]: "store_bytes m a [] = m"
  by (rule ext) (auto simp: store_bytes_def)

lemma store_bytes_in: "a \<le> i \<Longrightarrow> i < a + length bs \<Longrightarrow> store_bytes m a bs i = bs ! (i - a)"
  by (simp add: store_bytes_def)

lemma store_bytes_out: "i < a \<or> a + length bs \<le> i \<Longrightarrow> store_bytes m a bs i = m i"
  by (auto simp: store_bytes_def)

lemma store_bytes_append:
  "store_bytes (store_bytes m a xs) (a + length xs) ys = store_bytes m a (xs @ ys)"
  by (rule ext) (auto simp: store_bytes_def nth_append)

lemma load_store_same [mem_simps]: "load_bytes (store_bytes m a bs) a (length bs) = bs"
  by (rule nth_equalityI) (simp_all add: nth_load_bytes store_bytes_def)

lemma load_store_other [mem_simps]:
  "b + n \<le> a \<or> a + length bs \<le> b \<Longrightarrow>
   load_bytes (store_bytes m a bs) b n = load_bytes m b n"
  by (rule nth_equalityI) (auto simp: nth_load_bytes store_bytes_def)

lemma load_bytes_add: "load_bytes m a (n + k) = load_bytes m a n @ load_bytes m (a + n) k"
proof -
  have "[a..<a + (n + k)] = [a..<a + n] @ [a + n..<a + n + k]"
    using upt_add_eq_append [of a "a + n" k] by (simp add: add.assoc)
  then show ?thesis
    by (simp add: load_bytes_def)
qed

definition load32 :: "mem \<Rightarrow> nat \<Rightarrow> u32" where
  "load32 m a = get_le32 (load_bytes m a 4)"

definition store32 :: "mem \<Rightarrow> nat \<Rightarrow> u32 \<Rightarrow> mem" where
  "store32 m a v = store_bytes m a (put_le32 v)"

lemma load32_store32_same [simp, mem_simps]: "load32 (store32 m a v) a = v"
proof -
  have "load_bytes (store_bytes m a (put_le32 v)) a 4 = put_le32 v"
    using load_store_same [of m a "put_le32 v"] by simp
  then show ?thesis
    by (simp add: load32_def store32_def)
qed

lemma load32_store32_other [mem_simps]:
  "b + 4 \<le> a \<or> a + 4 \<le> b \<Longrightarrow> load32 (store32 m a v) b = load32 m b"
  by (simp add: load32_def store32_def load_store_other)

lemma load32_store_bytes_other [mem_simps]:
  "b + 4 \<le> a \<or> a + length bs \<le> b \<Longrightarrow> load32 (store_bytes m a bs) b = load32 m b"
  by (simp add: load32_def load_store_other)

lemma store32_out: "i < a \<or> a + 4 \<le> i \<Longrightarrow> store32 m a v i = m i"
  by (simp add: store32_def store_bytes_out)

section \<open>Probing\<close>

text \<open>The error of a list of calls, of which each is made only after the success of the
  ones before it.\<close>

fun first_error :: "errno option list \<Rightarrow> errno option" where
  "first_error [] = None"
| "first_error (Some e # cs) = Some e"
| "first_error (None # cs) = first_error cs"

lemma first_error_None: "first_error cs = None \<longleftrightarrow> (\<forall>c \<in> set cs. c = None)"
  by (induction cs rule: first_error.induct) simp_all

lemma first_error_append: "first_error (xs @ ys) = (case first_error xs of None \<Rightarrow> first_error ys | Some e \<Rightarrow> Some e)"
  by (induction xs rule: first_error.induct) simp_all

section \<open>Numbers in arguments\<close>

text \<open>\<open>atoi\<close> of the C library, on what it reads: blanks, a sign, digits.\<close>

fun digits_value :: "int \<Rightarrow> string \<Rightarrow> int" where
  "digits_value n [] = n"
| "digits_value n (c # cs) = (if 48 \<le> (of_char c :: nat) \<and> (of_char c :: nat) \<le> 57 then digits_value (10 * n + of_char c - 48) cs else n)"

fun atoi :: "string \<Rightarrow> int" where
  "atoi [] = 0"
| "atoi (c # cs) =
     (if c = CHR '' '' \<or> (9 \<le> (of_char c :: nat) \<and> (of_char c :: nat) \<le> 13) then atoi cs
      else if c = CHR ''-'' then - digits_value 0 cs
      else if c = CHR ''+'' then digits_value 0 cs
      else digits_value 0 (c # cs))"

end
