(* ===== verification/Pin_Signals.thy ===== *)
theory Pin_Signals
  imports Main
begin

text \<open>
  The tables of names of the pin tool: the signals of the GPIO matrix
  (\<open>tools/pinctrl/signals.c\<close>) and the IO MUX functions F0 to F4 of each pin
  (\<open>tools/pinctrl/esp32s31.c\<close>).  \<open>None\<close> is an entry without a name.
\<close>

definition sig_in_names :: "string option list" where
  "sig_in_names =
   [Some ''SD_CARD_CDATA4_1_PAD_IN'', Some ''SD_CARD_CDATA5_1_PAD_IN'', Some ''SD_CARD_CDATA6_1_PAD_IN'',
    Some ''SD_CARD_CDATA7_1_PAD_IN'', Some ''SD_CARD_CDATA4_2_PAD_IN'', Some ''SD_CARD_CDATA5_2_PAD_IN'',
    Some ''SD_CARD_CDATA6_2_PAD_IN'', Some ''SD_CARD_CDATA7_2_PAD_IN'', Some ''PAD_MODEM_ANT_SEL0'',
    Some ''PAD_MODEM_ANT_SEL1'', Some ''UART0_RXD_PAD_IN'', Some ''UART0_CTS_PAD_IN'', Some ''UART0_DSR_PAD_IN'',
    Some ''UART1_RXD_PAD_IN'', Some ''UART1_CTS_PAD_IN'', Some ''UART1_DSR_PAD_IN'', Some ''UART2_RXD_PAD_IN'',
    Some ''UART2_CTS_PAD_IN'', Some ''UART2_DSR_PAD_IN'', Some ''GPIO_EXTERN_ACTIVE_PAD_IN'',
    Some ''GPIO_EXTERN_PRIORITY_PAD_IN'', Some ''GPIO_EVENT_MATRIX_IN0/GPIO_TASK_MATRIX_OUT0'',
    Some ''GPIO_EVENT_MATRIX_IN1/GPIO_TASK_MATRIX_OUT1'', Some ''GPIO_EVENT_MATRIX_IN2/GPIO_TASK_MATRIX_OUT2'',
    Some ''GPIO_EVENT_MATRIX_IN3/GPIO_TASK_MATRIX_OUT3'', Some ''I2S0_O_BCK_PAD_IN'', Some ''I2S0_MCLK_PAD_IN'',
    Some ''I2S0_O_WS_PAD_IN'', Some ''I2S0_I_SD_PAD_IN'', Some ''I2S0_I_BCK_PAD_IN'', Some ''I2S0_I_WS_PAD_IN'',
    Some ''I2S1_O_BCK_PAD_IN'', Some ''I2S1_MCLK_PAD_IN'', Some ''I2S1_O_WS_PAD_IN'', Some ''I2S1_I_SD_PAD_IN'',
    Some ''I2S1_I_BCK_PAD_IN'', Some ''I2S1_I_WS_PAD_IN'', Some ''PCNT1_RST_IN0/PAD_MODEM_ANT_SEL2'',
    Some ''PCNT1_RST_IN1/PAD_MODEM_ANT_SEL3'', Some ''PCNT1_RST_IN2/PAD_MODEM_ANT_SEL4'',
    Some ''PCNT1_RST_IN3/PAD_MODEM_ANT_SEL5'', Some ''PAD_MODEM_ANT_SEL6'', Some ''PAD_MODEM_ANT_SEL7'',
    Some ''I2S0_I_SD1_PAD_IN'', Some ''I2S0_I_SD2_PAD_IN'', Some ''I2S0_I_SD3_PAD_IN'', None,
    Some ''SPI3_CK_PAD_IN'', Some ''SPI3_Q_PAD_IN'', Some ''SPI3_D_PAD_IN'', Some ''SPI3_HOLD_PAD_IN'',
    Some ''SPI3_WP_PAD_IN'', Some ''SPI3_CS_PAD_IN'', Some ''SPI2_CK_PAD_IN'', Some ''SPI2_Q_PAD_IN'',
    Some ''SPI2_D_PAD_IN'', Some ''SPI2_HOLD_PAD_IN'', Some ''SPI2_WP_PAD_IN'', Some ''SPI2_IO4_PAD_IN'',
    Some ''SPI2_IO5_PAD_IN'', Some ''SPI2_IO6_PAD_IN'', Some ''SPI2_IO7_PAD_IN'', Some ''SPI2_CS_PAD_IN'',
    Some ''PCNT0_RST_IN0'', Some ''PCNT0_RST_IN1'', Some ''PCNT0_RST_IN2'', Some ''PCNT0_RST_IN3'', None,
    Some ''I2C0_SCL_PAD_IN'', Some ''I2C0_SDA_PAD_IN'', Some ''I2C1_SCL_PAD_IN'', Some ''I2C1_SDA_PAD_IN'',
    Some ''PCNT1_CTRL_CH0_IN0'', Some ''PCNT1_CTRL_CH0_IN1'', Some ''PCNT1_CTRL_CH0_IN2'',
    Some ''PCNT1_CTRL_CH0_IN3'', Some ''PCNT1_CTRL_CH1_IN0'', Some ''PCNT1_CTRL_CH1_IN1'',
    Some ''PCNT1_CTRL_CH1_IN2'', Some ''PCNT1_CTRL_CH1_IN3'', Some ''TWAI0_RX/TWAI0_TX'',
    Some ''TWAI1_RX/PAD_MODEM_ANT_SEL8'', Some ''GMAC_PHY_RXD4_PAD_IN/PAD_MODEM_ANT_SEL9'',
    Some ''GMAC_PHY_RXD5_PAD_IN/TWAI1_TX'', Some ''GMAC_PHY_RXD6_PAD_IN/PAD_MODEM_ANT_SEL10'',
    Some ''GMAC_PHY_RXD7_PAD_IN/PAD_MODEM_ANT_SEL11'', Some ''PWM2_SYNC0_PAD_IN'', Some ''PWM2_SYNC1_PAD_IN'',
    Some ''PWM2_SYNC2_PAD_IN'', Some ''PWM0_SYNC0_PAD_IN'', Some ''PWM0_SYNC1_PAD_IN'', Some ''PWM0_SYNC2_PAD_IN'',
    Some ''PWM0_F0_PAD_IN'', Some ''PWM0_F1_PAD_IN'', Some ''PWM0_F2_PAD_IN'', Some ''PWM0_CAP0_PAD_IN'',
    Some ''PWM0_CAP1_PAD_IN'', Some ''PWM0_CAP2_PAD_IN'', Some ''PWM1_SYNC0_PAD_IN'', Some ''PWM1_SYNC1_PAD_IN'',
    Some ''PWM1_SYNC2_PAD_IN'', Some ''PWM1_F0_PAD_IN/PAD_MODEM_ANT_SEL12'',
    Some ''PWM1_F1_PAD_IN/PAD_MODEM_ANT_SEL13'', Some ''PWM1_F2_PAD_IN/PAD_MODEM_ANT_SEL14'',
    Some ''PWM1_CAP0_PAD_IN/PAD_MODEM_ANT_SEL15'', Some ''PWM1_CAP1_PAD_IN'', Some ''PWM1_CAP2_PAD_IN'',
    Some ''GMII_MDI_PAD_IN'', Some ''GMAC_PHY_COL_PAD_IN'', Some ''GMAC_PHY_CRS_PAD_IN'', Some ''PWM2_F0_PAD_IN'',
    Some ''PWM2_F1_PAD_IN'', Some ''PWM2_F2_PAD_IN'', Some ''PWM2_CAP0_PAD_IN'', Some ''PWM2_CAP1_PAD_IN'',
    Some ''PWM2_CAP2_PAD_IN'', None, None, Some ''USB_HSPHY_REFCLK_IN/HP_PROBE_TOP_OUT0'',
    Some ''PWM3_SYNC0_PAD_IN/HP_PROBE_TOP_OUT1'', Some ''PWM3_SYNC1_PAD_IN/HP_PROBE_TOP_OUT2'',
    Some ''PWM3_SYNC2_PAD_IN/HP_PROBE_TOP_OUT3'', Some ''PWM3_F0_PAD_IN/HP_PROBE_TOP_OUT4'',
    Some ''PWM3_F1_PAD_IN/HP_PROBE_TOP_OUT5'', Some ''PWM3_F2_PAD_IN/HP_PROBE_TOP_OUT6'',
    Some ''PWM3_CAP0_PAD_IN/HP_PROBE_TOP_OUT7'', Some ''SD_CARD_DETECT_N_1_PAD_IN/LEDC0_LS_SIG_OUT_PAD_OUT0'',
    Some ''SD_CARD_DETECT_N_2_PAD_IN/LEDC0_LS_SIG_OUT_PAD_OUT1'',
    Some ''SD_CARD_INT_N_1_PAD_IN/LEDC0_LS_SIG_OUT_PAD_OUT2'',
    Some ''SD_CARD_INT_N_2_PAD_IN/LEDC0_LS_SIG_OUT_PAD_OUT3'',
    Some ''SD_CARD_WRITE_PRT_1_PAD_IN/LEDC0_LS_SIG_OUT_PAD_OUT4'',
    Some ''SD_CARD_WRITE_PRT_2_PAD_IN/LEDC0_LS_SIG_OUT_PAD_OUT5'',
    Some ''SD_DATA_STROBE_1_PAD_IN/LEDC0_LS_SIG_OUT_PAD_OUT6'',
    Some ''SD_DATA_STROBE_2_PAD_IN/LEDC0_LS_SIG_OUT_PAD_OUT7'', Some ''PWM3_CAP1_PAD_IN'',
    Some ''PWM3_CAP2_PAD_IN'', None, Some ''UART3_RXD_PAD_IN'', Some ''UART3_CTS_PAD_IN'',
    Some ''UART3_DSR_PAD_IN'', Some ''USB_JTAG_TDO_BRIDGE_PAD_IN'', Some ''PCNT0_SIG_CH0_IN0'',
    Some ''PCNT0_SIG_CH0_IN1'', Some ''PCNT0_SIG_CH0_IN2'', Some ''PCNT0_SIG_CH0_IN3'', Some ''PCNT0_SIG_CH1_IN0'',
    Some ''PCNT0_SIG_CH1_IN1'', Some ''PCNT0_SIG_CH1_IN2'', Some ''PCNT0_SIG_CH1_IN3'', Some ''PCNT0_CTRL_CH0_IN0'',
    Some ''PCNT0_CTRL_CH0_IN1'', Some ''PCNT0_CTRL_CH0_IN2'', Some ''PCNT0_CTRL_CH0_IN3'',
    Some ''PCNT0_CTRL_CH1_IN0'', Some ''PCNT0_CTRL_CH1_IN1/LCD_DATA_OUT_PAD_OUT0'',
    Some ''PCNT0_CTRL_CH1_IN2/LCD_DATA_OUT_PAD_OUT1'', Some ''PCNT0_CTRL_CH1_IN3/LCD_DATA_OUT_PAD_OUT2'',
    Some ''LCD_DATA_OUT_PAD_OUT3'', Some ''CAM_PCLK_PAD_IN/LCD_DATA_OUT_PAD_OUT4'',
    Some ''CAM_H_ENABLE_PAD_IN/LCD_DATA_OUT_PAD_OUT5'', Some ''CAM_H_SYNC_PAD_IN/LCD_DATA_OUT_PAD_OUT6'',
    Some ''CAM_V_SYNC_PAD_IN/LCD_DATA_OUT_PAD_OUT7'', Some ''CAM_DATA0_IN_PAD_IN/LCD_DATA_OUT_PAD_OUT8'',
    Some ''CAM_DATA1_IN_PAD_IN/LCD_DATA_OUT_PAD_OUT9'', Some ''CAM_DATA2_IN_PAD_IN/LCD_DATA_OUT_PAD_OUT10'',
    Some ''CAM_DATA3_IN_PAD_IN/LCD_DATA_OUT_PAD_OUT11'', Some ''CAM_DATA4_IN_PAD_IN/LCD_DATA_OUT_PAD_OUT12'',
    Some ''CAM_DATA5_IN_PAD_IN/LCD_DATA_OUT_PAD_OUT13'', Some ''CAM_DATA6_IN_PAD_IN/LCD_DATA_OUT_PAD_OUT14'',
    Some ''CAM_DATA7_IN_PAD_IN/LCD_DATA_OUT_PAD_OUT15'', Some ''CAM_DATA8_IN_PAD_IN/LCD_DATA_OUT_PAD_OUT16'',
    Some ''CAM_DATA9_IN_PAD_IN/LCD_DATA_OUT_PAD_OUT17'', Some ''CAM_DATA10_IN_PAD_IN/LCD_DATA_OUT_PAD_OUT18'',
    Some ''CAM_DATA11_IN_PAD_IN/LCD_DATA_OUT_PAD_OUT19'', Some ''CAM_DATA12_IN_PAD_IN/LCD_DATA_OUT_PAD_OUT20'',
    Some ''CAM_DATA13_IN_PAD_IN/LCD_DATA_OUT_PAD_OUT21'', Some ''CAM_DATA14_IN_PAD_IN/LCD_DATA_OUT_PAD_OUT22'',
    Some ''CAM_DATA15_IN_PAD_IN/LCD_DATA_OUT_PAD_OUT23'', Some ''GMAC_PHY_RXDV_PAD_IN'',
    Some ''GMAC_PHY_RXD0_PAD_IN'', Some ''GMAC_PHY_RXD1_PAD_IN'', Some ''GMAC_PHY_RXD2_PAD_IN'',
    Some ''GMAC_PHY_RXD3_PAD_IN'', Some ''GMAC_PHY_RXER_PAD_IN'', Some ''GMAC_RX_CLK_PAD_IN/DBG_CH0_CLK'',
    Some ''GMAC_TX_CLK_PAD_IN/DBG_CH1_CLK'', Some ''PARLIO_RX_CLK_PAD_IN'', Some ''PARLIO_TX_CLK_PAD_IN'',
    Some ''PARLIO_RX_DATA0_PAD_IN'', Some ''PARLIO_RX_DATA1_PAD_IN'', Some ''PARLIO_RX_DATA2_PAD_IN'',
    Some ''PARLIO_RX_DATA3_PAD_IN'', Some ''PARLIO_RX_DATA4_PAD_IN'', Some ''PARLIO_RX_DATA5_PAD_IN'',
    Some ''PARLIO_RX_DATA6_PAD_IN'', Some ''PARLIO_RX_DATA7_PAD_IN'', Some ''PARLIO_RX_DATA8_PAD_IN'',
    Some ''PARLIO_RX_DATA9_PAD_IN'', Some ''PARLIO_RX_DATA10_PAD_IN'', Some ''PARLIO_RX_DATA11_PAD_IN'',
    Some ''PARLIO_RX_DATA12_PAD_IN'', Some ''PARLIO_RX_DATA13_PAD_IN'', Some ''PARLIO_RX_DATA14_PAD_IN'',
    Some ''PARLIO_RX_DATA15_PAD_IN'', Some ''PCNT1_SIG_CH0_IN0/HP_PROBE_TOP_OUT8'',
    Some ''PCNT1_SIG_CH0_IN1/HP_PROBE_TOP_OUT9'', Some ''PCNT1_SIG_CH0_IN2/HP_PROBE_TOP_OUT10'',
    Some ''PCNT1_SIG_CH0_IN3/HP_PROBE_TOP_OUT11'', Some ''PCNT1_SIG_CH1_IN0/HP_PROBE_TOP_OUT12'',
    Some ''PCNT1_SIG_CH1_IN1/HP_PROBE_TOP_OUT13'', Some ''PCNT1_SIG_CH1_IN2/HP_PROBE_TOP_OUT14'',
    Some ''PCNT1_SIG_CH1_IN3/HP_PROBE_TOP_OUT15'', None, None, Some ''CORE_GPIO_IN_PAD_IN0/CORE_GPIO_OUT_PAD_OUT0'',
    Some ''CORE_GPIO_IN_PAD_IN1/CORE_GPIO_OUT_PAD_OUT1'', Some ''CORE_GPIO_IN_PAD_IN2/CORE_GPIO_OUT_PAD_OUT2'',
    Some ''CORE_GPIO_IN_PAD_IN3/CORE_GPIO_OUT_PAD_OUT3'', Some ''CORE_GPIO_IN_PAD_IN4/CORE_GPIO_OUT_PAD_OUT4'',
    Some ''CORE_GPIO_IN_PAD_IN5/CORE_GPIO_OUT_PAD_OUT5'', Some ''CORE_GPIO_IN_PAD_IN6/CORE_GPIO_OUT_PAD_OUT6'',
    Some ''CORE_GPIO_IN_PAD_IN7/CORE_GPIO_OUT_PAD_OUT7'', Some ''CORE_GPIO_IN_PAD_IN8/CORE_GPIO_OUT_PAD_OUT8'',
    Some ''CORE_GPIO_IN_PAD_IN9/CORE_GPIO_OUT_PAD_OUT9'', Some ''CORE_GPIO_IN_PAD_IN10/CORE_GPIO_OUT_PAD_OUT10'',
    Some ''CORE_GPIO_IN_PAD_IN11/CORE_GPIO_OUT_PAD_OUT11'', Some ''CORE_GPIO_IN_PAD_IN12/CORE_GPIO_OUT_PAD_OUT12'',
    Some ''CORE_GPIO_IN_PAD_IN13/CORE_GPIO_OUT_PAD_OUT13'', Some ''CORE_GPIO_IN_PAD_IN14/CORE_GPIO_OUT_PAD_OUT14'',
    Some ''CORE_GPIO_IN_PAD_IN15/CORE_GPIO_OUT_PAD_OUT15'',
    Some ''CORE_GPIO_IN_PAD_IN16/LEDC1_LS_SIG_OUT_PAD_OUT0'',
    Some ''CORE_GPIO_IN_PAD_IN17/LEDC1_LS_SIG_OUT_PAD_OUT1'',
    Some ''CORE_GPIO_IN_PAD_IN18/LEDC1_LS_SIG_OUT_PAD_OUT2'',
    Some ''CORE_GPIO_IN_PAD_IN19/LEDC1_LS_SIG_OUT_PAD_OUT3'',
    Some ''CORE_GPIO_IN_PAD_IN20/LEDC1_LS_SIG_OUT_PAD_OUT4'',
    Some ''CORE_GPIO_IN_PAD_IN21/LEDC1_LS_SIG_OUT_PAD_OUT5'',
    Some ''CORE_GPIO_IN_PAD_IN22/LEDC1_LS_SIG_OUT_PAD_OUT6'',
    Some ''CORE_GPIO_IN_PAD_IN23/LEDC1_LS_SIG_OUT_PAD_OUT7'', Some ''CORE_GPIO_IN_PAD_IN24'',
    Some ''CORE_GPIO_IN_PAD_IN25'', Some ''CORE_GPIO_IN_PAD_IN26'', Some ''CORE_GPIO_IN_PAD_IN27'',
    Some ''CORE_GPIO_IN_PAD_IN28'', Some ''CORE_GPIO_IN_PAD_IN29'', Some ''CORE_GPIO_IN_PAD_IN30'',
    Some ''CORE_GPIO_IN_PAD_IN31/DBG_CH2_CLK'', Some ''RMT_SIG_IN0/RMT_SIG_OUT0'',
    Some ''RMT_SIG_IN1/RMT_SIG_OUT1'', Some ''RMT_SIG_IN2/RMT_SIG_OUT2'', Some ''RMT_SIG_IN3/RMT_SIG_OUT3'', None,
    Some ''SIG_IN_FUNC251'', Some ''SIG_IN_FUNC252'', Some ''SIG_IN_FUNC253'', Some ''SIG_IN_FUNC254'',
    Some ''SIG_IN_FUNC255'']"

definition sig_out_names :: "string option list" where
  "sig_out_names =
   [Some ''SD_CARD_CDATA4_1_PAD_OUT'', Some ''SD_CARD_CDATA5_1_PAD_OUT'', Some ''SD_CARD_CDATA6_1_PAD_OUT'',
    Some ''SD_CARD_CDATA7_1_PAD_OUT'', Some ''SD_CARD_CDATA4_2_PAD_OUT'', Some ''SD_CARD_CDATA5_2_PAD_OUT'',
    Some ''SD_CARD_CDATA6_2_PAD_OUT'', Some ''SD_CARD_CDATA7_2_PAD_OUT'', Some ''PAD_MODEM_ANT_SEL0'',
    Some ''PAD_MODEM_ANT_SEL1'', Some ''UART0_TXD_PAD_OUT'', Some ''UART0_RTS_PAD_OUT'', Some ''UART0_DTR_PAD_OUT'',
    Some ''UART1_TXD_PAD_OUT'', Some ''UART1_RTS_PAD_OUT'', Some ''UART1_DTR_PAD_OUT'', Some ''UART2_TXD_PAD_OUT'',
    Some ''UART2_RTS_PAD_OUT'', Some ''UART2_DTR_PAD_OUT'', Some ''GPIO_EXTERN_ACTIVE_PAD_OUT'',
    Some ''GPIO_EXTERN_PRIORITY_PAD_OUT'', Some ''GPIO_EVENT_MATRIX_IN0/GPIO_TASK_MATRIX_OUT0'',
    Some ''GPIO_EVENT_MATRIX_IN1/GPIO_TASK_MATRIX_OUT1'', Some ''GPIO_EVENT_MATRIX_IN2/GPIO_TASK_MATRIX_OUT2'',
    Some ''GPIO_EVENT_MATRIX_IN3/GPIO_TASK_MATRIX_OUT3'', Some ''I2S0_O_BCK_PAD_OUT'', Some ''I2S0_MCLK_PAD_OUT'',
    Some ''I2S0_O_WS_PAD_OUT'', Some ''I2S0_O_SD_PAD_OUT'', Some ''I2S0_I_BCK_PAD_OUT'', Some ''I2S0_I_WS_PAD_OUT'',
    Some ''I2S1_O_BCK_PAD_OUT'', Some ''I2S1_MCLK_PAD_OUT'', Some ''I2S1_O_WS_PAD_OUT'', Some ''I2S1_O_SD_PAD_OUT'',
    Some ''I2S1_I_BCK_PAD_OUT'', Some ''I2S1_I_WS_PAD_OUT'', Some ''PCNT1_RST_IN0/PAD_MODEM_ANT_SEL2'',
    Some ''PCNT1_RST_IN1/PAD_MODEM_ANT_SEL3'', Some ''PCNT1_RST_IN2/PAD_MODEM_ANT_SEL4'',
    Some ''PCNT1_RST_IN3/PAD_MODEM_ANT_SEL5'', Some ''PAD_MODEM_ANT_SEL6'', Some ''PAD_MODEM_ANT_SEL7'',
    Some ''I2S0_O_SD1_PAD_OUT'', Some ''SPI2_DQS_PAD_OUT'', Some ''SPI3_CS2_PAD_OUT'', Some ''SPI3_CS1_PAD_OUT'',
    Some ''SPI3_CK_PAD_OUT'', Some ''SPI3_QO_PAD_OUT'', Some ''SPI3_D_PAD_OUT'', Some ''SPI3_HOLD_PAD_OUT'',
    Some ''SPI3_WP_PAD_OUT'', Some ''SPI3_CS_PAD_OUT'', Some ''SPI2_CK_PAD_OUT'', Some ''SPI2_Q_PAD_OUT'',
    Some ''SPI2_D_PAD_OUT'', Some ''SPI2_HOLD_PAD_OUT'', Some ''SPI2_WP_PAD_OUT'', Some ''SPI2_IO4_PAD_OUT'',
    Some ''SPI2_IO5_PAD_OUT'', Some ''SPI2_IO6_PAD_OUT'', Some ''SPI2_IO7_PAD_OUT'', Some ''SPI2_CS_PAD_OUT'',
    Some ''PCNT0_RST_IN0/SPI2_CS1_PAD_OUT'', Some ''PCNT0_RST_IN1/SPI2_CS2_PAD_OUT'',
    Some ''PCNT0_RST_IN2/SPI2_CS3_PAD_OUT'', Some ''PCNT0_RST_IN3/SPI2_CS4_PAD_OUT'', Some ''SPI2_CS5_PAD_OUT'',
    Some ''I2C0_SCL_PAD_OUT'', Some ''I2C0_SDA_PAD_OUT'', Some ''I2C1_SCL_PAD_OUT'', Some ''I2C1_SDA_PAD_OUT'',
    Some ''PCNT1_CTRL_CH0_IN0/GPIO_SD0_OUT'', Some ''PCNT1_CTRL_CH0_IN1/GPIO_SD1_OUT'',
    Some ''PCNT1_CTRL_CH0_IN2/GPIO_SD2_OUT'', Some ''PCNT1_CTRL_CH0_IN3/GPIO_SD3_OUT'',
    Some ''PCNT1_CTRL_CH1_IN0/GPIO_SD4_OUT'', Some ''PCNT1_CTRL_CH1_IN1/GPIO_SD5_OUT'',
    Some ''PCNT1_CTRL_CH1_IN2/GPIO_SD6_OUT'', Some ''PCNT1_CTRL_CH1_IN3/GPIO_SD7_OUT'', Some ''TWAI0_RX/TWAI0_TX'',
    Some ''TWAI1_RX/PAD_MODEM_ANT_SEL8'', Some ''PAD_MODEM_ANT_SEL9'', Some ''TWAI1_TX'',
    Some ''PAD_MODEM_ANT_SEL10'', Some ''PAD_MODEM_ANT_SEL11'', Some ''PWM2_CH0_A_PAD_OUT'',
    Some ''PWM2_CH0_B_PAD_OUT'', Some ''PWM2_CH1_A_PAD_OUT'', Some ''PWM0_CH0_A_PAD_OUT'',
    Some ''PWM0_CH0_B_PAD_OUT'', Some ''PWM0_CH1_A_PAD_OUT'', Some ''PWM0_CH1_B_PAD_OUT'',
    Some ''PWM0_CH2_A_PAD_OUT'', Some ''PWM0_CH2_B_PAD_OUT'', Some ''PWM1_CH0_A_PAD_OUT'',
    Some ''PWM1_CH0_B_PAD_OUT'', Some ''PWM1_CH1_A_PAD_OUT'', Some ''PWM1_CH1_B_PAD_OUT'',
    Some ''PWM1_CH2_A_PAD_OUT'', Some ''PWM1_CH2_B_PAD_OUT'', Some ''PAD_MODEM_ANT_SEL12'',
    Some ''PAD_MODEM_ANT_SEL13'', Some ''PAD_MODEM_ANT_SEL14'', Some ''PAD_MODEM_ANT_SEL15'',
    Some ''EMAC_PTP_PPS_PAD_OUT'', Some ''GPIO_EXTERN_GRANT_PAD_OUT'', Some ''PARLIO_TX_CS_PAD_OUT'',
    Some ''GMII_MDC_PAD_OUT'', Some ''GMII_MDO_PAD_OUT'', Some ''PWM2_CH1_B_PAD_OUT'', Some ''PWM2_CH2_A_PAD_OUT'',
    Some ''PWM2_CH2_B_PAD_OUT'', Some ''PWM3_CH0_A_PAD_OUT'', Some ''PWM3_CH0_B_PAD_OUT'',
    Some ''PWM3_CH1_A_PAD_OUT'', Some ''UART3_DTR_PAD_OUT'', Some ''RNG_CHAIN_CLK_PAD_OUT'',
    Some ''HP_PROBE_TOP_OUT0'', Some ''HP_PROBE_TOP_OUT1'', Some ''HP_PROBE_TOP_OUT2'', Some ''HP_PROBE_TOP_OUT3'',
    Some ''HP_PROBE_TOP_OUT4'', Some ''HP_PROBE_TOP_OUT5'', Some ''HP_PROBE_TOP_OUT6'', Some ''HP_PROBE_TOP_OUT7'',
    Some ''LEDC0_LS_SIG_OUT_PAD_OUT0'', Some ''LEDC0_LS_SIG_OUT_PAD_OUT1'', Some ''LEDC0_LS_SIG_OUT_PAD_OUT2'',
    Some ''LEDC0_LS_SIG_OUT_PAD_OUT3'', Some ''LEDC0_LS_SIG_OUT_PAD_OUT4'', Some ''LEDC0_LS_SIG_OUT_PAD_OUT5'',
    Some ''LEDC0_LS_SIG_OUT_PAD_OUT6'', Some ''LEDC0_LS_SIG_OUT_PAD_OUT7'', Some ''PWM3_CH1_B_PAD_OUT'',
    Some ''PWM3_CH2_A_PAD_OUT'', Some ''PWM3_CH2_B_PAD_OUT'', Some ''UART3_TXD_PAD_OUT'',
    Some ''UART3_RTS_PAD_OUT'', Some ''USB_JTAG_SRST_BRIDGE_PAD_OUT'', Some ''USB_JTAG_TDI_BRIDGE_PAD_OUT'',
    Some ''PCNT0_SIG_CH0_IN0/USB_JTAG_TMS_BRIDGE_PAD_OUT'', Some ''PCNT0_SIG_CH0_IN1/USB_JTAG_TCK_BRIDGE_PAD_OUT'',
    Some ''PCNT0_SIG_CH0_IN2/USB_JTAG_TRST_BRIDGE_PAD_OUT'', Some ''PCNT0_SIG_CH0_IN3/LCD_CS_PAD_OUT'',
    Some ''PCNT0_SIG_CH1_IN0/LCD_DC_PAD_OUT'', Some ''PCNT0_SIG_CH1_IN1/SD_RST_N_1_PAD_OUT'',
    Some ''PCNT0_SIG_CH1_IN2/SD_RST_N_2_PAD_OUT'', Some ''PCNT0_SIG_CH1_IN3/SD_CCMD_OD_PULLUP_EN_N_PAD_OUT'',
    Some ''PCNT0_CTRL_CH0_IN0/LCD_PCLK_PAD_OUT'', Some ''PCNT0_CTRL_CH0_IN1/CAM_CLK_PAD_OUT'',
    Some ''PCNT0_CTRL_CH0_IN2/LCD_H_ENABLE_PAD_OUT'', Some ''PCNT0_CTRL_CH0_IN3/LCD_H_SYNC_PAD_OUT'',
    Some ''PCNT0_CTRL_CH1_IN0/LCD_V_SYNC_PAD_OUT'', Some ''PCNT0_CTRL_CH1_IN1/LCD_DATA_OUT_PAD_OUT0'',
    Some ''PCNT0_CTRL_CH1_IN2/LCD_DATA_OUT_PAD_OUT1'', Some ''PCNT0_CTRL_CH1_IN3/LCD_DATA_OUT_PAD_OUT2'',
    Some ''LCD_DATA_OUT_PAD_OUT3'', Some ''LCD_DATA_OUT_PAD_OUT4'', Some ''LCD_DATA_OUT_PAD_OUT5'',
    Some ''LCD_DATA_OUT_PAD_OUT6'', Some ''LCD_DATA_OUT_PAD_OUT7'', Some ''LCD_DATA_OUT_PAD_OUT8'',
    Some ''LCD_DATA_OUT_PAD_OUT9'', Some ''LCD_DATA_OUT_PAD_OUT10'', Some ''LCD_DATA_OUT_PAD_OUT11'',
    Some ''LCD_DATA_OUT_PAD_OUT12'', Some ''LCD_DATA_OUT_PAD_OUT13'', Some ''LCD_DATA_OUT_PAD_OUT14'',
    Some ''LCD_DATA_OUT_PAD_OUT15'', Some ''LCD_DATA_OUT_PAD_OUT16'', Some ''LCD_DATA_OUT_PAD_OUT17'',
    Some ''LCD_DATA_OUT_PAD_OUT18'', Some ''LCD_DATA_OUT_PAD_OUT19'', Some ''LCD_DATA_OUT_PAD_OUT20'',
    Some ''LCD_DATA_OUT_PAD_OUT21'', Some ''LCD_DATA_OUT_PAD_OUT22'', Some ''LCD_DATA_OUT_PAD_OUT23'',
    Some ''GMAC_PHY_TXEN_PAD_OUT'', Some ''GMAC_PHY_TXD0_PAD_OUT'', Some ''GMAC_PHY_TXD1_PAD_OUT'',
    Some ''GMAC_PHY_TXD2_PAD_OUT'', Some ''GMAC_PHY_TXD3_PAD_OUT'', Some ''GMAC_PHY_TXER_PAD_OUT'',
    Some ''DBG_CH0_CLK'', Some ''DBG_CH1_CLK'', Some ''PARLIO_RX_CLK_PAD_OUT'', Some ''PARLIO_TX_CLK_PAD_OUT'',
    Some ''PARLIO_TX_DATA0_PAD_OUT'', Some ''PARLIO_TX_DATA1_PAD_OUT'', Some ''PARLIO_TX_DATA2_PAD_OUT'',
    Some ''PARLIO_TX_DATA3_PAD_OUT'', Some ''PARLIO_TX_DATA4_PAD_OUT'', Some ''PARLIO_TX_DATA5_PAD_OUT'',
    Some ''PARLIO_TX_DATA6_PAD_OUT'', Some ''PARLIO_TX_DATA7_PAD_OUT'', Some ''PARLIO_TX_DATA8_PAD_OUT'',
    Some ''PARLIO_TX_DATA9_PAD_OUT'', Some ''PARLIO_TX_DATA10_PAD_OUT'', Some ''PARLIO_TX_DATA11_PAD_OUT'',
    Some ''PARLIO_TX_DATA12_PAD_OUT'', Some ''PARLIO_TX_DATA13_PAD_OUT'', Some ''PARLIO_TX_DATA14_PAD_OUT'',
    Some ''PARLIO_TX_DATA15_PAD_OUT'', Some ''PCNT1_SIG_CH0_IN0/HP_PROBE_TOP_OUT8'',
    Some ''PCNT1_SIG_CH0_IN1/HP_PROBE_TOP_OUT9'', Some ''PCNT1_SIG_CH0_IN2/HP_PROBE_TOP_OUT10'',
    Some ''PCNT1_SIG_CH0_IN3/HP_PROBE_TOP_OUT11'', Some ''PCNT1_SIG_CH1_IN0/HP_PROBE_TOP_OUT12'',
    Some ''PCNT1_SIG_CH1_IN1/HP_PROBE_TOP_OUT13'', Some ''PCNT1_SIG_CH1_IN2/HP_PROBE_TOP_OUT14'',
    Some ''PCNT1_SIG_CH1_IN3/HP_PROBE_TOP_OUT15'', Some ''CONSTANT0_PAD_OUT'', Some ''CONSTANT1_PAD_OUT'',
    Some ''CORE_GPIO_IN_PAD_IN0/CORE_GPIO_OUT_PAD_OUT0'', Some ''CORE_GPIO_IN_PAD_IN1/CORE_GPIO_OUT_PAD_OUT1'',
    Some ''CORE_GPIO_IN_PAD_IN2/CORE_GPIO_OUT_PAD_OUT2'', Some ''CORE_GPIO_IN_PAD_IN3/CORE_GPIO_OUT_PAD_OUT3'',
    Some ''CORE_GPIO_IN_PAD_IN4/CORE_GPIO_OUT_PAD_OUT4'', Some ''CORE_GPIO_IN_PAD_IN5/CORE_GPIO_OUT_PAD_OUT5'',
    Some ''CORE_GPIO_IN_PAD_IN6/CORE_GPIO_OUT_PAD_OUT6'', Some ''CORE_GPIO_IN_PAD_IN7/CORE_GPIO_OUT_PAD_OUT7'',
    Some ''CORE_GPIO_IN_PAD_IN8/CORE_GPIO_OUT_PAD_OUT8'', Some ''CORE_GPIO_IN_PAD_IN9/CORE_GPIO_OUT_PAD_OUT9'',
    Some ''CORE_GPIO_IN_PAD_IN10/CORE_GPIO_OUT_PAD_OUT10'', Some ''CORE_GPIO_IN_PAD_IN11/CORE_GPIO_OUT_PAD_OUT11'',
    Some ''CORE_GPIO_IN_PAD_IN12/CORE_GPIO_OUT_PAD_OUT12'', Some ''CORE_GPIO_IN_PAD_IN13/CORE_GPIO_OUT_PAD_OUT13'',
    Some ''CORE_GPIO_IN_PAD_IN14/CORE_GPIO_OUT_PAD_OUT14'', Some ''CORE_GPIO_IN_PAD_IN15/CORE_GPIO_OUT_PAD_OUT15'',
    Some ''CORE_GPIO_IN_PAD_IN16/LEDC1_LS_SIG_OUT_PAD_OUT0'',
    Some ''CORE_GPIO_IN_PAD_IN17/LEDC1_LS_SIG_OUT_PAD_OUT1'',
    Some ''CORE_GPIO_IN_PAD_IN18/LEDC1_LS_SIG_OUT_PAD_OUT2'',
    Some ''CORE_GPIO_IN_PAD_IN19/LEDC1_LS_SIG_OUT_PAD_OUT3'',
    Some ''CORE_GPIO_IN_PAD_IN20/LEDC1_LS_SIG_OUT_PAD_OUT4'',
    Some ''CORE_GPIO_IN_PAD_IN21/LEDC1_LS_SIG_OUT_PAD_OUT5'',
    Some ''CORE_GPIO_IN_PAD_IN22/LEDC1_LS_SIG_OUT_PAD_OUT6'',
    Some ''CORE_GPIO_IN_PAD_IN23/LEDC1_LS_SIG_OUT_PAD_OUT7'', Some ''CORE_GPIO_IN_PAD_IN24/GMAC_PHY_TXD4_PAD_OUT'',
    Some ''CORE_GPIO_IN_PAD_IN25/GMAC_PHY_TXD5_PAD_OUT'', Some ''CORE_GPIO_IN_PAD_IN26/GMAC_PHY_TXD6_PAD_OUT'',
    Some ''CORE_GPIO_IN_PAD_IN27/GMAC_PHY_TXD7_PAD_OUT'', Some ''CORE_GPIO_IN_PAD_IN28'',
    Some ''CORE_GPIO_IN_PAD_IN29'', Some ''CORE_GPIO_IN_PAD_IN30/ANA_COMP0_OUT'',
    Some ''CORE_GPIO_IN_PAD_IN31/DBG_CH2_CLK'', Some ''RMT_SIG_IN0/RMT_SIG_OUT0'',
    Some ''RMT_SIG_IN1/RMT_SIG_OUT1'', Some ''RMT_SIG_IN2/RMT_SIG_OUT2'', Some ''RMT_SIG_IN3/RMT_SIG_OUT3'', None,
    Some ''SIG_IN_FUNC251'', Some ''SIG_IN_FUNC252'', Some ''SIG_IN_FUNC253'', Some ''SIG_IN_FUNC254'',
    Some ''SIG_IN_FUNC255'']"

definition iomux_funcs :: "string option list list" where
  "iomux_funcs =
   [[Some ''GPIO0'', Some ''GPIO0'', None, None, None],
    [Some ''GPIO1'', Some ''GPIO1'', None, None, None],
    [Some ''GPIO2'', Some ''GPIO2'', None, Some ''LCD_DATA19_OUT_PAD'', None],
    [Some ''GPIO3'', Some ''GPIO3'', None, Some ''LCD_DATA20_OUT_PAD'', None],
    [Some ''GPIO4'', Some ''GPIO4'', None, Some ''LCD_DATA21_OUT_PAD'', None],
    [Some ''GPIO5'', Some ''GPIO5'', None, Some ''LCD_DATA22_OUT_PAD'', None],
    [Some ''GPIO6'', Some ''GPIO6'', None, None, None],
    [Some ''GPIO7'', Some ''GPIO7'', None, Some ''LCD_DATA23_OUT_PAD'', None],
    [Some ''GPIO8'', Some ''GPIO8'', Some ''GMAC_PHY_TXD0_PAD'', Some ''LCD_DATA0_OUT_PAD'', None],
    [Some ''SPI2_HOLD_PAD'', Some ''GPIO9'', Some ''GMAC_PHY_TXD1_PAD'', Some ''LCD_DATA1_OUT_PAD'', None],
    [Some ''SPI2_CS_PAD'', Some ''GPIO10'', Some ''GMAC_PHY_TXD2_PAD'', Some ''LCD_DATA2_OUT_PAD'', None],
    [Some ''SPI2_D_PAD'', Some ''GPIO11'', Some ''GMAC_PHY_TXD3_PAD'', Some ''LCD_DATA3_OUT_PAD'', None],
    [Some ''SPI2_CK_PAD'', Some ''GPIO12'', Some ''GMAC_PHY_TXEN_PAD'', Some ''LCD_DATA4_OUT_PAD'', None],
    [Some ''SPI2_Q_PAD'', Some ''GPIO13'', Some ''GMAC_RMII_CLK_PAD'', Some ''LCD_DATA5_OUT_PAD'', None],
    [Some ''SPI2_WP_PAD'', Some ''GPIO14'', Some ''GMAC_RX_CLK_PAD'', Some ''LCD_DATA6_OUT_PAD'', None],
    [Some ''SPI2_IO4_PAD'', Some ''GPIO15'', Some ''GMAC_PHY_RXDV_PAD'', Some ''LCD_DATA7_OUT_PAD'', None],
    [Some ''SPI2_IO5_PAD'', Some ''GPIO16'', Some ''GMAC_PHY_RXD3_PAD'', Some ''LCD_DATA8_OUT_PAD'', None],
    [Some ''SPI2_IO6_PAD'', Some ''GPIO17'', Some ''GMAC_PHY_RXD2_PAD'', Some ''LCD_DATA9_OUT_PAD'', None],
    [Some ''SPI2_IO7_PAD'', Some ''GPIO18'', Some ''GMAC_PHY_RXD1_PAD'', Some ''LCD_DATA10_OUT_PAD'', None],
    [Some ''SPI2_DQS_PAD'', Some ''GPIO19'', Some ''GMAC_PHY_RXD0_PAD'', Some ''LCD_DATA11_OUT_PAD'', None],
    [Some ''SDIO_DATA0'', Some ''GPIO20'', Some ''SPI2_CK_PAD'', None, None],
    [Some ''SDIO_DATA1'', Some ''GPIO21'', Some ''SPI2_D_PAD'', None, None],
    [Some ''SDIO_DATA2'', Some ''GPIO22'', Some ''SPI2_Q_PAD'', None, None],
    [Some ''SDIO_DATA3'', Some ''GPIO23'', Some ''SPI2_CS_PAD'', None, None],
    [Some ''SDIO_CLK'', Some ''GPIO24'', Some ''SPI2_HOLD_PAD'', None, None],
    [Some ''SDIO_CMD'', Some ''GPIO25'', Some ''SPI2_WP_PAD'', None, None],
    [Some ''SPICS'', Some ''GPIO26'', None, None, None],
    [Some ''SPIQ'', Some ''GPIO27'', None, None, None],
    [Some ''SPIWP'', Some ''GPIO28'', None, None, None],
    [None, None, None, None, None],
    [Some ''SPIHD'', Some ''GPIO30'', None, None, None],
    [Some ''SPICLK'', Some ''GPIO31'', None, None, None],
    [Some ''SPID'', Some ''GPIO32'', None, None, None],
    [Some ''GPIO33'', Some ''GPIO33'', None, Some ''LCD_DATA12_OUT_PAD'', None],
    [Some ''GPIO34'', Some ''GPIO34'', None, Some ''LCD_DATA13_OUT_PAD'', None],
    [Some ''GPIO35'', Some ''GPIO35'', Some ''REF_GMAC_CLK_PAD'', Some ''LCD_DATA14_OUT_PAD'', Some ''SD2_CDATA0_PAD''],
    [Some ''GPIO36'', Some ''GPIO36'', None, Some ''LCD_DATA15_OUT_PAD'', Some ''SD2_CDATA1_PAD''],
    [Some ''GPIO37'', Some ''GPIO37'', None, Some ''LCD_DATA16_OUT_PAD'', Some ''SD2_CDATA2_PAD''],
    [Some ''GPIO38'', Some ''GPIO38'', None, Some ''LCD_DATA17_OUT_PAD'', Some ''SD2_CDATA3_PAD''],
    [Some ''GPIO39'', Some ''GPIO39'', None, Some ''LCD_DATA18_OUT_PAD'', Some ''SD2_CCLK_PAD''],
    [Some ''GPIO40'', Some ''GPIO40'', None, Some ''LCD_PCLK_PAD'', Some ''SD2_CCMD_PAD''],
    [None, None, None, None, None],
    [Some ''GPIO42'', Some ''GPIO42'', None, None, None],
    [Some ''GPIO43'', Some ''GPIO43'', None, Some ''LCD_H_ENABLE_PAD'', None],
    [Some ''GPIO44'', Some ''GPIO44'', None, Some ''LCD_H_SYNC_PAD'', None],
    [Some ''GPIO45'', Some ''GPIO45'', None, Some ''LCD_V_SYNC_PAD'', None],
    [Some ''GPIO46'', Some ''GPIO46'', None, Some ''CAM_DATA0_IN_PAD'', None],
    [Some ''GPIO47'', Some ''GPIO47'', None, Some ''CAM_DATA1_IN_PAD'', None],
    [Some ''GPIO48'', Some ''GPIO48'', None, Some ''CAM_DATA2_IN_PAD'', None],
    [Some ''GPIO49'', Some ''GPIO49'', None, Some ''CAM_DATA3_IN_PAD'', None],
    [Some ''GPIO50'', Some ''GPIO50'', None, Some ''CAM_DATA4_IN_PAD'', None],
    [Some ''GPIO51'', Some ''GPIO51'', None, Some ''CAM_DATA5_IN_PAD'', None],
    [Some ''GPIO52'', Some ''GPIO52'', Some ''SPI2_CS_PAD'', Some ''CAM_DATA6_IN_PAD'', None],
    [Some ''GPIO53'', Some ''GPIO53'', Some ''SPI2_CK_PAD'', Some ''CAM_DATA7_IN_PAD'', None],
    [Some ''MTDO'', Some ''GPIO54'', Some ''SPI2_D_PAD'', Some ''CAM_PCLK_PAD'', None],
    [Some ''MTCK'', Some ''GPIO55'', Some ''SPI2_Q_PAD'', Some ''CAM_XCLK_PAD'', None],
    [Some ''MTDI'', Some ''GPIO56'', Some ''SPI2_HOLD_PAD'', Some ''CAM_V_SYNC_PAD'', None],
    [Some ''MTMS'', Some ''GPIO57'', Some ''SPI2_WP_PAD'', Some ''CAM_H_SYNC_PAD'', None],
    [Some ''UART0_TXD_PAD'', Some ''GPIO58'', None, None, None],
    [Some ''UART0_RXD_PAD'', Some ''GPIO59'', None, None, None],
    [Some ''GPIO60'', Some ''GPIO60'', None, None, None],
    [Some ''GPIO61'', Some ''GPIO61'', None, None, None]]"

end
