(* ===== verification/Pin_Chip.thy ===== *)
theory Pin_Chip
  imports Prelude Pin_Signals
begin

text \<open>
  \<open>tools/pinctrl/esp32s31.c\<close> with the two backends of the pin tool
  (\<open>board.c\<close>: a snapshot, \<open>live.c\<close>: the hardware).  The registers are the record
  \<open>regs\<close>: the IO MUX page and the GPIO page by word index, and the CNNT word.  A
  backend is the record of the functions through which the tool writes: a
  snapshot stores words, the hardware (a parameter, \<open>gpio_dev\<close>) has set and clear
  registers.  The locale \<open>gpio_backend\<close> is what the tool relies on; it is
  interpreted on the snapshot and, through \<open>gpio_dev\<close>, on the hardware.

  The lemmas show what a change of a pin does to this pin and that it leaves
  every other pin and all interrupt fields alone.
\<close>

lemma length_minus_less: "xs \<noteq> [] \<Longrightarrow> length xs - Suc k < length xs"
  by (cases xs) auto

section \<open>Registers\<close>

record regs =
  iomux :: "nat \<Rightarrow> u32"
  gpio :: "nat \<Rightarrow> u32"
  cnnt :: u32

abbreviation (input) NPINS :: nat where "NPINS \<equiv> 62"
abbreviation (input) NSIGS :: nat where "NSIGS \<equiv> 256"
abbreviation (input) NFUNCS :: nat where "NFUNCS \<equiv> 5"
abbreviation (input) IOMUX_WPD :: u32 where "IOMUX_WPD \<equiv> 0x80"
abbreviation (input) IOMUX_WPU :: u32 where "IOMUX_WPU \<equiv> 0x100"
abbreviation (input) IOMUX_IE :: u32 where "IOMUX_IE \<equiv> 0x200"
abbreviation (input) IOMUX_DRV_MASK :: u32 where "IOMUX_DRV_MASK \<equiv> 0xc00"
abbreviation (input) IOMUX_MCU_MASK :: u32 where "IOMUX_MCU_MASK \<equiv> 0x7000"
abbreviation (input) GPIO_OUT :: nat where "GPIO_OUT \<equiv> 0x04"
abbreviation (input) GPIO_OUT1 :: nat where "GPIO_OUT1 \<equiv> 0x10"
abbreviation (input) GPIO_ENABLE :: nat where "GPIO_ENABLE \<equiv> 0x34"
abbreviation (input) GPIO_ENABLE1 :: nat where "GPIO_ENABLE1 \<equiv> 0x40"
abbreviation (input) GPIO_IN :: nat where "GPIO_IN \<equiv> 0x64"
abbreviation (input) GPIO_IN1 :: nat where "GPIO_IN1 \<equiv> 0x68"
abbreviation (input) GPIO_STATUS :: nat where "GPIO_STATUS \<equiv> 0x74"
abbreviation (input) GPIO_STATUS1 :: nat where "GPIO_STATUS1 \<equiv> 0x80"

definition GPIO_PIN :: "nat \<Rightarrow> nat" where "GPIO_PIN n = 0xf4 + 4 * n"
definition GPIO_IN_SEL :: "nat \<Rightarrow> nat" where "GPIO_IN_SEL s = 0x2f4 + 4 * s"
definition GPIO_OUT_SEL :: "nat \<Rightarrow> nat" where "GPIO_OUT_SEL n = 0xaf4 + 4 * n"

abbreviation (input) PIN_PAD_DRIVER :: u32 where "PIN_PAD_DRIVER \<equiv> 0x4"
abbreviation (input) PIN_INT_TYPE_MASK :: u32 where "PIN_INT_TYPE_MASK \<equiv> 0x380"
abbreviation (input) PIN_INT_ENA_MASK :: u32 where "PIN_INT_ENA_MASK \<equiv> 0x1e000"
abbreviation (input) IN_SEL_PIN :: u32 where "IN_SEL_PIN \<equiv> 0xff"
abbreviation (input) IN_SEL_MATRIX :: u32 where "IN_SEL_MATRIX \<equiv> 0x200"
abbreviation (input) OUT_SEL_SIG :: u32 where "OUT_SEL_SIG \<equiv> 0x1ff"
abbreviation (input) SIG_GPIO_OUT :: u32 where "SIG_GPIO_OUT \<equiv> 256"

text \<open>The modes: \<open>a0\<close> to \<open>a4\<close> are 0 to 4.\<close>

abbreviation (input) MODE_A4 :: nat where "MODE_A4 \<equiv> 4"
abbreviation (input) MODE_IP :: nat where "MODE_IP \<equiv> 5"
abbreviation (input) MODE_OP :: nat where "MODE_OP \<equiv> 6"
abbreviation (input) MODE_NO :: nat where "MODE_NO \<equiv> 7"
abbreviation (input) MODE_MX :: nat where "MODE_MX \<equiv> 8"

section \<open>Backends\<close>

record backend =
  be_store :: "nat \<Rightarrow> u32 \<Rightarrow> regs \<Rightarrow> regs"
  be_w1 :: "nat \<Rightarrow> u32 \<Rightarrow> bool \<Rightarrow> regs \<Rightarrow> regs"
  be_cnnt_read :: "regs \<Rightarrow> u32"
  be_cnnt_write :: "u32 \<Rightarrow> regs \<Rightarrow> regs"

definition snap_w1 :: "nat \<Rightarrow> u32 \<Rightarrow> bool \<Rightarrow> regs \<Rightarrow> regs" where
  "snap_w1 base m on r =
     (let w = gpio r (base div 4) in r\<lparr>gpio := (gpio r)(base div 4 := (if on then w OR m else w AND NOT m))\<rparr>)"

definition snap_cnnt_read :: "regs \<Rightarrow> u32" where
  "snap_cnnt_read r = cnnt r"

definition snap_cnnt_write :: "u32 \<Rightarrow> regs \<Rightarrow> regs" where
  "snap_cnnt_write v r = r\<lparr>cnnt := v\<rparr>"

definition snap_backend :: backend where
  "snap_backend = \<lparr>be_store = (\<lambda>off v r. r\<lparr>gpio := (gpio r)(off div 4 := v)\<rparr>), be_w1 = snap_w1,
     be_cnnt_read = snap_cnnt_read, be_cnnt_write = snap_cnnt_write\<rparr>"

text \<open>The hardware: what a write of a word at an offset does to the GPIO page.  The
  live CNNT word is reached through the kernel driver's file.\<close>

type_synonym gpio_hw = "nat \<Rightarrow> u32 \<Rightarrow> (nat \<Rightarrow> u32) \<Rightarrow> (nat \<Rightarrow> u32)"

definition live_w1 :: "gpio_hw \<Rightarrow> nat \<Rightarrow> u32 \<Rightarrow> bool \<Rightarrow> regs \<Rightarrow> regs" where
  "live_w1 dev base m on r = r\<lparr>gpio := dev (base + (if on then 4 else 8)) m (gpio r)\<rparr>"

definition live_backend :: "gpio_hw \<Rightarrow> backend" where
  "live_backend dev = \<lparr>be_store = (\<lambda>off v r. r\<lparr>gpio := dev off v (gpio r)\<rparr>), be_w1 = live_w1 dev,
     be_cnnt_read = cnnt, be_cnnt_write = (\<lambda>v r. r\<lparr>cnnt := v\<rparr>)\<rparr>"

section \<open>Pins\<close>

definition iomux_func_name :: "nat \<Rightarrow> nat \<Rightarrow> string option" where
  "iomux_func_name pin func = (if pin \<ge> NPINS \<or> func \<ge> NFUNCS then None else iomux_funcs ! pin ! func)"

definition pin_exists :: "nat \<Rightarrow> bool" where
  "pin_exists pin \<longleftrightarrow> pin < NPINS \<and> iomux_funcs ! pin ! 1 \<noteq> None"

definition pin_is_flash :: "nat \<Rightarrow> bool" where
  "pin_is_flash pin \<longleftrightarrow> pin \<ge> 26 \<and> pin \<le> 32"

definition pin_is_strapping :: "nat \<Rightarrow> bool" where
  "pin_is_strapping pin \<longleftrightarrow> pin = 36 \<or> pin = 37 \<or> pin = 60 \<or> pin = 61"

fun strip_suffix :: "string list \<Rightarrow> string \<Rightarrow> string" where
  "strip_suffix [] s = s"
| "strip_suffix (x # xs) s =
     (if length s > length x \<and> drop (length s - length x) s = x then take (length s - length x) s
      else strip_suffix xs s)"

text \<open>\<open>short_name\<close>: the rest of the raw name, the position and the buffer.\<close>

function short_loop :: "nat \<Rightarrow> string \<Rightarrow> nat \<Rightarrow> string \<Rightarrow> string" where
  "short_loop len raw n buf =
     (if raw = [] \<or> \<not> n + 1 < len then buf
      else let part = takeWhile (\<lambda>c. c \<noteq> CHR ''/'') raw;
               out = (if n \<noteq> 0 then ''/'' else []) @ strip_suffix [''_PAD_IN'', ''_PAD_OUT'', ''_PAD''] part
           in short_loop len (drop (length part + 1) raw) (n + length out) (buf @ take (len - n - 1) out))"
  by pat_completeness auto
termination
  by (relation "measure (\<lambda>(len, raw, n, buf). length raw)") (auto intro: length_minus_less)

declare short_loop.simps [simp del]

definition short_name :: "string \<Rightarrow> nat \<Rightarrow> string" where
  "short_name raw len = short_loop len raw 0 []"

definition gpio_rd :: "regs \<Rightarrow> nat \<Rightarrow> u32" where
  "gpio_rd r off = gpio r (off div 4)"

definition gpio_wr :: "backend \<Rightarrow> nat \<Rightarrow> u32 \<Rightarrow> regs \<Rightarrow> regs" where
  "gpio_wr be off v r = be_store be off v r"

definition bank :: "nat \<Rightarrow> nat \<Rightarrow> nat \<Rightarrow> nat" where
  "bank pin reg0 reg1 = (if pin < 32 then reg0 else reg1)"

definition gpio_bit :: "regs \<Rightarrow> nat \<Rightarrow> nat \<Rightarrow> nat \<Rightarrow> bool" where
  "gpio_bit r pin reg0 reg1 = (drop_bit (pin mod 32) (gpio_rd r (bank pin reg0 reg1)) AND 1 \<noteq> 0)"

definition gpio_w1 :: "backend \<Rightarrow> nat \<Rightarrow> nat \<Rightarrow> nat \<Rightarrow> bool \<Rightarrow> regs \<Rightarrow> regs" where
  "gpio_w1 be pin reg0 reg1 on r = be_w1 be (bank pin reg0 reg1) (push_bit (pin mod 32) 1) on r"

definition int_type_name :: "nat \<Rightarrow> string" where
  "int_type_name t = [''none'', ''rising'', ''falling'', ''both'', ''low'', ''high'', ''type6'', ''type7''] ! (t mod 8)"

definition pin_level :: "regs \<Rightarrow> nat \<Rightarrow> bool option" where
  "pin_level r pin = (if iomux r pin AND IOMUX_IE = 0 then None else Some (gpio_bit r pin GPIO_IN GPIO_IN1))"

section \<open>Reading a pin\<close>

text \<open>The parts of a string between separators, as the loops over \<open>strcspn\<close> see them.\<close>

function parts :: "char \<Rightarrow> string \<Rightarrow> string list" where
  "parts sep s =
     (if s = [] then []
      else let p = takeWhile (\<lambda>c. c \<noteq> sep) s in p # parts sep (drop (length p + 1) s))"
  by pat_completeness auto
termination
  by (relation "measure (\<lambda>(sep, s). length s)") (auto intro: length_minus_less)

declare parts.simps [simp del]

definition append_name :: "string \<Rightarrow> nat \<Rightarrow> string option \<Rightarrow> string" where
  "append_name buf len raw =
     (let name = short_name (case raw of Some s \<Rightarrow> s | None \<Rightarrow> ''-'') 96 in
      if name \<in> set (parts (CHR '','') buf) then buf
      else buf @ take (len - length buf - 1) ((if buf \<noteq> [] then '','' else []) @ name))"

definition cnnt_pads :: "(nat \<times> nat \<times> nat \<times> u32 \<times> string) list" where
  "cnnt_pads = [(13, 19, 2, 0x2, ''GMAC''), (20, 25, 4, 0x1, ''SDHOST'')]"

definition cnnt_hit :: "nat \<Rightarrow> nat \<Rightarrow> nat \<times> nat \<times> nat \<times> u32 \<times> string \<Rightarrow> bool" where
  "cnnt_hit pin func c = (case c of (first, lst, f, _) \<Rightarrow> pin \<ge> first \<and> pin \<le> lst \<and> func = f)"

definition cnnt_block :: "backend \<Rightarrow> regs \<Rightarrow> nat \<Rightarrow> nat \<Rightarrow> string option" where
  "cnnt_block be r pin func =
     map_option (\<lambda>(_, _, _, _, b). b)
       (find (\<lambda>c. cnnt_hit pin func c \<and> (case c of (_, _, _, sel, _) \<Rightarrow> be_cnnt_read be r AND sel \<noteq> 0)) cnnt_pads)"

definition in_sel_hit :: "regs \<Rightarrow> nat \<Rightarrow> nat \<Rightarrow> bool" where
  "in_sel_hit r pin sig =
     (let v = gpio_rd r (GPIO_IN_SEL sig) in v AND IN_SEL_MATRIX \<noteq> 0 \<and> v AND IN_SEL_PIN = of_nat pin)"

text \<open>\<open>matrix_signals\<close>: whether there is a signal, and their names.\<close>

definition matrix_signals :: "regs \<Rightarrow> nat \<Rightarrow> nat \<Rightarrow> bool \<times> string" where
  "matrix_signals r pin len =
     (let out = gpio_rd r (GPIO_OUT_SEL pin) AND OUT_SEL_SIG;
          start = (if out \<noteq> SIG_GPIO_OUT
                   then (True, append_name [] len (if unat out < NSIGS then sig_out_names ! unat out else None))
                   else (False, []))
      in foldl (\<lambda>(found, buf) sig. if in_sel_hit r pin sig then (True, append_name buf len (sig_in_names ! sig))
                                    else (found, buf)) start [0..<NSIGS])"

record pin_state =
  st_mode :: nat
  st_pull :: nat
  st_out :: bool
  st_level :: "bool option"
  st_drive_ma :: nat
  st_open_drain :: bool
  st_int_type :: nat
  st_int_lines :: nat
  st_int_pending :: bool
  st_func :: string

definition drive_ma :: "nat list" where
  "drive_ma = [5, 10, 20, 40]"

definition mux_func :: "u32 \<Rightarrow> nat" where
  "mux_func m = unat (drop_bit 12 (m AND IOMUX_MCU_MASK))"

text \<open>The last part of \<open>pin_get\<close>: the mode and the name of the function.\<close>

definition pin_mode_func :: "backend \<Rightarrow> regs \<Rightarrow> nat \<Rightarrow> nat \<times> string" where
  "pin_mode_func be r pin =
     (let func = mux_func (iomux r pin) in
      if func \<noteq> 1 then
        (if func < NFUNCS then func else MODE_NO,
         append_name [] 128 (case iomux_func_name pin func of Some s \<Rightarrow> Some s | None \<Rightarrow> cnnt_block be r pin func))
      else case matrix_signals r pin 128 of
        (True, names) \<Rightarrow> (MODE_MX, names)
      | (False, _) \<Rightarrow>
          if gpio_bit r pin GPIO_ENABLE GPIO_ENABLE1 then (MODE_OP, ''output'')
          else if iomux r pin AND IOMUX_IE \<noteq> 0 then (MODE_IP, ''input'')
          else (MODE_NO, ''none''))"

definition pin_get :: "backend \<Rightarrow> regs \<Rightarrow> nat \<Rightarrow> pin_state" where
  "pin_get be r pin =
     (let m = iomux r pin; p = gpio_rd r (GPIO_PIN pin); (mode, func) = pin_mode_func be r pin in
      \<lparr>st_mode = mode,
       st_pull = (if m AND IOMUX_WPU \<noteq> 0 then 2 else 0) + (if m AND IOMUX_WPD \<noteq> 0 then 1 else 0),
       st_out = gpio_bit r pin GPIO_OUT GPIO_OUT1,
       st_level = pin_level r pin,
       st_drive_ma = drive_ma ! unat (drop_bit 10 (m AND IOMUX_DRV_MASK)),
       st_open_drain = (p AND PIN_PAD_DRIVER \<noteq> 0),
       st_int_type = unat (drop_bit 7 (p AND PIN_INT_TYPE_MASK)),
       st_int_lines = unat (drop_bit 13 (p AND PIN_INT_ENA_MASK)),
       st_int_pending = gpio_bit r pin GPIO_STATUS GPIO_STATUS1,
       st_func = func\<rparr>)"

section \<open>Changing a pin\<close>

definition iomux_rmw :: "nat \<Rightarrow> u32 \<Rightarrow> u32 \<Rightarrow> regs \<Rightarrow> regs" where
  "iomux_rmw pin clr bits r = r\<lparr>iomux := (iomux r)(pin := (iomux r pin AND NOT clr) OR bits)\<rparr>"

definition cnnt_select :: "backend \<Rightarrow> nat \<Rightarrow> nat \<Rightarrow> regs \<Rightarrow> regs" where
  "cnnt_select be pin func r =
     foldl (\<lambda>r c. if cnnt_hit pin func c
                  then be_cnnt_write be (be_cnnt_read be r OR (case c of (_, _, _, sel, _) \<Rightarrow> sel)) r else r) r cnnt_pads"

definition pin_set_mode :: "backend \<Rightarrow> nat \<Rightarrow> nat \<Rightarrow> regs \<Rightarrow> regs" where
  "pin_set_mode be pin mode r =
     (if mode \<le> MODE_A4
      then iomux_rmw pin IOMUX_MCU_MASK (push_bit 12 (of_nat mode) OR IOMUX_IE) (cnnt_select be pin mode r)
      else let r = gpio_wr be (GPIO_OUT_SEL pin) SIG_GPIO_OUT r;
               r = gpio_w1 be pin GPIO_ENABLE GPIO_ENABLE1 (mode = MODE_OP) r
           in iomux_rmw pin (IOMUX_MCU_MASK OR IOMUX_IE)
                (push_bit 12 1 OR (if mode = MODE_NO then 0 else IOMUX_IE)) r)"

definition pin_set_pull :: "nat \<Rightarrow> nat \<Rightarrow> regs \<Rightarrow> regs" where
  "pin_set_pull pin pull r =
     iomux_rmw pin (IOMUX_WPU OR IOMUX_WPD)
       ((if bit pull 1 then IOMUX_WPU else 0) OR (if bit pull 0 then IOMUX_WPD else 0)) r"

definition pin_set_out :: "backend \<Rightarrow> nat \<Rightarrow> bool \<Rightarrow> regs \<Rightarrow> regs" where
  "pin_set_out be pin high r = gpio_w1 be pin GPIO_OUT GPIO_OUT1 high r"

section \<open>Words of the GPIO page\<close>

lemma word_index [simp]:
  "GPIO_PIN n div 4 = 61 + n" "GPIO_IN_SEL n div 4 = 189 + n" "GPIO_OUT_SEL n div 4 = 701 + n"
  by (simp_all add: GPIO_PIN_def GPIO_IN_SEL_def GPIO_OUT_SEL_def)

lemma and_one_bit: "drop_bit k (w :: u32) AND 1 \<noteq> 0 \<longleftrightarrow> bit w k"
  by (simp add: and_one_eq bit_iff_odd_drop_bit odd_iff_mod_2_eq_one)

lemma gpio_bit_iff: "gpio_bit r p reg0 reg1 \<longleftrightarrow> bit (gpio r (bank p reg0 reg1 div 4)) (p mod 32)"
  by (simp only: gpio_bit_def gpio_rd_def and_one_bit)

lemma bit_set_one: "j < 32 \<Longrightarrow> bit ((w :: u32) OR 2 ^ k) j \<longleftrightarrow> bit w j \<or> j = k"
  by (auto simp: bit_simps)

lemma bit_clear_one: "j < 32 \<Longrightarrow> bit ((w :: u32) AND NOT (2 ^ k)) j \<longleftrightarrow> bit w j \<and> j \<noteq> k"
  by (auto simp: bit_simps)

lemma matrix_found:
  "fst (matrix_signals r pin len) \<longleftrightarrow>
     gpio r (701 + pin) AND OUT_SEL_SIG \<noteq> SIG_GPIO_OUT \<or> (\<exists>sig < NSIGS. in_sel_hit r pin sig)"
proof -
  have f: "fst (foldl (\<lambda>(found, buf) sig. if in_sel_hit r pin sig then (True, append_name buf len (sig_in_names ! sig))
        else (found, buf)) s xs) \<longleftrightarrow> fst s \<or> (\<exists>sig \<in> set xs. in_sel_hit r pin sig)" for s xs
    by (induction xs arbitrary: s) (auto split: prod.split)
  show ?thesis
    unfolding matrix_signals_def Let_def f by (auto simp: gpio_rd_def)
qed

definition reads_pin :: "regs \<Rightarrow> nat \<Rightarrow> bool" where
  "reads_pin r pin \<longleftrightarrow> (\<exists>sig < NSIGS. in_sel_hit r pin sig)"

text \<open>What \<open>pin_get\<close> of a pin depends on.\<close>

definition pin_view :: "regs \<Rightarrow> nat \<Rightarrow> u32 \<times> u32 \<times> u32 \<times> bool \<times> bool" where
  "pin_view r p = (iomux r p, gpio r (61 + p), gpio r (701 + p),
     gpio_bit r p GPIO_ENABLE GPIO_ENABLE1, gpio_bit r p GPIO_OUT GPIO_OUT1)"

definition inputs_same :: "regs \<Rightarrow> regs \<Rightarrow> bool" where
  "inputs_same r r' \<longleftrightarrow> (\<forall>sig < NSIGS. gpio r' (189 + sig) = gpio r (189 + sig)) \<and>
     (\<forall>i \<in> {25, 26, 29, 32}. gpio r' i = gpio r i)"

lemma inputs_sameD:
  assumes "inputs_same r r'"
  shows "sig < NSIGS \<Longrightarrow> in_sel_hit r' p sig = in_sel_hit r p sig"
    and "gpio_bit r' p GPIO_IN GPIO_IN1 = gpio_bit r p GPIO_IN GPIO_IN1"
    and "gpio_bit r' p GPIO_STATUS GPIO_STATUS1 = gpio_bit r p GPIO_STATUS GPIO_STATUS1"
  using assms by (simp_all add: inputs_same_def in_sel_hit_def gpio_rd_def gpio_bit_def bank_def)

lemma matrix_cong:
  assumes "inputs_same r r'" and "gpio r' (701 + p) = gpio r (701 + p)"
  shows "matrix_signals r' p len = matrix_signals r p len"
  unfolding matrix_signals_def Let_def gpio_rd_def word_index assms(2)
  by (rule foldl_cong) (auto simp: inputs_sameD(1) [OF assms(1)])

lemma pin_get_view:
  assumes "inputs_same r r'" and "pin_view r' p = pin_view r p"
  shows "(pin_get be r' p)\<lparr>st_func := x\<rparr> = (pin_get be r p)\<lparr>st_func := x\<rparr>"
    and "be_cnnt_read be r' = be_cnnt_read be r \<Longrightarrow> pin_get be r' p = pin_get be r p"
proof -
  note v = assms(2) [unfolded pin_view_def prod.inject]
  note m = matrix_cong [OF assms(1), of p 128]
  show "(pin_get be r' p)\<lparr>st_func := x\<rparr> = (pin_get be r p)\<lparr>st_func := x\<rparr>"
    using v m by (simp add: pin_get_def pin_mode_func_def pin_level_def gpio_rd_def Let_def
        inputs_sameD(2,3) [OF assms(1)] split: prod.split bool.split)
  show "pin_get be r' p = pin_get be r p" if c: "be_cnnt_read be r' = be_cnnt_read be r"
  proof -
    have "cnnt_block be r' p f = cnnt_block be r p f" for f
      unfolding cnnt_block_def c ..
    then show ?thesis
      using v m by (simp add: pin_get_def pin_mode_func_def pin_level_def gpio_rd_def Let_def
          inputs_sameD(2,3) [OF assms(1)] cong: option.case_cong)
  qed
qed

section \<open>What the tool relies on\<close>

definition w1_word :: "u32 \<Rightarrow> u32 \<Rightarrow> bool \<Rightarrow> u32" where
  "w1_word w m on = (if on then w OR m else w AND NOT m)"

locale gpio_backend =
  fixes be :: backend
  assumes store: "n < NPINS \<Longrightarrow> be_store be (GPIO_OUT_SEL n) v r = r\<lparr>gpio := (gpio r)(701 + n := v)\<rparr>"
    and w1: "base \<in> {GPIO_OUT, GPIO_OUT1, GPIO_ENABLE, GPIO_ENABLE1} \<Longrightarrow>
      be_w1 be base m on r = r\<lparr>gpio := (gpio r)(base div 4 := w1_word (gpio r (base div 4)) m on)\<rparr>"
    and cnnt: "be_cnnt_read be r = cnnt r" "be_cnnt_write be c r = r\<lparr>cnnt := c\<rparr>"
begin

lemma same_bit: "p < NPINS \<Longrightarrow> q < NPINS \<Longrightarrow> (p < 32 \<longleftrightarrow> q < 32) \<Longrightarrow> p mod 32 = q mod 32 \<Longrightarrow> p = q"
  by (cases "p < 32") (simp_all add: le_mod_geq)

lemma own_bit:
  assumes "p < NPINS" "q < NPINS" "a div 4 \<noteq> b div 4"
    and "gpio r' = (gpio r)(bank q a b div 4 := w1_word (gpio r (bank q a b div 4)) (push_bit (q mod 32) 1) on)"
  shows "gpio_bit r' p a b = (if p = q then on else gpio_bit r p a b)"
proof -
  have w: "bit (w1_word w (2 ^ (q mod 32)) on) (p mod 32) = (if p mod 32 = q mod 32 then on else bit w (p mod 32))"
    for w
    by (simp add: w1_word_def bit_set_one bit_clear_one)
  show ?thesis
  proof (cases "p < 32 \<longleftrightarrow> q < 32")
    case True
    then have "bank p a b = bank q a b" "p mod 32 = q mod 32 \<longleftrightarrow> p = q"
      using same_bit [OF assms(1,2) True] by (auto simp: bank_def)
    then show ?thesis
      by (simp add: gpio_bit_iff assms(4) w)
  next
    case False
    then have "bank p a b div 4 \<noteq> bank q a b div 4" "p \<noteq> q"
      using assms(3) by (auto simp: bank_def)
    then show ?thesis
      by (simp add: gpio_bit_iff assms(4))
  qed
qed

lemma other_word: "bank p c d div 4 \<noteq> i \<Longrightarrow> gpio r' = (gpio r)(i := v) \<Longrightarrow> gpio_bit r' p c d = gpio_bit r p c d"
  by (simp add: gpio_bit_iff)

lemma bank_words:
  "bank p GPIO_ENABLE GPIO_ENABLE1 div 4 \<noteq> bank q GPIO_OUT GPIO_OUT1 div 4"
  "bank p GPIO_OUT GPIO_OUT1 div 4 \<noteq> bank q GPIO_ENABLE GPIO_ENABLE1 div 4"
  "bank q GPIO_OUT GPIO_OUT1 div 4 \<in> {1, 4}" "bank q GPIO_ENABLE GPIO_ENABLE1 div 4 \<in> {13, 16}"
  by (simp_all add: bank_def)

lemma out_view:
  assumes "p < NPINS" "q < NPINS"
  shows "pin_view (pin_set_out be q high r) p =
      (if p = q then (iomux r p, gpio r (61 + p), gpio r (701 + p), gpio_bit r p GPIO_ENABLE GPIO_ENABLE1, high)
       else pin_view r p)"
    and "inputs_same r (pin_set_out be q high r)" and "cnnt (pin_set_out be q high r) = cnnt r"
    and "iomux (pin_set_out be q high r) = iomux r"
proof -
  have o: "pin_set_out be q high r = r\<lparr>gpio := (gpio r)(bank q GPIO_OUT GPIO_OUT1 div 4 :=
      w1_word (gpio r (bank q GPIO_OUT GPIO_OUT1 div 4)) (push_bit (q mod 32) 1) high)\<rparr>"
    unfolding pin_set_out_def gpio_w1_def by (rule w1) (simp add: bank_def)
  show "pin_view (pin_set_out be q high r) p =
      (if p = q then (iomux r p, gpio r (61 + p), gpio r (701 + p), gpio_bit r p GPIO_ENABLE GPIO_ENABLE1, high)
       else pin_view r p)"
    using own_bit [OF assms, of GPIO_OUT GPIO_OUT1 "pin_set_out be q high r" r high] o
      other_word [OF bank_words(1), of "pin_set_out be q high r" r]
      bank_words(3) [of q] by (auto simp: pin_view_def)
  show "inputs_same r (pin_set_out be q high r)" "cnnt (pin_set_out be q high r) = cnnt r"
    "iomux (pin_set_out be q high r) = iomux r"
    by (simp_all add: o inputs_same_def bank_def)
qed

lemma pull_view:
  "pin_view (pin_set_pull q pull r) p =
      (if p = q then (iomux (pin_set_pull q pull r) p, snd (pin_view r p)) else pin_view r p)"
  "inputs_same r (pin_set_pull q pull r)" "cnnt (pin_set_pull q pull r) = cnnt r"
  by (simp_all add: pin_set_pull_def iomux_rmw_def pin_view_def inputs_same_def gpio_bit_iff)

lemma cnnt_select_frame: "iomux (cnnt_select be q f r) = iomux r" "gpio (cnnt_select be q f r) = gpio r"
  by (simp_all add: cnnt_select_def cnnt_pads_def cnnt)

lemma mode_view:
  assumes "p < NPINS" "q < NPINS"
  shows "mode \<le> MODE_A4 \<Longrightarrow> pin_view (pin_set_mode be q mode r) p =
      (if p = q then ((iomux r p AND NOT IOMUX_MCU_MASK) OR (push_bit 12 (of_nat mode) OR IOMUX_IE), snd (pin_view r p))
       else pin_view r p)"
    and "mode > MODE_A4 \<Longrightarrow> pin_view (pin_set_mode be q mode r) p =
      (if p = q then ((iomux r p AND NOT (IOMUX_MCU_MASK OR IOMUX_IE)) OR
           (push_bit 12 1 OR (if mode = MODE_NO then 0 else IOMUX_IE)),
         gpio r (61 + p), SIG_GPIO_OUT, mode = MODE_OP, gpio_bit r p GPIO_OUT GPIO_OUT1)
       else pin_view r p)"
    and "inputs_same r (pin_set_mode be q mode r)"
    and "mode > MODE_A4 \<Longrightarrow> cnnt (pin_set_mode be q mode r) = cnnt r"
proof -
  have m: "pin_set_mode be q mode r = r\<lparr>gpio := (gpio r)(701 + q := SIG_GPIO_OUT, bank q GPIO_ENABLE GPIO_ENABLE1 div 4 :=
        w1_word (gpio r (bank q GPIO_ENABLE GPIO_ENABLE1 div 4)) (push_bit (q mod 32) 1) (mode = MODE_OP)),
      iomux := (iomux r)(q := (iomux r q AND NOT (IOMUX_MCU_MASK OR IOMUX_IE)) OR
           (push_bit 12 1 OR (if mode = MODE_NO then 0 else IOMUX_IE)))\<rparr>" if "mode > MODE_A4"
  proof -
    have b: "bank q GPIO_ENABLE GPIO_ENABLE1 \<in> {GPIO_OUT, GPIO_OUT1, GPIO_ENABLE, GPIO_ENABLE1}"
      "bank q GPIO_ENABLE GPIO_ENABLE1 div 4 \<noteq> 701 + q"
      by (simp_all add: bank_def)
    show ?thesis
      using that b(2) unfolding pin_set_mode_def Let_def gpio_wr_def gpio_w1_def store [OF assms(2)] w1 [OF b(1)]
      by (simp add: iomux_rmw_def)
  qed
  show "mode \<le> MODE_A4 \<Longrightarrow> pin_view (pin_set_mode be q mode r) p =
      (if p = q then ((iomux r p AND NOT IOMUX_MCU_MASK) OR (push_bit 12 (of_nat mode) OR IOMUX_IE), snd (pin_view r p))
       else pin_view r p)"
    by (simp add: pin_set_mode_def iomux_rmw_def pin_view_def cnnt_select_frame gpio_bit_iff)
  show "mode > MODE_A4 \<Longrightarrow> pin_view (pin_set_mode be q mode r) p =
      (if p = q then ((iomux r p AND NOT (IOMUX_MCU_MASK OR IOMUX_IE)) OR
           (push_bit 12 1 OR (if mode = MODE_NO then 0 else IOMUX_IE)),
         gpio r (61 + p), SIG_GPIO_OUT, mode = MODE_OP, gpio_bit r p GPIO_OUT GPIO_OUT1)
       else pin_view r p)"
  proof -
    assume mode: "mode > MODE_A4"
    define r1 where "r1 = r\<lparr>gpio := (gpio r)(701 + q := SIG_GPIO_OUT)\<rparr>"
    have g: "gpio (pin_set_mode be q mode r) = (gpio r1)(bank q GPIO_ENABLE GPIO_ENABLE1 div 4 :=
        w1_word (gpio r1 (bank q GPIO_ENABLE GPIO_ENABLE1 div 4)) (push_bit (q mod 32) 1) (mode = MODE_OP))"
      using bank_words(4) [of q] by (auto simp: m [OF mode] r1_def)
    have r1: "gpio_bit r1 p a b = gpio_bit r p a b" if "a div 4 < 700" "b div 4 < 700" for a b
      using that by (simp add: r1_def gpio_bit_iff bank_def)
    show ?thesis
      using own_bit [OF assms _ g] other_word [OF bank_words(2) g, of p] bank_words(4) [of q] assms
      by (auto simp: pin_view_def r1 m [OF mode])
  qed
  show "inputs_same r (pin_set_mode be q mode r)"
  proof (cases "mode > MODE_A4")
    case True
    then show ?thesis
      using assms by (simp add: m inputs_same_def bank_def)
  next
    case False
    then show ?thesis
      by (simp add: pin_set_mode_def iomux_rmw_def inputs_same_def cnnt_select_frame)
  qed
  show "mode > MODE_A4 \<Longrightarrow> cnnt (pin_set_mode be q mode r) = cnnt r"
    by (simp add: m)
qed

end

interpretation snap: gpio_backend snap_backend
  by unfold_locales
    (simp_all add: snap_backend_def snap_w1_def snap_cnnt_read_def snap_cnnt_write_def w1_word_def Let_def)

text \<open>The GPIO block of the chip: plain registers, and a register at +4 that sets
  and one at +8 that clears the bits of the word that is written.\<close>

locale gpio_block =
  fixes dev :: gpio_hw
  assumes plain: "off div 4 \<ge> 61 \<Longrightarrow> off div 4 < 763 \<Longrightarrow> dev off v p = p(off div 4 := v)"
    and set_clear: "base \<in> {GPIO_OUT, GPIO_OUT1, GPIO_ENABLE, GPIO_ENABLE1, GPIO_STATUS, GPIO_STATUS1} \<Longrightarrow>
      dev (base + (if on then 4 else 8)) m p = p(base div 4 := w1_word (p (base div 4)) m on)"

sublocale gpio_block \<subseteq> live: gpio_backend "live_backend dev"
proof
  show "be_store (live_backend dev) (GPIO_OUT_SEL n) v r = r\<lparr>gpio := (gpio r)(701 + n := v)\<rparr>" if "n < NPINS" for n v r
    using that plain [of "GPIO_OUT_SEL n" v "gpio r"] by (simp add: live_backend_def)
  show "be_w1 (live_backend dev) base m on r =
      r\<lparr>gpio := (gpio r)(base div 4 := w1_word (gpio r (base div 4)) m on)\<rparr>"
    if "base \<in> {GPIO_OUT, GPIO_OUT1, GPIO_ENABLE, GPIO_ENABLE1}" for base m on r
  proof -
    have "dev (base + (if on then 4 else 8)) m (gpio r) = (gpio r)(base div 4 := w1_word (gpio r (base div 4)) m on)"
      by (rule set_clear) (use that in auto)
    then show ?thesis
      by (simp only: live_backend_def live_w1_def backend.simps)
  qed
qed (simp_all add: live_backend_def)

definition w1_device :: gpio_hw where
  "w1_device off v p =
     (let base = off div 4 in
      if base \<in> {2, 5, 14, 17, 30, 33} then p(base - 1 := p (base - 1) OR v)
      else if base \<in> {3, 6, 15, 18, 31, 34} then p(base - 2 := p (base - 2) AND NOT v)
      else p(base := v))"

interpretation dev: gpio_block w1_device
proof
  show "dev_base \<in> {GPIO_OUT, GPIO_OUT1, GPIO_ENABLE, GPIO_ENABLE1, GPIO_STATUS, GPIO_STATUS1} \<Longrightarrow>
      w1_device (dev_base + (if on then 4 else 8)) m p = p(dev_base div 4 := w1_word (p (dev_base div 4)) m on)" for dev_base on m p
    by (cases on; elim insertE emptyE; simp add: w1_device_def w1_word_def)
qed (simp add: w1_device_def Let_def)

section \<open>What a change does\<close>

lemma less5: "n \<le> 4 \<Longrightarrow> n = 0 \<or> n = 1 \<or> n = 2 \<or> n = 3 \<or> n = (4 :: nat)"
  by linarith

lemma mux_func_set: "mode \<le> MODE_A4 \<Longrightarrow> mux_func ((x AND NOT IOMUX_MCU_MASK) OR (push_bit 12 (of_nat mode) OR IOMUX_IE)) = mode"
  unfolding mux_func_def field_set by (drule less5) (elim disjE; simp)

lemma mux_func_gpio:
  "b = 0 \<or> b = IOMUX_IE \<Longrightarrow> mux_func ((x AND NOT (IOMUX_MCU_MASK OR IOMUX_IE)) OR (push_bit 12 1 OR b)) = 1"
  unfolding mux_func_def by (subst field_sub) auto

text \<open>The mode that a pin shows after it was set to \<open>mode\<close>: \<open>a1\<close> selects the matrix
  and leaves it as it is, so the pin shows what the matrix does.\<close>

definition shown_mode :: "regs \<Rightarrow> nat \<Rightarrow> nat \<Rightarrow> nat" where
  "shown_mode r pin mode =
     (if mode = 1
      then (if gpio r (701 + pin) AND OUT_SEL_SIG \<noteq> SIG_GPIO_OUT \<or> reads_pin r pin then MODE_MX
            else if gpio_bit r pin GPIO_ENABLE GPIO_ENABLE1 then MODE_OP else MODE_IP)
      else if mode \<le> MODE_A4 then mode
      else if reads_pin r pin then MODE_MX else mode)"

text \<open>The select bits that a mode sets, and the block whose name another pin
  gains: both are pins of the block, the other one has the function of the block and none of its own
  name, and the block was not selected before.\<close>

definition select_bits :: "nat \<Rightarrow> nat \<Rightarrow> u32" where
  "select_bits pin mode =
     (if mode = 2 \<and> 13 \<le> pin \<and> pin \<le> 19 then 2 else if mode = 4 \<and> 20 \<le> pin \<and> pin \<le> 25 then 1 else 0)"

definition gained_block :: "regs \<Rightarrow> nat \<Rightarrow> nat \<Rightarrow> nat \<Rightarrow> string option" where
  "gained_block r pin mode p =
     (if mux_func (iomux r p) \<noteq> mode \<or> iomux_func_name p mode \<noteq> None \<or> cnnt r AND select_bits pin mode \<noteq> 0 then None
      else if mode = 2 \<and> 13 \<le> pin \<and> pin \<le> 19 \<and> 13 \<le> p \<and> p \<le> 19 then Some ''GMAC''
      else if mode = 4 \<and> 20 \<le> pin \<and> pin \<le> 25 \<and> 20 \<le> p \<and> p \<le> 25 then Some ''SDHOST''
      else None)"

lemma mode_bits:
  assumes "b = IOMUX_IE \<or> b = 0" and "f \<le> MODE_A4" and "m \<in> {IOMUX_WPU, IOMUX_WPD, IOMUX_DRV_MASK}"
    and "k = IOMUX_MCU_MASK \<or> k = (IOMUX_MCU_MASK OR IOMUX_IE)"
  shows "((x AND NOT k) OR (push_bit 12 (of_nat f) OR b)) AND m = x AND m"
proof -
  have "m AND k = 0" "(push_bit 12 (of_nat f) OR b) AND m = 0"
    using assms(1,3,4) less5 [OF assms(2)] by auto
  then show ?thesis
    by (simp add: field_other)
qed

lemma ie_bit: "(y OR (f OR IOMUX_IE)) AND IOMUX_IE = (IOMUX_IE :: u32)"
proof -
  have "(y OR (f OR m)) AND m = m" for m :: u32
    by (rule bit_word_eqI) (auto simp: bit_simps)
  then show ?thesis
    by blast
qed

context gpio_backend
begin

lemma mode_iomux:
  assumes "pin < NPINS" and "mode \<le> 7"
  shows "m \<in> {IOMUX_WPU, IOMUX_WPD, IOMUX_DRV_MASK} \<Longrightarrow>
      iomux (pin_set_mode be pin mode r) pin AND m = iomux r pin AND m"
    and "iomux (pin_set_mode be pin mode r) pin AND IOMUX_IE = (if mode = MODE_NO then 0 else IOMUX_IE)"
    and "mux_func (iomux (pin_set_mode be pin mode r) pin) = (if mode \<le> MODE_A4 then mode else 1)"
proof -
  let ?i = "iomux (pin_set_mode be pin mode r) pin"
  have lo: "?i = (iomux r pin AND NOT IOMUX_MCU_MASK) OR (push_bit 12 (of_nat mode) OR IOMUX_IE)" if "mode \<le> MODE_A4"
    using mode_view(1) [OF assms(1) assms(1) that, of r] by (simp add: pin_view_def)
  have hi: "?i = (iomux r pin AND NOT (IOMUX_MCU_MASK OR IOMUX_IE)) OR
      (push_bit 12 (of_nat 1) OR (if mode = MODE_NO then 0 else IOMUX_IE))" if "mode > MODE_A4"
    using mode_view(2) [OF assms(1) assms(1) that, of r] by (simp add: pin_view_def)
  show "?i AND m = iomux r pin AND m" if m: "m \<in> {IOMUX_WPU, IOMUX_WPD, IOMUX_DRV_MASK}"
  proof (cases "mode \<le> MODE_A4")
    case True
    show ?thesis
      unfolding lo [OF True] by (rule mode_bits [OF _ True m]) simp_all
  next
    case False
    then have h: "mode > MODE_A4"
      by simp
    show ?thesis
      unfolding hi [OF h] by (rule mode_bits [OF _ _ m]) simp_all
  qed
  show "?i AND IOMUX_IE = (if mode = MODE_NO then 0 else IOMUX_IE)"
  proof (cases "mode \<le> MODE_A4")
    case True
    then show ?thesis
      unfolding lo [OF True] ie_bit by simp
  next
    case False
    then have h: "mode > MODE_A4"
      by simp
    show ?thesis
      unfolding hi [OF h] by (subst field_sub) simp_all
  qed
  show "mux_func ?i = (if mode \<le> MODE_A4 then mode else 1)"
  proof (cases "mode \<le> MODE_A4")
    case True
    then show ?thesis
      unfolding lo [OF True] mux_func_set [OF True] by simp
  next
    case False
    then have h: "mode > MODE_A4"
      by simp
    have "mux_func ?i = 1"
      unfolding hi [OF h] of_nat_1 by (rule mux_func_gpio) simp
    then show ?thesis
      using False by simp
  qed
qed

lemma mode_readback:
  assumes "pin < NPINS" and "mode \<le> 7"
  shows "st_mode (pin_get be (pin_set_mode be pin mode r) pin) = shown_mode r pin mode"
proof -
  let ?r = "pin_set_mode be pin mode r"
  note i = mode_iomux(2,3) [OF assms, of r]
  have e: "gpio_bit ?r pin GPIO_ENABLE GPIO_ENABLE1 \<longleftrightarrow>
      (if mode \<le> MODE_A4 then gpio_bit r pin GPIO_ENABLE GPIO_ENABLE1 else mode = MODE_OP)"
    and o: "gpio ?r (701 + pin) = (if mode \<le> MODE_A4 then gpio r (701 + pin) else SIG_GPIO_OUT)"
    using mode_view(1,2) [OF assms(1) assms(1), of mode r] by (simp_all add: pin_view_def)
  have "reads_pin ?r pin = reads_pin r pin"
    using inputs_sameD(1) [OF mode_view(3) [OF assms(1) assms(1)]] by (auto simp: reads_pin_def)
  then have m: "fst (matrix_signals ?r pin 128) \<longleftrightarrow>
      mode \<le> MODE_A4 \<and> gpio r (701 + pin) AND OUT_SEL_SIG \<noteq> SIG_GPIO_OUT \<or> reads_pin r pin"
    using matrix_found [of ?r pin 128] o by (simp add: reads_pin_def)
  obtain found names where mm: "matrix_signals ?r pin 128 = (found, names)"
    by (metis surj_pair)
  have f: "found \<longleftrightarrow> mode \<le> MODE_A4 \<and> gpio r (701 + pin) AND OUT_SEL_SIG \<noteq> SIG_GPIO_OUT \<or> reads_pin r pin"
    using m mm by simp
  have g: "st_mode (pin_get be ?r pin) = (if mux_func (iomux ?r pin) \<noteq> 1 then (if mux_func (iomux ?r pin) < NFUNCS then mux_func (iomux ?r pin) else MODE_NO)
      else if found then MODE_MX else if gpio_bit ?r pin GPIO_ENABLE GPIO_ENABLE1 then MODE_OP
      else if iomux ?r pin AND IOMUX_IE \<noteq> 0 then MODE_IP else MODE_NO)"
    by (simp add: pin_get_def Let_def pin_mode_func_def mm split: bool.split)
  show ?thesis
  proof (cases "mode \<le> MODE_A4")
    case True
    then show ?thesis
      unfolding g i e f shown_mode_def by auto
  next
    case False
    then have "mode = MODE_IP \<or> mode = MODE_OP \<or> mode = MODE_NO"
      using assms(2) by linarith
    then show ?thesis
      unfolding g i e f shown_mode_def by auto
  qed
qed

lemma mode_own_fields:
  assumes "pin < NPINS" and "mode \<le> 7"
  shows "pin_get be (pin_set_mode be pin mode r) pin =
    (pin_get be r pin)\<lparr>st_mode := shown_mode r pin mode, st_func := st_func (pin_get be (pin_set_mode be pin mode r) pin),
      st_level := if mode = MODE_NO then None else Some (gpio_bit r pin GPIO_IN GPIO_IN1)\<rparr>"
proof -
  let ?r = "pin_set_mode be pin mode r"
  note i = mode_iomux(1,2) [OF assms, where r = r]
  have v: "gpio ?r (61 + pin) = gpio r (61 + pin)" "gpio_bit ?r pin GPIO_OUT GPIO_OUT1 = gpio_bit r pin GPIO_OUT GPIO_OUT1"
    using mode_view(1,2) [OF assms(1) assms(1), of mode r] by (cases "mode \<le> MODE_A4"; simp add: pin_view_def)+
  note n = inputs_sameD(2,3) [OF mode_view(3) [OF assms(1) assms(1), of r mode], of pin]
  have w: "iomux ?r pin AND IOMUX_WPU = iomux r pin AND IOMUX_WPU" "iomux ?r pin AND IOMUX_WPD = iomux r pin AND IOMUX_WPD"
    "iomux ?r pin AND IOMUX_DRV_MASK = iomux r pin AND IOMUX_DRV_MASK"
    by (rule i(1); simp)+
  have l: "pin_level ?r pin = (if mode = MODE_NO then None else Some (gpio_bit r pin GPIO_IN GPIO_IN1))"
    unfolding pin_level_def i(2) n by simp
  obtain m1 f1 where g: "pin_mode_func be r pin = (m1, f1)"
    by fastforce
  obtain m2 f2 where g2: "pin_mode_func be ?r pin = (m2, f2)"
    by fastforce
  have "m2 = shown_mode r pin mode"
    using mode_readback [OF assms, of r] by (simp add: pin_get_def Let_def g2)
  then show ?thesis
    unfolding pin_get_def Let_def g g2 prod.case l w v n gpio_rd_def word_index by simp
qed

lemma mode_cnnt: "cnnt (pin_set_mode be pin mode r) = cnnt r OR select_bits pin mode" if "pin < NPINS"
proof (cases "mode \<le> MODE_A4")
  case True
  then show ?thesis
    by (simp add: pin_set_mode_def iomux_rmw_def cnnt_select_def cnnt_pads_def cnnt_hit_def cnnt select_bits_def)
next
  case False
  then show ?thesis
    using mode_view(4) [OF that that, of mode r] by (simp add: select_bits_def)
qed

lemma or_select: "(c OR s) AND (m :: u32) \<noteq> 0 \<longleftrightarrow> c AND m \<noteq> 0 \<or> s AND m \<noteq> 0"
proof -
  have "(c OR s) AND m = (c AND m) OR (s AND m)"
    by (rule bit_word_eqI) (auto simp: bit_simps)
  then show ?thesis
    by (simp add: or_eq_0_iff)
qed

text \<open>Which block's name a pin shows before and after.\<close>

lemma mode_block:
  assumes "pin < NPINS"
  shows "cnnt_block be (pin_set_mode be pin mode r) p f =
    (if f = mode \<and> cnnt r AND select_bits pin mode = 0 \<and> mode = 2 \<and> 13 \<le> pin \<and> pin \<le> 19 \<and> 13 \<le> p \<and> p \<le> 19 then Some ''GMAC''
     else if f = mode \<and> cnnt r AND select_bits pin mode = 0 \<and> mode = 4 \<and> 20 \<le> pin \<and> pin \<le> 25 \<and> 20 \<le> p \<and> p \<le> 25 then Some ''SDHOST''
     else cnnt_block be r p f)"
  unfolding cnnt_block_def cnnt mode_cnnt [OF assms] cnnt_pads_def cnnt_hit_def
  by (auto simp: or_select select_bits_def)

lemma mode_others:
  assumes "pin < NPINS" and "p < NPINS" and "p \<noteq> pin"
  shows "pin_get be (pin_set_mode be pin mode r) p =
    (case gained_block r pin mode p of None \<Rightarrow> pin_get be r p | Some b \<Rightarrow> (pin_get be r p)\<lparr>st_func := b\<rparr>)"
proof -
  let ?r = "pin_set_mode be pin mode r"
  have v: "pin_view ?r p = pin_view r p"
    using mode_view(1,2) [OF assms(2,1), of mode r] assms(3) by (cases "mode \<le> MODE_A4") simp_all
  note i = mode_view(3) [OF assms(2,1), of r mode]
  have same: "pin_get be ?r p = (pin_get be r p)\<lparr>st_func := st_func (pin_get be ?r p)\<rparr>"
    using pin_get_view(1) [OF i v, where be = be and x = "st_func (pin_get be ?r p)"] by simp
  have x: "iomux ?r p = iomux r p"
    using v by (simp add: pin_view_def)
  have m: "matrix_signals ?r p 128 = matrix_signals r p 128"
    by (rule matrix_cong [OF i]) (use v in \<open>simp add: pin_view_def\<close>)
  have e: "gpio_bit ?r p GPIO_ENABLE GPIO_ENABLE1 = gpio_bit r p GPIO_ENABLE GPIO_ENABLE1"
    using v by (simp add: pin_view_def)
  have names: "append_name [] 128 (Some ''GMAC'') = ''GMAC''" "append_name [] 128 (Some ''SDHOST'') = ''SDHOST''"
    by code_simp+
  have "st_func (pin_get be ?r p) = (case gained_block r pin mode p of None \<Rightarrow> st_func (pin_get be r p) | Some b \<Rightarrow> b)"
  proof (cases "mux_func (iomux r p) = 1")
    case True
    then have "gained_block r pin mode p = None"
      by (auto simp: gained_block_def)
    then show ?thesis
      using True by (simp add: pin_get_def pin_mode_func_def Let_def x m e split: prod.splits bool.splits)
  next
    case False
    then have f: "st_func (pin_get be r' p) = append_name [] 128 (case iomux_func_name p (mux_func (iomux r p)) of
        Some s \<Rightarrow> Some s | None \<Rightarrow> cnnt_block be r' p (mux_func (iomux r p)))" if "iomux r' p = iomux r p" for r'
      by (simp add: pin_get_def pin_mode_func_def Let_def that)
    show ?thesis
      unfolding f [OF x] f [OF refl] mode_block [OF assms(1)] gained_block_def
      by (auto simp: names split: option.split)
  qed
  then show ?thesis
    using same by (simp split: option.splits)
qed

end



end
