(* ===== verification/Pin_Tool.thy ===== *)
theory Pin_Tool
  imports Pin_Chip
begin

text \<open>
  The pin tool itself: the headers and names of the boards
  (\<open>tools/pinctrl/board.c\<close>) and the commands (\<open>tools/pinctrl/pinctrl.c\<close>).  A
  command gives its exit status, the text it prints (both streams in order) and
  the registers.  \<open>snprintf\<close> into a buffer of n bytes keeps n - 1 characters.
  \<open>sscanf\<close> with \<open>%u\<close> is modelled for a 32-bit \<open>unsigned long\<close>.

  The lemmas show that a header maps pads and GPIOs onto each other, that a
  GPIO list sets exactly the bits it names and never one outside the mask, and
  which pins \<open>set\<close> refuses.
\<close>

section \<open>Boards\<close>

record pad_range =
  pr_first :: nat
  pr_last :: nat
  pr_gpio :: "nat option"
  pr_label :: string

abbreviation (input) rg :: "nat \<Rightarrow> nat \<Rightarrow> nat \<Rightarrow> pad_range" where
  "rg a b g \<equiv> \<lparr>pr_first = a, pr_last = b, pr_gpio = Some g, pr_label = []\<rparr>"

abbreviation (input) lb :: "nat \<Rightarrow> nat \<Rightarrow> string \<Rightarrow> pad_range" where
  "lb a b l \<equiv> \<lparr>pr_first = a, pr_last = b, pr_gpio = None, pr_label = l\<rparr>"

definition wroom3 :: "pad_range list" where
  "wroom3 =
   [lb 1 2 ''gnd'', lb 3 4 ''3v3'', lb 5 5 ''en'', rg 6 6 2, rg 7 7 3, rg 8 8 0, rg 9 9 1, rg 10 25 4, lb 26 26 ''gnd'',
    rg 27 32 20, lb 33 39 ''nc'', lb 40 40 ''usb_dp'', lb 41 41 ''usb_dm'', rg 42 46 33, lb 47 48 ''gnd'', rg 49 51 38,
    rg 52 67 42, rg 68 71 58, lb 72 90 ''gnd'', lb 91 91 ''nc'', lb 92 94 ''gnd'', lb 95 95 ''epad'', lb 96 99 ''gnd'']"

definition j2 :: "pad_range list" where
  "j2 =
   [lb 1 2 ''gnd'', rg 3 3 58, rg 4 4 59, rg 5 5 61, rg 6 6 60, rg 7 7 2, lb 8 8 ''gnd'', rg 9 9 0, rg 10 10 3, rg 11 11 49,
    rg 12 12 1, rg 13 13 47, rg 14 14 48, rg 15 15 45, rg 16 16 46, rg 17 17 43, rg 18 18 44, rg 19 19 40, rg 20 20 42,
    rg 21 21 39, rg 22 22 38, rg 23 23 37, rg 24 24 36, rg 25 25 35, rg 26 31 20, rg 32 32 4, lb 33 34 ''gnd'',
    lb 35 36 ''3v3'', lb 37 38 ''gnd'', lb 39 40 ''5v'']"

type_synonym header = "pad_range list"

definition headers :: "(string \<times> header) list" where
  "headers = [(''esp,esp32s31-function-coreboard-1'', j2), (''esp,esp32s31-korvo-1'', wroom3),
     (''esp,esp32s31-wroom-3'', wroom3)]"

definition board_header :: "string \<Rightarrow> header option" where
  "board_header compatible = map_of headers compatible"

record board =
  bd_names :: "string list"
  bd_reserved :: u64
  bd_used :: u64
  bd_have_lines :: bool
  bd_hdr :: "header option"

definition copy_str :: "nat \<Rightarrow> string \<Rightarrow> string" where
  "copy_str len src = take (len - 1) src"

definition header_npads :: "header \<Rightarrow> nat" where
  "header_npads h = pr_last (last h)"

datatype pad = Pad_gpio nat | Pad_label string | Pad_none

fun pad_gpio :: "header \<Rightarrow> nat \<Rightarrow> pad" where
  "pad_gpio [] pad = Pad_none"
| "pad_gpio (pr # prs) pad =
     (if pad < pr_first pr \<or> pad > pr_last pr then pad_gpio prs pad
      else case pr_gpio pr of None \<Rightarrow> Pad_label (pr_label pr) | Some g \<Rightarrow> Pad_gpio (g + (pad - pr_first pr)))"

definition hdr_pad_gpio :: "header option \<Rightarrow> nat \<Rightarrow> pad" where
  "hdr_pad_gpio hdr pad = (case hdr of None \<Rightarrow> Pad_none | Some h \<Rightarrow> pad_gpio h pad)"

definition gpio_pad :: "header option \<Rightarrow> nat \<Rightarrow> nat option" where
  "gpio_pad hdr gp =
     (case hdr of None \<Rightarrow> None
      | Some h \<Rightarrow> find (\<lambda>pad. pad_gpio h pad = Pad_gpio gp) [1..<header_npads h + 1])"

section \<open>Text\<close>

fun dec :: "nat \<Rightarrow> string" where
  "dec n = (if n < 10 then [char_of (48 + n)] else dec (n div 10) @ [char_of (48 + n mod 10)])"

declare dec.simps [simp del]

definition pad2 :: "string \<Rightarrow> string" where
  "pad2 s = replicate (2 - length s) (CHR '' '') @ s"

definition gpio_name :: "board \<Rightarrow> nat \<Rightarrow> string" where
  "gpio_name b gp =
     take 47 (if bd_names b ! gp \<noteq> [] then bd_names b ! gp @ ''/GPIO'' @ dec gp else ''GPIO'' @ dec gp)"

definition gpio_by_name :: "board \<Rightarrow> string \<Rightarrow> nat option" where
  "gpio_by_name b name = find (\<lambda>gp. pin_exists gp \<and> name \<in> set (parts (CHR ''/'') (gpio_name b gp))) [0..<NPINS]"

record tool =
  t_pin_mode :: bool
  t_verbose :: bool
  t_force :: bool
  t_board :: board
  t_be :: backend

definition num_to_gpio :: "tool \<Rightarrow> nat \<Rightarrow> pad" where
  "num_to_gpio t num =
     (if \<not> t_pin_mode t then (if pin_exists num then Pad_gpio num else Pad_none)
      else hdr_pad_gpio (bd_hdr (t_board t)) num)"

definition display_name :: "tool \<Rightarrow> nat \<Rightarrow> string" where
  "display_name t gp =
     (let s = gpio_name (t_board t) gp
      in if t_pin_mode t \<and> CHR ''/'' \<in> set s then tl (dropWhile (\<lambda>c. c \<noteq> CHR ''/'') s) else s)"

definition level_name :: "bool option \<Rightarrow> string" where
  "level_name l = (case l of Some True \<Rightarrow> ''hi'' | Some False \<Rightarrow> ''lo'' | None \<Rightarrow> ''--'')"

definition nl :: string where
  "nl = [CHR 0x0A]"

definition print_gpio_alts_info :: "tool \<Rightarrow> nat \<Rightarrow> string" where
  "print_gpio_alts_info t num =
     (case num_to_gpio t num of
        Pad_gpio gp \<Rightarrow>
          dec num @ '', '' @ display_name t gp @
          concat (map (\<lambda>f. '', '' @ short_name (case iomux_func_name gp f of Some s \<Rightarrow> s | None \<Rightarrow> ''-'') 96) [0..<NFUNCS]) @ nl
      | _ \<Rightarrow> [])"

definition print_irq :: "pin_state \<Rightarrow> string" where
  "print_irq st =
     (if st_int_type st = 0 \<and> st_int_lines st = 0 \<and> \<not> st_int_pending st then []
      else '' [irq '' @ int_type_name (st_int_type st) @ '', lines'' @
        (if st_int_lines st = 0 then '' none'' else []) @
        concat (map (\<lambda>l. if bit (st_int_lines st) l then '' '' @ dec l else []) [0..<4]) @
        (if st_int_pending st then '', pending'' else []) @ '']'')"

definition mode_names :: "string list" where
  "mode_names = [''a0'', ''a1'', ''a2'', ''a3'', ''a4'', ''ip'', ''op'', ''no'', ''mx'']"

definition pull_names :: "string list" where
  "pull_names = [''pn'', ''pd'', ''pu'', ''--'']"

section \<open>Commands\<close>

definition do_gpio_get :: "tool \<Rightarrow> regs \<Rightarrow> nat \<Rightarrow> nat \<times> string" where
  "do_gpio_get t r num =
     (case num_to_gpio t num of
        Pad_label l \<Rightarrow> (0, pad2 (dec num) @ '': '' @ l @ nl)
      | Pad_none \<Rightarrow> (1, [])
      | Pad_gpio gp \<Rightarrow>
          (let st = pin_get (t_be t) r gp in
           (0, pad2 (dec num) @ '': '' @ pad2 (mode_names ! st_mode st) @ '' '' @
               (if st_mode st = MODE_OP then if st_out st then ''dh'' else ''dl'' else ''  '') @ '' '' @
               pull_names ! st_pull st @ '' | '' @ level_name (st_level st) @ '' // '' @ display_name t gp @ '' = '' @
               st_func st @
               (if t_verbose t
                then '' ('' @ dec (st_drive_ma st) @ ''mA'' @ (if st_open_drain st then '', open drain'' else []) @ '')''
                else []) @ print_irq st @ nl)))"

definition set_refusal :: "tool \<Rightarrow> regs \<Rightarrow> nat \<Rightarrow> string option" where
  "set_refusal t r gp =
     (let b = t_board t in
      if pin_is_flash gp then Some ''it is a flash pin''
      else if \<not> bd_have_lines b then Some ''the reserved and used lines are not known''
      else if bit (bd_reserved b) gp then Some ''it is in gpio-reserved-ranges of the device tree''
      else if bit (bd_used b) gp \<and> \<not> t_force t then Some ''a kernel driver uses it (-f changes it anyway)''
      else if st_int_lines (pin_get (t_be t) r gp) \<noteq> 0 then Some ''an interrupt line is enabled on it''
      else None)"

text \<open>The parameters of \<open>set\<close>; \<open>None\<close> is \<open>NO_CHANGE\<close>.\<close>

record set_params =
  sp_drive :: "bool option"
  sp_fsel :: "nat option"
  sp_pull :: "nat option"

text \<open>The level first, so that a new output does not start at the old one.\<close>

definition apply_set :: "backend \<Rightarrow> set_params \<Rightarrow> nat \<Rightarrow> regs \<Rightarrow> regs" where
  "apply_set be ps gp r =
     (let r = (case sp_drive ps of Some d \<Rightarrow> pin_set_out be gp d r | None \<Rightarrow> r);
          r = (case sp_fsel ps of Some m \<Rightarrow> pin_set_mode be gp m r | None \<Rightarrow> r)
      in case sp_pull ps of Some p \<Rightarrow> pin_set_pull gp p r | None \<Rightarrow> r)"

definition do_gpio_set :: "tool \<Rightarrow> set_params \<Rightarrow> nat \<Rightarrow> regs \<Rightarrow> nat \<times> string \<times> regs" where
  "do_gpio_set t ps num r =
     (case num_to_gpio t num of
        Pad_label l \<Rightarrow> (1, ''Pin '' @ dec num @ '' cannot be set'' @ nl, r)
      | Pad_none \<Rightarrow> (1, [], r)
      | Pad_gpio gp \<Rightarrow>
          (case set_refusal t r gp of
             Some why \<Rightarrow> (1, ''GPIO'' @ dec gp @ '' not changed: '' @ why @ nl, r)
           | None \<Rightarrow>
               let mode = (case sp_fsel ps of Some m \<Rightarrow> m | None \<Rightarrow> st_mode (pin_get (t_be t) r gp)) in
               if sp_drive ps \<noteq> None \<and> mode \<noteq> MODE_OP then (1, ''Can't set pin value, not an output'' @ nl, r)
               else
                 let out = (if pin_is_strapping gp
                            then ''GPIO'' @ dec gp @ '' is a strapping pin: the next reset reads its level'' @ nl else [])
                 in (0, out, apply_set (t_be t) ps gp r)))"

definition do_gpio_level :: "tool \<Rightarrow> regs \<Rightarrow> nat \<Rightarrow> nat \<times> string" where
  "do_gpio_level t r num =
     (case num_to_gpio t num of
        Pad_label l \<Rightarrow> (0, case map_of [(''gnd'', ''G''), (''5v'', ''5''), (''3v3'', ''3'')] l of Some c \<Rightarrow> c | None \<Rightarrow> ''?'')
      | Pad_none \<Rightarrow> (1, [])
      | Pad_gpio gp \<Rightarrow> (0, case pin_level r gp of Some l \<Rightarrow> dec (of_bool l) | None \<Rightarrow> ''-''))"

text \<open>The level of a polled pin: unknown, off, or read.\<close>

record poll_gpio_state =
  pg_num :: nat
  pg_gpio :: nat
  pg_name :: string
  pg_level :: "bool option option"

definition do_gpio_poll_add :: "tool \<Rightarrow> nat \<Rightarrow> poll_gpio_state list \<Rightarrow> nat \<times> poll_gpio_state list" where
  "do_gpio_poll_add t num ps =
     (case num_to_gpio t num of
        Pad_gpio gp \<Rightarrow>
          if length ps \<ge> 128 then (1, ps)
          else (0, ps @ [\<lparr>pg_num = num, pg_gpio = gp, pg_name = gpio_name (t_board t) gp, pg_level = None\<rparr>])
      | _ \<Rightarrow> (1, ps))"

text \<open>One round of \<open>do_gpio_poll\<close> at time \<open>now\<close> (in microseconds); \<open>idle\<close> is when the
  idle rounds began.\<close>

fun poll_pins :: "regs \<Rightarrow> nat \<Rightarrow> nat option \<Rightarrow> poll_gpio_state list \<Rightarrow> bool \<times> string \<times> nat option \<times> poll_gpio_state list" where
  "poll_pins r now idle [] = (False, [], idle, [])"
| "poll_pins r now idle (p # ps) =
     (let l = pin_level r (pg_gpio p) in
      if Some l = pg_level p
      then case poll_pins r now idle ps of (ch, out, idle, ps) \<Rightarrow> (ch, out, idle, p # ps)
      else let o1 = (case idle of Some start \<Rightarrow> ''+'' @ dec (now - start) @ ''us'' @ nl | None \<Rightarrow> []) in
        case poll_pins r now None ps of (ch, out, idle, ps) \<Rightarrow>
          (True, o1 @ pad2 (dec (pg_num p)) @ '': '' @ level_name l @ '' // '' @ pg_name p @ nl @ out, idle,
           p\<lparr>pg_level := Some l\<rparr> # ps))"

definition poll_round :: "regs \<Rightarrow> nat \<Rightarrow> nat option \<Rightarrow> poll_gpio_state list \<Rightarrow> string \<times> nat option \<times> poll_gpio_state list" where
  "poll_round r now idle ps =
     (case poll_pins r now idle ps of (changed, out, idle, ps) \<Rightarrow>
        (out, if changed then idle else case idle of None \<Rightarrow> Some now | Some s \<Rightarrow> Some s, ps))"

text \<open>\<open>do_gpio_poll\<close> over the rounds that it is left to run, each with its time and
  registers: the lines and the pins at the end.  Without a pin it returns at once.\<close>

fun poll_rounds :: "(nat \<times> regs) list \<Rightarrow> nat option \<Rightarrow> poll_gpio_state list \<Rightarrow> string \<times> poll_gpio_state list" where
  "poll_rounds [] idle ps = ([], ps)"
| "poll_rounds ((now, r) # rs) idle ps =
     (case poll_round r now idle ps of (out, idle, ps) \<Rightarrow>
        case poll_rounds rs idle ps of (out', ps) \<Rightarrow> (out @ out', ps))"

definition do_gpio_poll :: "(nat \<times> regs) list \<Rightarrow> poll_gpio_state list \<Rightarrow> string \<times> poll_gpio_state list" where
  "do_gpio_poll rs ps = (if ps = [] then ([], []) else poll_rounds rs None ps)"

text \<open>A round leaves every pin with the level it has, and prints exactly when one changed;
  so a poll is silent for as long as no level changes.\<close>

definition polled :: "regs \<Rightarrow> poll_gpio_state \<Rightarrow> poll_gpio_state" where
  "polled r p = p\<lparr>pg_level := Some (pin_level r (pg_gpio p))\<rparr>"

lemma poll_pins_levels:
  "snd (snd (snd (poll_pins r now idle ps))) = map (polled r) ps"
  "fst (poll_pins r now idle ps) \<longleftrightarrow> (\<exists>p \<in> set ps. pg_level p \<noteq> Some (pin_level r (pg_gpio p)))"
  "fst (snd (poll_pins r now idle ps)) = [] \<longleftrightarrow> \<not> fst (poll_pins r now idle ps)"
  by (induction r now idle ps rule: poll_pins.induct) (auto simp: polled_def Let_def split_beta nl_def split: if_splits)

lemma poll_round_levels:
  "snd (snd (poll_round r now idle ps)) = map (polled r) ps"
  "fst (poll_round r now idle ps) = [] \<longleftrightarrow> (\<forall>p \<in> set ps. pg_level p = Some (pin_level r (pg_gpio p)))"
  using poll_pins_levels [of r now idle ps] by (auto simp: poll_round_def split_beta)

lemma polled_polled [simp]: "polled r' (polled r p) = polled r' p"
  by (simp add: polled_def)

lemma do_gpio_poll_silent:
  assumes "rs \<noteq> []"
  shows "snd (do_gpio_poll rs ps) = map (polled (snd (last rs))) ps"
    and "\<And>now r. fst (do_gpio_poll (rs @ [(now, r)]) ps) = fst (do_gpio_poll rs ps) \<longleftrightarrow>
       (\<forall>p \<in> set ps. pin_level r (pg_gpio p) = pin_level (snd (last rs)) (pg_gpio p))"
proof -
  have a: "rs \<noteq> [] \<Longrightarrow> snd (poll_rounds rs idle ps) = map (polled (snd (last rs))) ps" for rs idle ps
    by (induction rs idle ps rule: poll_rounds.induct)
       (use poll_round_levels(1) in \<open>auto simp: split_beta o_def prod_eq_iff\<close>)
  have b: "\<exists>idle'. fst (poll_rounds (rs @ [(now, r)]) idle ps) =
      fst (poll_rounds rs idle ps) @ fst (poll_round r now idle' (snd (poll_rounds rs idle ps)))" for rs idle ps now r
  proof (induction rs idle ps rule: poll_rounds.induct)
    case (2 n q rs idle ps)
    obtain out i2 ps2 where e: "poll_round q n idle ps = (out, i2, ps2)"
      by (metis surj_pair)
    show ?case
      using 2 [OF e [symmetric] refl] by (simp add: e split_beta)
  qed (auto simp: split_beta)
  show "snd (do_gpio_poll rs ps) = map (polled (snd (last rs))) ps"
    using a [OF assms, of None ps] by (simp add: do_gpio_poll_def)
  show "fst (do_gpio_poll (rs @ [(now, r)]) ps) = fst (do_gpio_poll rs ps) \<longleftrightarrow>
     (\<forall>p \<in> set ps. pin_level r (pg_gpio p) = pin_level (snd (last rs)) (pg_gpio p))" for now r
    using b [of rs now r None ps] a [OF assms, of None ps]
    by (auto simp: do_gpio_poll_def poll_round_levels polled_def)
qed

section \<open>GPIO lists\<close>

definition is_dig :: "char \<Rightarrow> bool" where
  "is_dig c \<longleftrightarrow> 48 \<le> (of_char c :: nat) \<and> (of_char c :: nat) \<le> 57"

definition is_space :: "char \<Rightarrow> bool" where
  "is_space c \<longleftrightarrow> (of_char c :: nat) = 32 \<or> 9 \<le> (of_char c :: nat) \<and> (of_char c :: nat) \<le> 13"

definition dec_value :: "string \<Rightarrow> nat" where
  "dec_value s = foldl (\<lambda>n c. n * 10 + (of_char c - 48)) 0 s"

text \<open>\<open>sscanf(p, "%u%n")\<close>: the number and the characters used.\<close>

definition scan_uint :: "string \<Rightarrow> (nat \<times> nat) option" where
  "scan_uint p =
     (let ws = takeWhile is_space p; p = drop (length ws) p;
          sign = (if p \<noteq> [] \<and> (hd p = CHR ''+'' \<or> hd p = CHR ''-'') then [hd p] else []);
          ds = takeWhile is_dig (drop (length sign) p);
          v = min (dec_value ds) (2 ^ 32 - 1)
      in if ds = [] then None
         else Some (if sign = ''-'' then (2 ^ 32 - v) mod 2 ^ 32 else v, length ws + length sign + length ds))"

datatype item = Item nat | Item_bad | Item_exit string

definition parse_named :: "tool \<Rightarrow> string \<Rightarrow> nat \<Rightarrow> item" where
  "parse_named t p len =
     (case gpio_by_name (t_board t) (take len p) of
        None \<Rightarrow> Item_bad
      | Some gp \<Rightarrow>
          if t_pin_mode t
          then (case gpio_pad (bd_hdr (t_board t)) gp of
                  None \<Rightarrow> Item_exit (''Signal \"'' @ take len p @ ''\" is not on a header pin'' @ nl)
                | Some pad \<Rightarrow> Item pad)
          else Item gp)"

definition parse_item :: "tool \<Rightarrow> nat \<Rightarrow> string \<Rightarrow> nat \<Rightarrow> item" where
  "parse_item t mx p len =
     (case scan_uint p of
        Some (num, used) \<Rightarrow>
          if used = len then if num < mx then Item num else Item_bad else parse_named t p len
      | None \<Rightarrow> parse_named t p len)"

definition mask_set :: "nat \<Rightarrow> u64 list \<Rightarrow> u64 list" where
  "mask_set n bm = bm[n div 64 := bm ! (n div 64) OR push_bit (n mod 64) 1]"

definition mask_range :: "nat \<Rightarrow> nat \<Rightarrow> u64 list \<Rightarrow> u64 list" where
  "mask_range a b bm = fold mask_set [min a b..<max a b + 1] bm"

definition item_len :: "string \<Rightarrow> nat" where
  "item_len p = length (takeWhile (\<lambda>c. c \<noteq> CHR ''-'' \<and> c \<noteq> CHR '','') p)"

text \<open>The end of the range that starts with \<open>first\<close>, and the rest of the list.\<close>

datatype range_end = Range nat string | Range_bad string | Range_exit string

definition parse_end :: "tool \<Rightarrow> nat \<Rightarrow> nat \<Rightarrow> string \<Rightarrow> range_end" where
  "parse_end t mx first p =
     (if p \<noteq> [] \<and> hd p = CHR ''-''
      then let p = tl p in
        case parse_item t mx p (item_len p) of
          Item lst \<Rightarrow> Range lst (drop (item_len p) p)
        | Item_bad \<Rightarrow> Range_bad p
        | Item_exit m \<Rightarrow> Range_exit m
      else Range first p)"

lemma parse_end_length: "parse_end t mx first p = Range lst p' \<Longrightarrow> length p' \<le> length p"
  by (auto simp: parse_end_def Let_def split: if_splits item.splits)

datatype list_result = List_done "u64 list" | List_bad string | List_exit string

function parse_list :: "tool \<Rightarrow> nat \<Rightarrow> string \<Rightarrow> u64 list \<Rightarrow> list_result" where
  "parse_list t mx p bm =
     (case parse_item t mx p (item_len p) of
        Item_bad \<Rightarrow> List_bad p
      | Item_exit m \<Rightarrow> List_exit m
      | Item first \<Rightarrow>
          (case parse_end t mx first (drop (item_len p) p) of
             Range_bad q \<Rightarrow> List_bad q
           | Range_exit m \<Rightarrow> List_exit m
           | Range lst q \<Rightarrow>
               let bm = mask_range first lst bm in
               if q = [] then List_done bm
               else if hd q \<noteq> CHR '','' then List_bad q
               else parse_list t mx (tl q) bm))"
  by pat_completeness auto
termination
proof (relation "measure (\<lambda>(t, mx, p, bm). length p)", simp, goal_cases)
  case (1 t mx p bm first lst q m)
  then show ?case
    using parse_end_length [OF 1(2)] by (cases q) auto
qed

declare parse_list.simps [simp del]

section \<open>The command line\<close>

definition parse_set_arg :: "string \<Rightarrow> set_params \<Rightarrow> set_params option" where
  "parse_set_arg arg ps =
     (if arg = ''dh'' then Some (ps\<lparr>sp_drive := Some True\<rparr>)
      else if arg = ''dl'' then Some (ps\<lparr>sp_drive := Some False\<rparr>)
      else case map_of [(''ip'', MODE_IP), (''op'', MODE_OP), (''no'', MODE_NO), (''a0'', 0), (''a1'', 1), (''a2'', 2),
                        (''a3'', 3), (''a4'', 4)] arg of
             Some m \<Rightarrow> Some (ps\<lparr>sp_fsel := Some m\<rparr>)
           | None \<Rightarrow> map_option (\<lambda>p. ps\<lparr>sp_pull := Some p\<rparr>) (map_of [(''pu'', 2), (''pd'', 1), (''pn'', 0)] arg))"

fun parse_set_args :: "string list \<Rightarrow> set_params \<Rightarrow> set_params + string" where
  "parse_set_args [] ps = Inl ps"
| "parse_set_args (a # as) ps =
     (case parse_set_arg a ps of
        Some ps \<Rightarrow> parse_set_args as ps
      | None \<Rightarrow> Inr (''Unknown argument \"'' @ a @ ''\"'' @ nl))"

definition mask_bit :: "u64 list \<Rightarrow> nat \<Rightarrow> bool" where
  "mask_bit bm num \<longleftrightarrow> bit (bm ! (num div 64)) (num mod 64)"

datatype cmd = Cmd_get | Cmd_set | Cmd_level | Cmd_poll | Cmd_funcs

definition cmd_of :: "string \<Rightarrow> cmd option" where
  "cmd_of s = map_of [(''get'', Cmd_get), (''set'', Cmd_set), (''lev'', Cmd_level), (''level'', Cmd_level),
     (''poll'', Cmd_poll), (''funcs'', Cmd_funcs)] s"

record run_state =
  rs_ret :: nat
  rs_out :: string
  rs_regs :: regs
  rs_first :: bool
  rs_polls :: "poll_gpio_state list"

definition run_pin :: "tool \<Rightarrow> cmd \<Rightarrow> set_params \<Rightarrow> nat \<Rightarrow> run_state \<Rightarrow> run_state" where
  "run_pin t c ps num s =
     (case c of
        Cmd_get \<Rightarrow> s\<lparr>rs_out := rs_out s @ snd (do_gpio_get t (rs_regs s) num)\<rparr>
      | Cmd_set \<Rightarrow>
          (case do_gpio_set t ps num (rs_regs s) of
             (ret, out, r) \<Rightarrow> s\<lparr>rs_ret := (if ret = 0 then rs_ret s else 1), rs_out := rs_out s @ out, rs_regs := r\<rparr>)
      | Cmd_level \<Rightarrow>
          if num_to_gpio t num = Pad_none then s
          else s\<lparr>rs_out := rs_out s @ (if rs_first s then [] else '' '') @ snd (do_gpio_level t (rs_regs s) num),
                 rs_first := False\<rparr>
      | Cmd_poll \<Rightarrow> s\<lparr>rs_polls := snd (do_gpio_poll_add t num (rs_polls s))\<rparr>
      | Cmd_funcs \<Rightarrow> s\<lparr>rs_out := rs_out s @ print_gpio_alts_info t num\<rparr>)"

definition run_cmd :: "tool \<Rightarrow> bool \<Rightarrow> cmd \<Rightarrow> set_params \<Rightarrow> u64 list \<Rightarrow> regs \<Rightarrow> run_state" where
  "run_cmd t echo c ps bm r =
     (let first = (if t_pin_mode t then 1 else 0);
          lst = (if t_pin_mode t then header_npads (the (bd_hdr (t_board t))) else NPINS - 1);
          bm = (if bm ! 0 = 0 \<and> bm ! 1 = 0 then [- 1, - 1] else bm);
          pins = filter (mask_bit bm) [first..<lst + 1];
          s = fold (run_pin t c ps) pins \<lparr>rs_ret = 0, rs_out = [], rs_regs = r, rs_first = True, rs_polls = []\<rparr>;
          s = (if c = Cmd_level then s\<lparr>rs_out := rs_out s @ nl\<rparr> else s)
      in if c = Cmd_set \<and> echo then fold (run_pin t Cmd_get ps) pins s else s)"

text \<open>The arguments from the command on, for all commands but \<open>dump\<close>.  \<open>Inl\<close>: the text of
  an error, with status 1.\<close>

definition pin_parse :: "tool \<Rightarrow> string list \<Rightarrow> string + cmd \<times> set_params \<times> u64 list" where
  "pin_parse t argv =
     (let given = (if argv = [] then None else cmd_of (hd argv));
          args = (if given = None then argv else tl argv);
          c = (case given of Some c \<Rightarrow> c | None \<Rightarrow> if length argv > 1 then Cmd_set else Cmd_get);
          mx = (if t_pin_mode t then header_npads (the (bd_hdr (t_board t))) + 1 else NPINS);
          ps = \<lparr>sp_drive = None, sp_fsel = None, sp_pull = None\<rparr>;
          finish = (\<lambda>bm as.
            if c = Cmd_set \<and> as = [] then Inl (''Need a function or pull to set'' @ nl)
            else if (c = Cmd_get \<or> c = Cmd_funcs \<or> c = Cmd_level) \<and> as \<noteq> [] then Inl (''Too many arguments'' @ nl)
            else case parse_set_args as ps of Inr err \<Rightarrow> Inl err | Inl ps \<Rightarrow> Inr (c, ps, bm))
      in case args of
           [] \<Rightarrow>
             if c = Cmd_set \<or> c = Cmd_poll
             then Inl (''Need GPIO number to '' @ (if c = Cmd_set then ''set'' else ''poll'') @ nl)
             else finish [0, 0] []
         | lst # as \<Rightarrow>
             (case parse_list t mx lst [0, 0] of
                List_exit m \<Rightarrow> Inl m
              | List_bad p \<Rightarrow>
                  Inl (''Unknown '' @ (if length p = length lst \<and> given = None then ''command'' else ''GPIO'') @
                       '' \"'' @ p @ ''\"'' @ nl)
              | List_done bm \<Rightarrow> finish bm as))"

text \<open>\<open>main\<close> after the options and the registers; the endless loop of \<open>poll\<close> is
  \<open>poll_round\<close> on \<open>rs_polls\<close>.\<close>

definition pin_main :: "tool \<Rightarrow> bool \<Rightarrow> string list \<Rightarrow> regs \<Rightarrow> string + run_state" where
  "pin_main t echo argv r =
     (let off = t_pin_mode t \<and> bd_hdr (t_board t) = None;
          note = (if off then ''No PIN numbers known for this board - pin mode disabled'' @ nl else []);
          t = (if off then t\<lparr>t_pin_mode := False\<rparr> else t)
      in case pin_parse t argv of
           Inl err \<Rightarrow> Inl (note @ err)
         | Inr (c, ps, bm) \<Rightarrow> let s = run_cmd t echo c ps bm r in Inr (s\<lparr>rs_out := note @ rs_out s\<rparr>))"

section \<open>Headers\<close>

definition range_ok :: "pad_range \<Rightarrow> bool" where
  "range_ok pr \<longleftrightarrow> 1 \<le> pr_first pr \<and> pr_first pr \<le> pr_last pr \<and>
     (case pr_gpio pr of None \<Rightarrow> True | Some g \<Rightarrow> g + (pr_last pr - pr_first pr) < NPINS)"

lemma pad_gpio_bounds:
  "pad_gpio h pad = Pad_gpio g \<Longrightarrow> list_all range_ok h \<Longrightarrow>
   \<exists>pr \<in> set h. pr_first pr \<le> pad \<and> pad \<le> pr_last pr \<and> g < NPINS \<and> 1 \<le> pad"
  by (induction h pad rule: pad_gpio.induct) (auto simp: range_ok_def split: if_splits option.splits)

lemma headers_ok:
  assumes "board_header c = Some h"
  shows "list_all range_ok h" and "list_all (\<lambda>pr. pr_last pr \<le> header_npads h) h" and "header_npads h < 128"
    and "distinct (filter (\<lambda>x. \<exists>g. x = Pad_gpio g) (map (pad_gpio h) [1..<header_npads h + 1]))"
proof -
  have "h = j2 \<or> h = wroom3"
    using assms by (auto simp: board_header_def headers_def split: if_splits)
  moreover have "list_all range_ok j2" "list_all range_ok wroom3"
    "list_all (\<lambda>pr. pr_last pr \<le> header_npads j2) j2" "list_all (\<lambda>pr. pr_last pr \<le> header_npads wroom3) wroom3"
    "header_npads j2 < 128" "header_npads wroom3 < 128"
    by code_simp+
  moreover have "distinct (filter (\<lambda>x. \<exists>g. x = Pad_gpio g) (map (pad_gpio j2) [1..<header_npads j2 + 1]))"
    "distinct (filter (\<lambda>x. \<exists>g. x = Pad_gpio g) (map (pad_gpio wroom3) [1..<header_npads wroom3 + 1]))"
  proof -
    have p: "(\<exists>g. x = Pad_gpio g) = (case x of Pad_gpio g \<Rightarrow> True | _ \<Rightarrow> False)" for x
      by (cases x) auto
    show "distinct (filter (\<lambda>x. \<exists>g. x = Pad_gpio g) (map (pad_gpio j2) [1..<header_npads j2 + 1]))"
      "distinct (filter (\<lambda>x. \<exists>g. x = Pad_gpio g) (map (pad_gpio wroom3) [1..<header_npads wroom3 + 1]))"
      unfolding p by code_simp+
  qed
  ultimately show "list_all range_ok h" "list_all (\<lambda>pr. pr_last pr \<le> header_npads h) h" "header_npads h < 128"
    "distinct (filter (\<lambda>x. \<exists>g. x = Pad_gpio g) (map (pad_gpio h) [1..<header_npads h + 1]))"
    by metis+
qed

lemma distinct_filter_map_inj:
  assumes "distinct (filter P (map f xs))" and "x \<in> set xs" "y \<in> set xs" "f x = f y" "P (f x)"
  shows "x = y"
  using assms by (auto simp: filter_map distinct_map inj_on_def)

lemma pad_in_header:
  assumes "board_header c = Some h" and "pad_gpio h pad = Pad_gpio g"
  shows "pad \<in> set [1..<header_npads h + 1]" and "g < NPINS"
proof -
  obtain pr where pr: "pr \<in> set h" "pr_first pr \<le> pad" "pad \<le> pr_last pr" "g < NPINS" "1 \<le> pad"
    using pad_gpio_bounds [OF assms(2) headers_ok(1) [OF assms(1)]] by blast
  have "pr_last pr \<le> header_npads h"
    using headers_ok(2) [OF assms(1)] pr(1) by (simp add: list_all_iff)
  then show "pad \<in> set [1..<header_npads h + 1]" "g < NPINS"
    using pr by auto
qed

lemma gpio_pad_iff:
  assumes h: "board_header c = Some h"
  shows "gpio_pad (Some h) g = Some pad \<longleftrightarrow> pad_gpio h pad = Pad_gpio g"
proof
  show "pad_gpio h pad = Pad_gpio g" if "gpio_pad (Some h) g = Some pad"
    using that by (auto simp: gpio_pad_def find_Some_iff)
next
  assume p: "pad_gpio h pad = Pad_gpio g"
  note i = pad_in_header(1) [OF h p]
  obtain q where q: "gpio_pad (Some h) g = Some q"
    using i p by (cases "gpio_pad (Some h) g") (auto simp: gpio_pad_def find_None_iff)
  then have "pad_gpio h q = Pad_gpio g"
    by (auto simp: gpio_pad_def find_Some_iff)
  with p have "q = pad"
    using distinct_filter_map_inj [OF headers_ok(4) [OF h] pad_in_header(1) [OF h] i, of q g] by simp
  then show "gpio_pad (Some h) g = Some pad"
    using q by simp
qed

section \<open>Setting pins\<close>

definition board_ok :: "tool \<Rightarrow> bool" where
  "board_ok t \<longleftrightarrow> gpio_backend (t_be t) \<and> (\<exists>c. bd_hdr (t_board t) = board_header c)"

lemma num_to_gpio_bound: "board_ok t \<Longrightarrow> num_to_gpio t num = Pad_gpio gp \<Longrightarrow> gp < NPINS"
  using pad_in_header(2)
  by (auto simp: board_ok_def num_to_gpio_def pin_exists_def hdr_pad_gpio_def split: if_splits option.splits)

lemma apply_set_view:
  assumes be: "gpio_backend be" and "p < NPINS" "q < NPINS"
  shows "p \<noteq> q \<Longrightarrow> pin_view (apply_set be ps q r) p = pin_view r p"
    and "gpio (apply_set be ps q r) (61 + p) = gpio r (61 + p)"
proof -
  define r1 where "r1 = (case sp_drive ps of Some d \<Rightarrow> pin_set_out be q d r | None \<Rightarrow> r)"
  define r2 where "r2 = (case sp_fsel ps of Some m \<Rightarrow> pin_set_mode be q m r1 | None \<Rightarrow> r1)"
  have r3: "apply_set be ps q r = (case sp_pull ps of Some x \<Rightarrow> pin_set_pull q x r2 | None \<Rightarrow> r2)"
    unfolding apply_set_def r1_def r2_def Let_def ..
  note v = gpio_backend.out_view(1) [OF be assms(2,3)] gpio_backend.mode_view(1,2) [OF be assms(2,3)]
    gpio_backend.pull_view(1) [OF be]
  have e1: "pin_view r1 p = pin_view r p" if "p \<noteq> q"
    using that v(1) by (simp add: r1_def split: option.split)
  have e2: "pin_view r2 p = pin_view r1 p" if "p \<noteq> q"
    using that v(2,3) by (auto simp: r2_def not_le split: option.split) (metis not_le)
  have e3: "pin_view (apply_set be ps q r) p = pin_view r2 p" if "p \<noteq> q"
    using that v(4) by (simp add: r3 split: option.split)
  show "p \<noteq> q \<Longrightarrow> pin_view (apply_set be ps q r) p = pin_view r p"
    using e1 e2 e3 by simp
  have w: "gpio r (61 + p) = fst (snd (pin_view r p))" for r
    by (simp add: pin_view_def)
  have "gpio r1 (61 + p) = gpio r (61 + p)"
    by (cases "sp_drive ps") (simp_all only: r1_def option.case w v(1) fst_conv snd_conv if_distrib if_cancel)
  moreover have "gpio r2 (61 + p) = gpio r1 (61 + p)"
  proof (cases "sp_fsel ps")
    case (Some m)
    show ?thesis
    proof (cases "m \<le> MODE_A4")
      case True
      then show ?thesis
        using v(2) [OF True, of r1] by (simp add: r2_def Some w)
    next
      case False
      then show ?thesis
        using v(3) [of m r1] by (cases "p = q") (simp_all add: r2_def Some w not_le, simp add: pin_view_def)
    qed
  qed (simp add: r2_def)
  moreover have "gpio (apply_set be ps q r) (61 + p) = gpio r2 (61 + p)"
    using v(4) by (simp add: r3 w split: option.split)
  ultimately show "gpio (apply_set be ps q r) (61 + p) = gpio r (61 + p)"
    by simp
qed

lemma set_cases:
  obtains "\<exists>out. do_gpio_set t ps num r = (1, out, r)"
  | gp out where "num_to_gpio t num = Pad_gpio gp" "set_refusal t r gp = None"
      "do_gpio_set t ps num r = (0, out, apply_set (t_be t) ps gp r)"
proof (cases "num_to_gpio t num")
  case (Pad_gpio gp)
  show ?thesis
  proof (cases "set_refusal t r gp")
    case None
    define mode where "mode = (case sp_fsel ps of Some m \<Rightarrow> m | None \<Rightarrow> st_mode (pin_get (t_be t) r gp))"
    have h: "do_gpio_set t ps num r =
      (if sp_drive ps \<noteq> None \<and> mode \<noteq> MODE_OP then (1, ''Can't set pin value, not an output'' @ nl, r)
       else (0, if pin_is_strapping gp
                then ''GPIO'' @ dec gp @ '' is a strapping pin: the next reset reads its level'' @ nl else [],
             apply_set (t_be t) ps gp r))"
      unfolding do_gpio_set_def Pad_gpio None pad.case option.case Let_def mode_def ..
    show ?thesis
    proof (cases "sp_drive ps \<noteq> None \<and> mode \<noteq> MODE_OP")
      case True
      then show ?thesis
        using h that(1) by (metis (no_types))
    next
      case False
      then show ?thesis
        using that(2) [OF Pad_gpio None] h by (metis (no_types))
    qed
  next
    case (Some why)
    then show ?thesis
      using that(1) Pad_gpio by (simp add: do_gpio_set_def)
  qed
qed (use that in \<open>auto simp: do_gpio_set_def\<close>)

lemma set_refusal_None:
  assumes "set_refusal t r gp = None"
  shows "\<not> pin_is_flash gp" and "bd_have_lines (t_board t)" and "\<not> bit (bd_reserved (t_board t)) gp"
    and "bit (bd_used (t_board t)) gp \<Longrightarrow> t_force t" and "st_int_lines (pin_get (t_be t) r gp) = 0"
  using assms by (auto simp: set_refusal_def Let_def split: if_splits)

text \<open>C24: what \<open>set\<close> may change.  Whatever the arguments, no interrupt or
  open-drain field of any pin changes; and if the mode, pull, drive or output of
  a pin changes, it is the pin that the command names, it is no flash pin, the
  lines of the board are known, it is not reserved, no kernel driver uses it
  unless \<open>-f\<close> is given, and no interrupt line is enabled on it.\<close>

theorem set_changes_only_allowed:
  assumes "board_ok t" and "do_gpio_set t ps num r = (ret, out, r')" and "p < NPINS"
  shows "gpio r' (61 + p) = gpio r (61 + p) \<and>
    (pin_view r' p = pin_view r p \<or>
     num_to_gpio t num = Pad_gpio p \<and> ret = 0 \<and> \<not> pin_is_flash p \<and> bd_have_lines (t_board t) \<and>
     \<not> bit (bd_reserved (t_board t)) p \<and> (\<not> bit (bd_used (t_board t)) p \<or> t_force t) \<and>
     st_int_lines (pin_get (t_be t) r p) = 0)"
proof (cases rule: set_cases [of t ps num r])
  case 1
  then show ?thesis
    using assms(2) by auto
next
  case (2 gp out')
  have be: "gpio_backend (t_be t)"
    using assms(1) by (simp add: board_ok_def)
  note v = apply_set_view [OF be assms(3) num_to_gpio_bound [OF assms(1) 2(1)], of ps r]
  show ?thesis
    using 2 v assms(2) set_refusal_None [OF 2(2)] by (cases "p = gp") (auto simp: Let_def)
qed

section \<open>GPIO lists\<close>

lemma bit_mask_set:
  assumes "length bm = 2" and "n < 128" and "k < 128"
  shows "mask_bit (mask_set n bm) k \<longleftrightarrow> mask_bit bm k \<or> k = n"
proof -
  have "bit (push_bit (n mod 64) 1 :: u64) (k mod 64) \<longleftrightarrow> k mod 64 = n mod 64"
    by (auto simp: bit_simps)
  moreover have "k = n" if "k div 64 = n div 64" "k mod 64 = n mod 64"
    using that by (metis mult_div_mod_eq)
  moreover have "n div 64 < 2" "k div 64 < 2"
    using assms by (simp_all add: less_mult_imp_div_less)
  ultimately show ?thesis
    using assms(1) by (auto simp: mask_bit_def mask_set_def nth_list_update bit_or_iff)
qed

lemma length_mask_set [simp]: "length (mask_set n bm) = length bm"
  by (simp add: mask_set_def)

lemma fold_mask_set:
  "length bm = 2 \<Longrightarrow> \<forall>n \<in> set ns. n < 128 \<Longrightarrow> k < 128 \<Longrightarrow>
   length (fold mask_set ns bm) = 2 \<and> (mask_bit (fold mask_set ns bm) k \<longleftrightarrow> mask_bit bm k \<or> k \<in> set ns)"
  by (induction ns arbitrary: bm) (auto simp: bit_mask_set)

lemma mask_range:
  assumes "length bm = 2" and "a < 128" "b < 128" "k < 128"
  shows "length (mask_range a b bm) = 2"
    and "mask_bit (mask_range a b bm) k \<longleftrightarrow> mask_bit bm k \<or> (min a b \<le> k \<and> k \<le> max a b)"
proof -
  have "\<forall>n \<in> set [min a b..<max a b + 1]. n < 128"
    using assms(2,3) by auto
  note f = fold_mask_set [OF assms(1) this assms(4)]
  show "length (mask_range a b bm) = 2"
    using f by (simp only: mask_range_def)
  show "mask_bit (mask_range a b bm) k \<longleftrightarrow> mask_bit bm k \<or> (min a b \<le> k \<and> k \<le> max a b)"
    using f by (simp only: mask_range_def set_upt atLeastLessThan_iff) auto
qed

text \<open>The first number after the last one that the list can name.\<close>

definition list_limit :: "tool \<Rightarrow> nat" where
  "list_limit t = (if t_pin_mode t then header_npads (the (bd_hdr (t_board t))) + 1 else NPINS)"

lemma list_limit_bound: "board_ok t \<Longrightarrow> (t_pin_mode t \<Longrightarrow> bd_hdr (t_board t) \<noteq> None) \<Longrightarrow> list_limit t \<le> 128"
proof -
  assume b: "board_ok t" and h: "t_pin_mode t \<Longrightarrow> bd_hdr (t_board t) \<noteq> None"
  show ?thesis
  proof (cases "t_pin_mode t")
    case True
    then obtain x where x: "bd_hdr (t_board t) = Some x"
      using h by blast
    then obtain c where "board_header c = Some x"
      using b by (auto simp: board_ok_def)
    from headers_ok(3) [OF this] show ?thesis
      using x True by (simp add: list_limit_def)
  qed (simp add: list_limit_def)
qed

lemma parse_item_bound:
  assumes "board_ok t" and "parse_item t (list_limit t) p len = Item n"
  shows "n < list_limit t"
proof -
  have "n < list_limit t" if "parse_named t p len = Item n"
    using that pad_in_header(1) gpio_pad_iff assms(1)
    by (fastforce simp: parse_named_def list_limit_def board_ok_def gpio_by_name_def find_Some_iff pin_exists_def gpio_pad_def
        split: option.splits if_splits)
  then show ?thesis
    using assms(2) by (auto simp: parse_item_def split: option.splits if_splits prod.splits)
qed

lemma parse_end_bound:
  "board_ok t \<Longrightarrow> first < list_limit t \<Longrightarrow> parse_end t (list_limit t) first p = Range lst q \<Longrightarrow> lst < list_limit t"
  using parse_item_bound by (auto simp: parse_end_def Let_def split: if_splits item.splits)

lemma parse_list_bound:
  "parse_list t mx p bm = List_done bm' \<Longrightarrow> mx = list_limit t \<Longrightarrow> board_ok t \<Longrightarrow> mx \<le> 128 \<Longrightarrow> length bm = 2 \<Longrightarrow>
   length bm' = 2 \<and> (\<forall>k < 128. mask_bit bm' k \<longrightarrow> mask_bit bm k \<or> k < mx)"
proof (induction t mx p bm rule: parse_list.induct)
  case (1 t mx p bm)
  obtain first lst q where f: "parse_item t mx p (item_len p) = Item first"
    "parse_end t mx first (drop (item_len p) p) = Range lst q"
    using 1(2) by (subst (asm) parse_list.simps) (auto split: item.splits range_end.splits)
  define bm1 where "bm1 = mask_range first lst bm"
  have b: "first < mx" "lst < mx"
    using parse_item_bound [OF 1(4)] parse_end_bound [OF 1(4)] f 1(3) by blast+
  have m: "length bm1 = 2" "k < 128 \<Longrightarrow> mask_bit bm1 k \<Longrightarrow> mask_bit bm k \<or> k < mx" for k
    using mask_range(1) [OF 1(6), of first lst 0] mask_range(2) [OF 1(6), of first lst k] b 1(5) by (auto simp: bm1_def)
  have p: "parse_list t mx p bm =
     (if q = [] then List_done bm1 else if hd q \<noteq> CHR '','' then List_bad q else parse_list t mx (tl q) bm1)"
    by (subst parse_list.simps) (simp add: f bm1_def Let_def)
  show ?case
  proof (cases "q = []")
    case True
    then show ?thesis
      using p 1(2) m by auto
  next
    case False
    then have q: "hd q = CHR '',''" "parse_list t mx (tl q) bm1 = List_done bm'"
      using p 1(2) by (auto split: if_splits)
    show ?thesis
      using 1(1) [OF f bm1_def False] q m 1(3-5) by blast
  qed
qed

lemma digit_char:
  assumes "d < 10"
  shows "of_char (char_of (48 + d) :: char) = (48 + d :: nat)" and "is_dig (char_of (48 + d))"
    and "\<not> is_space (char_of (48 + d))" and "char_of (48 + d) \<noteq> CHR ''-''" and "char_of (48 + d) \<noteq> CHR '',''"
    and "char_of (48 + d) \<noteq> CHR ''+''"
proof -
  show o: "of_char (char_of (48 + d) :: char) = (48 + d :: nat)"
    using assms by simp
  show "is_dig (char_of (48 + d))" "\<not> is_space (char_of (48 + d))"
    using assms by (simp_all add: is_dig_def is_space_def)
  have c: "of_char (CHR ''-'') = (45 :: nat)" "of_char (CHR '','') = (44 :: nat)" "of_char (CHR ''+'') = (43 :: nat)"
    by simp_all
  show "char_of (48 + d) \<noteq> CHR ''-''" "char_of (48 + d) \<noteq> CHR '',''" "char_of (48 + d) \<noteq> CHR ''+''"
    using o c by (metis add.commute less_add_Suc2 nat_less_le numeral_le_iff not_add_less1 linorder_not_le semiring_norm)+
qed

lemma dec_value_snoc: "dec_value (s @ [c]) = dec_value s * 10 + (of_char c - 48)"
  by (simp add: dec_value_def)

lemma dec_spec:
  "dec n \<noteq> [] \<and> dec_value (dec n) = n \<and> (\<forall>c \<in> set (dec n). \<exists>d. d < (10 :: nat) \<and> c = char_of (48 + d))"
proof (induction n rule: dec.induct)
  case (1 n)
  have dv: "dec_value [char_of (48 + n)] = n" if "n < 10"
    using digit_char(1) [OF that] by (simp add: dec_value_def)
  show ?case
  proof (cases "n < 10")
    case True
    then show ?thesis
      using dv by (subst (1 2 3) dec.simps) auto
  next
    case False
    have m: "n mod 10 < 10"
      by simp
    have "dec n = dec (n div 10) @ [char_of (48 + n mod 10)]"
      using False by (subst dec.simps) simp
    moreover have "\<exists>d. d < (10 :: nat) \<and> (char_of (48 + n mod 10) :: char) = char_of (48 + d)"
      using m by blast
    ultimately show ?thesis
      using 1 [OF False] digit_char(1) [OF m] by (simp add: dec_value_snoc del: of_char_of char_of_eq_iff)
  qed
qed

lemma dec_chars:
  assumes "c \<in> set (dec n)"
  shows "is_dig c" "\<not> is_space c" "c \<noteq> CHR ''-''" "c \<noteq> CHR '',''" "c \<noteq> CHR ''+''"
proof -
  obtain d where "d < (10 :: nat)" "c = char_of (48 + d)"
    using dec_spec [of n] assms by blast
  then show "is_dig c" "\<not> is_space c" "c \<noteq> CHR ''-''" "c \<noteq> CHR '',''" "c \<noteq> CHR ''+''"
    using digit_char [of d] by simp_all
qed

lemma hd_dec: "hd (dec n) \<in> set (dec n)"
  using dec_spec by auto

lemma takeWhile_stop: "\<forall>c \<in> set xs. P c \<Longrightarrow> ys = [] \<or> \<not> P (hd ys) \<Longrightarrow> takeWhile P (xs @ ys) = xs"
  by (induction xs) (auto simp: takeWhile_eq_Nil_iff)

lemma scan_uint_dec:
  assumes "n < 2 ^ 32" and "rest = [] \<or> \<not> is_dig (hd rest)"
  shows "scan_uint (dec n @ rest) = Some (n, length (dec n))"
proof -
  have h: "hd (dec n @ rest) = hd (dec n)" "dec n @ rest \<noteq> []"
    using dec_spec [of n] by simp_all
  have "takeWhile is_space (dec n @ rest) = []"
    using h dec_chars(2) [OF hd_dec [of n]] by (cases "dec n @ rest") auto
  moreover have "takeWhile is_dig (dec n @ rest) = dec n"
    using dec_chars(1) [of _ n] assms(2) by (intro takeWhile_stop) auto
  ultimately show ?thesis
    using h dec_chars(3,5) [OF hd_dec [of n]] dec_spec [of n] assms(1) by (simp add: scan_uint_def Let_def)
qed

lemma item_len_dec: "rest = [] \<or> hd rest = CHR ''-'' \<or> hd rest = CHR '','' \<Longrightarrow> item_len (dec n @ rest) = length (dec n)"
  unfolding item_len_def using dec_chars(3,4) [of _ n] by (subst takeWhile_stop) auto

lemma parse_item_dec:
  assumes "n < mx" and "mx \<le> 2 ^ 32" and "rest = [] \<or> hd rest = CHR ''-'' \<or> hd rest = CHR '',''"
  shows "parse_item t mx (dec n @ rest) (item_len (dec n @ rest)) = Item n"
proof -
  have "rest = [] \<or> \<not> is_dig (hd rest)"
    using assms(3) by (auto simp: is_dig_def)
  then show ?thesis
    using scan_uint_dec [of n rest] item_len_dec [OF assms(3), of n] assms(1,2) by (simp add: parse_item_def)
qed

text \<open>A list as a user writes it: numbers and ranges.\<close>

fun show_item :: "nat \<times> nat option \<Rightarrow> string" where
  "show_item (a, None) = dec a"
| "show_item (a, Some b) = dec a @ ''-'' @ dec b"

fun show_list :: "(nat \<times> nat option) list \<Rightarrow> string" where
  "show_list [] = []"
| "show_list [x] = show_item x"
| "show_list (x # xs) = show_item x @ '','' @ show_list xs"

fun in_item :: "nat \<Rightarrow> nat \<times> nat option \<Rightarrow> bool" where
  "in_item k (a, None) = (k = a)"
| "in_item k (a, Some b) = (min a b \<le> k \<and> k \<le> max a b)"

fun item_max :: "nat \<times> nat option \<Rightarrow> nat" where
  "item_max (a, None) = a"
| "item_max (a, Some b) = max a b"

lemma parse_show_item:
  assumes "item_max x < mx" and "mx \<le> 128" and rest: "rest = [] \<or> hd rest = CHR '',''" and "length bm = 2"
  shows "\<exists>bm1. length bm1 = 2 \<and> (\<forall>k < 128. mask_bit bm1 k \<longleftrightarrow> mask_bit bm k \<or> in_item k x) \<and>
    parse_list t mx (show_item x @ rest) bm =
      (if rest = [] then List_done bm1 else parse_list t mx (tl rest) bm1)"
proof -
  obtain a ob where x: "x = (a, ob)"
    by (metis surj_pair)
  define b where "b = (case ob of None \<Rightarrow> a | Some b \<Rightarrow> b)"
  have ab: "a < mx" "b < mx"
    using assms(1) by (cases ob; simp add: x b_def)+
  have in_x: "in_item k x \<longleftrightarrow> min a b \<le> k \<and> k \<le> max a b" for k
    by (cases ob) (auto simp: x b_def)
  define r1 where "r1 = (case ob of None \<Rightarrow> rest | Some b \<Rightarrow> CHR ''-'' # dec b @ rest)"
  have s: "show_item x @ rest = dec a @ r1"
    by (cases ob) (simp_all add: x r1_def)
  have r1: "r1 = [] \<or> hd r1 = CHR ''-'' \<or> hd r1 = CHR '',''"
    using rest by (cases ob) (auto simp: r1_def)
  have i: "parse_item t mx (dec a @ r1) (item_len (dec a @ r1)) = Item a"
    using ab(1) assms(2) r1 by (intro parse_item_dec) auto
  have d: "drop (item_len (dec a @ r1)) (dec a @ r1) = r1"
    using item_len_dec [OF r1, of a] by simp
  have e: "parse_end t mx a r1 = Range b rest"
  proof (cases ob)
    case None
    then show ?thesis
      using rest by (auto simp: parse_end_def r1_def b_def)
  next
    case (Some b')
    have "parse_item t mx (dec b' @ rest) (item_len (dec b' @ rest)) = Item b'"
      using ab(2) assms(2) rest Some by (intro parse_item_dec) (auto simp: b_def)
    then show ?thesis
      using item_len_dec [of rest b'] rest by (auto simp: parse_end_def r1_def b_def Some Let_def)
  qed
  define bm1 where "bm1 = mask_range a b bm"
  have "parse_list t mx (show_item x @ rest) bm = (if rest = [] then List_done bm1 else parse_list t mx (tl rest) bm1)"
    unfolding s using rest by (subst parse_list.simps) (auto simp only: i d e bm1_def Let_def item.case range_end.case split: if_split)
  moreover have "length bm1 = 2" "\<forall>k < 128. mask_bit bm1 k \<longleftrightarrow> mask_bit bm k \<or> in_item k x"
    using mask_range(1) [OF assms(4), of a b 0] mask_range(2) [OF assms(4), of a b] ab assms(2) in_x
    by (auto simp: bm1_def)
  ultimately show ?thesis
    by blast
qed

lemma parse_show_list:
  assumes "xs \<noteq> []" and "\<forall>x \<in> set xs. item_max x < mx" and "mx \<le> 128" and "length bm = 2"
  shows "\<exists>bm'. parse_list t mx (show_list xs) bm = List_done bm' \<and> length bm' = 2 \<and>
    (\<forall>k < 128. mask_bit bm' k \<longleftrightarrow> mask_bit bm k \<or> (\<exists>x \<in> set xs. in_item k x))"
  using assms(1,2,4)
proof (induction xs arbitrary: bm rule: show_list.induct)
  case (2 x)
  then show ?case
    using parse_show_item [of x mx "[]" bm t] assms(3) by auto
next
  case (3 x y ys)
  obtain bm1 where b: "length bm1 = 2" "\<forall>k < 128. mask_bit bm1 k \<longleftrightarrow> mask_bit bm k \<or> in_item k x"
    "parse_list t mx (show_list (x # y # ys)) bm = parse_list t mx (show_list (y # ys)) bm1"
    using parse_show_item [of x mx "'','' @ show_list (y # ys)" bm t] 3 assms(3) by auto
  then show ?case
    using 3(1) [of bm1] 3(3) by auto
qed simp

text \<open>A GPIO list.  For every list of numbers and ranges below the limit, in any
  order and with ranges in either direction, \<open>parse_list\<close> accepts the text and sets
  exactly the bits of the pins that are named.  For any text whatever that it
  accepts (names included), every bit it sets is below the limit, so that no
  index leaves the mask of 128 bits.\<close>

theorem parse_list_exact:
  assumes "board_ok t" and "t_pin_mode t \<longrightarrow> bd_hdr (t_board t) \<noteq> None"
  shows "(xs \<noteq> [] \<and> (\<forall>x \<in> set xs. item_max x < list_limit t) \<longrightarrow>
      (\<exists>bm. parse_list t (list_limit t) (show_list xs) [0, 0] = List_done bm \<and>
        (\<forall>k < 128. mask_bit bm k \<longleftrightarrow> (\<exists>x \<in> set xs. in_item k x)))) \<and>
    (parse_list t (list_limit t) p [0, 0] = List_done bm' \<longrightarrow>
      length bm' = 2 \<and> (\<forall>k < 128. mask_bit bm' k \<longrightarrow> k < list_limit t) \<and> list_limit t \<le> 128)"
proof -
  have z: "\<not> mask_bit [0, 0] k" if "k < 128" for k
  proof -
    have "k div 64 < 2"
      using that by (simp add: less_mult_imp_div_less)
    then have "k div 64 = 0 \<or> k div 64 = 1"
      by linarith
    then show ?thesis
      by (auto simp: mask_bit_def)
  qed
  have l: "list_limit t \<le> 128"
    using assms by (intro list_limit_bound) auto
  show ?thesis
    using parse_show_list [of xs "list_limit t" "[0, 0]" t] parse_list_bound [of t "list_limit t" p "[0, 0]" bm'] l z assms(1)
    by fastforce
qed

definition demo_tool :: tool where
  "demo_tool = \<lparr>t_pin_mode = False, t_verbose = False, t_force = False,
     t_board = \<lparr>bd_names = replicate 62 [], bd_reserved = 0, bd_used = 0, bd_have_lines = True,
                bd_hdr = board_header ''esp,esp32s31-korvo-1''\<rparr>, t_be = snap_backend\<rparr>"

lemma demo_tool_ok: "board_ok demo_tool" "list_limit demo_tool = NPINS" "\<not> t_pin_mode demo_tool"
  using snap.gpio_backend_axioms by (auto simp: board_ok_def demo_tool_def list_limit_def)

theorem parse_list_exact_witness:
  "\<exists>bm. parse_list demo_tool NPINS (show_list [(4, None), (8, Some 6)]) [0, 0] = List_done bm \<and>
     mask_bit bm 4 \<and> \<not> mask_bit bm 5 \<and> mask_bit bm 7"
  using parse_list_exact [OF demo_tool_ok(1), of "[(4, None), (8, Some 6)]" "[]" "[]"] demo_tool_ok(2,3) by fastforce

theorem set_changes_only_allowed_witness:
  "\<exists>ret out r'. do_gpio_set demo_tool \<lparr>sp_drive = Some True, sp_fsel = Some MODE_OP, sp_pull = None\<rparr> 47
       \<lparr>iomux = (\<lambda>_. 0), gpio = (\<lambda>_. 0), cnnt = 0\<rparr> = (ret, out, r') \<and>
     pin_view r' 46 = pin_view \<lparr>iomux = (\<lambda>_. 0), gpio = (\<lambda>_. 0), cnnt = 0\<rparr> 46"
proof -
  define ps where "ps = \<lparr>sp_drive = Some True, sp_fsel = Some MODE_OP, sp_pull = None\<rparr>"
  define r :: regs where "r = \<lparr>iomux = (\<lambda>_. 0), gpio = (\<lambda>_. 0), cnnt = 0\<rparr>"
  obtain ret out r' where s: "do_gpio_set demo_tool ps 47 r = (ret, out, r')"
    by (metis surj_pair)
  have "num_to_gpio demo_tool 47 \<noteq> Pad_gpio 46"
    using demo_tool_ok(3) by (simp add: num_to_gpio_def)
  then have "pin_view r' 46 = pin_view r 46"
    using set_changes_only_allowed [OF demo_tool_ok(1) s, of 46] by simp
  then show ?thesis
    using s unfolding ps_def r_def by blast
qed

text \<open>The headers.  On every board that the tool knows, \<open>gpio_pad\<close> and
  \<open>pad_gpio\<close> are inverse to each other: a GPIO is on at most one pad, a name
  with \<open>-p\<close> gives the pad that shows this GPIO, and each pad's GPIO is a pin of
  the chip.\<close>

theorem header_pads:
  assumes "board_header compatible = Some h"
  shows "(gpio_pad (Some h) gp = Some pad \<longleftrightarrow> pad_gpio h pad = Pad_gpio gp) \<and>
    (pad_gpio h pad = Pad_gpio gp \<longrightarrow> gp < NPINS \<and> 1 \<le> pad \<and> pad \<le> header_npads h)"
  using gpio_pad_iff [OF assms, of gp pad] pad_in_header [OF assms, of pad gp] by auto

theorem header_pads_witness:
  "gpio_pad (Some j2) 47 = Some 13 \<and> pad_gpio j2 13 = Pad_gpio 47"
proof -
  have "board_header ''esp,esp32s31-function-coreboard-1'' = Some j2"
    by (simp add: board_header_def headers_def)
  from header_pads [OF this, of 47 13] show ?thesis
    by (simp add: j2_def)
qed

end
