(* ===== verification/Pin_Snapshot.thy ===== *)
theory Pin_Snapshot
  imports Pin_Tool
begin

text \<open>
  The snapshots of the pin tool (\<open>tools/pinctrl/board.c\<close>): the text that \<open>dump\<close>
  writes, and the loader of \<open>--regs\<close>.  A file is its text.  \<open>sscanf\<close> with \<open>%x\<close>,
  \<open>strtoul\<close> and \<open>strtoull\<close> are modelled for a 32-bit \<open>unsigned long\<close>; \<open>fgets\<close> gives
  the parts of long lines.

  The lemmas show that loading inverts dumping, and that the tool reads every pin
  alike in the snapshot and in the registers that it was made of.
\<close>

abbreviation (input) NAME_LEN :: nat where "NAME_LEN \<equiv> 32"
abbreviation (input) PAGE_WORDS :: nat where "PAGE_WORDS \<equiv> 1024"

text \<open>What a board has besides, for its snapshot.\<close>

record snap_board = board +
  bd_compatible :: string
  bd_model :: string

definition board_init :: snap_board where
  "board_init = \<lparr>bd_names = replicate NPINS [], bd_reserved = 0, bd_used = 0, bd_have_lines = False, bd_hdr = None,
     bd_compatible = [], bd_model = []\<rparr>"

section \<open>Writing\<close>

definition hex_digit :: "nat \<Rightarrow> char" where
  "hex_digit d = (if d < 10 then char_of (48 + d) else char_of (87 + d))"

text \<open>A number with \<open>k\<close> hexadecimal digits, which its values never exceed.\<close>

fun hex_fixed :: "nat \<Rightarrow> nat \<Rightarrow> string" where
  "hex_fixed 0 n = []"
| "hex_fixed (Suc k) n = hex_fixed k (n div 16) @ [hex_digit (n mod 16)]"

definition dump_line :: "string \<Rightarrow> (nat \<Rightarrow> u32) \<Rightarrow> nat \<Rightarrow> string" where
  "dump_line name page off =
     name @ '' '' @ hex_fixed 3 off @ concat (map (\<lambda>i. '' '' @ hex_fixed 8 (unat (page (off div 4 + i)))) [0..<8])"

definition dump_page :: "string \<Rightarrow> (nat \<Rightarrow> u32) \<Rightarrow> string" where
  "dump_page name page = concat (map (\<lambda>k. dump_line name page (32 * k) @ nl) [0..<PAGE_WORDS div 8])"

fun join :: "string list \<Rightarrow> string" where
  "join [] = []"
| "join [x] = x"
| "join (x # xs) = x @ '','' @ join xs"

definition snapshot_dump :: "backend \<Rightarrow> regs \<Rightarrow> snap_board \<Rightarrow> string" where
  "snapshot_dump be r b =
     ''# esp32s31-pinctrl snapshot 1'' @ nl @
     ''compatible '' @ bd_compatible b @ nl @ ''model '' @ bd_model b @ nl @ ''names '' @ join (bd_names b) @ nl @
     ''reserved '' @ hex_fixed 16 (unat (bd_reserved b)) @ nl @ ''used '' @ hex_fixed 16 (unat (bd_used b)) @ nl @
     ''cnnt '' @ hex_fixed 8 (unat (be_cnnt_read be r)) @ nl @
     dump_page ''iomux'' (iomux r) @ dump_page ''gpio'' (gpio r)"

section \<open>Numbers\<close>

definition xval :: "char \<Rightarrow> nat option" where
  "xval c = (let n = of_char c in
     if 48 \<le> n \<and> n \<le> 57 then Some (n - 48) else if 97 \<le> n \<and> n \<le> 102 then Some (n - 87)
     else if 65 \<le> n \<and> n \<le> 70 then Some (n - 55) else None)"

definition is_xdig :: "char \<Rightarrow> bool" where
  "is_xdig c \<longleftrightarrow> xval c \<noteq> None"

definition hex_value :: "string \<Rightarrow> nat" where
  "hex_value s = foldl (\<lambda>n c. n * 16 + the (xval c)) 0 s"

text \<open>The blanks and the sign before a number.\<close>

definition num_start :: "string \<Rightarrow> string \<times> string \<times> string" where
  "num_start p =
     (let ws = takeWhile is_space p; p = drop (length ws) p;
          sign = (if p \<noteq> [] \<and> (hd p = CHR ''+'' \<or> hd p = CHR ''-'') then [hd p] else [])
      in (ws, sign, drop (length sign) p))"

definition signed_value :: "nat \<Rightarrow> string \<Rightarrow> nat \<Rightarrow> nat" where
  "signed_value bits sign v = (let v = min v (2 ^ bits - 1) in if sign = ''-'' then (2 ^ bits - v) mod 2 ^ bits else v)"

text \<open>\<open>sscanf(p, "%x%n")\<close>: the number and the characters used.  A prefix \<open>0x\<close> needs a
  digit after it.\<close>

definition scan_hex :: "string \<Rightarrow> (nat \<times> nat) option" where
  "scan_hex p =
     (case num_start p of (ws, sign, q) \<Rightarrow>
        let pre = (if take 2 q = ''0x'' \<or> take 2 q = ''0X'' then take 2 q else []);
            ds = takeWhile is_xdig (drop (length pre) q)
        in if ds = [] then None
           else Some (signed_value 32 sign (hex_value ds), length ws + length sign + length pre + length ds))"

text \<open>\<open>strtoul\<close> and \<open>strtoull\<close> of base 16 with \<open>bits\<close> bits: 0 when there is no number.\<close>

definition strto_hex :: "nat \<Rightarrow> string \<Rightarrow> nat" where
  "strto_hex bits p =
     (case num_start p of (ws, sign, q) \<Rightarrow>
        let pre = (if (take 2 q = ''0x'' \<or> take 2 q = ''0X'') \<and> takeWhile is_xdig (drop 2 q) \<noteq> [] then 2 else 0)
        in signed_value bits sign (hex_value (takeWhile is_xdig (drop pre q))))"

section \<open>Loading\<close>

fun load_loop :: "nat \<Rightarrow> nat \<Rightarrow> string \<Rightarrow> (nat \<Rightarrow> u32) \<Rightarrow> (nat \<Rightarrow> u32) option" where
  "load_loop i 0 args page = Some page"
| "load_loop i (Suc n) args page =
     (case scan_hex args of
        None \<Rightarrow> None
      | Some (v, used) \<Rightarrow> load_loop (i + 1) n (drop used args) (page(i := of_nat v)))"

definition load_words :: "string \<Rightarrow> (nat \<Rightarrow> u32) \<Rightarrow> (nat \<Rightarrow> u32) option" where
  "load_words args page =
     (case scan_hex args of
        None \<Rightarrow> None
      | Some (off, used) \<Rightarrow>
          if off mod 32 \<noteq> 0 \<or> off div 4 + 8 > PAGE_WORDS then None
          else load_loop (off div 4) 8 (drop used args) page)"

text \<open>The name up to a comma, and the list after it, if there is a comma.\<close>

definition next_name :: "string \<Rightarrow> string \<times> string option" where
  "next_name l =
     (let name = takeWhile (\<lambda>c. c \<noteq> CHR '','') l
      in (name, if CHR '','' \<in> set l then Some (drop (length name + 1) l) else None))"

text \<open>\<open>n\<close> names are left, from \<open>gp\<close> on; the list is \<open>None\<close> after its last name.\<close>

fun load_names :: "nat \<Rightarrow> nat \<Rightarrow> string option \<Rightarrow> string list \<Rightarrow> string list" where
  "load_names gp 0 l names = names"
| "load_names gp (Suc n) None names = names"
| "load_names gp (Suc n) (Some l) names =
     (case next_name l of (name, rest) \<Rightarrow> load_names (gp + 1) n rest (names[gp := copy_str NAME_LEN name]))"

definition load_line :: "string \<Rightarrow> regs \<times> snap_board \<Rightarrow> (regs \<times> snap_board) option" where
  "load_line line s =
     (case s of (r, b) \<Rightarrow>
        let key = takeWhile (\<lambda>c. c \<noteq> CHR '' '') line; args = drop (length key + 1) line
        in if key = ''compatible'' then Some (r, b\<lparr>bd_compatible := copy_str 64 args\<rparr>)
           else if key = ''model'' then Some (r, b\<lparr>bd_model := copy_str 96 args\<rparr>)
           else if key = ''names'' then Some (r, b\<lparr>bd_names := load_names 0 NPINS (Some args) (bd_names b)\<rparr>)
           else if key = ''reserved'' then Some (r, b\<lparr>bd_reserved := of_nat (strto_hex 64 args)\<rparr>)
           else if key = ''used'' then Some (r, b\<lparr>bd_used := of_nat (strto_hex 64 args)\<rparr>)
           else if key = ''cnnt'' then Some (r\<lparr>cnnt := of_nat (strto_hex 32 args)\<rparr>, b)
           else if key = ''iomux'' then map_option (\<lambda>page. (r\<lparr>iomux := page\<rparr>, b)) (load_words args (iomux r))
           else if key = ''gpio'' then map_option (\<lambda>page. (r\<lparr>gpio := page\<rparr>, b)) (load_words args (gpio r))
           else if key \<noteq> [] \<and> hd key \<noteq> CHR ''#'' then None
           else Some s)"

text \<open>What \<open>fgets\<close> with a buffer of \<open>len\<close> bytes returns until the end of the file.\<close>

function fgets_parts :: "nat \<Rightarrow> string \<Rightarrow> string list" where
  "fgets_parts len s =
     (if s = [] \<or> len < 2 then []
      else let line = takeWhile (\<lambda>c. c \<noteq> CHR 0x0A) s; k = min (length line + 1) (len - 1)
           in take k s # fgets_parts len (drop k s))"
  by pat_completeness auto
termination
  by (relation "measure (\<lambda>(len, s). length s)") auto

declare fgets_parts.simps [simp del]

fun load_lines :: "string list \<Rightarrow> regs \<times> snap_board \<Rightarrow> (regs \<times> snap_board) option" where
  "load_lines [] s = Some s"
| "load_lines (l # ls) s =
     (case load_line (takeWhile (\<lambda>c. c \<noteq> CHR 0x0A) l) s of None \<Rightarrow> None | Some s \<Rightarrow> load_lines ls s)"

text \<open>\<open>file\<close>: the text, or the error of opening it.  The pages of a snapshot are zero at first.\<close>

definition snapshot_load :: "errno + string \<Rightarrow> snap_board \<Rightarrow> errno + regs \<times> snap_board" where
  "snapshot_load file b =
     (case file of
        Inl e \<Rightarrow> Inl e
      | Inr text \<Rightarrow>
          (case load_lines (fgets_parts (NPINS * NAME_LEN + 16) text) (\<lparr>iomux = (\<lambda>_. 0), gpio = (\<lambda>_. 0), cnnt = 0\<rparr>, b) of
             None \<Rightarrow> Inl EINVAL
           | Some (r, b) \<Rightarrow> Inr (r, b\<lparr>bd_have_lines := True, bd_hdr := board_header (bd_compatible b)\<rparr>)))"

section \<open>The file as lines\<close>

text \<open>Strings as the arrays of the board hold them, and which are not cut by the format.\<close>

definition snap_board_ok :: "snap_board \<Rightarrow> bool" where
  "snap_board_ok b \<longleftrightarrow> length (bd_names b) = NPINS \<and>
     (\<forall>x \<in> set (bd_names b). CHR '','' \<notin> set x \<and> CHR 0x0A \<notin> set x \<and> length x < NAME_LEN) \<and>
     CHR 0x0A \<notin> set (bd_compatible b) \<and> length (bd_compatible b) < 64 \<and> CHR 0x0A \<notin> set (bd_model b) \<and> length (bd_model b) < 96"

definition head_lines :: "backend \<Rightarrow> regs \<Rightarrow> snap_board \<Rightarrow> string list" where
  "head_lines be r b =
     [''# esp32s31-pinctrl snapshot 1'', ''compatible'' @ '' '' @ bd_compatible b, ''model'' @ '' '' @ bd_model b,
      ''names'' @ '' '' @ join (bd_names b), ''reserved'' @ '' '' @ hex_fixed 16 (unat (bd_reserved b)),
      ''used'' @ '' '' @ hex_fixed 16 (unat (bd_used b)), ''cnnt'' @ '' '' @ hex_fixed 8 (unat (be_cnnt_read be r))]"

definition page_lines :: "string \<Rightarrow> (nat \<Rightarrow> u32) \<Rightarrow> string list" where
  "page_lines key src = map (\<lambda>k. dump_line key src (32 * k)) [0..<PAGE_WORDS div 8]"

section \<open>Numbers\<close>

lemma length_hex_fixed [simp]: "length (hex_fixed k n) = k"
  by (induction k arbitrary: n) simp_all

lemma xval_digit: "d < 16 \<Longrightarrow> xval (hex_digit d) = Some d"
  by (auto simp: xval_def hex_digit_def Let_def)

lemma xdig_space: "is_xdig c \<Longrightarrow> \<not> is_space c"
  by (auto simp: is_xdig_def xval_def is_space_def Let_def split: if_splits)

lemma xdig_not: "\<not> is_xdig (CHR ''x'')" "\<not> is_xdig (CHR ''X'')" "\<not> is_xdig (CHR ''+'')" "\<not> is_xdig (CHR ''-'')" "\<not> is_xdig (CHR '' '')"
    "\<not> is_xdig (CHR 0x0A)" "is_space (CHR '' '')"
  by (simp_all add: is_xdig_def xval_def is_space_def Let_def)

lemma hex_fixed_xdig: "c \<in> set (hex_fixed k n) \<Longrightarrow> is_xdig c"
  by (induction k arbitrary: n) (auto simp: is_xdig_def xval_digit)

lemma hex_value_fixed: "n < 16 ^ k \<Longrightarrow> hex_value (hex_fixed k n) = n"
proof (induction k arbitrary: n)
  case (Suc k)
  have "n div 16 < 16 ^ k"
    using Suc(2) by (simp add: div_less_iff_less_mult mult.commute)
  then show ?case
    using Suc(1) [of "n div 16"] by (simp add: hex_value_def xval_digit)
qed (simp add: hex_value_def)

lemma takeWhile_stops: "\<forall>c \<in> set xs. P c \<Longrightarrow> ys = [] \<or> \<not> P (hd ys) \<Longrightarrow> takeWhile P (xs @ ys) = xs"
  by (cases ys) (simp_all add: takeWhile_append)

lemma num_start_fixed:
  assumes "0 < k" and "\<forall>c \<in> set ws. is_space c"
  shows "num_start (ws @ hex_fixed k n @ rest) = (ws, [], hex_fixed k n @ rest)"
proof -
  obtain c cs where c: "hex_fixed k n = c # cs"
    using assms(1) length_hex_fixed [of k n] by (cases "hex_fixed k n") auto
  then have "is_xdig c"
    using hex_fixed_xdig [of c k n] by simp
  then have n: "\<not> is_space c" "c \<noteq> CHR ''+''" "c \<noteq> CHR ''-''"
    using xdig_space xdig_not by auto
  have "takeWhile is_space (ws @ c # cs @ rest) = ws"
    using takeWhile_stops [of ws is_space "c # cs @ rest"] assms(2) n(1) by simp
  then show ?thesis
    using n(2,3) by (simp add: num_start_def Let_def c)
qed

lemma no_prefix:
  assumes "2 \<le> k"
  shows "take 2 (hex_fixed k n @ rest) \<noteq> ''0x''" "take 2 (hex_fixed k n @ rest) \<noteq> ''0X''"
proof -
  have "set (take 2 (hex_fixed k n @ rest)) \<subseteq> set (hex_fixed k n)"
    using assms set_take_subset [of 2 "hex_fixed k n"] by simp
  then have "c \<in> set (take 2 (hex_fixed k n @ rest)) \<Longrightarrow> is_xdig c" for c
    using hex_fixed_xdig by blast
  then show "take 2 (hex_fixed k n @ rest) \<noteq> ''0x''" "take 2 (hex_fixed k n @ rest) \<noteq> ''0X''"
    using xdig_not(1,2) by (metis list.set_intros(1) list.set_intros(2))+
qed

lemma digits_fixed: "rest = [] \<or> \<not> is_xdig (hd rest) \<Longrightarrow> takeWhile is_xdig (hex_fixed k n @ rest) = hex_fixed k n"
  by (rule takeWhile_stops) (simp_all add: hex_fixed_xdig)

lemma scan_hex_fixed:
  assumes "2 \<le> k" and "n < 16 ^ k" "n < 2 ^ 32" and "\<forall>c \<in> set ws. is_space c" and "rest = [] \<or> \<not> is_xdig (hd rest)"
  shows "scan_hex (ws @ hex_fixed k n @ rest) = Some (n, length ws + k)"
proof -
  have "hex_fixed k n \<noteq> []"
    using assms(1) length_hex_fixed [of k n] by (cases "hex_fixed k n") auto
  then show ?thesis
    using assms no_prefix [OF assms(1), of n rest]
    by (simp add: scan_hex_def num_start_fixed digits_fixed hex_value_fixed signed_value_def Let_def)
qed

lemma strto_hex_fixed:
  assumes "2 \<le> k" and "n < 16 ^ k" "n < 2 ^ bits"
  shows "strto_hex bits (hex_fixed k n) = n"
proof -
  have d: "takeWhile is_xdig (hex_fixed k n) = hex_fixed k n"
    using digits_fixed [of "[]" k n] by (simp del: takeWhile_eq_all_conv)
  show ?thesis
    using assms no_prefix [OF assms(1), of n "[]"] num_start_fixed [of k "[]" n "[]"]
    by (simp add: strto_hex_def signed_value_def Let_def d hex_value_fixed)
qed

section \<open>Pages\<close>

lemma load_loop_dump:
  "load_loop i n (concat (map (\<lambda>j. '' '' @ hex_fixed 8 (unat (src j))) [i..<i + n])) page =
    Some (\<lambda>j. if i \<le> j \<and> j < i + n then src j else page j)"
proof (induction n arbitrary: i page)
  case (Suc n)
  let ?rest = "concat (map (\<lambda>j. '' '' @ hex_fixed 8 (unat (src j))) [Suc i..<Suc i + n])"
  have "?rest = [] \<or> \<not> is_xdig (hd ?rest)"
    using xdig_not(5) by (cases "[Suc i..<Suc i + n]") auto
  moreover have "unat (src i) < 2 ^ 32"
    using unat_below [of "src i"] by simp
  ultimately have "scan_hex ('' '' @ hex_fixed 8 (unat (src i)) @ ?rest) = Some (unat (src i), 9)"
    using scan_hex_fixed [of 8 "unat (src i)" "'' ''" ?rest] xdig_not(7) by simp
  moreover have "concat (map (\<lambda>j. '' '' @ hex_fixed 8 (unat (src j))) [i..<i + Suc n]) = '' '' @ hex_fixed 8 (unat (src i)) @ ?rest"
    by (simp add: upt_conv_Cons del: upt_Suc)
  ultimately have "load_loop i (Suc n) (concat (map (\<lambda>j. '' '' @ hex_fixed 8 (unat (src j))) [i..<i + Suc n])) page =
      load_loop (Suc i) n ?rest (page(i := src i))"
    by simp
  also have "\<dots> = Some (\<lambda>j. if i \<le> j \<and> j < i + Suc n then src j else page j)"
    unfolding Suc by (auto simp: fun_eq_iff)
  finally show ?case .
qed (auto simp: fun_eq_iff)


lemma upt_shift: "map f [a..<a + n] = map (\<lambda>i. f (a + i)) [0..<n]"
  by (rule nth_equalityI) simp_all

lemma load_words_dump:
  assumes "k < PAGE_WORDS div 8"
  shows "load_words (drop (length name + 1) (dump_line name src (32 * k))) page =
    Some (\<lambda>j. if 8 * k \<le> j \<and> j < 8 * k + 8 then src j else page j)"
proof -
  let ?ws = "concat (map (\<lambda>j. '' '' @ hex_fixed 8 (unat (src j))) [8 * k..<8 * k + 8])"
  have w: "concat (map (\<lambda>i. '' '' @ hex_fixed 8 (unat (src (32 * k div 4 + i)))) [0..<8]) = ?ws"
    unfolding upt_shift [of _ "8 * k" 8] by simp
  have "?ws = '' '' @ hex_fixed 8 (unat (src (8 * k))) @ concat (map (\<lambda>j. '' '' @ hex_fixed 8 (unat (src j))) [Suc (8 * k)..<8 * k + 8])"
    by (simp add: upt_conv_Cons del: upt_Suc)
  then have "\<not> is_xdig (hd ?ws)"
    using xdig_not(5) by simp
  then have "scan_hex (hex_fixed 3 (32 * k) @ ?ws) = Some (32 * k, 3)"
    using scan_hex_fixed [of 3 "32 * k" "[]" ?ws] assms by simp
  moreover have "drop (length name + 1) (dump_line name src (32 * k)) = hex_fixed 3 (32 * k) @ ?ws"
    unfolding dump_line_def w by simp
  moreover have "load_loop (8 * k) 8 ?ws page = Some (\<lambda>j. if 8 * k \<le> j \<and> j < 8 * k + 8 then src j else page j)"
    by (rule load_loop_dump)
  ultimately show ?thesis
    using assms by (simp add: load_words_def)
qed

text \<open>A file of lines without line feeds, as \<open>fgets\<close> reads it.\<close>

lemma fgets_lines:
  "\<forall>l \<in> set ls. CHR 0x0A \<notin> set l \<and> length l + 2 \<le> len \<Longrightarrow>
   map (takeWhile (\<lambda>c. c \<noteq> CHR 0x0A)) (fgets_parts len (concat (map (\<lambda>l. l @ nl) ls))) = ls"
proof (induction ls)
  case Nil
  then show ?case
    by (simp add: fgets_parts.simps)
next
  case (Cons l ls)
  let ?s = "concat (map (\<lambda>l. l @ nl) ls)"
  have tw: "takeWhile (\<lambda>c. c \<noteq> CHR 0x0A) (l @ CHR 0x0A # t) = l" for t
    by (rule takeWhile_stops) (use Cons(2) in auto)
  have k: "min (length l + 1) (len - 1) = length l + 1" "2 \<le> len"
    using Cons(2) by auto
  have "fgets_parts len (l @ nl @ ?s) = (l @ nl) # fgets_parts len ?s"
    unfolding nl_def append_Cons append_Nil fgets_parts.simps [of len "l @ CHR 0x0A # _"] tw Let_def k(1) using k(2) by simp
  then show ?case
    using Cons tw [of "[]", folded nl_def] by simp
qed

lemma load_lines_cut: "load_lines ls s = load_lines (map (takeWhile (\<lambda>c. c \<noteq> CHR 0x0A)) ls) s"
  by (induction ls arbitrary: s) (simp_all add: takeWhile_idem split: option.split)

lemma load_lines_append:
  "load_lines (xs @ ys) s = (case load_lines xs s of None \<Rightarrow> None | Some t \<Rightarrow> load_lines ys t)"
  by (induction xs arbitrary: s) (simp_all split: option.split)

lemma load_line_key:
  assumes "CHR '' '' \<notin> set key" and "CHR 0x0A \<notin> set key" "CHR 0x0A \<notin> set args"
  shows "load_lines [key @ '' '' @ args] s = load_line (key @ '' '' @ args) s"
    "takeWhile (\<lambda>c. c \<noteq> CHR '' '') (key @ '' '' @ args) = key" "drop (length key + 1) (key @ '' '' @ args) = args"
proof -
  have "takeWhile (\<lambda>c. c \<noteq> CHR 0x0A) (key @ '' '' @ args) = key @ '' '' @ args"
    by (rule takeWhile_eq_all_conv [THEN iffD2]) (use assms in auto)
  then have "load_lines [key @ '' '' @ args] s = (case load_line (key @ '' '' @ args) s of None \<Rightarrow> None | Some s \<Rightarrow> Some s)"
    by (cases "load_line (key @ '' '' @ args) s") (simp_all only: load_lines.simps option.case)
  then show "load_lines [key @ '' '' @ args] s = load_line (key @ '' '' @ args) s"
    by (simp split: option.splits)
  show "takeWhile (\<lambda>c. c \<noteq> CHR '' '') (key @ '' '' @ args) = key"
    by (rule takeWhile_stops) (use assms(1) in auto)
qed simp

lemma dump_line_ok: "CHR 0x0A \<notin> set name \<Longrightarrow> CHR 0x0A \<notin> set (dump_line name page off)" "length (dump_line name page off) = length name + 76"
  using hex_fixed_xdig xdig_not(6) by (fastforce simp: dump_line_def) (simp add: dump_line_def upt_rec)


text \<open>The lines of a page put it in place, from the \<open>m\<close>-th on.\<close>

lemma load_page:
  assumes "key = ''iomux'' \<and> put = (\<lambda>p r. r\<lparr>iomux := p\<rparr>) \<and> page = iomux \<or> key = ''gpio'' \<and> put = (\<lambda>p r. r\<lparr>gpio := p\<rparr>) \<and> page = gpio"
    and "n \<le> PAGE_WORDS div 8"
  shows "load_lines (map (\<lambda>k. dump_line key src (32 * k)) [0..<n]) (r, b) =
    Some (put (\<lambda>j. if j < 8 * n then src j else page r j) r, b)"
  using assms(2)
proof (induction n)
  case 0
  then show ?case
    using assms(1) by auto
next
  case (Suc n)
  let ?r = "put (\<lambda>j. if j < 8 * n then src j else page r j) r"
  have key: "CHR '' '' \<notin> set key" "CHR 0x0A \<notin> set key" "CHR 0x0A \<notin> set (dump_line [] src (32 * n))"
    using assms(1) dump_line_ok(1) [of "[]"] by auto
  let ?args = "drop 1 (dump_line [] src (32 * n))"
  have l: "dump_line key src (32 * n) = key @ '' '' @ ?args"
    by (simp add: dump_line_def)
  have "CHR 0x0A \<notin> set ?args"
    using key(3) by (meson in_set_dropD)
  note k = load_line_key [OF key(1,2) this]
  have a: "load_words ?args p = Some (\<lambda>j. if 8 * n \<le> j \<and> j < 8 * n + 8 then src j else p j)" for p
    using load_words_dump [of n "[]" src p] Suc(2) by simp
  have m: "(\<lambda>j. if 8 * n \<le> j \<and> j < 8 * n + 8 then src j else if j < 8 * n then src j else q j) = (\<lambda>j. if j < 8 * Suc n then src j else q j)" for q
    by (auto simp: fun_eq_iff)
  have "load_line (dump_line key src (32 * n)) (?r, b) = Some (put (\<lambda>j. if j < 8 * Suc n then src j else page r j) r, b)"
  proof -
    have "load_line (key @ '' '' @ ?args) (?r, b) = map_option (\<lambda>p. (put p ?r, b)) (load_words ?args (page ?r))"
      unfolding load_line_def Let_def k(2,3) prod.case using assms(1) by (elim disjE) simp_all
    then have e: "load_line (dump_line key src (32 * n)) (?r, b) = Some (put (\<lambda>j. if 8 * n \<le> j \<and> j < 8 * n + 8 then src j else page ?r j) ?r, b)"
      unfolding l a by simp
    have p: "page ?r = (\<lambda>j. if j < 8 * n then src j else page r j)" "put q ?r = put q r" for q
      using assms(1) by (elim disjE; simp)+
    show ?thesis
      unfolding e p m ..
  qed
  then have "load_lines [dump_line key src (32 * n)] (?r, b) = Some (put (\<lambda>j. if j < 8 * Suc n then src j else page r j) r, b)"
    using k(1) [of "(?r, b)"] unfolding l by simp
  then show ?case
    using Suc by (simp add: load_lines_append)
qed

section \<open>The names\<close>

lemma next_name_join:
  assumes "CHR '','' \<notin> set x"
  shows "next_name (join (x # xs)) = (x, if xs = [] then None else Some (join xs))"
proof (cases xs)
  case Nil
  then show ?thesis
    using assms takeWhile_stops [of x "\<lambda>c. c \<noteq> CHR '',''" "[]"] by (auto simp: next_name_def)
next
  case (Cons y ys)
  then have "takeWhile (\<lambda>c. c \<noteq> CHR '','') (join (x # xs)) = x"
  proof -
    have "takeWhile (\<lambda>c. c \<noteq> CHR '','') (x @ CHR '','' # join xs) = x"
      by (rule takeWhile_stops) (use assms in auto)
    then show ?thesis
      using Cons by simp
  qed
  then show ?thesis
    using Cons by (simp add: next_name_def)
qed

lemma load_names_join:
  assumes "\<forall>x \<in> set xs. CHR '','' \<notin> set x \<and> length x < NAME_LEN" and "xs \<noteq> []" and "length names = gp + length xs"
  shows "load_names gp (length xs) (Some (join xs)) names = take gp names @ xs"
  using assms
proof (induction xs arbitrary: gp names)
  case (Cons x xs)
  have c: "copy_str NAME_LEN x = x" "next_name (join (x # xs)) = (x, if xs = [] then None else Some (join xs))"
    using Cons(2) next_name_join [of x xs] by (simp_all add: copy_str_def)
  have t: "take (gp + 1) (names[gp := x]) = take gp names @ [x]"
    using Cons(4) by (simp add: take_Suc_conv_app_nth)
  show ?case
  proof (cases "xs = []")
    case True
    then show ?thesis
      using Cons(4) c t by (simp add: take_Suc_conv_app_nth)
  next
    case False
    then show ?thesis
      using Cons(1) [of "names[gp := x]" "gp + 1"] Cons(2,4) c t by simp
  qed
qed simp


section \<open>Loading inverts dumping\<close>

lemma dump_lines:
  "snapshot_dump be r b = concat (map (\<lambda>l. l @ nl) (head_lines be r b @ page_lines ''iomux'' (iomux r) @ page_lines ''gpio'' (gpio r)))"
  by (simp add: snapshot_dump_def head_lines_def page_lines_def dump_page_def comp_def del: upt_rec_numeral)

lemma join_set: "c \<in> set (join xs) \<Longrightarrow> c = CHR '','' \<or> (\<exists>x \<in> set xs. c \<in> set x)"
  by (induction xs rule: join.induct) auto

lemma join_length: "\<forall>x \<in> set xs. length x < NAME_LEN \<Longrightarrow> length (join xs) \<le> NAME_LEN * length xs"
  by (induction xs rule: join.induct) auto

lemma names_line:
  assumes "snap_board_ok b"
  shows "length (join (bd_names b)) \<le> 1984" "CHR 0x0A \<notin> set (join (bd_names b))"
  using assms join_length [of "bd_names b"] join_set [of "CHR 0x0A" "bd_names b"] by (auto simp: snap_board_ok_def)

lemma hex_no_nl: "CHR 0x0A \<notin> set (hex_fixed k n)"
  using hex_fixed_xdig xdig_not(6) by blast

lemma snap_lines_ok:
  assumes "snap_board_ok b"
  shows "\<forall>l \<in> set (head_lines be r b @ page_lines ''iomux'' p @ page_lines ''gpio'' q). CHR 0x0A \<notin> set l \<and> length l + 2 \<le> NPINS * NAME_LEN + 16"
proof -
  have "\<forall>l \<in> set (head_lines be r b). CHR 0x0A \<notin> set l \<and> length l + 2 \<le> NPINS * NAME_LEN + 16"
    using names_line [OF assms] assms by (simp add: head_lines_def snap_board_ok_def hex_no_nl)
  moreover have "\<forall>l \<in> set (page_lines key src). CHR 0x0A \<notin> set l \<and> length l + 2 \<le> NPINS * NAME_LEN + 16"
    if "CHR 0x0A \<notin> set key" "length key < 9" for key src
    using dump_line_ok [of key src] that by (auto simp: page_lines_def simp del: upt_rec_numeral)
  from this [of "''iomux''" p] this [of "''gpio''" q] show ?thesis
    using calculation by (simp add: ball_Un del: upt_rec_numeral)
qed

lemma load_head:
  assumes "snap_board_ok b" and "length (bd_names c) = NPINS"
  shows "load_lines (head_lines be r b) (s, c) =
    Some (s\<lparr>cnnt := be_cnnt_read be r\<rparr>, c\<lparr>bd_compatible := bd_compatible b, bd_model := bd_model b, bd_names := bd_names b,
      bd_reserved := bd_reserved b, bd_used := bd_used b\<rparr>)"
proof -
  have n: "load_names 0 NPINS (Some (join (bd_names b))) (bd_names c) = bd_names b"
  proof -
    have b: "length (bd_names b) = NPINS" "\<forall>x \<in> set (bd_names b). CHR '','' \<notin> set x \<and> length x < NAME_LEN"
      using assms(1) by (simp_all add: snap_board_ok_def)
    then have "bd_names b \<noteq> []"
      by auto
    then show ?thesis
      using load_names_join [OF b(2), of "bd_names c" 0] b(1) assms(2) by simp
  qed
  have cp: "copy_str 64 (bd_compatible b) = bd_compatible b" "copy_str 96 (bd_model b) = bd_model b"
    using assms(1) by (simp_all add: snap_board_ok_def copy_str_def)
  have h: "of_nat (strto_hex 64 (hex_fixed 16 (unat v))) = v" "of_nat (strto_hex 32 (hex_fixed 8 (unat w))) = w" for v :: u64 and w :: u32
    using strto_hex_fixed [of 16 "unat v" 64] strto_hex_fixed [of 8 "unat w" 32] unat_below [of v] unat_below [of w] by simp_all
  have one: "load_lines ((key @ '' '' @ args) # ls) t = (case load_line (key @ '' '' @ args) t of None \<Rightarrow> None | Some t \<Rightarrow> load_lines ls t)"
    if "CHR '' '' \<notin> set key" "CHR 0x0A \<notin> set key" "CHR 0x0A \<notin> set args" for key args ls t
    using load_lines_append [of "[key @ '' '' @ args]" ls t] load_line_key(1) [OF that] by simp
  have l: "load_line (''compatible'' @ '' '' @ args) (s, c) = Some (s, c\<lparr>bd_compatible := copy_str 64 args\<rparr>)"
    "load_line (''model'' @ '' '' @ args) (s, c) = Some (s, c\<lparr>bd_model := copy_str 96 args\<rparr>)"
    "load_line (''names'' @ '' '' @ args) (s, c) = Some (s, c\<lparr>bd_names := load_names 0 NPINS (Some args) (bd_names c)\<rparr>)"
    "load_line (''reserved'' @ '' '' @ args) (s, c) = Some (s, c\<lparr>bd_reserved := of_nat (strto_hex 64 args)\<rparr>)"
    "load_line (''used'' @ '' '' @ args) (s, c) = Some (s, c\<lparr>bd_used := of_nat (strto_hex 64 args)\<rparr>)"
    "load_line (''cnnt'' @ '' '' @ args) (s, c) = Some (s\<lparr>cnnt := of_nat (strto_hex 32 args)\<rparr>, c)" for args s c
    by (simp_all add: load_line_def)
  have steps: "CHR 0x0A \<notin> set args \<Longrightarrow> load_lines ((''compatible'' @ '' '' @ args) # ls) (s, c) = load_lines ls (s, c\<lparr>bd_compatible := copy_str 64 args\<rparr>)"
    "CHR 0x0A \<notin> set args \<Longrightarrow> load_lines ((''model'' @ '' '' @ args) # ls) (s, c) = load_lines ls (s, c\<lparr>bd_model := copy_str 96 args\<rparr>)"
    "CHR 0x0A \<notin> set args \<Longrightarrow> load_lines ((''names'' @ '' '' @ args) # ls) (s, c) = load_lines ls (s, c\<lparr>bd_names := load_names 0 NPINS (Some args) (bd_names c)\<rparr>)"
    "CHR 0x0A \<notin> set args \<Longrightarrow> load_lines ((''reserved'' @ '' '' @ args) # ls) (s, c) = load_lines ls (s, c\<lparr>bd_reserved := of_nat (strto_hex 64 args)\<rparr>)"
    "CHR 0x0A \<notin> set args \<Longrightarrow> load_lines ((''used'' @ '' '' @ args) # ls) (s, c) = load_lines ls (s, c\<lparr>bd_used := of_nat (strto_hex 64 args)\<rparr>)"
    "CHR 0x0A \<notin> set args \<Longrightarrow> load_lines ((''cnnt'' @ '' '' @ args) # ls) (s, c) = load_lines ls (s\<lparr>cnnt := of_nat (strto_hex 32 args)\<rparr>, c)" for args ls s c
    by (subst one, simp, simp, assumption, simp only: l option.case)+
  have hd: "load_lines (''# esp32s31-pinctrl snapshot 1'' # ls) t = load_lines ls t" for ls t
    by (simp add: load_line_def split: prod.split)
  note ok = hex_no_nl names_line(2) [OF assms(1)]
  have nl: "CHR 0x0A \<notin> set (bd_compatible b)" "CHR 0x0A \<notin> set (bd_model b)"
    using assms(1) by (simp_all add: snap_board_ok_def)
  have c: "bd_names (c\<lparr>bd_compatible := x, bd_model := y\<rparr>) = bd_names c" for x y
    by simp
  show ?thesis
    unfolding head_lines_def hd steps(1) [OF nl(1)] steps(2) [OF nl(2)] steps(3) [OF ok(2)] steps(4-6) [OF ok(1)] load_lines.simps(1) c cp n h ..
qed


text \<open>The same pages and pads make the same state of a pin, whatever keeps them.\<close>

lemma pin_get_reads:
  assumes "be_cnnt_read be' r = be_cnnt_read be r"
  shows "pin_get be' r p = pin_get be r p"
proof -
  have "cnnt_block be' r = cnnt_block be r"
    by (intro ext) (simp only: cnnt_block_def assms)
  then show ?thesis
    by (simp only: pin_get_def pin_mode_func_def)
qed

lemma pin_get_backends:
  assumes "be_cnnt_read be' r' = be_cnnt_read be r" and "\<And>i. i < PAGE_WORDS \<Longrightarrow> iomux r' i = iomux r i"
    and "\<And>i. i < PAGE_WORDS \<Longrightarrow> gpio r' i = gpio r i" and "p < NPINS"
  shows "pin_get be' r' p = pin_get be r p"
proof -
  let ?be = "be\<lparr>be_cnnt_read := \<lambda>_. be_cnnt_read be r\<rparr>"
  have "inputs_same r r'" "pin_view r' p = pin_view r p"
    using assms(2-4) by (simp_all add: inputs_same_def pin_view_def gpio_bit_def gpio_rd_def bank_def)
  then have "pin_get ?be r' p = pin_get ?be r p"
    by (rule pin_get_view(2)) simp
  then show ?thesis
    using pin_get_reads [of be' r' ?be p] pin_get_reads [of be r ?be p] assms(1) by simp
qed

lemma load_pages:
  "load_lines (page_lines ''iomux'' src) (r, b) = Some (r\<lparr>iomux := \<lambda>j. if j < PAGE_WORDS then src j else iomux r j\<rparr>, b)"
  "load_lines (page_lines ''gpio'' src) (r, b) = Some (r\<lparr>gpio := \<lambda>j. if j < PAGE_WORDS then src j else gpio r j\<rparr>, b)"
proof -
  show "load_lines (page_lines ''iomux'' src) (r, b) = Some (r\<lparr>iomux := \<lambda>j. if j < PAGE_WORDS then src j else iomux r j\<rparr>, b)"
    using load_page [of "''iomux''" "\<lambda>p r. r\<lparr>iomux := p\<rparr>" iomux "PAGE_WORDS div 8" src r b]
    by (simp add: page_lines_def del: upt_rec_numeral)
  show "load_lines (page_lines ''gpio'' src) (r, b) = Some (r\<lparr>gpio := \<lambda>j. if j < PAGE_WORDS then src j else gpio r j\<rparr>, b)"
    using load_page [of "''gpio''" "\<lambda>p r. r\<lparr>gpio := p\<rparr>" gpio "PAGE_WORDS div 8" src r b]
    by (simp add: page_lines_def del: upt_rec_numeral)
qed

text \<open>What a loaded snapshot holds.\<close>

definition snap_regs :: "backend \<Rightarrow> regs \<Rightarrow> regs" where
  "snap_regs be r = \<lparr>iomux = \<lambda>j. if j < PAGE_WORDS then iomux r j else 0, gpio = \<lambda>j. if j < PAGE_WORDS then gpio r j else 0,
     cnnt = be_cnnt_read be r\<rparr>"

lemma snap_regs_get: "gp < NPINS \<Longrightarrow> pin_get snap_backend (snap_regs be r) gp = pin_get be r gp"
  by (rule pin_get_backends) (simp_all add: snap_backend_def snap_cnnt_read_def snap_regs_def)

lemma load_dump:
  assumes "snap_board_ok b" and "length (bd_names c) = NPINS"
  shows "snapshot_load (Inr (snapshot_dump be r b)) c =
    Inr (snap_regs be r, c\<lparr>bd_compatible := bd_compatible b, bd_model := bd_model b, bd_names := bd_names b, bd_reserved := bd_reserved b,
        bd_used := bd_used b, bd_have_lines := True, bd_hdr := board_header (bd_compatible b)\<rparr>)"
proof -
  let ?ls = "head_lines be r b @ page_lines ''iomux'' (iomux r) @ page_lines ''gpio'' (gpio r)"
  have "map (takeWhile (\<lambda>c. c \<noteq> CHR 0x0A)) (fgets_parts (NPINS * NAME_LEN + 16) (snapshot_dump be r b)) = ?ls"
    unfolding dump_lines by (rule fgets_lines, rule snap_lines_ok [OF assms(1)])
  then have "load_lines (fgets_parts (NPINS * NAME_LEN + 16) (snapshot_dump be r b)) s = load_lines ?ls s" for s
    using load_lines_cut [of "fgets_parts (NPINS * NAME_LEN + 16) (snapshot_dump be r b)" s] by (simp only:)
  then show ?thesis
    by (simp only: snapshot_load_def sum.case load_lines_append load_head [OF assms] load_pages option.case prod.case Let_def
        regs.simps) (simp add: snap_regs_def)
qed

text \<open>A snapshot of a board whose strings fit their arrays and hold no comma and no line
  feed is loaded again, whatever the registers: the loader reports no error, the names, the
  lines in use and the board's header are those of the board, and the tool reads every
  pin from the snapshot as it read it from the registers.\<close>

theorem snapshot_roundtrip:
  assumes "snap_board_ok b" and "length (bd_names c) = NPINS"
  shows "\<exists>r' b'. snapshot_load (Inr (snapshot_dump be r b)) c = Inr (r', b') \<and>
    bd_names b' = bd_names b \<and> bd_reserved b' = bd_reserved b \<and> bd_used b' = bd_used b \<and> bd_have_lines b' \<and>
    bd_hdr b' = board_header (bd_compatible b) \<and> bd_compatible b' = bd_compatible b \<and> bd_model b' = bd_model b \<and>
    (\<forall>gp < NPINS. pin_get snap_backend r' gp = pin_get be r gp)"
proof (intro exI conjI)
  show "snapshot_load (Inr (snapshot_dump be r b)) c = Inr (snap_regs be r, c\<lparr>bd_compatible := bd_compatible b,
      bd_model := bd_model b, bd_names := bd_names b, bd_reserved := bd_reserved b, bd_used := bd_used b,
      bd_have_lines := True, bd_hdr := board_header (bd_compatible b)\<rparr>)"
    by (rule load_dump [OF assms])
qed (simp_all add: snap_regs_get)

theorem snapshot_roundtrip_witness:
  "\<exists>r' b'. snapshot_load (Inr (snapshot_dump snap_backend \<lparr>iomux = (\<lambda>_. 0x1000), gpio = (\<lambda>i. of_nat i), cnnt = 3\<rparr>
       (board_init\<lparr>bd_names := ''PA_CTRL'' # replicate 61 [], bd_model := ''a board'', bd_used := 8\<rparr>))) board_init = Inr (r', b') \<and>
     hd (bd_names b') = ''PA_CTRL'' \<and> bd_used b' = 8 \<and> bd_model b' = ''a board''"
proof -
  have "snap_board_ok (board_init\<lparr>bd_names := ''PA_CTRL'' # replicate 61 [], bd_model := ''a board'', bd_used := 8\<rparr>)"
    by (simp add: snap_board_ok_def board_init_def)
  moreover have "length (bd_names board_init) = NPINS"
    by (simp add: board_init_def)
  ultimately show ?thesis
    using snapshot_roundtrip [of "board_init\<lparr>bd_names := ''PA_CTRL'' # replicate 61 [], bd_model := ''a board'', bd_used := 8\<rparr>"
        board_init snap_backend "\<lparr>iomux = (\<lambda>_. 0x1000), gpio = (\<lambda>i. of_nat i), cnnt = 3\<rparr>"] by fastforce
qed

end
