(* ===== verification/Pin_Main.thy ===== *)
theory Pin_Main
  imports Pin_Snapshot
begin

text \<open>
  The pin tool as a whole: the registers and the board of the hardware
  (\<open>tools/pinctrl/live.c\<close>), and the options and the start of \<open>main\<close>
  (\<open>tools/pinctrl/pinctrl.c\<close>).  The files, the directory of the GPIO chips and what
  the kernel says of their lines are the environment.

  The lemmas say which lines of the device tree are reserved, and that the commands
  that only read give the same output from a snapshot as from the hardware.
\<close>

section \<open>The hardware\<close>

record live_env =
  lv_fd :: "errno option"
  lv_map :: "nat \<Rightarrow> errno option"
  lv_regs :: regs
  lv_dev :: gpio_hw
  lv_file :: "string \<Rightarrow> string option"
  lv_dir :: "string list option"
  lv_lines :: "string \<Rightarrow> errno + (nat \<Rightarrow> bool option)"
  lv_root :: bool

text \<open>Opening the device and mapping its two pages; the errors are those of the calls.\<close>

definition live_open :: "live_env \<Rightarrow> errno option" where
  "live_open e =
     (case lv_fd e of
        Some err \<Rightarrow> Some err
      | None \<Rightarrow> (case lv_map e (PAGE_WORDS * 4) of Some err \<Rightarrow> Some err | None \<Rightarrow> lv_map e 0))"

text \<open>The string in a buffer, and what one read of a file gives.\<close>

definition cstr :: "string \<Rightarrow> string" where
  "cstr s = takeWhile (\<lambda>c. c \<noteq> CHR 0x00) s"

definition read_file :: "live_env \<Rightarrow> string \<Rightarrow> nat \<Rightarrow> string option" where
  "read_file e path len = map_option (take (len - 1)) (lv_file e path)"

function names_from :: "nat \<Rightarrow> string \<Rightarrow> string list \<Rightarrow> string list" where
  "names_from gp s names =
     (if s = [] \<or> gp \<ge> NPINS then names
      else names_from (gp + 1) (drop (length (cstr s) + 1) s) (names[gp := copy_str NAME_LEN (cstr s)]))"
  by pat_completeness auto
termination
  by (relation "measure (\<lambda>(gp, s, names). length s)") auto

declare names_from.simps [simp del]

definition read_names :: "live_env \<Rightarrow> string \<Rightarrow> snap_board \<Rightarrow> snap_board" where
  "read_names e node b =
     (case read_file e (node @ ''/gpio-line-names'') 4096 of
        None \<Rightarrow> b
      | Some buf \<Rightarrow> b\<lparr>bd_names := names_from 0 buf (bd_names b)\<rparr>)"

definition be32 :: "string \<Rightarrow> nat" where
  "be32 s = foldl (\<lambda>n c. n * 256 + of_char c) 0 (take 4 s)"

definition reserve_range :: "nat \<Rightarrow> nat \<Rightarrow> u64 \<Rightarrow> u64" where
  "reserve_range first count w = foldl (\<lambda>w gp. w OR push_bit gp 1) w [first..<min (first + count) NPINS]"

function reserved_from :: "string \<Rightarrow> u64 \<Rightarrow> u64" where
  "reserved_from buf w =
     (if length buf < 8 then w
      else reserved_from (drop 8 buf) (reserve_range (be32 buf) (be32 (drop 4 buf)) w))"
  by pat_completeness auto
termination
  by (relation "measure (\<lambda>(buf, w). length buf)") auto

declare reserved_from.simps [simp del]

definition read_reserved :: "live_env \<Rightarrow> string \<Rightarrow> snap_board \<Rightarrow> snap_board" where
  "read_reserved e node b =
     (case read_file e (node @ ''/gpio-reserved-ranges'') 256 of
        None \<Rightarrow> b
      | Some buf \<Rightarrow> b\<lparr>bd_reserved := reserved_from buf (bd_reserved b)\<rparr>)"

definition read_used :: "live_env \<Rightarrow> string \<Rightarrow> snap_board \<Rightarrow> errno + snap_board" where
  "read_used e chip b =
     (case lv_lines e (''/dev/'' @ take 64 chip) of
        Inl err \<Rightarrow> Inl err
      | Inr info \<Rightarrow>
          Inr (b\<lparr>bd_used := foldl (\<lambda>w gp. if info gp = Some True then w OR push_bit gp 1 else w) (bd_used b) [0..<NPINS]\<rparr>))"

definition chip_node :: "string \<Rightarrow> string" where
  "chip_node chip = ''/sys/bus/gpio/devices/'' @ chip @ ''/of_node''"

definition find_chip :: "live_env \<Rightarrow> nat \<Rightarrow> string option" where
  "find_chip e len =
     (case lv_dir e of
        None \<Rightarrow> None
      | Some names \<Rightarrow>
          map_option (copy_str len)
            (find (\<lambda>d. case read_file e (chip_node d @ ''/compatible'') 128 of
                         None \<Rightarrow> False
                       | Some s \<Rightarrow> s \<noteq> [] \<and> cstr s = ''esp,esp32s31-pinctrl'') names))"

text \<open>The board, and the error of reading its lines.\<close>

definition live_board :: "live_env \<Rightarrow> snap_board \<Rightarrow> errno option \<times> snap_board" where
  "live_board e b =
     (let b = (case read_file e ''/proc/device-tree/compatible'' 64 of None \<Rightarrow> b | Some s \<Rightarrow> b\<lparr>bd_compatible := cstr s\<rparr>);
          b = (case read_file e ''/proc/device-tree/model'' 96 of None \<Rightarrow> b | Some s \<Rightarrow> b\<lparr>bd_model := cstr s\<rparr>);
          b = b\<lparr>bd_hdr := board_header (bd_compatible b)\<rparr>
      in case find_chip e 64 of
           None \<Rightarrow> (Some ENOENT, b)
         | Some chip \<Rightarrow>
             let b = read_reserved e (chip_node chip) (read_names e (chip_node chip) b)
             in case read_used e chip b of
                  Inl err \<Rightarrow> (Some err, b)
                | Inr b \<Rightarrow> (None, b\<lparr>bd_have_lines := True\<rparr>))"

section \<open>The start\<close>

text \<open>The registers: the text, and with success how they are reached, they and the board.\<close>

definition open_registers ::
    "(errno \<Rightarrow> string) \<Rightarrow> (string \<Rightarrow> errno + string) \<Rightarrow> live_env \<Rightarrow> string option \<Rightarrow> string \<times> (backend \<times> regs \<times> snap_board) option" where
  "open_registers strerror files e regs_file =
     (case regs_file of
        Some f \<Rightarrow>
          (case snapshot_load (files f) board_init of
             Inl err \<Rightarrow> (''Failed to read '' @ f @ '' - '' @ strerror err @ nl, None)
           | Inr (r, b) \<Rightarrow> ([], Some (snap_backend, r, b)))
      | None \<Rightarrow>
          (case live_open e of
             Some err \<Rightarrow>
               ((if err = EACCES \<and> \<not> lv_root e then ''Must be root''
                 else if err = ENOENT then ''No /dev/esp32s31-gpiomem: the kernel needs CONFIG_PINCTRL_ESP32S31_GPIOMEM''
                 else if err = ENOSYS then ''This build has no hardware access: use --regs FILE''
                 else ''Failed to map the registers - '' @ strerror err) @ nl, None)
           | None \<Rightarrow>
               (case live_board e board_init of
                  (err, b) \<Rightarrow>
                    (case err of None \<Rightarrow> []
                     | Some err \<Rightarrow> ''Cannot read the GPIO lines of the pin controller - '' @ strerror err @ nl,
                     Some (live_backend (lv_dev e), lv_regs e, b)))))"

record tool_opts =
  op_echo :: bool
  op_force :: bool
  op_pin :: bool
  op_verbose :: bool
  op_regs :: "string option"

datatype opt_result = Opt_run tool_opts "string list" | Opt_help | Opt_bad string

fun parse_opts :: "string list \<Rightarrow> tool_opts \<Rightarrow> opt_result" where
  "parse_opts [] opts = Opt_run opts []"
| "parse_opts (arg # argv) opts =
     (if arg = [] \<or> hd arg \<noteq> CHR ''-'' then Opt_run opts (arg # argv)
      else if arg = ''-e'' then parse_opts argv (opts\<lparr>op_echo := True\<rparr>)
      else if arg = ''-f'' then parse_opts argv (opts\<lparr>op_force := True\<rparr>)
      else if arg = ''-h'' then Opt_help
      else if arg = ''-p'' then parse_opts argv (opts\<lparr>op_pin := True\<rparr>)
      else if arg = ''-v'' then parse_opts argv (opts\<lparr>op_verbose := True\<rparr>)
      else case argv of
             [] \<Rightarrow> Opt_bad arg
           | file # rest \<Rightarrow> if arg = ''--regs'' then parse_opts rest (opts\<lparr>op_regs := Some file\<rparr>) else Opt_bad arg)"

definition tool_of :: "tool_opts \<Rightarrow> backend \<Rightarrow> snap_board \<Rightarrow> tool" where
  "tool_of opts be b =
     \<lparr>t_pin_mode = op_pin opts, t_verbose = op_verbose opts, t_force = op_force opts, t_board = board.truncate b, t_be = be\<rparr>"

text \<open>What the tool does: the help, an error with status 1, or a text with status 0 (the
  snapshot), or a command after the text of the start.\<close>

datatype outcome = Out_usage | Out_error string | Out_dump string | Out_run string run_state

definition tool_main :: "(errno \<Rightarrow> string) \<Rightarrow> (string \<Rightarrow> errno + string) \<Rightarrow> live_env \<Rightarrow> string list \<Rightarrow> outcome" where
  "tool_main strerror files e argv =
     (case parse_opts argv \<lparr>op_echo = False, op_force = False, op_pin = False, op_verbose = False, op_regs = None\<rparr> of
        Opt_help \<Rightarrow> Out_usage
      | Opt_bad arg \<Rightarrow> Out_error (''Unknown option '' @ [CHR 0x27] @ arg @ [CHR 0x27] @ '' - try \"pinctrl help\"'' @ nl)
      | Opt_run opts argv \<Rightarrow>
          if argv \<noteq> [] \<and> hd argv = ''help'' then Out_usage
          else case open_registers strerror files e (op_regs opts) of
                 (msg, None) \<Rightarrow> Out_error msg
               | (msg, Some (be, r, b)) \<Rightarrow>
                   if argv \<noteq> [] \<and> hd argv = ''dump'' then Out_dump (msg @ snapshot_dump be r b)
                   else case pin_main (tool_of opts be b) (op_echo opts) argv r of
                          Inl err \<Rightarrow> Out_error (msg @ err)
                        | Inr s \<Rightarrow> Out_run msg s)"

section \<open>The board of the device tree\<close>

lemma bit_or_one: "k < 64 \<Longrightarrow> bit (w OR push_bit j 1) k \<longleftrightarrow> bit w k \<or> k = j" for w :: u64
  by (simp only: bit_or_iff bit_push_bit_iff bit_1_iff) (auto simp: possible_bit_def)

lemma reserve_range_bit:
  assumes "gp < 64"
  shows "bit (reserve_range first count w) gp \<longleftrightarrow> bit w gp \<or> gp < NPINS \<and> first \<le> gp \<and> gp < first + count"
proof -
  have f: "bit (foldl (\<lambda>w gp. w OR push_bit gp 1) w xs) gp \<longleftrightarrow> bit w gp \<or> gp \<in> set xs" for xs and w :: u64
    by (induction xs arbitrary: w) (simp_all only: foldl.simps bit_or_one [OF assms] list.set insert_iff disj_assoc disj_commute disj_left_commute empty_iff simp_thms)
  show ?thesis
    unfolding reserve_range_def f by auto
qed

text \<open>A line is reserved when a pair of cells, a first line and a count, covers it; a rest
  of less than a pair is ignored.\<close>

lemma reserved_from_bit:
  assumes "gp < 64"
  shows "bit (reserved_from buf w) gp \<longleftrightarrow> bit w gp \<or>
    gp < NPINS \<and> (\<exists>k < length buf div 8. be32 (drop (8 * k) buf) \<le> gp \<and> gp < be32 (drop (8 * k) buf) + be32 (drop (8 * k + 4) buf))"
proof (induction buf w rule: reserved_from.induct)
  case (1 buf w)
  let ?P = "\<lambda>buf k. be32 (drop (8 * k) buf) \<le> gp \<and> gp < be32 (drop (8 * k) buf) + be32 (drop (8 * k + 4) buf)"
  show ?case
  proof (cases "length buf < 8")
    case True
    then show ?thesis
      by (simp add: reserved_from.simps)
  next
    case False
    then have d: "length buf div 8 = Suc (length (drop 8 buf) div 8)"
      by simp
    have "(\<exists>k < length buf div 8. ?P buf k) \<longleftrightarrow> ?P buf 0 \<or> (\<exists>k < length (drop 8 buf) div 8. ?P (drop 8 buf) k)"
      unfolding d Ex_less_Suc2 by (simp add: algebra_simps)
    then show ?thesis
      using 1 [OF False] reserve_range_bit [OF assms] False by (subst reserved_from.simps) auto
  qed
qed

lemma names_from_list:
  assumes "\<forall>x \<in> set xs. CHR 0x00 \<notin> set x" and "gp + length xs \<le> NPINS" "length names = NPINS"
  shows "names_from gp (concat (map (\<lambda>x. x @ [CHR 0x00]) xs)) names =
    take gp names @ map (copy_str NAME_LEN) xs @ drop (gp + length xs) names"
  using assms
proof (induction xs arbitrary: gp names)
  case Nil
  then show ?case
    by (simp add: names_from.simps)
next
  case (Cons x xs)
  let ?rest = "concat (map (\<lambda>x. x @ [CHR 0x00]) xs)"
  have "cstr (x @ CHR 0x00 # ?rest) = x"
    unfolding cstr_def by (rule takeWhile_stops) (use Cons(2) in auto)
  then have "names_from gp (x @ CHR 0x00 # ?rest) names = names_from (gp + 1) ?rest (names[gp := copy_str NAME_LEN x])"
    using Cons(3) by (subst names_from.simps) simp
  moreover have "take (gp + 1) (names[gp := y]) = take gp names @ [y]" for y
    using Cons(3,4) by (simp add: take_Suc_conv_app_nth)
  ultimately show ?case
    using Cons(1) [of "gp + 1" "names[gp := copy_str NAME_LEN x]"] Cons(2-4) by simp
qed

lemma read_used_bits:
  assumes "read_used e chip b = Inr b'" and "lv_lines e (''/dev/'' @ take 64 chip) = Inr info" and "gp < 64"
  shows "bit (bd_used b') gp \<longleftrightarrow> bit (bd_used b) gp \<or> gp < NPINS \<and> info gp = Some True"
proof -
  have f: "bit (foldl (\<lambda>w gp. if info gp = Some True then w OR push_bit gp 1 else w) w xs) gp \<longleftrightarrow>
      bit w gp \<or> gp \<in> set xs \<and> info gp = Some True" for xs and w :: u64
  proof (induction xs arbitrary: w)
    case (Cons x xs)
    show ?case
      unfolding foldl.simps Cons using bit_or_one [OF assms(3), of w x] by (simp del: push_bit_of_1) blast
  qed simp
  have "b' = b\<lparr>bd_used := foldl (\<lambda>w gp. if info gp = Some True then w OR push_bit gp 1 else w) (bd_used b) [0..<NPINS]\<rparr>"
    using assms(1) unfolding read_used_def assms(2) sum.case by (simp only: sum.inject)
  then have u: "bd_used b' = foldl (\<lambda>w gp. if info gp = Some True then w OR push_bit gp 1 else w) (bd_used b) [0..<NPINS]"
    by (simp del: upt_rec_numeral)
  show ?thesis
    unfolding u f set_upt by simp
qed

section \<open>Options\<close>

lemma op_regs_last:
  "opts\<lparr>op_regs := x, op_echo := y\<rparr> = opts\<lparr>op_echo := y, op_regs := x\<rparr>" "opts\<lparr>op_regs := x, op_force := y\<rparr> = opts\<lparr>op_force := y, op_regs := x\<rparr>"
  "opts\<lparr>op_regs := x, op_pin := y\<rparr> = opts\<lparr>op_pin := y, op_regs := x\<rparr>" "opts\<lparr>op_regs := x, op_verbose := y\<rparr> = opts\<lparr>op_verbose := y, op_regs := x\<rparr>"
  by (cases opts; simp)+

lemma parse_opts_regs:
  "parse_opts argv opts = Opt_run o1 args \<Longrightarrow> op_regs o1 = None \<Longrightarrow>
   op_regs opts = None \<and> parse_opts argv (opts\<lparr>op_regs := Some f\<rparr>) = Opt_run (o1\<lparr>op_regs := Some f\<rparr>) args"
proof (induction argv opts rule: parse_opts.induct)
  case (2 arg argv opts)
  consider "arg = [] \<or> hd arg \<noteq> CHR ''-''" | "arg = ''-e''" | "arg = ''-f''" | "arg = ''-h''" | "arg = ''-p''" | "arg = ''-v''"
    | "arg \<noteq> []" "hd arg = CHR ''-''" "arg \<notin> {''-e'', ''-f'', ''-h'', ''-p'', ''-v''}"
    by blast
  then show ?case
  proof cases
    case 1
    then show ?thesis
      using "2.prems" by auto
  next
    case 2
    then show ?thesis
      using "2.IH"(1) "2.prems" by (simp add: op_regs_last)
  next
    case 3
    then show ?thesis
      using "2.IH"(2) "2.prems" by (simp add: op_regs_last)
  next
    case 4
    then show ?thesis
      using "2.prems" by auto
  next
    case 5
    then show ?thesis
      using "2.IH"(3) "2.prems" by (simp add: op_regs_last)
  next
    case 6
    then show ?thesis
      using "2.IH"(4) "2.prems" by (simp add: op_regs_last)
  next
    case 7
    then show ?thesis
      using "2.IH"(5) "2.prems" by (auto split: list.splits if_splits)
  qed
qed simp

lemma parse_opts_bad: "arg \<noteq> [] \<Longrightarrow> hd arg = CHR ''-'' \<Longrightarrow> arg \<notin> {''-e'', ''-f'', ''-h'', ''-p'', ''-v'', ''--regs''} \<Longrightarrow>
   parse_opts (arg # argv) opts = Opt_bad arg"
  by (simp split: list.split)

section \<open>Reading a snapshot\<close>

lemma be_fields:
  "t_pin_mode (t\<lparr>t_be := x\<rparr>) = t_pin_mode t" "t_board (t\<lparr>t_be := x\<rparr>) = t_board t" "t_verbose (t\<lparr>t_be := x\<rparr>) = t_verbose t"
  "t_force (t\<lparr>t_be := x\<rparr>) = t_force t"
  by simp_all

lemma parse_named_be: "parse_named (t\<lparr>t_be := x\<rparr>) = parse_named t"
  by (intro ext) (unfold parse_named_def be_fields, rule refl)

lemma parse_item_be: "parse_item (t\<lparr>t_be := x\<rparr>) = parse_item t"
  unfolding parse_item_def parse_named_be ..

lemma parse_end_be: "parse_end (t\<lparr>t_be := x\<rparr>) = parse_end t"
  unfolding parse_end_def parse_item_be ..

lemma parse_list_be: "parse_list (t\<lparr>t_be := x\<rparr>) mx p bm = parse_list t mx p bm"
  by (induction t mx p bm rule: parse_list.induct)
    (subst (1 2) parse_list.simps, simp add: parse_item_be parse_end_be Let_def split: item.split range_end.split)

lemma num_to_gpio_be: "num_to_gpio (t\<lparr>t_be := x\<rparr>) = num_to_gpio t" "display_name (t\<lparr>t_be := x\<rparr>) = display_name t"
  unfolding num_to_gpio_def display_name_def be_fields by (rule refl)+

text \<open>All that the reading commands take from the registers is \<open>pin_get\<close>.\<close>

definition reads_same :: "backend \<Rightarrow> regs \<Rightarrow> backend \<Rightarrow> regs \<Rightarrow> bool" where
  "reads_same be r be' r' \<longleftrightarrow> (\<forall>gp < NPINS. pin_get be' r' gp = pin_get be r gp)"

lemma reads_same_level: "reads_same be r be' r' \<Longrightarrow> gp < NPINS \<Longrightarrow> pin_level r' gp = pin_level r gp"
proof -
  have "st_level (pin_get be r gp) = pin_level r gp" for be r
    by (simp add: pin_get_def Let_def split: prod.split)
  then show "reads_same be r be' r' \<Longrightarrow> gp < NPINS \<Longrightarrow> pin_level r' gp = pin_level r gp"
    by (metis reads_same_def)
qed

lemma pins_bound:
  assumes "bd_hdr (t_board t) = board_header c" and "num_to_gpio t num = Pad_gpio gp"
  shows "gp < NPINS"
  using assms pad_in_header(2) [of c] by (auto simp: num_to_gpio_def pin_exists_def hdr_pad_gpio_def split: if_splits option.splits)

lemma get_same:
  assumes "bd_hdr (t_board t) = board_header c" and "reads_same (t_be t) r be' r'"
  shows "do_gpio_get (t\<lparr>t_be := be'\<rparr>) r' num = do_gpio_get t r num" "do_gpio_level (t\<lparr>t_be := be'\<rparr>) r' num = do_gpio_level t r num"
proof -
  show "do_gpio_get (t\<lparr>t_be := be'\<rparr>) r' num = do_gpio_get t r num"
    using pins_bound [OF assms(1), of num] assms(2)
    by (simp add: do_gpio_get_def num_to_gpio_be reads_same_def split: pad.split)
  show "do_gpio_level (t\<lparr>t_be := be'\<rparr>) r' num = do_gpio_level t r num"
    using pins_bound [OF assms(1), of num] reads_same_level [OF assms(2)]
    by (simp add: do_gpio_level_def num_to_gpio_be split: pad.split)
qed

lemma run_pin_same:
  assumes "bd_hdr (t_board t) = board_header h" and "reads_same (t_be t) r be' r'" and "c \<noteq> Cmd_set" and "rs_regs s = r"
  shows "run_pin (t\<lparr>t_be := be'\<rparr>) c ps num (s\<lparr>rs_regs := r'\<rparr>) = (run_pin t c ps num s)\<lparr>rs_regs := r'\<rparr>"
    and "rs_regs (run_pin t c ps num s) = r"
  using get_same [OF assms(1,2), of num] assms(3,4)
  by (cases c; simp add: run_pin_def num_to_gpio_be print_gpio_alts_info_def do_gpio_poll_add_def split: pad.split)+

lemma run_fold_same:
  assumes "bd_hdr (t_board t) = board_header h" and "reads_same (t_be t) r be' r'" and "c \<noteq> Cmd_set"
  shows "rs_regs s = r \<Longrightarrow> fold (run_pin (t\<lparr>t_be := be'\<rparr>) c ps) pins (s\<lparr>rs_regs := r'\<rparr>) = (fold (run_pin t c ps) pins s)\<lparr>rs_regs := r'\<rparr>"
  by (induction pins arbitrary: s) (simp_all add: run_pin_same [OF assms])

lemma run_cmd_same:
  assumes "bd_hdr (t_board t) = board_header h" and "reads_same (t_be t) r be' r'" and "c \<noteq> Cmd_set"
  shows "run_cmd (t\<lparr>t_be := be'\<rparr>) echo c ps bm r' = (run_cmd t echo c ps bm r)\<lparr>rs_regs := r'\<rparr>"
  using run_fold_same [OF assms, of "\<lparr>rs_ret = 0, rs_out = [], rs_regs = r, rs_first = True, rs_polls = []\<rparr>"] assms(3)
  by (simp add: run_cmd_def Let_def)

lemma pin_parse_be: "pin_parse (t\<lparr>t_be := x\<rparr>) argv = pin_parse t argv"
  unfolding pin_parse_def be_fields parse_list_be ..

text \<open>The arguments mean a command that sets no pin.\<close>

definition only_reads :: "tool \<Rightarrow> string list \<Rightarrow> bool" where
  "only_reads t argv \<longleftrightarrow> (\<forall>m c ps bm. pin_parse (t\<lparr>t_pin_mode := m\<rparr>) argv = Inr (c, ps, bm) \<longrightarrow> c \<noteq> Cmd_set)"

lemma pin_main_same:
  assumes "bd_hdr (t_board t) = board_header h" and "reads_same (t_be t) r be' r'" and "only_reads t argv"
  shows "pin_main (t\<lparr>t_be := be'\<rparr>) echo argv r' = map_sum id (\<lambda>s. s\<lparr>rs_regs := r'\<rparr>) (pin_main t echo argv r)"
proof -
  let ?off = "t_pin_mode t \<and> bd_hdr (t_board t) = None"
  define u where "u = (if ?off then t\<lparr>t_pin_mode := False\<rparr> else t)"
  have t: "(if ?off then (t\<lparr>t_be := be'\<rparr>)\<lparr>t_pin_mode := False\<rparr> else t\<lparr>t_be := be'\<rparr>) = u\<lparr>t_be := be'\<rparr>"
    by (simp add: u_def)
  have u: "bd_hdr (t_board u) = board_header h" "reads_same (t_be u) r be' r'"
    using assms(1,2) by (simp_all add: u_def)
  have c: "c \<noteq> Cmd_set" if "pin_parse u argv = Inr (c, ps, bm)" for c ps bm
  proof -
    have "u = t\<lparr>t_pin_mode := t_pin_mode u\<rparr>"
      by (simp add: u_def)
    then show ?thesis
      using assms(3) that by (metis only_reads_def)
  qed
  show ?thesis
    unfolding pin_main_def Let_def be_fields t pin_parse_be u_def [symmetric]
    by (auto simp: run_cmd_same [OF u] dest: c split: sum.split)
qed

lemma only_reads_cmd:
  assumes "argv \<noteq> []" and "hd argv \<in> {''get'', ''lev'', ''level'', ''funcs''}"
  shows "only_reads t argv"
proof -
  obtain c where c: "cmd_of (hd argv) = Some c" "c \<noteq> Cmd_set"
    using assms(2) by (auto simp: cmd_of_def)
  then have g: "(if argv = [] then None else cmd_of (hd argv)) = Some c"
    using assms(1) by simp
  have fin: "(case parse_set_args as ps of Inr err \<Rightarrow> Inl err | Inl ps \<Rightarrow> Inr (c, ps, bm)) = Inr (c', ps', bm') \<Longrightarrow> c' = c" for as ps bm c' ps' bm'
    by (simp split: sum.splits)
  show ?thesis
    unfolding only_reads_def pin_parse_def Let_def g option.case
    by (intro allI impI) (use c(2) in \<open>auto dest!: fin split: list.splits list_result.splits if_splits\<close>)
qed

lemma names_from_ok:
  assumes "length names = NPINS" and "\<forall>x \<in> set names. length x < NAME_LEN"
  shows "length (names_from gp s names) = NPINS \<and> (\<forall>x \<in> set (names_from gp s names). length x < NAME_LEN)"
  using assms
proof (induction gp s names rule: names_from.induct)
  case (1 gp s names)
  show ?case
  proof (cases "s = [] \<or> gp \<ge> NPINS")
    case True
    then show ?thesis
      using 1(2,3) by (simp add: names_from.simps)
  next
    case False
    have "\<forall>x \<in> set (names[gp := copy_str NAME_LEN (cstr s)]). length x < NAME_LEN"
      using 1(3) set_update_subset_insert [of names gp "copy_str NAME_LEN (cstr s)"] by (fastforce simp: copy_str_def)
    then show ?thesis
      using 1(1) [OF False] 1(2) False by (subst (1 2) names_from.simps) simp
  qed
qed

lemma cstr_file: "read_file e path len = Some s \<Longrightarrow> 0 < len \<Longrightarrow> length (cstr s) < len"
  unfolding read_file_def cstr_def
  by (auto intro: le_less_trans [OF length_takeWhile_le])

definition text_ok :: "snap_board \<Rightarrow> bool" where
  "text_ok b \<longleftrightarrow> (\<forall>x \<in> set (bd_names b). CHR '','' \<notin> set x \<and> CHR 0x0A \<notin> set x) \<and>
     CHR 0x0A \<notin> set (bd_compatible b) \<and> CHR 0x0A \<notin> set (bd_model b)"

text \<open>A board as the hardware gives it: its strings fit their arrays, its header is that of
  its name, and the lines are known unless there was an error.\<close>

lemma live_board_ok:
  assumes "live_board e board_init = (err, b)"
  shows "text_ok b \<Longrightarrow> snap_board_ok b" "bd_hdr b = board_header (bd_compatible b)" "err = None \<Longrightarrow> bd_have_lines b"
proof -
  define b1 where "b1 = (case read_file e ''/proc/device-tree/compatible'' 64 of None \<Rightarrow> board_init | Some s \<Rightarrow> board_init\<lparr>bd_compatible := cstr s\<rparr>)"
  define b2 where "b2 = (case read_file e ''/proc/device-tree/model'' 96 of None \<Rightarrow> b1 | Some s \<Rightarrow> b1\<lparr>bd_model := cstr s\<rparr>)"
  define b3 where "b3 = b2\<lparr>bd_hdr := board_header (bd_compatible b2)\<rparr>"
  let ?fits = "\<lambda>b. length (bd_names b) = NPINS \<and> (\<forall>x \<in> set (bd_names b). length x < NAME_LEN) \<and> length (bd_compatible b) < 64 \<and> length (bd_model b) < 96"
  have "?fits board_init"
    by (simp add: board_init_def)
  then have "?fits b1"
    using cstr_file [of e "''/proc/device-tree/compatible''" 64] by (simp add: b1_def split: option.split)
  then have "?fits b2"
    using cstr_file [of e "''/proc/device-tree/model''" 96] by (simp add: b2_def split: option.split)
  then have 3: "?fits b3" "bd_hdr b3 = board_header (bd_compatible b3)"
    by (simp_all add: b3_def)
  have 4: "?fits (read_reserved e n (read_names e n b3))" "bd_hdr (read_reserved e n (read_names e n b3)) = board_header (bd_compatible (read_reserved e n (read_names e n b3)))" for n
    using 3 names_from_ok [of "bd_names b3" 0] by (auto simp: read_reserved_def read_names_def split: option.split)
  have l: "live_board e board_init =
      (case find_chip e 64 of None \<Rightarrow> (Some ENOENT, b3)
       | Some chip \<Rightarrow> let b = read_reserved e (chip_node chip) (read_names e (chip_node chip) b3)
           in case read_used e chip b of Inl err \<Rightarrow> (Some err, b) | Inr b \<Rightarrow> (None, b\<lparr>bd_have_lines := True\<rparr>))"
    unfolding live_board_def Let_def b3_def b2_def b1_def ..
  have b: "?fits b \<and> bd_hdr b = board_header (bd_compatible b) \<and> (err = None \<longrightarrow> bd_have_lines b)"
    using assms 3 4 unfolding l Let_def read_used_def
    by (auto split: option.splits sum.splits simp del: upt_rec_numeral)
  then show "text_ok b \<Longrightarrow> snap_board_ok b" "bd_hdr b = board_header (bd_compatible b)" "err = None \<Longrightarrow> bd_have_lines b"
    by (auto simp: text_ok_def snap_board_ok_def)
qed

lemma tool_of_snapshot:
  assumes "bd_hdr b = board_header (bd_compatible b)" and "bd_have_lines b"
  shows "tool_of opts snap_backend (c\<lparr>bd_compatible := bd_compatible b, bd_model := bd_model b, bd_names := bd_names b, bd_reserved := bd_reserved b,
      bd_used := bd_used b, bd_have_lines := True, bd_hdr := board_header (bd_compatible b)\<rparr>) = (tool_of opts be b)\<lparr>t_be := snap_backend\<rparr>"
  using assms by (simp add: tool_of_def board.truncate_def)

text \<open>What the user sees: the exit status and the text.\<close>

fun out_text :: "outcome \<Rightarrow> (nat \<times> string) option" where
  "out_text Out_usage = None"
| "out_text (Out_error m) = Some (1, m)"
| "out_text (Out_dump m) = Some (0, m)"
| "out_text (Out_run m s) = Some (rs_ret s, m @ rs_out s)"

abbreviation (input) no_opts :: tool_opts where
  "no_opts \<equiv> \<lparr>op_echo = False, op_force = False, op_pin = False, op_verbose = False, op_regs = None\<rparr>"

text \<open>C27: The tool on a snapshot shows what it showed on the hardware.  When the board could
  be read and its strings hold no comma and no line feed, \<open>dump\<close> writes a text such that
  every command that only reads, with any options and arguments, has the same output and
  status with \<open>--regs\<close> and this text as on the hardware, on any machine.\<close>

theorem snapshot_shows_hardware:
  assumes "live_open e = None" and "live_board e board_init = (None, b)" and "text_ok b"
    and "tool_main strerror files e [''dump''] = Out_dump text" and "files' f = Inr text"
    and "parse_opts argv no_opts = Opt_run opts args" and "op_regs opts = None"
    and "args \<noteq> []" and "hd args \<in> {''get'', ''lev'', ''level'', ''funcs''}"
  shows "out_text (tool_main strerror files' e' (''--regs'' # f # argv)) = out_text (tool_main strerror files e argv)"
proof -
  let ?be = "live_backend (lv_dev e)" and ?r = "lv_regs e"
  let ?t = "tool_of opts ?be b"
  note b = live_board_ok [OF assms(2)]
  have o: "open_registers strerror files e None = ([], Some (?be, ?r, b))"
    by (simp add: open_registers_def assms(1,2))
  have tx: "text = snapshot_dump ?be ?r b"
    using assms(4) by (simp add: tool_main_def o)
  define c where "c = board_init\<lparr>bd_compatible := bd_compatible b, bd_model := bd_model b, bd_names := bd_names b, bd_reserved := bd_reserved b,
      bd_used := bd_used b, bd_have_lines := True, bd_hdr := board_header (bd_compatible b)\<rparr>"
  have "length (bd_names board_init) = NPINS"
    by (simp add: board_init_def)
  then have c: "snapshot_load (files' f) board_init = Inr (snap_regs ?be ?r, c)"
    unfolding assms(5) tx c_def by (rule load_dump [OF b(1) [OF assms(3)]])
  have tc: "tool_of opts' snap_backend c = (tool_of opts' ?be b)\<lparr>t_be := snap_backend\<rparr>" for opts'
    unfolding c_def by (rule tool_of_snapshot [OF b(2) b(3) [OF refl]])
  have os: "open_registers strerror files' e' (Some f) = ([], Some (snap_backend, snap_regs ?be ?r, c))"
    by (simp add: open_registers_def c)
  have p: "parse_opts (''--regs'' # f # argv) no_opts = Opt_run (opts\<lparr>op_regs := Some f\<rparr>) args"
    using parse_opts_regs [OF assms(6,7), of f] by simp
  have "bd_hdr (t_board ?t) = board_header (bd_compatible b)" "reads_same (t_be ?t) ?r snap_backend (snap_regs ?be ?r)"
    by (simp_all add: tool_of_def board.truncate_def b(2) reads_same_def snap_regs_get)
  note m = pin_main_same [OF this only_reads_cmd [OF assms(8,9)], of "op_echo opts"]
  have t: "tool_of (opts\<lparr>op_regs := Some f\<rparr>) snap_backend c = ?t\<lparr>t_be := snap_backend\<rparr>"
    unfolding tc by (simp add: tool_of_def)
  have h: "hd args \<noteq> ''help''" "hd args \<noteq> ''dump''"
    using assms(9) by auto
  have "tool_main strerror files' e' (''--regs'' # f # argv) =
      (case map_sum id (\<lambda>s. s\<lparr>rs_regs := snap_regs ?be ?r\<rparr>) (pin_main ?t (op_echo opts) args ?r) of Inl err \<Rightarrow> Out_error err | Inr s \<Rightarrow> Out_run [] s)"
    using h unfolding tool_main_def p by (simp add: os t m split: sum.split)
  moreover have "tool_main strerror files e argv =
      (case pin_main ?t (op_echo opts) args ?r of Inl err \<Rightarrow> Out_error err | Inr s \<Rightarrow> Out_run [] s)"
    using h unfolding tool_main_def assms(6) by (simp add: o assms(7) split: sum.split)
  ultimately show ?thesis
    by (simp split: sum.split)
qed

definition demo_env :: live_env where
  "demo_env = \<lparr>lv_fd = None, lv_map = (\<lambda>_. None), lv_regs = \<lparr>iomux = (\<lambda>_. 0), gpio = (\<lambda>_. 0), cnnt = 0\<rparr>, lv_dev = (\<lambda>off v g. g),
     lv_file = (\<lambda>path. if path = ''/sys/bus/gpio/devices/gpiochip0/of_node/compatible'' then Some ''esp,esp32s31-pinctrl'' else None),
     lv_dir = Some [''gpiochip0''], lv_lines = (\<lambda>_. Inr (\<lambda>_. None)), lv_root = True\<rparr>"

theorem snapshot_shows_hardware_witness:
  "\<exists>text. tool_main (\<lambda>_. []) (\<lambda>_. Inl ENOENT) demo_env [''dump''] = Out_dump text \<and>
     out_text (tool_main (\<lambda>_. []) (\<lambda>_. Inr text) demo_env [''--regs'', ''regs.txt'', ''-v'', ''get'', ''47'']) =
     out_text (tool_main (\<lambda>_. []) (\<lambda>_. Inl ENOENT) demo_env [''-v'', ''get'', ''47''])"
proof -
  have f: "foldl (\<lambda>w gp. w) w xs = w" for w :: u64 and xs
    by (induction xs) simp_all
  have b: "live_board demo_env board_init = (None, board_init\<lparr>bd_have_lines := True\<rparr>)"
    by (simp add: live_board_def demo_env_def find_chip_def read_file_def chip_node_def cstr_def read_names_def read_reserved_def read_used_def
        copy_str_def board_header_def headers_def f Let_def board_init_def del: upt_rec_numeral)
  have o: "live_open demo_env = None"
    by (simp add: live_open_def demo_env_def)
  obtain "text" where t: "tool_main (\<lambda>_. []) (\<lambda>_. Inl ENOENT) demo_env [''dump''] = Out_dump text"
    using that by (simp add: tool_main_def open_registers_def o b)
  have ok: "text_ok (board_init\<lparr>bd_have_lines := True\<rparr>)"
    by (simp add: text_ok_def board_init_def)
  show ?thesis
    using t snapshot_shows_hardware [OF o b ok t, of "\<lambda>_. Inr text" "''regs.txt''" "[''-v'', ''get'', ''47'']" "no_opts\<lparr>op_verbose := True\<rparr>" "[''get'', ''47'']" demo_env]
    by fastforce
qed

end
