(* ===== verification/Shm_Ring.thy ===== *)
theory Shm_Ring
  imports Prelude
begin

text \<open>
  The shared-memory block of the ESP-Hosted transport
  (\<open>shared/esp32s31-hosted-shm.h\<close>) and the byte rings in it.  The block is a
  byte memory; the control words are 32-bit little-endian words in it.  Both
  harts have their own copy of the ring code: \<open>esp_shm.c\<close> (prefix \<open>lx_\<close> where
  the names clash) copies words where it can, \<open>shm_slave_api.c\<close> (prefix
  \<open>fw_\<close>) uses \<open>memcpy\<close>.

  The abstraction of a ring is the byte string from tail to head
  (\<open>ring_linear\<close>) and its parse into frames (\<open>parse_records\<close>).  The lemmas show
  that the split copies read and write that byte string, that adding a record
  appends to it and changes no unread byte, and that taking one drops it.
\<close>

section \<open>Layout\<close>

abbreviation (input) ESP_SHM_MAGIC :: u32 where "ESP_SHM_MAGIC \<equiv> 0x4d485345"
abbreviation (input) ESP_SHM_VERSION :: u32 where "ESP_SHM_VERSION \<equiv> 2"
abbreviation (input) ESP_SHM_SIZE :: nat where "ESP_SHM_SIZE \<equiv> 0xd000"
abbreviation (input) ESP_SHM_CTRL :: nat where "ESP_SHM_CTRL \<equiv> 0x0"
abbreviation (input) ESP_SHM_MAGIC_OFF :: nat where "ESP_SHM_MAGIC_OFF \<equiv> 0x0"
abbreviation (input) ESP_SHM_VERSION_OFF :: nat where "ESP_SHM_VERSION_OFF \<equiv> 0x4"
abbreviation (input) ESP_SHM_HOST_REQ_OFF :: nat where "ESP_SHM_HOST_REQ_OFF \<equiv> 0x8"
abbreviation (input) ESP_SHM_CACHE_LOCK_OFF :: nat where "ESP_SHM_CACHE_LOCK_OFF \<equiv> 0xc"
abbreviation (input) ESP_SHM_HEAD_OFF :: nat where "ESP_SHM_HEAD_OFF \<equiv> 0x0"
abbreviation (input) ESP_SHM_TAIL_OFF :: nat where "ESP_SHM_TAIL_OFF \<equiv> 0x40"
abbreviation (input) ESP_SHM_WAIT_OFF :: nat where "ESP_SHM_WAIT_OFF \<equiv> 0x80"
abbreviation (input) ESP_SHM_REQ_READY_REPLAY :: u32 where "ESP_SHM_REQ_READY_REPLAY \<equiv> 1"
abbreviation (input) ESP_SHM_REQ_POWEROFF :: u32 where "ESP_SHM_REQ_POWEROFF \<equiv> 2"

record shm_ring =
  r_ctrl :: nat
  r_data :: nat
  r_size :: u32

definition to_host :: shm_ring where
  "to_host = \<lparr>r_ctrl = 0x100, r_data = 0x5000, r_size = 0x8000\<rparr>"

definition to_fw :: shm_ring where
  "to_fw = \<lparr>r_ctrl = 0x200, r_data = 0x1000, r_size = 0x4000\<rparr>"

definition ESP_SHM_RECORD_LEN :: "u32 \<Rightarrow> u32" where
  "ESP_SHM_RECORD_LEN frame_len = 4 + ((frame_len + 3) AND NOT 3)"

definition rec_len :: "nat \<Rightarrow> nat" where
  "rec_len n = 4 + (n + 3) div 4 * 4"

lemma unat_RECORD_LEN:
  assumes "unat len + 7 < 2 ^ 32"
  shows "unat (ESP_SHM_RECORD_LEN len) = rec_len (unat len)"
proof -
  have m: "(3::u32) = mask 2"
    by (simp add: mask_eq_decr_exp)
  have a: "unat (len + 3) = unat len + 3"
    using assms unat_add_eq_iff [of len 3] by simp
  have b: "unat ((len + 3) AND NOT 3) = (unat len + 3) div 4 * 4"
    using unat_and_not_mask [of "len + 3" 2] unfolding m [symmetric] a by simp
  have "unat (4 + ((len + 3) AND NOT 3) :: u32) = unat (4 :: u32) + unat ((len + 3) AND NOT 3)"
    by (rule unat_add_eq_iff) (use assms b in simp)
  then show ?thesis
    unfolding ESP_SHM_RECORD_LEN_def rec_len_def b by simp
qed

lemma RECORD_LEN_of_nat:
  assumes "n + 7 < 2 ^ 32"
  shows "unat (ESP_SHM_RECORD_LEN (of_nat n)) = rec_len n"
  using assms unat_RECORD_LEN [of "of_nat n"] by (simp add: unat_of_nat)

lemma rec_len_bounds: "n + 4 \<le> rec_len n" "rec_len n \<le> n + 7" "4 dvd rec_len n"
  by (simp_all add: rec_len_def)

lemma rec_len_mono: "m \<le> n \<Longrightarrow> rec_len m \<le> rec_len n"
  by (simp add: rec_len_def div_le_mono)

section \<open>Copies between a buffer and the block\<close>

text \<open>\<open>src\<close> of the copies to the block is the buffer's bytes with its address,
  whose alignment decides between the word loop and \<open>memcpy_toio\<close>.\<close>

function raw_writel_loop :: "mem \<Rightarrow> nat \<Rightarrow> bytes \<Rightarrow> mem \<times> nat \<times> bytes" where
  "raw_writel_loop m dst src =
     (if length src \<ge> 4
      then raw_writel_loop (store32 m dst (get_le32 (take 4 src))) (dst + 4) (drop 4 src)
      else (m, dst, src))"
  by pat_completeness auto
termination
  by (relation "measure (\<lambda>(m, dst, src). length src)") auto

declare raw_writel_loop.simps [simp del]

definition shm_copy_to :: "mem \<Rightarrow> nat \<Rightarrow> nat \<Rightarrow> bytes \<Rightarrow> mem" where
  "shm_copy_to m dst src_addr src =
     (let (m, dst, src) = (if src_addr mod 4 = 0 then raw_writel_loop m dst src else (m, dst, src))
      in store_bytes m dst src)"

function raw_readl_loop :: "mem \<Rightarrow> nat \<Rightarrow> nat \<Rightarrow> bytes" where
  "raw_readl_loop m src len =
     (if len \<ge> 4 then put_le32 (load32 m src) @ raw_readl_loop m (src + 4) (len - 4)
      else load_bytes m src len)"
  by pat_completeness auto
termination
  by (relation "measure (\<lambda>(m, src, len). len)") auto

declare raw_readl_loop.simps [simp del]

definition shm_copy_from :: "mem \<Rightarrow> nat \<Rightarrow> nat \<Rightarrow> bytes" where
  "shm_copy_from m src len = raw_readl_loop m src len"

lemma raw_writel_loop_spec:
  "raw_writel_loop m dst src = (m', dst', src') \<Longrightarrow>
   store_bytes m' dst' src' = store_bytes m dst src"
proof (induction m dst src arbitrary: m' dst' src' rule: raw_writel_loop.induct)
  case (1 m dst src)
  show ?case
  proof (cases "length src \<ge> 4")
    case True
    then have "store_bytes m' dst' src' =
        store_bytes (store32 m dst (get_le32 (take 4 src))) (dst + 4) (drop 4 src)"
      using 1 raw_writel_loop.simps [of m dst src] by simp
    also have "\<dots> = store_bytes m dst (take 4 src @ drop 4 src)"
      using True store_bytes_append [of m dst "take 4 src" "drop 4 src"]
      by (simp add: store32_def)
    finally show ?thesis
      by simp
  next
    case False
    then show ?thesis
      using 1 raw_writel_loop.simps [of m dst src] by simp
  qed
qed

lemma shm_copy_to_spec [simp]: "shm_copy_to m dst a src = store_bytes m dst src"
  using raw_writel_loop_spec [of m dst src]
  by (auto simp: shm_copy_to_def split: prod.splits)

lemma shm_copy_from_spec [simp]: "shm_copy_from m src len = load_bytes m src len"
proof -
  have "raw_readl_loop m src len = load_bytes m src len"
  proof (induction m src len rule: raw_readl_loop.induct)
    case (1 m src len)
    show ?case
    proof (cases "len \<ge> 4")
      case True
      then have "load_bytes m src len = load_bytes m src 4 @ load_bytes m (src + 4) (len - 4)"
        using load_bytes_add [of m src 4 "len - 4"] by simp
      then show ?thesis
        using True 1 by (subst raw_readl_loop.simps) (simp add: load32_def)
    next
      case False
      then show ?thesis
        by (subst raw_readl_loop.simps) simp
    qed
  qed
  then show ?thesis
    by (simp add: shm_copy_from_def)
qed

section \<open>Ring copies\<close>

definition lx_ring_copy_in :: "mem \<Rightarrow> shm_ring \<Rightarrow> u32 \<Rightarrow> nat \<Rightarrow> bytes \<Rightarrow> mem" where
  "lx_ring_copy_in m r pos src_addr src =
     (let off = pos AND (r_size r - 1);
          first = min (length src) (unat (r_size r - off));
          m = shm_copy_to m (r_data r + unat off) src_addr (take first src)
      in shm_copy_to m (r_data r) (src_addr + first) (drop first src))"

definition lx_ring_copy_out :: "mem \<Rightarrow> shm_ring \<Rightarrow> u32 \<Rightarrow> nat \<Rightarrow> bytes" where
  "lx_ring_copy_out m r pos len =
     (let off = pos AND (r_size r - 1);
          first = min len (unat (r_size r - off))
      in shm_copy_from m (r_data r + unat off) first @ shm_copy_from m (r_data r) (len - first))"

definition fw_ring_copy_in :: "mem \<Rightarrow> shm_ring \<Rightarrow> u32 \<Rightarrow> bytes \<Rightarrow> mem" where
  "fw_ring_copy_in m r pos src =
     (let off = pos AND (r_size r - 1);
          first = (if length src < unat (r_size r - off) then length src else unat (r_size r - off));
          m = store_bytes m (r_data r + unat off) (take first src)
      in store_bytes m (r_data r) (drop first src))"

definition fw_ring_copy_out :: "mem \<Rightarrow> shm_ring \<Rightarrow> u32 \<Rightarrow> nat \<Rightarrow> bytes" where
  "fw_ring_copy_out m r pos len =
     (let off = pos AND (r_size r - 1);
          first = (if len < unat (r_size r - off) then len else unat (r_size r - off))
      in load_bytes m (r_data r + unat off) first @ load_bytes m (r_data r) (len - first))"

lemma lx_fw_copy_in [simp]: "lx_ring_copy_in m r pos a src = fw_ring_copy_in m r pos src"
  by (simp add: lx_ring_copy_in_def fw_ring_copy_in_def Let_def min_def)

lemma lx_fw_copy_out [simp]: "lx_ring_copy_out m r pos len = fw_ring_copy_out m r pos len"
  by (simp add: lx_ring_copy_out_def fw_ring_copy_out_def Let_def min_def)


section \<open>The byte string in a ring\<close>

definition ring_bytes :: "mem \<Rightarrow> shm_ring \<Rightarrow> nat \<Rightarrow> nat \<Rightarrow> bytes" where
  "ring_bytes m r p n = map (\<lambda>i. m (r_data r + (p + i) mod unat (r_size r))) [0..<n]"

definition ring_head :: "mem \<Rightarrow> shm_ring \<Rightarrow> u32" where
  "ring_head m r = load32 m (r_ctrl r + ESP_SHM_HEAD_OFF)"

definition ring_tail :: "mem \<Rightarrow> shm_ring \<Rightarrow> u32" where
  "ring_tail m r = load32 m (r_ctrl r + ESP_SHM_TAIL_OFF)"

definition ring_used :: "mem \<Rightarrow> shm_ring \<Rightarrow> nat" where
  "ring_used m r = unat (ring_head m r - ring_tail m r)"

definition ring_linear :: "mem \<Rightarrow> shm_ring \<Rightarrow> bytes" where
  "ring_linear m r = ring_bytes m r (unat (ring_tail m r)) (ring_used m r)"

lemma length_ring_bytes [simp, len_simps]: "length (ring_bytes m r p n) = n"
  by (simp add: ring_bytes_def)

lemma nth_ring_bytes [simp]:
  "i < n \<Longrightarrow> ring_bytes m r p n ! i = m (r_data r + (p + i) mod unat (r_size r))"
  by (simp add: ring_bytes_def)

lemma ring_bytes_add:
  "ring_bytes m r p (n + k) = ring_bytes m r p n @ ring_bytes m r (p + n) k"
  by (rule nth_equalityI) (auto simp: nth_append ac_simps)

lemma ring_bytes_take: "n \<le> k \<Longrightarrow> take n (ring_bytes m r p k) = ring_bytes m r p n"
  by (rule nth_equalityI) auto

lemma ring_bytes_drop: "n \<le> k \<Longrightarrow> drop n (ring_bytes m r p k) = ring_bytes m r (p + n) (k - n)"
  by (rule nth_equalityI) (auto simp: ac_simps)

lemma ring_bytes_mod:
  "p mod unat (r_size r) = q mod unat (r_size r) \<Longrightarrow> ring_bytes m r p n = ring_bytes m r q n"
  unfolding ring_bytes_def by (intro map_cong refl) (metis mod_add_left_eq)

lemma ring_bytes_cong:
  "(\<And>a. r_data r \<le> a \<Longrightarrow> m a = m' a) \<Longrightarrow> ring_bytes m r p n = ring_bytes m' r p n"
  by (simp add: ring_bytes_def)

definition overwrite :: "nat \<Rightarrow> 'a list \<Rightarrow> 'a list \<Rightarrow> 'a list" where
  "overwrite b src xs = take b xs @ src @ drop (b + length src) xs"

lemma length_overwrite [simp, len_simps]:
  "b + length src \<le> length xs \<Longrightarrow> length (overwrite b src xs) = length xs"
  by (simp add: overwrite_def)

lemma nth_overwrite:
  "b + length src \<le> length xs \<Longrightarrow> i < length xs \<Longrightarrow>
   overwrite b src xs ! i = (if b \<le> i \<and> i < b + length src then src ! (i - b) else xs ! i)"
  by (auto simp: overwrite_def nth_append)

lemma overwrite_overwrite:
  assumes "b + length xs + length ys \<le> length zs"
  shows "overwrite (b + length xs) ys (overwrite b xs zs) = overwrite b (xs @ ys) zs"
  using assms by (simp add: overwrite_def ac_simps)

lemma overwrite_before:
  assumes "b + length xs + length ys \<le> length zs"
  shows "overwrite b xs (overwrite (b + length xs) ys zs) = overwrite b (xs @ ys) zs"
proof -
  have "min b (b + length xs) = b" "min (length zs) (b + length xs) = b + length xs"
    using assms by auto
  then show ?thesis
    using assms by (simp add: overwrite_def add.assoc)
qed

lemma wrap_index:
  fixes S :: nat
  assumes "i < S"
  shows "(p + i) mod S = (if p mod S + i < S then p mod S + i else p mod S + i - S)"
proof -
  have "p mod S < S"
    using assms by simp
  then have "p mod S + i - S < S"
    using assms by linarith
  then show ?thesis
    using assms mod_add_left_eq [of p S i] by (auto simp: le_mod_geq not_less)
qed

lemma split_load_nth:
  assumes "i < len" and "len \<le> S" and "q < S"
  shows "(load_bytes m (d + q) (min len (S - q)) @ load_bytes m d (len - min len (S - q))) ! i =
    m (d + (if q + i < S then q + i else q + i - S))"
  using assms by (auto simp: nth_append nth_load_bytes ac_simps)

lemma split_store_nth:
  assumes "i < S" and "length src \<le> S" and "q < S"
  shows "store_bytes (store_bytes m (d + q) (take (min (length src) (S - q)) src)) d
      (drop (min (length src) (S - q)) src) (d + (if q + i < S then q + i else q + i - S)) =
    (if i < length src then src ! i else m (d + (if q + i < S then q + i else q + i - S)))"
  using assms by (auto simp: store_bytes_def min_def)

lemma split_store_outside:
  assumes "length src \<le> S" and "q < S" and "a < d \<or> d + S \<le> a"
  shows "store_bytes (store_bytes m (d + q) (take (min (length src) (S - q)) src)) d
      (drop (min (length src) (S - q)) src) a = m a"
proof -
  have "d + length (drop (min (length src) (S - q)) src) \<le> d + S"
    "d + q + length (take (min (length src) (S - q)) src) \<le> d + S"
    using assms by auto
  then show ?thesis
    using assms(3) by (subst store_bytes_out, linarith)+ simp
qed

section \<open>Records\<close>

text \<open>The reader's view of the byte string: one record is a 32-bit length, the
  frame and the padding to 4 bytes.  None: the string is no sequence of records.\<close>

function parse_records :: "bytes \<Rightarrow> bytes list option" where
  "parse_records bs =
     (if bs = [] then Some []
      else if length bs < 4 then None
      else let n = unat (get_le32 bs) in
        if rec_len n > length bs then None
        else case parse_records (drop (rec_len n) bs) of
               None \<Rightarrow> None
             | Some fs \<Rightarrow> Some (take n (drop 4 bs) # fs))"
  by pat_completeness auto
termination
proof (relation "measure length", goal_cases)
  case (2 bs n)
  then show ?case
    using rec_len_bounds(1) [of n] by simp
qed simp

declare parse_records.simps [simp del]

lemma parse_records_Nil [simp]: "parse_records [] = Some []"
  by (simp add: parse_records.simps)

definition record_bytes :: "bytes \<Rightarrow> bytes \<Rightarrow> bytes" where
  "record_bytes f pad = put_le32 (of_nat (length f)) @ f @ pad"

lemma parse_record_append:
  assumes "length f + 7 < 2 ^ 32" and "length (record_bytes f pad) = rec_len (length f)"
  shows "parse_records (record_bytes f pad @ bs) = map_option ((#) f) (parse_records bs)"
proof -
  define zs where "zs = record_bytes f pad @ bs"
  have n: "unat (of_nat (length f) :: u32) = length f"
    using assms by (simp add: unat_of_nat)
  have ne: "zs \<noteq> []" "\<not> length zs < 4"
    by (simp_all add: zs_def record_bytes_def) (simp add: put_le32_def)
  have g: "get_le32 zs = of_nat (length f)"
    by (simp add: zs_def record_bytes_def)
  have d: "drop (rec_len (length f)) zs = bs" "\<not> length zs < rec_len (length f)"
    using assms(2) by (simp_all add: zs_def)
  have t: "take (length f) (drop 4 zs) = f"
    by (simp add: zs_def record_bytes_def)
  show ?thesis
    unfolding zs_def [symmetric]
    by (subst parse_records.simps) (simp add: ne g n d t Let_def split: option.splits)
qed

lemma parse_records_append:
  "parse_records xs = Some fs \<Longrightarrow> parse_records (xs @ ys) = map_option ((@) fs) (parse_records ys)"
proof (induction xs arbitrary: fs rule: parse_records.induct)
  case (1 xs)
  show ?case
  proof (cases "xs = []")
    case True
    then show ?thesis
      using 1(2) by (simp add: option.map_ident)
  next
    case False
    define n where "n = unat (get_le32 xs)"
    obtain gs where l: "\<not> length xs < 4" "\<not> rec_len n > length xs"
      and gs: "parse_records (drop (rec_len n) xs) = Some gs"
      and fs: "fs = take n (drop 4 xs) # gs"
      using 1(2) False
      by (subst (asm) parse_records.simps) (auto simp: Let_def n_def split: if_splits option.splits)
    have g: "get_le32 (xs @ ys) = get_le32 xs"
    proof -
      obtain x1 x2 x3 x4 xs' where "xs = x1 # x2 # x3 # x4 # xs'"
        using l(1) by (cases xs; cases "tl xs"; cases "tl (tl xs)"; cases "tl (tl (tl xs))") auto
      then show ?thesis by simp
    qed
    have "n \<le> length xs - 4"
      using l rec_len_bounds(1) [of n] by simp
    then show ?thesis
      using 1(1) [OF False l(1) n_def] l False gs
      by (subst parse_records.simps)
        (simp add: g fs Let_def option.map_comp comp_def flip: n_def split: option.splits)
  qed
qed

lemma parse_records_ConsD:
  assumes "parse_records bs = Some (f # fs)"
  shows "bs \<noteq> []" and "unat (get_le32 bs) = length f" and "rec_len (length f) \<le> length bs"
    and "take (length f) (drop 4 bs) = f" and "parse_records (drop (rec_len (length f)) bs) = Some fs"
proof -
  define n where "n = unat (get_le32 bs)"
  have *: "bs \<noteq> []" "rec_len n \<le> length bs" "f = take n (drop 4 bs)"
    "parse_records (drop (rec_len n) bs) = Some fs"
    using assms by (subst (asm) parse_records.simps; auto simp: Let_def n_def split: if_splits option.splits)+
  moreover have "length f = n"
    using * rec_len_bounds(1) [of n] by simp
  ultimately show "bs \<noteq> []" "unat (get_le32 bs) = length f" "rec_len (length f) \<le> length bs"
    "take (length f) (drop 4 bs) = f" "parse_records (drop (rec_len (length f)) bs) = Some fs"
    by (simp_all add: n_def)
qed

lemma parse_records_NilD: "parse_records bs = Some [] \<Longrightarrow> bs = []"
  by (subst (asm) parse_records.simps) (auto simp: Let_def split: if_splits option.splits)

text \<open>The frames in a ring, and the invariant of a ring that carries frames of
  \<open>lo\<close> to \<open>hi\<close> bytes.\<close>

definition ring_frames :: "shm_ring \<Rightarrow> mem \<Rightarrow> bytes list" where
  "ring_frames r m = (case parse_records (ring_linear m r) of None \<Rightarrow> [] | Some fs \<Rightarrow> fs)"

definition ring_inv :: "nat \<Rightarrow> nat \<Rightarrow> shm_ring \<Rightarrow> mem \<Rightarrow> bool" where
  "ring_inv lo hi r m \<longleftrightarrow> ring_used m r \<le> unat (r_size r) \<and>
     (case parse_records (ring_linear m r) of
        None \<Rightarrow> False
      | Some fs \<Rightarrow> list_all (\<lambda>f. lo \<le> length f \<and> length f \<le> hi) fs)"

lemma ring_invD:
  assumes "ring_inv lo hi r m"
  shows "ring_used m r \<le> unat (r_size r)"
    and "parse_records (ring_linear m r) = Some (ring_frames r m)"
    and "list_all (\<lambda>f. lo \<le> length f \<and> length f \<le> hi) (ring_frames r m)"
  using assms by (auto simp: ring_inv_def ring_frames_def split: option.splits)

lemma ring_invI:
  assumes "ring_used m r \<le> unat (r_size r)" and "parse_records (ring_linear m r) = Some fs"
    and "list_all (\<lambda>f. lo \<le> length f \<and> length f \<le> hi) fs"
  shows "ring_inv lo hi r m" and "ring_frames r m = fs"
  using assms by (simp_all add: ring_inv_def ring_frames_def)

lemma ring_same:
  assumes "ring_head m' r = ring_head m r" and "ring_tail m' r = ring_tail m r"
    and "ring_linear m' r = ring_linear m r"
  shows "ring_inv lo hi r m' = ring_inv lo hi r m" and "ring_frames r m' = ring_frames r m"
  using assms by (simp_all add: ring_inv_def ring_frames_def ring_used_def)

section \<open>Adding a record\<close>

text \<open>\<open>ring_push\<close> of the firmware.  None is \<open>false\<close>; Some carries the block and
  \<open>*kick\<close>.\<close>

definition fw_ring_push :: "shm_ring \<Rightarrow> bytes \<Rightarrow> bytes \<Rightarrow> mem \<Rightarrow> (mem \<times> bool) option" where
  "fw_ring_push r hdr payload m =
     (let head = load32 m (r_ctrl r + ESP_SHM_HEAD_OFF);
          tail = load32 m (r_ctrl r + ESP_SHM_TAIL_OFF);
          frame_len = of_nat (length hdr) + of_nat (length payload);
          need = ESP_SHM_RECORD_LEN frame_len
      in if need > r_size r - (head - tail) then None
         else let m = fw_ring_copy_in m r (head + 4) hdr;
                  m = fw_ring_copy_in m r (head + 4 + of_nat (length hdr)) payload;
                  m = fw_ring_copy_in m r head (put_le32 frame_len);
                  m = store32 m (r_ctrl r + ESP_SHM_HEAD_OFF) (head + need)
              in Some (m, load32 m (r_ctrl r + ESP_SHM_TAIL_OFF) = head))"

text \<open>A ring whose size is a power of two below \<open>2 ^ 31\<close>, with its control words
  below its data: the laws both rings of the block satisfy, and what the copies
  do under them.\<close>

locale byte_ring =
  fixes r :: shm_ring and k :: nat
  assumes size_pow: "unat (r_size r) = 2 ^ k"
    and k_lower: "3 \<le> k" and k_upper: "k < 31"
    and ctrl_below: "r_ctrl r + 0x84 \<le> r_data r"
begin

lemma ring_off: "unat (pos AND (r_size r - 1)) = unat pos mod 2 ^ k"
proof -
  have "r_size r = 2 ^ k"
    using size_pow k_upper by (simp add: word_unat_eq_iff unat_pow2)
  then have "r_size r - 1 = mask k"
    by (simp add: mask_eq_decr_exp)
  then show ?thesis
    by (simp only: unat_and_mask)
qed

lemma ring_rest: "unat (r_size r - (pos AND (r_size r - 1))) = 2 ^ k - unat pos mod 2 ^ k"
proof -
  have "pos AND (r_size r - 1) \<le> r_size r"
    unfolding word_le_nat_alt ring_off size_pow by (simp add: less_imp_le)
  then show ?thesis
    by (simp only: unat_sub ring_off size_pow)
qed

lemma off_less: "unat pos mod 2 ^ k < (2 ^ k :: nat)"
  by simp

lemma copy_out_split:
  "fw_ring_copy_out m r pos len =
     load_bytes m (r_data r + unat pos mod 2 ^ k) (min len (2 ^ k - unat pos mod 2 ^ k)) @
     load_bytes m (r_data r) (len - min len (2 ^ k - unat pos mod 2 ^ k))"
  unfolding fw_ring_copy_out_def Let_def ring_off ring_rest by (simp add: min_def not_less)

lemma copy_in_split:
  "fw_ring_copy_in m r pos src =
     store_bytes (store_bytes m (r_data r + unat pos mod 2 ^ k)
         (take (min (length src) (2 ^ k - unat pos mod 2 ^ k)) src)) (r_data r)
       (drop (min (length src) (2 ^ k - unat pos mod 2 ^ k)) src)"
  unfolding fw_ring_copy_in_def Let_def ring_off ring_rest
  by (cases "length src < 2 ^ k - unat pos mod 2 ^ k") (simp_all add: min_def)

lemma copy_out_bytes:
  assumes "len \<le> 2 ^ k"
  shows "fw_ring_copy_out m r pos len = ring_bytes m r (unat pos) len"
proof (rule nth_equalityI)
  show len: "length (fw_ring_copy_out m r pos len) = length (ring_bytes m r (unat pos) len)"
    by (simp add: copy_out_split)
  fix i
  assume "i < length (fw_ring_copy_out m r pos len)"
  then have "i < len"
    using len by simp
  then show "fw_ring_copy_out m r pos len ! i = ring_bytes m r (unat pos) len ! i"
    using split_load_nth [OF _ assms off_less, of i m "r_data r" pos] assms
    by (simp add: copy_out_split size_pow wrap_index)
qed

lemma copy_in_byte:
  assumes "length src \<le> 2 ^ k" and "i < 2 ^ k"
  shows "fw_ring_copy_in m r pos src (r_data r + (unat pos + i) mod 2 ^ k) =
         (if i < length src then src ! i else m (r_data r + (unat pos + i) mod 2 ^ k))"
  using split_store_nth [OF assms(2,1) off_less] assms
  by (simp only: copy_in_split wrap_index)

lemma copy_in_outside:
  assumes "length src \<le> 2 ^ k" and "a < r_data r \<or> r_data r + 2 ^ k \<le> a"
  shows "fw_ring_copy_in m r pos src a = m a"
  using split_store_outside [OF assms(1) off_less assms(2)] by (simp only: copy_in_split)

lemma copy_in_bytes:
  assumes "n \<le> 2 ^ k" and "b + length src \<le> n" and "unat pos mod 2 ^ k = (p + b) mod 2 ^ k"
  shows "ring_bytes (fw_ring_copy_in m r pos src) r p n = overwrite b src (ring_bytes m r p n)"
proof (rule nth_equalityI)
  show "length (ring_bytes (fw_ring_copy_in m r pos src) r p n) =
      length (overwrite b src (ring_bytes m r p n))"
    using assms by simp
  fix i
  assume "i < length (ring_bytes (fw_ring_copy_in m r pos src) r p n)"
  then have i: "i < n"
    by simp
  define j where "j = (if b \<le> i then i - b else 2 ^ k + i - b)"
  have j: "j < 2 ^ k" "(b + j) mod 2 ^ k = i mod 2 ^ k"
    using i assms by (auto simp: j_def)
  have e: "(unat pos + j) mod 2 ^ k = (p + i) mod 2 ^ k"
    using assms(3) j(2) by (metis add.assoc mod_add_left_eq mod_add_right_eq)
  have "j < length src \<longleftrightarrow> b \<le> i \<and> i < b + length src" "b \<le> i \<Longrightarrow> j = i - b"
    using i assms by (auto simp: j_def)
  then show "ring_bytes (fw_ring_copy_in m r pos src) r p n ! i =
      overwrite b src (ring_bytes m r p n) ! i"
    using copy_in_byte [of src j m pos] j(1) assms i
    by (auto simp: e size_pow nth_overwrite)
qed

lemma copy_in_load32:
  assumes "length src \<le> 2 ^ k" and "a + 4 \<le> r_data r"
  shows "load32 (fw_ring_copy_in m r pos src) a = load32 m a"
proof -
  have "load_bytes (fw_ring_copy_in m r pos src) a 4 = load_bytes m a 4"
    using assms by (intro nth_equalityI) (auto simp: nth_load_bytes intro!: copy_in_outside)
  then show ?thesis
    by (simp add: load32_def)
qed

lemma ring_bytes_head:
  "ring_bytes m r (unat (ring_tail m r) + ring_used m r) n = ring_bytes m r (unat (ring_head m r)) n"
  using unat_diff_add_mod [of k "ring_head m r" "ring_tail m r"] k_upper
  by (intro ring_bytes_mod) (simp add: size_pow ring_used_def)

lemma push_room:
  assumes "ring_used m r \<le> 2 ^ k" and "length hdr + length payload + 7 < 2 ^ 32"
  shows "fw_ring_push r hdr payload m = None \<longleftrightarrow>
    ring_used m r + rec_len (length hdr + length payload) > 2 ^ k"
proof -
  define need where "need = ESP_SHM_RECORD_LEN (of_nat (length hdr) + of_nat (length payload))"
  have n: "unat need = rec_len (length hdr + length payload)"
    unfolding need_def of_nat_add [symmetric] using assms(2) by (rule RECORD_LEN_of_nat)
  have "ring_head m r - ring_tail m r \<le> r_size r"
    using assms(1) by (simp add: word_le_nat_alt size_pow ring_used_def)
  then have "unat (r_size r - (ring_head m r - ring_tail m r)) = 2 ^ k - ring_used m r"
    by (simp add: unat_sub size_pow ring_used_def)
  then have "need > r_size r - (ring_head m r - ring_tail m r) \<longleftrightarrow>
      rec_len (length hdr + length payload) > 2 ^ k - ring_used m r"
    by (simp add: word_less_nat_alt n)
  then show ?thesis
    using assms(1)
    by (auto simp: fw_ring_push_def Let_def ring_head_def ring_tail_def simp flip: need_def)
qed

definition push_data :: "mem \<Rightarrow> u32 \<Rightarrow> bytes \<Rightarrow> bytes \<Rightarrow> mem" where
  "push_data m head hdr payload =
     fw_ring_copy_in (fw_ring_copy_in (fw_ring_copy_in m r (head + 4) hdr)
       r (head + 4 + of_nat (length hdr)) payload)
       r head (put_le32 (of_nat (length hdr + length payload)))"

lemma push_Some:
  assumes "fw_ring_push r hdr payload m = Some (m', kick)"
    and "length hdr + length payload + 7 < 2 ^ 32"
  shows "m' = store32 (push_data m (ring_head m r) hdr payload) (r_ctrl r)
      (ring_head m r + of_nat (rec_len (length hdr + length payload)))"
    and "kick \<longleftrightarrow> ring_tail m' r = ring_head m r"
proof -
  have need: "ESP_SHM_RECORD_LEN (of_nat (length hdr) + of_nat (length payload)) =
      of_nat (rec_len (length hdr + length payload))"
    using arg_cong [OF RECORD_LEN_of_nat [OF assms(2)], of "of_nat :: nat \<Rightarrow> u32"] by simp
  show "m' = store32 (push_data m (ring_head m r) hdr payload) (r_ctrl r)
      (ring_head m r + of_nat (rec_len (length hdr + length payload)))"
    "kick \<longleftrightarrow> ring_tail m' r = ring_head m r"
    using assms(1) need
    by (auto simp: fw_ring_push_def Let_def ring_head_def ring_tail_def push_data_def
        split: if_splits)
qed

lemma push_data_ctrl:
  assumes "length hdr + length payload + 4 \<le> 2 ^ k" and "a + 4 \<le> r_data r"
  shows "load32 (push_data m head hdr payload) a = load32 m a"
  using assms by (simp add: push_data_def copy_in_load32)

lemma push_data_outside:
  assumes "length hdr + length payload + 4 \<le> 2 ^ k" and "a < r_data r \<or> r_data r + 2 ^ k \<le> a"
  shows "push_data m head hdr payload a = m a"
  using assms by (simp add: push_data_def copy_in_outside)

lemma head_pos:
  assumes "b < 2 ^ 32"
  shows "unat (ring_head m r + of_nat b) mod 2 ^ k =
    (unat (ring_tail m r) + (ring_used m r + b)) mod 2 ^ k"
proof -
  have "unat (ring_head m r + of_nat b) mod 2 ^ k = (unat (ring_head m r) + b) mod 2 ^ k"
    using assms k_upper unat_add_mod [of k "ring_head m r" "of_nat b"] by (simp add: unat_of_nat)
  also have "\<dots> = (unat (ring_tail m r) + (ring_used m r + b)) mod 2 ^ k"
    using unat_diff_add_mod [of k "ring_head m r" "ring_tail m r"] k_upper
    by (simp add: ring_used_def) (metis add.assoc mod_add_left_eq)
  finally show ?thesis .
qed

lemma push_data_bytes:
  fixes m hdr payload
  defines "n \<equiv> length hdr + length payload"
    and "u \<equiv> ring_used m r" and "p \<equiv> unat (ring_tail m r)"
  assumes room: "u + rec_len n \<le> 2 ^ k" and len: "n + 7 < 2 ^ 32"
  shows "ring_bytes (push_data m (ring_head m r) hdr payload) r p (u + rec_len n) =
    ring_bytes m r p u @ record_bytes (hdr @ payload) (ring_bytes m r (p + (u + (4 + n))) (rec_len n - (4 + n)))"
proof -
  define xs where "xs = ring_bytes m r p (u + rec_len n)"
  have n: "4 + n \<le> rec_len n"
    using rec_len_bounds(1) [of n] by simp
  have pos: "unat (ring_head m r) mod 2 ^ k = (p + u) mod 2 ^ k"
    "unat (ring_head m r + 4) mod 2 ^ k = (p + (u + 4)) mod 2 ^ k"
    "unat (ring_head m r + 4 + of_nat (length hdr)) mod 2 ^ k = (p + (u + 4 + length hdr)) mod 2 ^ k"
    using head_pos [of 0] head_pos [of 4] head_pos [of "4 + length hdr" m] len
    by (simp_all add: p_def u_def n_def add.assoc)
  have "ring_bytes (push_data m (ring_head m r) hdr payload) r p (u + rec_len n) =
      overwrite u (put_le32 (of_nat n)) (overwrite (u + 4 + length hdr) payload (overwrite (u + 4) hdr xs))"
    unfolding push_data_def xs_def using n room
    by (simp add: copy_in_bytes [OF _ _ pos(1)] copy_in_bytes [OF _ _ pos(2)]
        copy_in_bytes [OF _ _ pos(3)] n_def)
  also have "\<dots> = overwrite u (put_le32 (of_nat n) @ hdr @ payload) xs"
    using n overwrite_overwrite [of "u + 4" hdr payload xs]
      overwrite_before [of u "put_le32 (of_nat n)" "hdr @ payload" xs]
    by (simp add: xs_def n_def)
  finally show ?thesis
    using n by (simp add: overwrite_def record_bytes_def xs_def ring_bytes_take ring_bytes_drop
        add.assoc flip: n_def)
qed

lemma push_record:
  assumes used: "ring_used m r \<le> 2 ^ k" and len: "length hdr + length payload + 7 < 2 ^ 32"
    and push: "fw_ring_push r hdr payload m = Some (m', kick)"
  defines "n \<equiv> length hdr + length payload"
  shows "ring_tail m' r = ring_tail m r"
    and "ring_used m' r = ring_used m r + rec_len n"
    and "ring_used m' r \<le> 2 ^ k"
    and "kick \<longleftrightarrow> ring_used m r = 0"
    and "\<exists>pad. ring_linear m' r = ring_linear m r @ record_bytes (hdr @ payload) pad \<and>
           length (record_bytes (hdr @ payload) pad) = rec_len n"
    and "a < r_ctrl r \<or> r_ctrl r + 4 \<le> a \<and> a < r_data r \<or> r_data r + 2 ^ k \<le> a \<Longrightarrow> m' a = m a"
proof -
  note m' = push_Some(1) [OF push len, folded n_def]
  note kick = push_Some(2) [OF push len]
  have room: "ring_used m r + rec_len n \<le> 2 ^ k"
    using push_room [OF used len] push n_def by simp
  have n4: "n + 4 \<le> 2 ^ k"
    using room rec_len_bounds(1) [of n] by simp
  have used32: "ring_used m r + rec_len n < 2 ^ 32"
    using room k_upper power_strict_increasing [of k 32 "2::nat"] by simp
  show tl: "ring_tail m' r = ring_tail m r"
    using ctrl_below n4
    by (simp add: ring_tail_def m' load32_store32_other push_data_ctrl n_def)
  have "ring_head m' r - ring_tail m' r = (ring_head m r - ring_tail m r) + of_nat (rec_len n)"
    by (simp add: tl) (simp add: ring_head_def m' algebra_simps)
  then show us: "ring_used m' r = ring_used m r + rec_len n"
    using used32 by (simp add: ring_used_def) (subst unat_add_eq_iff; simp add: unat_of_nat)
  show "ring_used m' r \<le> 2 ^ k"
    using us room by simp
  show "kick \<longleftrightarrow> ring_used m r = 0"
    by (auto simp: kick tl ring_used_def unat_eq_0)
  show "m' a = m a" if "a < r_ctrl r \<or> r_ctrl r + 4 \<le> a \<and> a < r_data r \<or> r_data r + 2 ^ k \<le> a"
    using that n4 ctrl_below by (auto simp: m' store32_out push_data_outside n_def)
  have "ring_linear m' r = ring_bytes (push_data m (ring_head m r) hdr payload) r
      (unat (ring_tail m r)) (ring_used m r + rec_len n)"
    unfolding ring_linear_def tl us using ctrl_below
    by (intro ring_bytes_cong) (simp add: m' store32_out)
  then show "\<exists>pad. ring_linear m' r = ring_linear m r @ record_bytes (hdr @ payload) pad \<and>
           length (record_bytes (hdr @ payload) pad) = rec_len n"
    using push_data_bytes [of m hdr payload] room len rec_len_bounds(1) [of n]
    by (intro exI [where x = "ring_bytes m r (unat (ring_tail m r) + (ring_used m r + (4 + n))) (rec_len n - (4 + n))"])
      (simp add: ring_linear_def record_bytes_def n_def)
qed

lemma push_frame:
  assumes inv: "ring_inv lo hi r m" and f: "lo \<le> length (hdr @ payload)" "length (hdr @ payload) \<le> hi"
    and hi: "hi + 7 < 2 ^ 32" and push: "fw_ring_push r hdr payload m = Some (m', kick)"
  shows "ring_inv lo hi r m'" and "ring_frames r m' = ring_frames r m @ [hdr @ payload]"
    and "kick \<longleftrightarrow> ring_frames r m = []"
proof -
  note i = ring_invD [OF inv]
  have u: "ring_used m r \<le> 2 ^ k" and l: "length hdr + length payload + 7 < 2 ^ 32"
    using i(1) f hi by (simp_all add: size_pow)
  note pr = push_record [OF u l push]
  obtain pad where lin: "ring_linear m' r = ring_linear m r @ record_bytes (hdr @ payload) pad"
    and pad: "length (record_bytes (hdr @ payload) pad) = rec_len (length (hdr @ payload))"
    using pr(5) by auto
  have p1: "parse_records (record_bytes (hdr @ payload) pad) = Some [hdr @ payload]"
    using parse_record_append [OF _ pad, of "[]"] l by simp
  have p: "parse_records (ring_linear m' r) = Some (ring_frames r m @ [hdr @ payload])"
    unfolding lin by (simp add: parse_records_append [OF i(2)] p1)
  show "ring_inv lo hi r m'" "ring_frames r m' = ring_frames r m @ [hdr @ payload]"
    using ring_invI [OF _ p, of lo hi] pr(3) i(3) f by (simp_all add: size_pow)
  have "ring_used m r = 0 \<longleftrightarrow> ring_frames r m = []"
    using i(2) parse_records_NilD [of "ring_linear m r"]
    by (auto simp: ring_linear_def ring_bytes_def)
  then show "kick \<longleftrightarrow> ring_frames r m = []"
    using pr(4) by simp
qed

lemma peek_frame:
  assumes inv: "ring_inv lo hi r m" and fs: "ring_frames r m = f # fs"
  defines "tail \<equiv> ring_tail m r"
  shows "unat (get_le32 (fw_ring_copy_out m r tail 4)) = length f"
    and "fw_ring_copy_out m r (tail + 4) (length f) = f"
    and "rec_len (length f) \<le> ring_used m r" and "length f + 7 < 2 ^ 32"
    and "lo \<le> length f" and "length f \<le> hi"
proof -
  note i = ring_invD [OF inv, unfolded fs]
  note c = parse_records_ConsD [OF i(2)]
  have lin: "ring_linear m r = ring_bytes m r (unat tail) (ring_used m r)"
    by (simp add: ring_linear_def tail_def)
  show rl: "rec_len (length f) \<le> ring_used m r"
    using c(3) by (simp add: lin)
  have n: "length f + 4 \<le> ring_used m r" "4 \<le> (2::nat) ^ k" "ring_used m r \<le> 2 ^ k"
    using rl rec_len_bounds(1) [of "length f"] i(1) by (simp_all add: size_pow)
  then show "length f + 7 < 2 ^ 32"
    using k_upper power_strict_increasing [of k 31 "2::nat"] by simp
  have get4: "get_le32 bs = get_le32 (take 4 bs)" if "4 \<le> length bs" for bs
    using that by (cases bs; cases "tl bs"; cases "tl (tl bs)"; cases "tl (tl (tl bs))") auto
  show "unat (get_le32 (fw_ring_copy_out m r tail 4)) = length f"
    using n c(2) get4 [of "ring_linear m r"]
    by (simp add: copy_out_bytes lin ring_bytes_take)
  have "ring_bytes m r (unat (tail + 4)) (length f) = ring_bytes m r (unat tail + 4) (length f)"
    using unat_add_mod [of k tail 4] k_upper by (intro ring_bytes_mod) (simp add: size_pow)
  then show "fw_ring_copy_out m r (tail + 4) (length f) = f"
    using n c(4) by (simp add: copy_out_bytes lin ring_bytes_drop ring_bytes_take)
  show "lo \<le> length f" "length f \<le> hi"
    using i(3) by simp_all
qed

lemma advance_tail:
  assumes "c \<le> ring_used m r"
  defines "m' \<equiv> store32 m (r_ctrl r + ESP_SHM_TAIL_OFF) (ring_tail m r + of_nat c)"
  shows "ring_used m' r = ring_used m r - c" and "ring_linear m' r = drop c (ring_linear m r)"
proof -
  have tl: "ring_tail m' r = ring_tail m r + of_nat c" and hd: "ring_head m' r = ring_head m r"
    by (simp_all add: ring_tail_def ring_head_def m'_def load32_store32_other)
  have c: "c < 2 ^ 32" "unat (of_nat c :: u32) = c"
    using assms(1) unsigned_less [of "ring_head m r - ring_tail m r", where ?'a = nat]
    by (simp_all add: ring_used_def unat_of_nat)
  show us: "ring_used m' r = ring_used m r - c"
  proof -
    have "ring_used m' r = unat ((ring_head m r - ring_tail m r) - of_nat c)"
      by (simp add: ring_used_def tl hd algebra_simps)
    also have "\<dots> = ring_used m r - c"
      using assms(1) c by (subst unat_sub) (simp_all add: word_le_nat_alt ring_used_def)
    finally show ?thesis .
  qed
  have "ring_linear m' r = ring_bytes m r (unat (ring_tail m r + of_nat c)) (ring_used m r - c)"
    unfolding ring_linear_def us tl using ctrl_below
    by (intro ring_bytes_cong) (simp add: m'_def store32_out)
  also have "\<dots> = ring_bytes m r (unat (ring_tail m r) + c) (ring_used m r - c)"
    using unat_add_mod [of k "ring_tail m r" "of_nat c"] k_upper c
    by (intro ring_bytes_mod) (simp add: size_pow)
  finally show "ring_linear m' r = drop c (ring_linear m r)"
    using assms(1) by (simp add: ring_linear_def ring_bytes_drop)
qed

lemma pop_frame:
  assumes inv: "ring_inv lo hi r m" and fs: "ring_frames r m = f # fs"
  defines "m' \<equiv> store32 m (r_ctrl r + ESP_SHM_TAIL_OFF) (ring_tail m r + of_nat (rec_len (length f)))"
  shows "ring_inv lo hi r m'" and "ring_frames r m' = fs"
proof -
  note i = ring_invD [OF inv, unfolded fs]
  note a = advance_tail [OF peek_frame(3) [OF inv fs], folded m'_def]
  have "parse_records (ring_linear m' r) = Some fs"
    using parse_records_ConsD(5) [OF i(2)] a(2) by simp
  moreover have "ring_used m' r \<le> unat (r_size r)"
    using a(1) i(1) by simp
  ultimately show "ring_inv lo hi r m'" "ring_frames r m' = fs"
    using ring_invI [of m' r fs lo hi] i(3) by simp_all
qed

lemma empty_iff:
  "ring_inv lo hi r m \<Longrightarrow> ring_head m r = ring_tail m r \<longleftrightarrow> ring_frames r m = []"
  using ring_invD(2) [of lo hi r m] parse_records_NilD [of "ring_linear m r"]
  by (auto simp: ring_linear_def ring_bytes_def ring_used_def unat_eq_0)

end

interpretation to_host_ring: byte_ring to_host 15
  by unfold_locales (simp_all add: to_host_def)

interpretation to_fw_ring: byte_ring to_fw 14
  by unfold_locales (simp_all add: to_fw_def)

end
