(* ===== verification/Shm_Linux.thy ===== *)
theory Shm_Linux
  imports Shm_Ring
begin

text \<open>
  The Linux side of the transport, \<open>esp_shm.c\<close>: the queue of frames that wait
  for ring space and its flow control, the reader of the ring to the host, the
  interrupt handler, the session operations and probe/remove.

  Code outside the repository is a parameter: \<open>hdr_size\<close> is
  \<open>sizeof(struct esp_payload_header)\<close>, \<open>n_if\<close> is \<open>ESP_MAX_INTERFACE\<close>,
  \<open>alloc i\<close> says whether the i-th \<open>netdev_alloc_skb\<close> of a call succeeds, and
  calls into the driver core are recorded in \<open>lx_log\<close>.  The firmware runs
  concurrently; \<open>fw\<close> stands for what it did to the block between the store of
  the wait flag and the second read of the ring.
\<close>

section \<open>State\<close>

datatype lx_call =
    Esp_tx_pause nat
  | Esp_tx_resume nat
  | Esp_process_new_packet_intr
  | Esp_shm_flash_wake
  | Esp_schedule_transport_recovery
  | Esp_reset_boot_recovery
  | Schedule_fw_recovery
  | Esp_remove_card

record shm_hw =
  shm :: mem
  doorbell_to_fw :: u32
  doorbell_to_host :: u32

record esp_shm_context = shm_hw +
  tx_queue :: "bytes list"
  tx_work :: bool
  flash :: bool
  running :: bool
  tx_quiesced :: bool
  tx_paused :: bool
  lx_log :: "lx_call list"

record sk_buff =
  skb_data :: bytes
  skb_nonlinear :: bool
  skb_linearize_fails :: bool

datatype context_state = ESP_CONTEXT_DISABLED | ESP_CONTEXT_RX_READY | ESP_CONTEXT_OTHER

record esp_adapter =
  if_context :: "esp_shm_context option"
  tx_aggr_size :: nat
  transport_removing :: bool
  cleanup_in_progress :: bool
  init_done :: bool
  context_state :: context_state
  chipset :: u8

abbreviation (input) ESP_SHM_TX_PAUSE :: nat where "ESP_SHM_TX_PAUSE \<equiv> 64"
abbreviation (input) ESP_SHM_TX_RESUME :: nat where "ESP_SHM_TX_RESUME \<equiv> 16"
abbreviation (input) ESP_SHM_TX_QUEUE_MAX :: nat where "ESP_SHM_TX_QUEUE_MAX \<equiv> 256"

definition log_call :: "lx_call list \<Rightarrow> esp_shm_context \<Rightarrow> esp_shm_context" where
  "log_call cs ctx = ctx\<lparr>lx_log := lx_log ctx @ cs\<rparr>"

section \<open>Sending\<close>

definition esp_shm_ring_firmware :: "esp_shm_context \<Rightarrow> esp_shm_context" where
  "esp_shm_ring_firmware ctx = ctx\<lparr>doorbell_to_fw := 1\<rparr>"

definition esp_shm_request_ready_replay :: "esp_shm_context \<Rightarrow> esp_shm_context" where
  "esp_shm_request_ready_replay ctx =
     (let req = load32 (shm ctx) (ESP_SHM_CTRL + ESP_SHM_HOST_REQ_OFF)
      in esp_shm_ring_firmware (ctx\<lparr>shm := store32 (shm ctx) (ESP_SHM_CTRL + ESP_SHM_HOST_REQ_OFF)
           (req OR ESP_SHM_REQ_READY_REPLAY)\<rparr>))"

definition esp_shm_push :: "bytes \<Rightarrow> nat \<Rightarrow> mem \<Rightarrow> (mem \<times> bool) option" where
  "esp_shm_push skb skb_addr m =
     (let head = load32 m (r_ctrl to_fw + ESP_SHM_HEAD_OFF);
          tail = load32 m (r_ctrl to_fw + ESP_SHM_TAIL_OFF);
          need = ESP_SHM_RECORD_LEN (of_nat (length skb));
          len = of_nat (length skb)
      in if need > r_size to_fw - (head - tail) then None
         else let m = lx_ring_copy_in m to_fw (head + 4) skb_addr skb;
                  m = lx_ring_copy_in m to_fw head 0 (put_le32 len);
                  m = store32 m (r_ctrl to_fw + ESP_SHM_HEAD_OFF) (head + need)
              in Some (m, load32 m (r_ctrl to_fw + ESP_SHM_TAIL_OFF) = head))"

definition esp_shm_tx_flow :: "nat \<Rightarrow> bool \<Rightarrow> esp_shm_context \<Rightarrow> esp_shm_context" where
  "esp_shm_tx_flow n_if pause ctx =
     (if tx_paused ctx = pause then ctx
      else log_call (map (if pause then Esp_tx_pause else Esp_tx_resume) [0..<n_if])
             (ctx\<lparr>tx_paused := pause\<rparr>))"

fun tx_flush_loop :: "(mem \<Rightarrow> mem) \<Rightarrow> bytes list \<Rightarrow> mem \<Rightarrow> bool \<Rightarrow> bytes list \<times> mem \<times> bool" where
  "tx_flush_loop fw [] m kick = ([], m, kick)"
| "tx_flush_loop fw (skb # q) m kick =
     (case esp_shm_push skb 0 m of
        Some (m, k) \<Rightarrow> tx_flush_loop fw q m (kick \<or> k)
      | None \<Rightarrow>
          (let m = fw (store32 m (r_ctrl to_fw + ESP_SHM_WAIT_OFF) 1) in
           case esp_shm_push skb 0 m of
             Some (m, k) \<Rightarrow> tx_flush_loop fw q m (kick \<or> k)
           | None \<Rightarrow> (skb # q, m, kick)))"

definition esp_shm_tx_flush :: "nat \<Rightarrow> (mem \<Rightarrow> mem) \<Rightarrow> esp_shm_context \<Rightarrow> esp_shm_context" where
  "esp_shm_tx_flush n_if fw ctx =
     (if \<not> running ctx \<or> tx_quiesced ctx then ctx
      else let (q, m, kick) = tx_flush_loop fw (tx_queue ctx) (shm ctx) False;
               ctx = ctx\<lparr>tx_queue := q, shm := m\<rparr>;
               ctx = (if length (tx_queue ctx) \<le> ESP_SHM_TX_RESUME
                      then esp_shm_tx_flow n_if False ctx else ctx)
           in if kick then esp_shm_ring_firmware ctx else ctx)"

definition esp_shm_tx_work :: "nat \<Rightarrow> (mem \<Rightarrow> mem) \<Rightarrow> esp_shm_context \<Rightarrow> esp_shm_context" where
  "esp_shm_tx_work n_if fw ctx = esp_shm_tx_flush n_if fw (ctx\<lparr>tx_work := False\<rparr>)"

definition esp_shm_tx_purge :: "esp_shm_context \<Rightarrow> esp_shm_context" where
  "esp_shm_tx_purge ctx = ctx\<lparr>tx_queue := []\<rparr>"

definition esp_shm_irq :: "esp_shm_context \<Rightarrow> esp_shm_context" where
  "esp_shm_irq ctx =
     (let ctx = ctx\<lparr>doorbell_to_host := 0\<rparr>;
          ctx = log_call [Esp_process_new_packet_intr] ctx;
          ctx = log_call [Esp_shm_flash_wake] ctx
      in if tx_queue ctx \<noteq> [] then ctx\<lparr>tx_work := True\<rparr> else ctx)"

definition esp_shm_write ::
  "nat \<Rightarrow> (mem \<Rightarrow> mem) \<Rightarrow> esp_adapter option \<Rightarrow> sk_buff option \<Rightarrow> (errno + unit) \<times> esp_adapter option" where
  "esp_shm_write n_if fw adapter skb =
     (case skb of
        None \<Rightarrow> (Inl EINVAL, adapter)
      | Some skb \<Rightarrow>
          (case adapter of
             None \<Rightarrow> (Inl ENODEV, adapter)
           | Some ad \<Rightarrow>
               (case if_context ad of
                  None \<Rightarrow> (Inl ENODEV, adapter)
                | Some ctx \<Rightarrow>
                    if length (skb_data skb) > tx_aggr_size ad then (Inl EMSGSIZE, adapter)
                    else if skb_nonlinear skb \<and> skb_linearize_fails skb then (Inl ENOMEM, adapter)
                    else if \<not> running ctx \<or> tx_quiesced ctx then (Inl ENODEV, adapter)
                    else if length (tx_queue ctx) \<ge> ESP_SHM_TX_QUEUE_MAX then (Inl EBUSY, adapter)
                    else let ctx = ctx\<lparr>tx_queue := tx_queue ctx @ [skb_data skb]\<rparr>;
                             ctx = esp_shm_tx_flush n_if fw ctx;
                             ctx = (if length (tx_queue ctx) \<ge> ESP_SHM_TX_PAUSE
                                    then esp_shm_tx_flow n_if True ctx else ctx)
                         in (Inr (), Some (ad\<lparr>if_context := Some ctx\<rparr>)))))"

section \<open>Receiving\<close>

definition esp_shm_rx_done :: "u32 \<Rightarrow> esp_shm_context \<Rightarrow> esp_shm_context" where
  "esp_shm_rx_done tail ctx =
     (let ctx = ctx\<lparr>shm := store32 (shm ctx) (r_ctrl to_host + ESP_SHM_TAIL_OFF) tail\<rparr>
      in if load32 (shm ctx) (r_ctrl to_host + ESP_SHM_WAIT_OFF) \<noteq> 0
         then esp_shm_ring_firmware
                (ctx\<lparr>shm := store32 (shm ctx) (r_ctrl to_host + ESP_SHM_WAIT_OFF) 0\<rparr>)
         else ctx)"

definition rx_bad_len :: "nat \<Rightarrow> u32 \<Rightarrow> u32 \<Rightarrow> u32 \<Rightarrow> bool" where
  "rx_bad_len hdr_size head tail len \<longleftrightarrow>
     len < of_nat hdr_size \<or> len > r_size to_host \<or> ESP_SHM_RECORD_LEN len > head - tail"

lemma rx_done_head [simp]:
  "load32 (shm (esp_shm_rx_done t ctx)) (r_ctrl to_host) = load32 (shm ctx) (r_ctrl to_host)"
  by (simp add: esp_shm_rx_done_def esp_shm_ring_firmware_def Let_def load32_store32_other)

lemma rx_advance:
  assumes "\<not> rx_bad_len hdr_size head tail len"
  shows "unat (head - (tail + ESP_SHM_RECORD_LEN len)) < unat (head - tail)"
    and "unat (ESP_SHM_RECORD_LEN len) = rec_len (unat len)"
proof -
  have len: "unat len \<le> 0x8000"
    using assms by (simp add: rx_bad_len_def to_host_def word_less_nat_alt not_less)
  show r: "unat (ESP_SHM_RECORD_LEN len) = rec_len (unat len)"
    using len by (intro unat_RECORD_LEN) simp
  have "ESP_SHM_RECORD_LEN len \<le> head - tail"
    using assms by (simp add: rx_bad_len_def not_less)
  then have "unat (head - tail - ESP_SHM_RECORD_LEN len) = unat (head - tail) - rec_len (unat len)"
    "rec_len (unat len) \<le> unat (head - tail)"
    by (simp_all only: unat_sub r word_le_nat_alt)
  then show "unat (head - (tail + ESP_SHM_RECORD_LEN len)) < unat (head - tail)"
    using rec_len_bounds(1) [of "unat len"] by (simp add: diff_diff_eq)
qed

text \<open>The loop of \<open>esp_shm_read\<close>; \<open>i\<close> counts its allocations.\<close>

function esp_shm_read_loop ::
  "nat \<Rightarrow> (nat \<Rightarrow> bool) \<Rightarrow> nat \<Rightarrow> u32 \<Rightarrow> esp_shm_context \<Rightarrow> bytes option \<times> esp_shm_context" where
  "esp_shm_read_loop hdr_size alloc i tail ctx =
     (let head = load32 (shm ctx) (r_ctrl to_host + ESP_SHM_HEAD_OFF) in
      if head = tail then (None, ctx)
      else let len = get_le32 (lx_ring_copy_out (shm ctx) to_host tail 4) in
        if rx_bad_len hdr_size head tail len
        then (None, log_call [Esp_schedule_transport_recovery]
                (ctx\<lparr>shm := store32 (shm ctx) (r_ctrl to_host + ESP_SHM_TAIL_OFF) head\<rparr>))
        else let skb = (if alloc i then Some (lx_ring_copy_out (shm ctx) to_host (tail + 4) (unat len)) else None);
                 tail = tail + ESP_SHM_RECORD_LEN len;
                 ctx = esp_shm_rx_done tail ctx
             in case skb of
                  Some f \<Rightarrow> (Some f, ctx)
                | None \<Rightarrow> esp_shm_read_loop hdr_size alloc (Suc i) tail ctx)"
  by pat_completeness auto

termination
  by (relation "measure (\<lambda>(h, al, i, tail, ctx).
        unat (load32 (shm ctx) (r_ctrl to_host + ESP_SHM_HEAD_OFF) - tail))")
    (simp_all add: rx_advance(1))

declare esp_shm_read_loop.simps [simp del]

definition esp_shm_read ::
  "nat \<Rightarrow> (nat \<Rightarrow> bool) \<Rightarrow> esp_adapter option \<Rightarrow> bytes option \<times> esp_adapter option" where
  "esp_shm_read hdr_size alloc adapter =
     (case adapter of
        None \<Rightarrow> (None, adapter)
      | Some ad \<Rightarrow>
          (case if_context ad of
             None \<Rightarrow> (None, adapter)
           | Some ctx \<Rightarrow>
               if \<not> running ctx then (None, adapter)
               else let (skb, ctx) = esp_shm_read_loop hdr_size alloc 0
                      (load32 (shm ctx) (r_ctrl to_host + ESP_SHM_TAIL_OFF)) ctx
                    in (skb, Some (ad\<lparr>if_context := Some ctx\<rparr>))))"

section \<open>Sessions\<close>

definition esp_shm_set_tx_quiesced :: "bool \<Rightarrow> esp_shm_context \<Rightarrow> esp_shm_context" where
  "esp_shm_set_tx_quiesced q ctx = ctx\<lparr>tx_quiesced := q\<rparr>"

definition cancel_tx_work :: "esp_shm_context \<Rightarrow> esp_shm_context" where
  "cancel_tx_work ctx = ctx\<lparr>tx_work := False\<rparr>"

definition esp_shm_quiesce_for_fw_reset :: "esp_adapter option \<Rightarrow> (errno + unit) \<times> esp_adapter option" where
  "esp_shm_quiesce_for_fw_reset adapter =
     (case adapter of
        None \<Rightarrow> (Inl ENODEV, adapter)
      | Some ad \<Rightarrow>
          (case if_context ad of
             None \<Rightarrow> (Inl ENODEV, adapter)
           | Some ctx \<Rightarrow>
               (Inr (), Some (ad\<lparr>if_context := Some (esp_shm_tx_purge (cancel_tx_work
                  (esp_shm_set_tx_quiesced True ctx)))\<rparr>))))"

definition esp_shm_reinit_after_fw_reset :: "esp_adapter option \<Rightarrow> (errno + unit) \<times> esp_adapter option" where
  "esp_shm_reinit_after_fw_reset adapter =
     (case adapter of
        None \<Rightarrow> (Inl ENODEV, adapter)
      | Some ad \<Rightarrow>
          (case if_context ad of
             None \<Rightarrow> (Inl ENODEV, adapter)
           | Some ctx \<Rightarrow>
               if \<not> running ctx then (Inl ENODEV, adapter)
               else (Inr (), Some (ad\<lparr>if_context := Some
                  ((esp_shm_set_tx_quiesced False ctx)\<lparr>tx_work := True\<rparr>)\<rparr>))))"

definition esp_shm_recover_transport :: "esp_adapter option \<Rightarrow> (errno + unit) \<times> esp_adapter option" where
  "esp_shm_recover_transport adapter =
     (case adapter of
        None \<Rightarrow> (Inl ENODEV, adapter)
      | Some ad \<Rightarrow>
          (case if_context ad of
             None \<Rightarrow> (Inl ENODEV, adapter)
           | Some ctx \<Rightarrow>
               if \<not> running ctx then (Inl ENODEV, adapter)
               else (Inr (), Some (ad\<lparr>if_context := Some (esp_shm_request_ready_replay ctx)\<rparr>))))"

text \<open>\<open>open_bit\<close> and \<open>close_bit\<close> are \<open>ESP_OPEN_DATA_PATH\<close> and
  \<open>ESP_CLOSE_DATA_PATH\<close> of the driver core.\<close>

definition generate_slave_intr ::
  "nat \<Rightarrow> nat \<Rightarrow> esp_shm_context option \<Rightarrow> u8 \<Rightarrow> (errno + unit) \<times> esp_shm_context option" where
  "generate_slave_intr open_bit close_bit context data =
     (case context of
        None \<Rightarrow> (Inl ENODEV, context)
      | Some ctx \<Rightarrow>
          (Inr (), Some (if bit data open_bit \<or> bit data close_bit
                         then esp_shm_request_ready_replay ctx else ctx)))"

definition esp_validate_chipset :: "u8 \<Rightarrow> u8 \<Rightarrow> esp_adapter option \<Rightarrow> u8 \<Rightarrow> (errno + unit) \<times> esp_adapter option" where
  "esp_validate_chipset esp32s31 unrecognized adapter chip =
     (case adapter of
        None \<Rightarrow> (Inl EINVAL, adapter)
      | Some ad \<Rightarrow>
          if chip \<noteq> esp32s31 then (Inl ENODEV, Some (ad\<lparr>chipset := unrecognized\<rparr>))
          else (Inr (), Some (ad\<lparr>chipset := chip\<rparr>)))"

section \<open>Probe and remove\<close>

text \<open>The outcomes of the kernel calls of \<open>esp_shm_probe\<close>: the allocation, the
  two mappings, the interrupt number and its request (None: success), the block
  as the firmware left it, and whether the flash mailbox was bound.\<close>

record probe_env =
  kzalloc_ok :: bool
  map_shm :: "errno option"
  map_doorbell :: "errno option"
  get_irq :: "errno option"
  request_irq :: "errno option"
  hw_block :: mem
  flash_bound :: bool

definition esp_shm_probe :: "probe_env \<Rightarrow> esp_adapter option \<Rightarrow> (errno + unit) \<times> esp_adapter option" where
  "esp_shm_probe env s_adapter =
     (case s_adapter of
        None \<Rightarrow> (Inl ENODEV, s_adapter)
      | Some ad \<Rightarrow>
          if if_context ad \<noteq> None then (Inl EBUSY, s_adapter)
          else if \<not> kzalloc_ok env then (Inl ENOMEM, s_adapter)
          else (case map_shm env of Some e \<Rightarrow> (Inl e, s_adapter) | None \<Rightarrow>
               (case map_doorbell env of Some e \<Rightarrow> (Inl e, s_adapter) | None \<Rightarrow>
               (case get_irq env of Some e \<Rightarrow> (Inl e, s_adapter) | None \<Rightarrow>
                if load32 (hw_block env) (ESP_SHM_CTRL + ESP_SHM_MAGIC_OFF) \<noteq> ESP_SHM_MAGIC \<or>
                   load32 (hw_block env) (ESP_SHM_CTRL + ESP_SHM_VERSION_OFF) \<noteq> ESP_SHM_VERSION
                then (Inl ENODEV, s_adapter)
                else (case request_irq env of Some e \<Rightarrow> (Inl e, s_adapter) | None \<Rightarrow>
                  (let ctx = \<lparr>shm = hw_block env, doorbell_to_fw = 0, doorbell_to_host = 0,
                              tx_queue = [], tx_work = False, flash = flash_bound env,
                              running = True, tx_quiesced = False, tx_paused = False,
                              lx_log = [Esp_reset_boot_recovery, Esp_process_new_packet_intr,
                                        Schedule_fw_recovery]\<rparr>
                   in (Inr (), Some (ad\<lparr>if_context := Some ctx, transport_removing := False,
                        cleanup_in_progress := False, context_state := ESP_CONTEXT_RX_READY\<rparr>))))))))"

definition esp_shm_remove :: "esp_adapter \<Rightarrow> esp_shm_context \<times> esp_adapter" where
  "esp_shm_remove ad =
     (let ad = ad\<lparr>transport_removing := True, cleanup_in_progress := True, init_done := False,
                  context_state := ESP_CONTEXT_DISABLED\<rparr>;
          ctx = the (if_context ad);
          ctx = log_call [Esp_remove_card] ctx;
          ctx = ctx\<lparr>flash := False\<rparr>;
          ctx = ctx\<lparr>tx_quiesced := True, running := False\<rparr>;
          ctx = esp_shm_tx_purge (cancel_tx_work ctx)
      in (ctx, ad\<lparr>if_context := None\<rparr>))"

section \<open>Buffers and registration\<close>

text \<open>\<open>padding\<close> and \<open>align\<close> are \<open>INTERFACE_HEADER_PADDING\<close> and \<open>SKB_DATA_ADDR_ALIGNMENT\<close>
  of ESP-Hosted, \<open>alloc n\<close> the address of a buffer of \<open>n\<close> bytes.  The result: the
  address and the size of the buffer, and where its data begin.\<close>

definition esp_shm_alloc_skb :: "nat \<Rightarrow> u32 \<Rightarrow> (nat \<Rightarrow> u32 option) \<Rightarrow> nat \<Rightarrow> (u32 \<times> nat \<times> u32) option" where
  "esp_shm_alloc_skb padding align alloc len =
     (let n = len + padding + unat align in
      case alloc n of
        None \<Rightarrow> None
      | Some a \<Rightarrow>
          let d = a + of_nat padding; offset = d AND (align - 1)
          in Some (a, n, if offset \<noteq> 0 then d + (align - offset) else d))"

text \<open>The static \<open>s_adapter\<close>, and the adapters with the operations of this transport.\<close>

record esp_layer =
  s_adapter :: "nat option"
  ly_ops :: "nat set"

definition esp_init_interface_layer :: "nat option \<Rightarrow> errno option \<Rightarrow> esp_layer \<Rightarrow> errno option \<times> esp_layer" where
  "esp_init_interface_layer adapter register ly =
     (case adapter of
        None \<Rightarrow> (Some EINVAL, ly)
      | Some a \<Rightarrow>
          if register \<noteq> None then (register, ly\<lparr>s_adapter := None, ly_ops := ly_ops ly - {a}\<rparr>)
          else (None, ly\<lparr>s_adapter := Some a, ly_ops := insert a (ly_ops ly)\<rparr>))"

definition esp_deinit_interface_layer :: "esp_layer \<Rightarrow> esp_layer" where
  "esp_deinit_interface_layer ly = ly\<lparr>s_adapter := None\<rparr>"

definition esp_adjust_spi_clock :: "u8 \<Rightarrow> nat" where
  "esp_adjust_spi_clock mhz = 0"

text \<open>The data of a new buffer are aligned, lie inside it behind the padding, and have
  room for the frame.\<close>

lemma alloc_skb_fits:
  assumes "esp_shm_alloc_skb padding align alloc len = Some (a, n, d)" and "align = 2 ^ k" "k < 32"
    and "unat a + n < 2 ^ 32"
  shows "unat d mod 2 ^ k = 0" "unat a + padding \<le> unat d" "unat d + len \<le> unat a + n" "n = len + padding + 2 ^ k"
proof -
  let ?b = "a + of_nat padding" and ?m = "2 ^ k :: nat"
  have al: "unat align = ?m" "align - 1 = mask k"
    using assms(2,3) by (simp_all add: unat_pow2 mask_eq_exp_minus_1)
  have n: "n = len + padding + ?m" and d: "d = (if ?b AND mask k \<noteq> 0 then ?b + (align - (?b AND mask k)) else ?b)"
    using assms(1) al by (auto simp: esp_shm_alloc_skb_def Let_def split: option.splits)
  have b: "unat ?b = unat a + padding"
    using assms(4) n by (simp add: unat_word_ariths unat_of_nat)
  have o: "unat (?b AND mask k) = unat ?b mod ?m"
    by (rule unat_and_mask)
  define q where "q = unat ?b mod ?m"
  have q: "q < ?m" "q \<le> unat ?b"
    by (simp_all add: q_def)
  have "unat d = (if q = 0 then unat ?b else unat ?b + (?m - q))"
  proof (cases "?b AND mask k = 0")
    case True
    then show ?thesis
      using o d by (simp add: q_def)
  next
    case False
    then have "q \<noteq> 0"
      using o unat_eq_zero [of "?b AND mask k"] by (simp add: q_def)
    moreover have "unat (align - (?b AND mask k)) = ?m - q"
      using o al(1) q(1) by (simp add: unat_sub_le word_le_nat_alt q_def)
    moreover have "unat ?b + (?m - q) < 2 ^ 32"
      using b n assms(4) \<open>q \<noteq> 0\<close> by simp
    ultimately show ?thesis
      using False d by (simp add: unat_word_ariths)
  qed
  moreover have "(unat ?b + (?m - q)) mod ?m = 0"
  proof -
    have "unat ?b + (?m - q) = unat ?b div ?m * ?m + ?m"
      using div_mult_mod_eq [of "unat ?b" ?m] q by (simp add: q_def)
    then show ?thesis
      by simp
  qed
  moreover have "q = 0 \<Longrightarrow> unat ?b mod ?m = 0"
    by (simp add: q_def)
  ultimately have "unat d mod ?m = 0" "unat ?b \<le> unat d" "unat d \<le> unat ?b + ?m"
    using q(1) by (cases "q = 0"; simp)+
  then show "unat d mod 2 ^ k = 0" "unat a + padding \<le> unat d" "unat d + len \<le> unat a + n" "n = len + padding + 2 ^ k"
    using b n by simp_all
qed

section \<open>Properties of the send path\<close>

lemma copy_in_Nil [simp]: "fw_ring_copy_in m r pos [] = m"
  by (simp add: fw_ring_copy_in_def Let_def)

lemma esp_shm_push_eq: "esp_shm_push skb a m = fw_ring_push to_fw [] skb m"
  by (simp add: esp_shm_push_def fw_ring_push_def Let_def)

lemma ctrl_store_same:
  assumes "a + 4 \<le> r_data r" and "a + 4 \<le> r_ctrl r \<or> r_ctrl r + 4 \<le> a"
    and "a + 4 \<le> r_ctrl r + 0x40 \<or> r_ctrl r + 0x44 \<le> a"
  shows "ring_inv lo hi r (store32 m a v) = ring_inv lo hi r m"
    and "ring_frames r (store32 m a v) = ring_frames r m"
proof -
  have h: "ring_head (store32 m a v) r = ring_head m r" "ring_tail (store32 m a v) r = ring_tail m r"
    unfolding ring_head_def ring_tail_def by (rule load32_store32_other, use assms in linarith)+
  have l: "ring_linear (store32 m a v) r = ring_linear m r"
    unfolding ring_linear_def h ring_used_def
    using assms by (intro ring_bytes_cong) (simp add: store32_out)
  show "ring_inv lo hi r (store32 m a v) = ring_inv lo hi r m"
    "ring_frames r (store32 m a v) = ring_frames r m"
    by (rule ring_same [OF h l])+
qed

lemma wait_store_same [simp]:
  "ring_inv lo hi to_fw (store32 m (r_ctrl to_fw + ESP_SHM_WAIT_OFF) v) = ring_inv lo hi to_fw m"
  "ring_frames to_fw (store32 m (r_ctrl to_fw + ESP_SHM_WAIT_OFF) v) = ring_frames to_fw m"
  "ring_inv lo hi to_host (store32 m (r_ctrl to_host + ESP_SHM_WAIT_OFF) v) = ring_inv lo hi to_host m"
  "ring_frames to_host (store32 m (r_ctrl to_host + ESP_SHM_WAIT_OFF) v) = ring_frames to_host m"
  by (simp_all add: ctrl_store_same to_fw_def to_host_def)

text \<open>What the firmware may do to the ring while Linux sends: take frames from
  its front.\<close>

definition fw_consumes :: "nat \<Rightarrow> nat \<Rightarrow> (mem \<Rightarrow> mem) \<Rightarrow> bool" where
  "fw_consumes lo hi fw \<longleftrightarrow> (\<forall>m. ring_inv lo hi to_fw m \<longrightarrow>
     ring_inv lo hi to_fw (fw m) \<and> (\<exists>d. ring_frames to_fw (fw m) = drop d (ring_frames to_fw m)))"

lemma esp_shm_push_frame:
  assumes "ring_inv lo hi to_fw m" and "lo \<le> length f" and "length f \<le> hi" and "hi + 7 < 2 ^ 32"
    and "esp_shm_push f a m = Some (m', k)"
  shows "ring_inv lo hi to_fw m'" and "ring_frames to_fw m' = ring_frames to_fw m @ [f]"
    and "k \<longleftrightarrow> ring_frames to_fw m = []"
  using to_fw_ring.push_frame [of lo hi m "[]" f m' k] assms by (simp_all add: esp_shm_push_eq)

lemma drop_append_ex: "\<exists>e'. drop e (drop d xs @ ys) = drop e' (xs @ ys)"
proof -
  have "drop d xs @ ys = drop (min d (length xs)) (xs @ ys)"
    by (simp add: min_def)
  then show ?thesis
    by (metis drop_drop)
qed

lemma tx_flush_loop_spec:
  assumes "ring_inv lo hi to_fw m" and "list_all (\<lambda>f. lo \<le> length f \<and> length f \<le> hi) q"
    and "hi + 7 < 2 ^ 32" and "fw_consumes lo hi fw"
    and "tx_flush_loop fw q m kick = (q', m', kick')"
  shows "ring_inv lo hi to_fw m' \<and> (\<exists>sent d. q = sent @ q' \<and>
    ring_frames to_fw m' = drop d (ring_frames to_fw m @ sent))"
  using assms
proof (induction fw q m kick rule: tx_flush_loop.induct)
  case (1 fw m kick)
  then show ?case
    by (auto intro: exI [where x = 0])
next
  case (2 fw skb q m kick)
  define mw where "mw = fw (store32 m (r_ctrl to_fw + ESP_SHM_WAIT_OFF) 1)"
  have f: "lo \<le> length skb" "length skb \<le> hi"
    using 2(4) by simp_all
  obtain d where mw: "ring_inv lo hi to_fw mw" "ring_frames to_fw mw = drop d (ring_frames to_fw m)"
    using 2(3,6) unfolding fw_consumes_def mw_def by (metis wait_store_same(1,2))
  have step: ?case
    if i: "ring_inv lo hi to_fw m0" and fr: "ring_frames to_fw m0 = drop d (ring_frames to_fw m)"
      and p: "esp_shm_push skb 0 m0 = Some (m1, k)"
      and IH: "ring_inv lo hi to_fw m1 \<Longrightarrow> ring_inv lo hi to_fw m' \<and> (\<exists>sent d. q = sent @ q' \<and>
        ring_frames to_fw m' = drop d (ring_frames to_fw m1 @ sent))"
    for m0 m1 k d
  proof -
    note pf = esp_shm_push_frame [OF i f 2(5) p]
    obtain sent e where e: "q = sent @ q'" "ring_inv lo hi to_fw m'"
      "ring_frames to_fw m' = drop e ((drop d (ring_frames to_fw m) @ [skb]) @ sent)"
      using IH pf fr by auto
    obtain e' where "ring_frames to_fw m' = drop e' (ring_frames to_fw m @ (skb # sent))"
      using drop_append_ex [of e d "ring_frames to_fw m" "skb # sent"] e(3) by auto
    then show ?thesis
      using e(1,2) by (intro conjI exI [where x = "skb # sent"] exI [where x = e']) simp_all
  qed
  show ?case
  proof (cases "esp_shm_push skb 0 m")
    case (Some a)
    then obtain m1 k where p: "esp_shm_push skb 0 m = Some (m1, k)" by (cases a) auto
    then show ?thesis
      using step [of m 0 m1 k] p 2(2) [OF p refl] 2(3-7) by simp
  next
    case None
    show ?thesis
    proof (cases "esp_shm_push skb 0 mw")
      case None
      then show ?thesis
        using \<open>esp_shm_push skb 0 m = None\<close> 2(7) mw
        by (auto simp: mw_def [symmetric] Let_def intro!: exI [where x = d])
    next
      case (Some a)
      then obtain m1 k where p: "esp_shm_push skb 0 mw = Some (m1, k)" by (cases a) auto
      then show ?thesis
        using step [of mw d m1 k] p 2(1) [OF None mw_def p refl] None mw 2(3-7)
        by (simp add: mw_def [symmetric] Let_def)
    qed
  qed
qed

text \<open>Flow control: the queue is bounded, and while it is at the pause threshold
  the net queues are stopped.\<close>

definition tx_inv :: "esp_shm_context \<Rightarrow> bool" where
  "tx_inv ctx \<longleftrightarrow> length (tx_queue ctx) \<le> ESP_SHM_TX_QUEUE_MAX \<and>
     (length (tx_queue ctx) \<ge> ESP_SHM_TX_PAUSE \<longrightarrow> tx_paused ctx)"

lemma tx_flow_simps [simp]:
  "tx_queue (esp_shm_tx_flow n p ctx) = tx_queue ctx"
  "tx_paused (esp_shm_tx_flow n p ctx) = p"
  "shm (esp_shm_tx_flow n p ctx) = shm ctx"
  "running (esp_shm_tx_flow n p ctx) = running ctx"
  "tx_quiesced (esp_shm_tx_flow n p ctx) = tx_quiesced ctx"
  "tx_work (esp_shm_tx_flow n p ctx) = tx_work ctx"
  "doorbell_to_fw (esp_shm_tx_flow n p ctx) = doorbell_to_fw ctx"
  by (simp_all add: esp_shm_tx_flow_def log_call_def)

lemma ring_firmware_simps [simp]:
  "tx_queue (esp_shm_ring_firmware ctx) = tx_queue ctx"
  "tx_paused (esp_shm_ring_firmware ctx) = tx_paused ctx"
  "shm (esp_shm_ring_firmware ctx) = shm ctx"
  "running (esp_shm_ring_firmware ctx) = running ctx"
  "tx_quiesced (esp_shm_ring_firmware ctx) = tx_quiesced ctx"
  "doorbell_to_fw (esp_shm_ring_firmware ctx) = 1"
  by (simp_all add: esp_shm_ring_firmware_def)

lemma flush_loop_suffix:
  "tx_flush_loop fw q m k = (q', m', k') \<Longrightarrow> \<exists>sent. q = sent @ q'"
proof (induction fw q m k rule: tx_flush_loop.induct)
  case (2 fw skb q m kick)
  then show ?case
    by (fastforce simp: Let_def Cons_eq_append_conv split: option.splits prod.splits)
qed simp

lemma tx_flush_cases:
  assumes "running ctx" and "\<not> tx_quiesced ctx"
  obtains q' m' k' where "tx_flush_loop fw (tx_queue ctx) (shm ctx) False = (q', m', k')"
    and "tx_queue (esp_shm_tx_flush n_if fw ctx) = q'" and "shm (esp_shm_tx_flush n_if fw ctx) = m'"
    and "tx_paused (esp_shm_tx_flush n_if fw ctx) = (tx_paused ctx \<and> length q' > ESP_SHM_TX_RESUME)"
    and "doorbell_to_fw (esp_shm_tx_flush n_if fw ctx) = (if k' then 1 else doorbell_to_fw ctx)"
    and "length q' \<le> length (tx_queue ctx)"
proof -
  obtain q' m' k' where l: "tx_flush_loop fw (tx_queue ctx) (shm ctx) False = (q', m', k')"
    by (cases "tx_flush_loop fw (tx_queue ctx) (shm ctx) False") auto
  moreover have "length q' \<le> length (tx_queue ctx)"
    using flush_loop_suffix [OF l] by auto
  ultimately show thesis
    using assms by (intro that [of q' m' k']) (simp_all add: esp_shm_tx_flush_def Let_def)
qed

lemma flush_queue_le: "length (tx_queue (esp_shm_tx_flush n_if fw ctx)) \<le> length (tx_queue ctx)"
proof (cases "running ctx \<and> \<not> tx_quiesced ctx")
  case True
  then show ?thesis
    by (auto elim!: tx_flush_cases [of ctx fw n_if])
qed (auto simp: esp_shm_tx_flush_def)

lemma flush_tx_inv: "tx_inv ctx \<Longrightarrow> tx_inv (esp_shm_tx_flush n_if fw ctx)"
proof (cases "running ctx \<and> \<not> tx_quiesced ctx")
  case True
  assume "tx_inv ctx"
  then show ?thesis
    using True by (auto simp: tx_inv_def elim!: tx_flush_cases [of ctx fw n_if])
qed (simp add: esp_shm_tx_flush_def)

lemma write_tx_inv:
  assumes "esp_shm_write n_if fw (Some ad) skb = (res, Some ad')"
    and "if_context ad = Some ctx" and "tx_inv ctx"
  obtains ctx' where "if_context ad' = Some ctx'" and "tx_inv ctx'"
proof -
  have "\<exists>ctx'. if_context ad' = Some ctx' \<and> tx_inv ctx'"
  proof (cases "\<exists>e. res = Inl e")
    case True
    then have "ad' = ad"
      using assms(1,2) by (auto simp: esp_shm_write_def Let_def split: option.splits if_splits)
    then show ?thesis
      using assms by auto
  next
    case False
    then obtain s where s: "skb = Some s" "running ctx" "\<not> tx_quiesced ctx"
      "length (tx_queue ctx) < ESP_SHM_TX_QUEUE_MAX"
      using assms(1,2) by (auto simp: esp_shm_write_def split: option.splits if_splits)
    define c1 where "c1 = ctx\<lparr>tx_queue := tx_queue ctx @ [skb_data s]\<rparr>"
    define c2 where "c2 = esp_shm_tx_flush n_if fw c1"
    have "length (tx_queue c2) \<le> length (tx_queue ctx) + 1"
      using flush_queue_le [of n_if fw c1] by (simp add: c2_def c1_def)
    then show ?thesis
      using False assms(1,2) s(4)
      by (auto simp: esp_shm_write_def Let_def tx_inv_def s c1_def [symmetric] c2_def [symmetric]
          split: if_splits)
  qed
  then show thesis
    using that by blast
qed

section \<open>Properties of the receive path\<close>

lemma rx_done_ring:
  assumes "ring_inv lo hi to_host (store32 (shm ctx) (r_ctrl to_host + ESP_SHM_TAIL_OFF) t)"
  shows "ring_inv lo hi to_host (shm (esp_shm_rx_done t ctx))"
    and "ring_frames to_host (shm (esp_shm_rx_done t ctx)) =
      ring_frames to_host (store32 (shm ctx) (r_ctrl to_host + ESP_SHM_TAIL_OFF) t)"
    and "ring_tail (shm (esp_shm_rx_done t ctx)) to_host = t"
  using assms by (simp_all add: esp_shm_rx_done_def Let_def ring_tail_def load32_store32_other)

lemma r_size_to_host: "r_size to_host = 0x8000"
  by (simp add: to_host_def)

text \<open>A good frame at the front passes the length check.\<close>

lemma good_frame:
  assumes inv: "ring_inv hdr_size hi to_host m" and fs: "ring_frames to_host m = f # fs"
    and hi: "hi \<le> 0x8000"
  defines "tail \<equiv> ring_tail m to_host" and "head \<equiv> ring_head m to_host"
  defines "len \<equiv> get_le32 (lx_ring_copy_out m to_host tail 4)"
  shows "head \<noteq> tail" and "\<not> rx_bad_len hdr_size head tail len"
    and "lx_ring_copy_out m to_host (tail + 4) (unat len) = f"
    and "tail + ESP_SHM_RECORD_LEN len = tail + of_nat (rec_len (length f))"
proof -
  note p = to_host_ring.peek_frame [OF inv fs]
  have len: "unat len = length f"
    using p(1) by (simp add: len_def tail_def)
  have rl: "unat (ESP_SHM_RECORD_LEN len) = rec_len (length f)"
    using unat_RECORD_LEN [of len] p(4) by (simp add: len)
  show "head \<noteq> tail"
    using to_host_ring.empty_iff [OF inv] fs by (simp add: head_def tail_def)
  have "hdr_size < 2 ^ 32"
    using p(5,6) hi by simp
  then show "\<not> rx_bad_len hdr_size head tail len"
    using p(3,5,6) hi rl
    by (simp add: rx_bad_len_def word_less_nat_alt len unat_of_nat r_size_to_host
        head_def tail_def ring_used_def)
  show "lx_ring_copy_out m to_host (tail + 4) (unat len) = f"
    using p(2) by (simp add: len tail_def)
  show "tail + ESP_SHM_RECORD_LEN len = tail + of_nat (rec_len (length f))"
    using rl by (metis of_nat_unat ucast_id)
qed

lemma read_loop_empty:
  assumes "ring_inv hdr_size hi to_host (shm ctx)" and "ring_frames to_host (shm ctx) = []"
  shows "esp_shm_read_loop hdr_size alloc i (ring_tail (shm ctx) to_host) ctx = (None, ctx)"
  using to_host_ring.empty_iff [OF assms(1)] assms(2)
  by (subst esp_shm_read_loop.simps) (simp add: Let_def ring_head_def)

lemma read_loop_step:
  assumes inv: "ring_inv hdr_size hi to_host (shm ctx)" and hi: "hi \<le> 0x8000"
    and fs: "ring_frames to_host (shm ctx) = f # fs"
  defines "tail \<equiv> ring_tail (shm ctx) to_host + of_nat (rec_len (length f))"
  defines "ctx' \<equiv> esp_shm_rx_done tail ctx"
  shows "esp_shm_read_loop hdr_size alloc i (ring_tail (shm ctx) to_host) ctx =
      (if alloc i then (Some f, ctx') else esp_shm_read_loop hdr_size alloc (Suc i) tail ctx')"
    and "ring_inv hdr_size hi to_host (shm ctx')" and "ring_frames to_host (shm ctx') = fs"
    and "ring_tail (shm ctx') to_host = tail"
proof -
  note g = good_frame [OF inv fs hi]
  have h: "load32 (shm ctx) (r_ctrl to_host) = ring_head (shm ctx) to_host"
    by (simp add: ring_head_def)
  show "esp_shm_read_loop hdr_size alloc i (ring_tail (shm ctx) to_host) ctx =
      (if alloc i then (Some f, ctx') else esp_shm_read_loop hdr_size alloc (Suc i) tail ctx')"
    using g by (subst esp_shm_read_loop.simps) (simp add: Let_def h tail_def ctx'_def)
  note p = to_host_ring.pop_frame [OF inv fs]
  show "ring_inv hdr_size hi to_host (shm ctx')" "ring_frames to_host (shm ctx') = fs"
    "ring_tail (shm ctx') to_host = tail"
    using rx_done_ring [of hdr_size hi ctx tail] p by (simp_all add: ctx'_def tail_def)
qed

lemma read_loop_spec:
  assumes "ring_inv hdr_size hi to_host (shm ctx)" and "hi \<le> 0x8000"
    and "esp_shm_read_loop hdr_size alloc i (ring_tail (shm ctx) to_host) ctx = (res, ctx')"
  shows "ring_inv hdr_size hi to_host (shm ctx') \<and>
    (case res of
       None \<Rightarrow> ring_frames to_host (shm ctx') = [] \<and>
         (\<forall>j < length (ring_frames to_host (shm ctx)). \<not> alloc (i + j))
     | Some f \<Rightarrow> (\<exists>n. (\<forall>j < n. \<not> alloc (i + j)) \<and> alloc (i + n) \<and>
         n < length (ring_frames to_host (shm ctx)) \<and> f = ring_frames to_host (shm ctx) ! n \<and>
         ring_frames to_host (shm ctx') = drop (Suc n) (ring_frames to_host (shm ctx))))"
  using assms
proof (induction "ring_frames to_host (shm ctx)" arbitrary: i ctx)
  case Nil
  then show ?case
    using read_loop_empty [of hdr_size hi ctx alloc i] by auto
next
  case (Cons f fs)
  note st = read_loop_step [OF Cons(3,4) Cons(2) [symmetric]]
  define tail where "tail = ring_tail (shm ctx) to_host + of_nat (rec_len (length f))"
  define c1 where "c1 = esp_shm_rx_done tail ctx"
  note st = st [folded tail_def, folded c1_def]
  show ?case
  proof (cases "alloc i")
    case True
    then show ?thesis
      using st Cons(2,5) by (auto intro!: exI [where x = 0] simp flip: Cons(2))
  next
    case False
    then have "esp_shm_read_loop hdr_size alloc (Suc i) (ring_tail (shm c1) to_host) c1 = (res, ctx')"
      using st(1,4) Cons(5) by simp
    note IH = Cons(1) [OF st(3) [symmetric] st(2) Cons(4) this, unfolded st(3)]
    show ?thesis
    proof (cases res)
      case None
      then show ?thesis
        using IH False by (auto simp: less_Suc_eq_0_disj simp flip: Cons(2))
    next
      case (Some g)
      then obtain n where n: "\<forall>j<n. \<not> alloc (Suc i + j)" "alloc (Suc i + n)" "n < length fs"
        "g = fs ! n" "ring_frames to_host (shm ctx') = drop (Suc n) fs"
        using IH by auto
      have "\<forall>j<Suc n. \<not> alloc (i + j)"
        using n(1) False by (auto simp: less_Suc_eq_0_disj)
      then show ?thesis
        using IH [THEN conjunct1] Some n(2-)
        by (simp flip: Cons(2)) (rule exI [where x = "Suc n"], simp)
    qed
  qed
qed

text \<open>Whatever is in the block, a frame that the reader returns has a length
  between the header and the ring size.\<close>

lemma read_loop_bounds:
  "esp_shm_read_loop hdr_size alloc i tail ctx = (Some f, ctx') \<Longrightarrow> hdr_size < 2 ^ 32 \<Longrightarrow>
   hdr_size \<le> length f \<and> length f \<le> 0x8000"
proof (induction hdr_size alloc i tail ctx rule: esp_shm_read_loop.induct)
  case (1 hdr_size alloc i tail ctx)
  define head where "head = load32 (shm ctx) (r_ctrl to_host + ESP_SHM_HEAD_OFF)"
  define len where "len = get_le32 (lx_ring_copy_out (shm ctx) to_host tail 4)"
  have ok: "head \<noteq> tail" "\<not> rx_bad_len hdr_size head tail len"
    using 1(2) by (subst (asm) esp_shm_read_loop.simps; force simp: Let_def head_def len_def split: if_splits)+
  then have len: "hdr_size \<le> unat len" "unat len \<le> 0x8000"
    using 1(3) by (auto simp: rx_bad_len_def word_less_nat_alt not_less unat_of_nat r_size_to_host)
  show ?case
  proof (cases "alloc i")
    case True
    then have "f = lx_ring_copy_out (shm ctx) to_host (tail + 4) (unat len)"
      using 1(2) ok by (subst (asm) esp_shm_read_loop.simps) (simp add: Let_def head_def len_def)
    then show ?thesis
      using len by (simp add: to_host_ring.copy_out_bytes)
  next
    case False
    then show ?thesis
      using 1 ok by (subst (asm) (2) esp_shm_read_loop.simps) (simp add: Let_def head_def len_def)
  qed
qed

end
