(* ===== verification/Shm_Firmware.thy ===== *)
theory Shm_Firmware
  imports Shm_Linux
begin

text \<open>
  The firmware side of the transport, \<open>shm_slave_api.c\<close>: the doorbell
  interrupt, the host requests, init/deinit, the blocking write and read and
  the boot event.

  What the ESP-Hosted firmware outside the repository defines is the record
  \<open>hosted_lib\<close>: the layout of \<open>struct esp_payload_header\<close> (\<open>enc_hdr\<close>,
  \<open>dec_hdr\<close>, \<open>hdr_size\<close>), the tags and the two foreign parts of the boot event,
  and the result of \<open>send_to_host\<close>.  A blocking call takes a list of rounds: one
  entry per wait, with what the host did to the block meanwhile (and the tick
  count where the code reads it).  When the list ends the call still waits.
\<close>

section \<open>State\<close>

datatype esp_err = ESP_OK | ESP_FAIL | ESP_ERR_NO_MEM

datatype fw_call =
    Send_to_host bytes
  | Shm_flash_kick
  | Shm_flash_init
  | Esp_wifi_stop
  | Esp_deep_sleep_start

record fw_state = shm_hw +
  s_rx_sem :: "bool option"
  s_space_sem :: "bool option"
  s_intr :: bool
  s_handle_init :: bool
  s_boot_cap :: u32
  s_boot_ext_cap :: u32
  s_boot_cap_valid :: bool
  fw_log :: "fw_call list"

record hosted_lib =
  hdr_size :: nat
  enc_hdr :: "u8 \<Rightarrow> u8 \<Rightarrow> u8 \<Rightarrow> u8 \<Rightarrow> u16 \<Rightarrow> u16 \<Rightarrow> bytes"
  dec_hdr :: "bytes \<Rightarrow> u8 \<times> u8 \<times> u8 \<times> u8"
  ESP_BOOTUP_FIRMWARE_CHIP_ID :: u8
  ESP_BOOTUP_CAPABILITY :: u8
  ESP_BOOTUP_EXT_CAPABILITY :: u8
  ESP_BOOTUP_RX_BUF_SIZE :: u8
  ESP_BOOTUP_FW_DATA :: u8
  CONFIG_IDF_FIRMWARE_CHIP_ID :: u8
  LENGTH_1_BYTE :: u8
  LENGTH_4_BYTE :: u8
  boot_mac_tlv :: bytes
  fw_data :: bytes
  bootup_event :: "u16 \<Rightarrow> u16 \<Rightarrow> bytes"
  calloc_ok :: bool
  send_to_host_ok :: bool

abbreviation (input) SHM_TO_HOST_FRAME_MAX :: nat where "SHM_TO_HOST_FRAME_MAX \<equiv> 16 * 1024"
abbreviation (input) SHM_TO_FW_FRAME_MAX :: nat where "SHM_TO_FW_FRAME_MAX \<equiv> 8 * 1024"

definition shm_doorbell_isr :: "fw_state \<Rightarrow> fw_state" where
  "shm_doorbell_isr s = s\<lparr>doorbell_to_fw := 0,
     s_rx_sem := map_option (\<lambda>_. True) (s_rx_sem s),
     s_space_sem := map_option (\<lambda>_. True) (s_space_sem s)\<rparr>"

definition ring_host_doorbell :: "fw_state \<Rightarrow> fw_state" where
  "ring_host_doorbell s = s\<lparr>doorbell_to_host := 1\<rparr>"

section \<open>The boot event\<close>

definition boot_tlv4 :: "hosted_lib \<Rightarrow> u8 \<Rightarrow> u32 \<Rightarrow> bytes" where
  "boot_tlv4 L tag v = [tag, LENGTH_4_BYTE L] @ put_le32 v"

definition boot_tlvs :: "hosted_lib \<Rightarrow> u32 \<Rightarrow> u32 \<Rightarrow> bytes" where
  "boot_tlvs L cap ext_cap =
     [ESP_BOOTUP_FIRMWARE_CHIP_ID L, LENGTH_1_BYTE L, CONFIG_IDF_FIRMWARE_CHIP_ID L]
     @ boot_tlv4 L (ESP_BOOTUP_CAPABILITY L) cap
     @ (if ext_cap \<noteq> 0 then boot_tlv4 L (ESP_BOOTUP_EXT_CAPABILITY L) ext_cap else [])
     @ boot_mac_tlv L
     @ boot_tlv4 L (ESP_BOOTUP_RX_BUF_SIZE L) (of_nat SHM_TO_FW_FRAME_MAX)
     @ [ESP_BOOTUP_FW_DATA L, of_nat (length (fw_data L))]
     @ fw_data L"

definition send_bootup_event_to_host :: "hosted_lib \<Rightarrow> u32 \<Rightarrow> u32 \<Rightarrow> fw_state \<Rightarrow> esp_err \<times> fw_state" where
  "send_bootup_event_to_host L cap ext_cap s =
     (let s = s\<lparr>s_boot_cap := cap, s_boot_ext_cap := ext_cap, s_boot_cap_valid := True\<rparr>
      in if \<not> calloc_ok L then (ESP_ERR_NO_MEM, s)
         else let tlvs = boot_tlvs L cap ext_cap;
                  len = of_nat (length tlvs);
                  payload = bootup_event L (len + 1) len @ tlvs
              in if send_to_host_ok L then (ESP_OK, s\<lparr>fw_log := fw_log s @ [Send_to_host payload]\<rparr>)
                 else (ESP_FAIL, s))"

section \<open>Host requests, init and deinit\<close>

definition shm_service_host_requests :: "hosted_lib \<Rightarrow> fw_state \<Rightarrow> fw_state" where
  "shm_service_host_requests L s =
     (let req = load32 (shm s) (ESP_SHM_CTRL + ESP_SHM_HOST_REQ_OFF);
          s = s\<lparr>shm := store32 (shm s) (ESP_SHM_CTRL + ESP_SHM_HOST_REQ_OFF) 0\<rparr>;
          s = (if req AND ESP_SHM_REQ_READY_REPLAY \<noteq> 0 \<and> s_boot_cap_valid s
               then snd (send_bootup_event_to_host L (s_boot_cap s) (s_boot_ext_cap s) s) else s);
          s = s\<lparr>fw_log := fw_log s @ [Shm_flash_kick]\<rparr>
      in if req AND ESP_SHM_REQ_POWEROFF \<noteq> 0
         then s\<lparr>fw_log := fw_log s @ [Esp_wifi_stop, Esp_deep_sleep_start]\<rparr> else s)"

text \<open>\<open>rx_ok\<close>, \<open>space_ok\<close> and \<open>intr_ok\<close> are the outcomes of the two semaphore
  allocations and of \<open>esp_intr_alloc\<close>.  The result says whether a handle is
  returned.\<close>

definition shm_init :: "bool \<Rightarrow> bool \<Rightarrow> bool \<Rightarrow> fw_state \<Rightarrow> bool \<times> fw_state" where
  "shm_init rx_ok space_ok intr_ok s =
     (let fail = (\<lambda>s. (False, s\<lparr>s_rx_sem := None, s_space_sem := None\<rparr>));
          s = s\<lparr>s_rx_sem := (if rx_ok then Some False else None),
                s_space_sem := (if space_ok then Some False else None)\<rparr>
      in if \<not> rx_ok \<or> \<not> space_ok then fail s
         else let m = (\<lambda>i. if i < ESP_SHM_SIZE then 0 else shm s i);
                  s = s\<lparr>fw_log := fw_log s @ [Shm_flash_init]\<rparr>;
                  m = store32 m (ESP_SHM_CTRL + ESP_SHM_VERSION_OFF) ESP_SHM_VERSION
              in if \<not> intr_ok then fail (s\<lparr>shm := m\<rparr>)
                 else (True, s\<lparr>s_intr := True,
                         shm := store32 m (ESP_SHM_CTRL + ESP_SHM_MAGIC_OFF) ESP_SHM_MAGIC,
                         s_handle_init := True\<rparr>))"

definition shm_deinit :: "fw_state \<Rightarrow> fw_state" where
  "shm_deinit s = s\<lparr>shm := store32 (shm s) (ESP_SHM_CTRL + ESP_SHM_MAGIC_OFF) 0,
     s_intr := False, s_rx_sem := None, s_space_sem := None\<rparr>"

text \<open>The table of the interface, and the call that ESP-Hosted makes at the start; the
  table is cleared at the end.\<close>

record if_context =
  ic_usb :: bool
  ic_ops :: bool
  ic_handler :: bool

definition interface_insert_driver :: "if_context \<Rightarrow> if_context" where
  "interface_insert_driver c = \<lparr>ic_usb = True, ic_ops = True, ic_handler = True\<rparr>"

definition interface_remove_driver :: "fw_state \<Rightarrow> nat \<times> if_context \<times> fw_state" where
  "interface_remove_driver s = (0, \<lparr>ic_usb = False, ic_ops = False, ic_handler = False\<rparr>, shm_deinit s)"

definition shm_reset :: "fw_state \<Rightarrow> esp_err \<times> fw_state" where
  "shm_reset s = (ESP_OK, s)"

section \<open>Write\<close>

record if_buffer =
  ib_if_type :: u8
  ib_if_num :: u8
  ib_flag :: u8
  ib_pkt_type :: u8
  ib_payload :: "bytes option"

record write_round =
  host_before_retry :: "mem \<Rightarrow> mem"
  tick_count :: u32
  host_during_wait :: "mem \<Rightarrow> mem"

datatype write_outcome = Written mem bool | Write_failed mem | Write_waits mem

fun shm_write_loop :: "write_round list \<Rightarrow> u32 \<Rightarrow> u32 \<Rightarrow> bytes \<Rightarrow> bytes \<Rightarrow> mem \<Rightarrow> write_outcome" where
  "shm_write_loop rounds start timeout hdr payload m =
     (case fw_ring_push to_host hdr payload m of
        Some (m, kick) \<Rightarrow> Written m kick
      | None \<Rightarrow>
          (case rounds of
             [] \<Rightarrow> Write_waits m
           | w # ws \<Rightarrow>
               (let m = host_before_retry w (store32 m (r_ctrl to_host + ESP_SHM_WAIT_OFF) 1) in
                case fw_ring_push to_host hdr payload m of
                  Some (m, kick) \<Rightarrow> Written m kick
                | None \<Rightarrow>
                    if tick_count w - start > timeout then Write_failed m
                    else shm_write_loop ws start timeout hdr payload (host_during_wait w m))))"

declare shm_write_loop.simps [simp del]

text \<open>The length that \<open>shm_write\<close> returns, None for \<open>ESP_FAIL\<close>; the outer None
  while it waits.  \<open>timeout\<close> is \<open>pdMS_TO_TICKS(SHM_TX_TIMEOUT_MS)\<close>.\<close>

definition shm_write ::
  "hosted_lib \<Rightarrow> write_round list \<Rightarrow> u32 \<Rightarrow> u32 \<Rightarrow> bool \<Rightarrow> if_buffer option \<Rightarrow> fw_state \<Rightarrow>
   (nat option \<times> fw_state) option" where
  "shm_write L rounds start timeout handle buf s =
     (case buf of
        None \<Rightarrow> Some (None, s)
      | Some b \<Rightarrow>
          (case ib_payload b of
             None \<Rightarrow> Some (None, s)
           | Some p \<Rightarrow>
               if \<not> handle \<or> length p = 0 \<or> hdr_size L + length p > SHM_TO_HOST_FRAME_MAX
               then Some (None, s)
               else let hdr = enc_hdr L (ib_if_type b) (ib_if_num b) (ib_flag b) (ib_pkt_type b)
                                (of_nat (length p)) (of_nat (hdr_size L))
                    in (case shm_write_loop rounds start timeout hdr p (shm s) of
                          Write_waits m \<Rightarrow> None
                        | Write_failed m \<Rightarrow> Some (None, s\<lparr>shm := m\<rparr>)
                        | Written m kick \<Rightarrow>
                            Some (Some (length p),
                              if kick then ring_host_doorbell (s\<lparr>shm := m\<rparr>) else s\<lparr>shm := m\<rparr>))))"

section \<open>Read\<close>

fun shm_read_wait :: "hosted_lib \<Rightarrow> (fw_state \<Rightarrow> fw_state) list \<Rightarrow> u32 \<Rightarrow> fw_state \<Rightarrow> (u32 \<times> fw_state) option" where
  "shm_read_wait L rounds tail s =
     (let s = shm_service_host_requests L s;
          head = load32 (shm s) (r_ctrl to_fw + ESP_SHM_HEAD_OFF)
      in if head \<noteq> tail then Some (head, s)
         else case rounds of
                [] \<Rightarrow> None
              | w # ws \<Rightarrow> shm_read_wait L ws tail ((w s)\<lparr>s_rx_sem := map_option (\<lambda>_. False) (s_rx_sem (w s))\<rparr>))"

declare shm_read_wait.simps [simp del]

definition fw_bad_len :: "nat \<Rightarrow> u32 \<Rightarrow> u32 \<Rightarrow> u32 \<Rightarrow> bool" where
  "fw_bad_len hsize head tail len \<longleftrightarrow>
     len < of_nat hsize \<or> len > of_nat SHM_TO_FW_FRAME_MAX \<or> ESP_SHM_RECORD_LEN len > head - tail"

text \<open>The part of \<open>shm_read\<close> after the wait.  The frame None is the return value
  0: a broken record or no memory.\<close>

definition shm_read_frame :: "hosted_lib \<Rightarrow> bool \<Rightarrow> u32 \<Rightarrow> u32 \<Rightarrow> fw_state \<Rightarrow> bytes option \<times> fw_state" where
  "shm_read_frame L malloc_ok head tail s =
     (let len = get_le32 (fw_ring_copy_out (shm s) to_fw tail 4)
      in if fw_bad_len (hdr_size L) head tail len
         then (None, s\<lparr>shm := store32 (shm s) (r_ctrl to_fw + ESP_SHM_TAIL_OFF) head\<rparr>)
         else if \<not> malloc_ok then (None, s)
         else let buf = fw_ring_copy_out (shm s) to_fw (tail + 4) (unat len);
                  m = store32 (shm s) (r_ctrl to_fw + ESP_SHM_TAIL_OFF) (tail + ESP_SHM_RECORD_LEN len);
                  s = s\<lparr>shm := m\<rparr>;
                  s = (if load32 m (r_ctrl to_fw + ESP_SHM_WAIT_OFF) \<noteq> 0
                       then ring_host_doorbell (s\<lparr>shm := store32 m (r_ctrl to_fw + ESP_SHM_WAIT_OFF) 0\<rparr>)
                       else s)
              in (Some buf, s))"

definition frame_buffer :: "hosted_lib \<Rightarrow> bytes \<Rightarrow> if_buffer" where
  "frame_buffer L buf =
     (case dec_hdr L buf of (if_type, if_num, pkt_type, flags) \<Rightarrow>
        \<lparr>ib_if_type = if_type, ib_if_num = if_num, ib_flag = flags, ib_pkt_type = pkt_type,
         ib_payload = Some buf\<rparr>)"

datatype read_result = Read_fail | Read_zero | Read_frame if_buffer nat

definition shm_read ::
  "hosted_lib \<Rightarrow> (fw_state \<Rightarrow> fw_state) list \<Rightarrow> bool \<Rightarrow> bool \<Rightarrow> bool \<Rightarrow> fw_state \<Rightarrow> (read_result \<times> fw_state) option" where
  "shm_read L rounds malloc_ok handle buf_handle s =
     (if \<not> handle \<or> \<not> buf_handle then Some (Read_fail, s)
      else let tail = load32 (shm s) (r_ctrl to_fw + ESP_SHM_TAIL_OFF)
           in (case shm_read_wait L rounds tail s of
                 None \<Rightarrow> None
               | Some (head, s) \<Rightarrow>
                   (case shm_read_frame L malloc_ok head tail s of
                      (None, s) \<Rightarrow> Some (Read_zero, s)
                    | (Some buf, s) \<Rightarrow> Some (Read_frame (frame_buffer L buf) (length buf), s))))"

section \<open>Properties of the write\<close>

text \<open>What Linux may do to the ring while the firmware sends: take frames from
  its front.\<close>

definition host_consumes :: "nat \<Rightarrow> nat \<Rightarrow> (mem \<Rightarrow> mem) \<Rightarrow> bool" where
  "host_consumes lo hi h \<longleftrightarrow> (\<forall>m. ring_inv lo hi to_host m \<longrightarrow>
     ring_inv lo hi to_host (h m) \<and> (\<exists>d. ring_frames to_host (h m) = drop d (ring_frames to_host m)))"

definition rounds_consume :: "nat \<Rightarrow> nat \<Rightarrow> write_round list \<Rightarrow> bool" where
  "rounds_consume lo hi rounds \<longleftrightarrow>
     (\<forall>w \<in> set rounds. host_consumes lo hi (host_before_retry w) \<and> host_consumes lo hi (host_during_wait w))"

lemma host_consumesD:
  assumes "host_consumes lo hi h" and "ring_inv lo hi to_host m"
  shows "ring_inv lo hi to_host (h m)"
    and "\<exists>d. ring_frames to_host (h m) = drop d (ring_frames to_host m)"
  using assms by (auto simp: host_consumes_def)

lemma write_loop_spec:
  assumes "ring_inv lo hi to_host m" and "lo \<le> length (hdr @ payload)" "length (hdr @ payload) \<le> hi"
    and "hi + 7 < 2 ^ 32" and "rounds_consume lo hi rounds"
  shows "case shm_write_loop rounds start timeout hdr payload m of
      Written m' kick \<Rightarrow> ring_inv lo hi to_host m' \<and>
        (\<exists>d. ring_frames to_host m' = drop d (ring_frames to_host m) @ [hdr @ payload] \<and>
             kick = (drop d (ring_frames to_host m) = []))
    | Write_failed m' \<Rightarrow> ring_inv lo hi to_host m' \<and>
        (\<exists>d. ring_frames to_host m' = drop d (ring_frames to_host m))
    | Write_waits m' \<Rightarrow> ring_inv lo hi to_host m' \<and>
        (\<exists>d. ring_frames to_host m' = drop d (ring_frames to_host m))"
    (is "?P m (shm_write_loop rounds start timeout hdr payload m)")
  using assms(1,5)
proof (induction rounds arbitrary: m)
  have base: "?P m0 (Written m' k)"
    if "ring_inv lo hi to_host m1" "ring_frames to_host m1 = drop d (ring_frames to_host m0)"
      "fw_ring_push to_host hdr payload m1 = Some (m', k)" for m0 m1 m' k d
    using to_host_ring.push_frame [OF that(1) assms(2-4) that(3)] that(2) by auto
  {
    case Nil
    then show ?case
      using base [of m 0 m] by (subst shm_write_loop.simps) (auto split: option.splits intro: exI [where x = 0])
  next
    case (Cons w ws)
    define m1 where "m1 = host_before_retry w (store32 m (r_ctrl to_host + ESP_SHM_WAIT_OFF) 1)"
    define m2 where "m2 = host_during_wait w m1"
    have hc: "host_consumes lo hi (host_before_retry w)" "host_consumes lo hi (host_during_wait w)"
      "rounds_consume lo hi ws"
      using Cons(3) by (simp_all add: rounds_consume_def)
    obtain d where m1: "ring_inv lo hi to_host m1" "ring_frames to_host m1 = drop d (ring_frames to_host m)"
      using host_consumesD [OF hc(1), of "store32 m (r_ctrl to_host + ESP_SHM_WAIT_OFF) 1"] Cons(2)
      by (auto simp: m1_def)
    obtain e where m2: "ring_inv lo hi to_host m2" "ring_frames to_host m2 = drop e (ring_frames to_host m)"
      using host_consumesD [OF hc(2) m1(1)] m1(2) by (auto simp: m2_def)
    have "?P m2 (shm_write_loop ws start timeout hdr payload m2)"
      using Cons(1) m2(1) hc(3) by blast
    then have "?P m (shm_write_loop ws start timeout hdr payload m2)"
      by (auto simp: m2(2) split: write_outcome.splits)
    then show ?case
      using base [of m 0 m] base [OF m1] m1 Cons(2)
      by (subst shm_write_loop.simps)
        (auto simp: Let_def simp flip: m1_def m2_def split: option.splits)
  }
qed

text \<open>The wait is bounded: a round past the timeout ends it.\<close>

lemma write_loop_returns:
  "\<exists>w \<in> set rounds. tick_count w - start > timeout \<Longrightarrow>
   shm_write_loop rounds start timeout hdr payload m \<noteq> Write_waits m'"
proof (induction rounds arbitrary: m)
  case (Cons w ws)
  then show ?case
    by (subst shm_write_loop.simps) (auto simp: Let_def split: option.splits)
qed simp

section \<open>Properties of the read\<close>

lemma fw_good_frame:
  assumes inv: "ring_inv (hdr_size L) hi to_fw m" and fs: "ring_frames to_fw m = f # fs"
    and hi: "hi \<le> SHM_TO_FW_FRAME_MAX"
  defines "tail \<equiv> ring_tail m to_fw" and "head \<equiv> ring_head m to_fw"
  defines "len \<equiv> get_le32 (fw_ring_copy_out m to_fw tail 4)"
  shows "head \<noteq> tail" and "\<not> fw_bad_len (hdr_size L) head tail len"
    and "fw_ring_copy_out m to_fw (tail + 4) (unat len) = f"
    and "tail + ESP_SHM_RECORD_LEN len = tail + of_nat (rec_len (length f))"
proof -
  note p = to_fw_ring.peek_frame [OF inv fs]
  have len: "unat len = length f"
    using p(1) by (simp add: len_def tail_def)
  have rl: "unat (ESP_SHM_RECORD_LEN len) = rec_len (length f)"
    using unat_RECORD_LEN [of len] p(4) by (simp add: len)
  show "head \<noteq> tail"
    using to_fw_ring.empty_iff [OF inv] fs by (simp add: head_def tail_def)
  have "hdr_size L < 2 ^ 32"
    using p(5,6) hi by simp
  then show "\<not> fw_bad_len (hdr_size L) head tail len"
    using p(3,5,6) hi rl
    by (simp add: fw_bad_len_def word_less_nat_alt len unat_of_nat head_def tail_def ring_used_def)
  show "fw_ring_copy_out m to_fw (tail + 4) (unat len) = f"
    using p(2) by (simp add: len tail_def)
  show "tail + ESP_SHM_RECORD_LEN len = tail + of_nat (rec_len (length f))"
    using rl by (metis of_nat_unat ucast_id)
qed

lemma read_frame_good:
  assumes inv: "ring_inv (hdr_size L) hi to_fw (shm s)" and hi: "hi \<le> SHM_TO_FW_FRAME_MAX"
    and fs: "ring_frames to_fw (shm s) = f # fs"
    and rd: "shm_read_frame L malloc_ok (ring_head (shm s) to_fw) (ring_tail (shm s) to_fw) s = (res, s')"
  shows "ring_inv (hdr_size L) hi to_fw (shm s')"
    and "res = (if malloc_ok then Some f else None)"
    and "ring_frames to_fw (shm s') = (if malloc_ok then fs else f # fs)"
proof -
  note g = fw_good_frame [OF inv fs hi]
  note p = to_fw_ring.pop_frame [OF inv fs]
  show "ring_inv (hdr_size L) hi to_fw (shm s')" "res = (if malloc_ok then Some f else None)"
    "ring_frames to_fw (shm s') = (if malloc_ok then fs else f # fs)"
    using rd g p inv fs
    by (auto simp: shm_read_frame_def Let_def ring_host_doorbell_def split: if_splits)
qed

text \<open>Whatever is in the block, a returned frame has a good length, and a broken
  record empties the ring.\<close>

lemma read_frame_bounds:
  assumes "shm_read_frame L malloc_ok head tail s = (Some f, s')" and "hdr_size L < 2 ^ 32"
  shows "hdr_size L \<le> length f \<and> length f \<le> SHM_TO_FW_FRAME_MAX"
proof -
  define len where "len = get_le32 (fw_ring_copy_out (shm s) to_fw tail 4)"
  have ok: "\<not> fw_bad_len (hdr_size L) head tail len"
    and f: "f = fw_ring_copy_out (shm s) to_fw (tail + 4) (unat len)"
    using assms(1) by (auto simp: shm_read_frame_def Let_def len_def split: if_splits)
  then have "hdr_size L \<le> unat len" "unat len \<le> 8192"
    using assms(2) by (auto simp: fw_bad_len_def word_less_nat_alt not_less unat_of_nat)
  then show ?thesis
    by (simp add: f to_fw_ring.copy_out_bytes)
qed

lemma read_frame_broken:
  assumes "fw_bad_len (hdr_size L) (ring_head (shm s) to_fw) (ring_tail (shm s) to_fw)
      (get_le32 (fw_ring_copy_out (shm s) to_fw (ring_tail (shm s) to_fw) 4))"
    and "shm_read_frame L malloc_ok (ring_head (shm s) to_fw) (ring_tail (shm s) to_fw) s = (res, s')"
  shows "res = None" and "ring_inv lo hi to_fw (shm s')" and "ring_frames to_fw (shm s') = []"
proof -
  have s': "res = None" "s' = s\<lparr>shm := store32 (shm s) (r_ctrl to_fw + ESP_SHM_TAIL_OFF) (ring_head (shm s) to_fw)\<rparr>"
    using assms by (auto simp: shm_read_frame_def Let_def)
  have "ring_used (shm s') to_fw = 0"
    by (simp add: s' ring_used_def ring_head_def ring_tail_def load32_store32_other)
  moreover from this have "ring_linear (shm s') to_fw = []"
    by (simp add: ring_linear_def ring_bytes_def)
  ultimately show "res = None" "ring_inv lo hi to_fw (shm s')" "ring_frames to_fw (shm s') = []"
    by (simp_all add: s'(1) ring_inv_def ring_frames_def)
qed

end
