(* ===== verification/Shm_Channel.thy ===== *)
theory Shm_Channel
  imports Shm_Firmware
begin

text \<open>
  What the two rings promise to the code that uses them.  The locale
  \<open>frame_channel\<close> is the interface: a bounded first-in-first-out queue of
  frames with a sender and a receiver; its client lemma follows any sequence of
  sends and receives.  It is interpreted on both directions: Linux sends with
  \<open>esp_shm_push\<close> and the firmware receives with \<open>shm_read\<close>; the firmware sends
  with \<open>ring_push\<close> and Linux receives with the loop of \<open>esp_shm_read\<close>.
\<close>

section \<open>The interface\<close>

datatype chan_op = Send bytes | Recv

text \<open>A run: the frames accepted by the sender, the frames returned by the
  receiver, and the final state.\<close>

fun chan_run :: "(bytes \<Rightarrow> 'm \<Rightarrow> 'm option) \<Rightarrow> ('m \<Rightarrow> bytes option \<times> 'm) \<Rightarrow> chan_op list \<Rightarrow> 'm \<Rightarrow>
    bytes list \<times> bytes list \<times> 'm" where
  "chan_run send recv [] m = ([], [], m)"
| "chan_run send recv (Send f # ops) m =
     (case send f m of
        None \<Rightarrow> chan_run send recv ops m
      | Some m' \<Rightarrow> (case chan_run send recv ops m' of (s, r, m2) \<Rightarrow> (f # s, r, m2)))"
| "chan_run send recv (Recv # ops) m =
     (case recv m of
        (None, m') \<Rightarrow> chan_run send recv ops m'
      | (Some f, m') \<Rightarrow> (case chan_run send recv ops m' of (s, r, m2) \<Rightarrow> (s, f # r, m2)))"

locale frame_channel =
  fixes chan_inv :: "'m \<Rightarrow> bool" and frames :: "'m \<Rightarrow> bytes list"
    and send :: "bytes \<Rightarrow> 'm \<Rightarrow> 'm option" and recv :: "'m \<Rightarrow> bytes option \<times> 'm"
    and fits :: "bytes \<Rightarrow> bool"
  assumes send_ok: "chan_inv m \<Longrightarrow> fits f \<Longrightarrow> send f m = Some m' \<Longrightarrow>
      chan_inv m' \<and> frames m' = frames m @ [f]"
    and recv_empty: "chan_inv m \<Longrightarrow> frames m = [] \<Longrightarrow>
      fst (recv m) = None \<and> chan_inv (snd (recv m)) \<and> frames (snd (recv m)) = []"
    and recv_ok: "chan_inv m \<Longrightarrow> frames m = f # fs \<Longrightarrow>
      fst (recv m) = Some f \<and> chan_inv (snd (recv m)) \<and> frames (snd (recv m)) = fs"
begin

text \<open>No frame is lost, duplicated, changed or reordered.\<close>

lemma run_fifo:
  assumes "chan_inv m" and "\<forall>f. Send f \<in> set ops \<longrightarrow> fits f"
    and "chan_run send recv ops m = (sent, received, m')"
  shows "chan_inv m' \<and> frames m @ sent = received @ frames m'"
  using assms
proof (induction ops arbitrary: m sent received)
  case (Cons a ops)
  show ?case
  proof (cases a)
    case (Send f)
    show ?thesis
    proof (cases "send f m")
      case None
      then show ?thesis using Cons Send by simp
    next
      case (Some m1)
      then obtain s r where "chan_run send recv ops m1 = (s, r, m')" "sent = f # s" "received = r"
        using Cons(4) Send by (auto split: prod.splits)
      then show ?thesis
        using Cons(1) [of m1 s r] send_ok [OF Cons(2) _ Some] Cons(3) Send by simp
    qed
  next
    case Recv
    show ?thesis
    proof (cases "frames m")
      case Nil
      then show ?thesis
        using recv_empty [OF Cons(2) Nil] Cons(1) [of "snd (recv m)" sent received] Cons(3,4) Recv
        by (cases "recv m") auto
    next
      case (Cons f fs)
      note ok = recv_ok [OF Cons.prems(1) Cons]
      obtain s r where "chan_run send recv ops (snd (recv m)) = (s, r, m')" "sent = s" "received = f # r"
        using ok Cons.prems(3) Recv by (cases "recv m") (auto split: prod.splits)
      then show ?thesis
        using Cons.IH [of "snd (recv m)" s r] ok Cons.prems(2) Cons by simp
    qed
  qed
qed simp

lemma recv_all:
  assumes "chan_inv m" and "length (frames m) = n"
  shows "fst (snd (chan_run send recv (replicate n Recv) m)) = frames m"
  using assms
proof (induction n arbitrary: m)
  case (Suc n)
  then obtain f fs where fs: "frames m = f # fs"
    by (cases "frames m") auto
  note ok = recv_ok [OF Suc(2) fs]
  then show ?case
    using Suc(1) [of "snd (recv m)"] Suc(3) fs by (cases "recv m") (auto split: prod.splits)
qed simp

end

text \<open>A channel of bounded size: a frame is refused exactly when it does not fit
  beside the frames that wait.\<close>

definition frames_size :: "bytes list \<Rightarrow> nat" where
  "frames_size fs = sum_list (map (\<lambda>f. rec_len (length f)) fs)"

locale bounded_channel = frame_channel +
  fixes cap :: nat
  assumes send_full: "chan_inv m \<Longrightarrow> fits f \<Longrightarrow>
      send f m = None \<longleftrightarrow> frames_size (frames m) + rec_len (length f) > cap"
begin

lemma drained_accepts:
  "chan_inv m \<Longrightarrow> frames m = [] \<Longrightarrow> fits f \<Longrightarrow> rec_len (length f) \<le> cap \<Longrightarrow> \<exists>m'. send f m = Some m'"
  using send_full [of m f] by (auto simp: frames_size_def)

end

section \<open>The rings\<close>

lemma parse_records_size: "parse_records bs = Some fs \<Longrightarrow> length bs = frames_size fs"
proof (induction fs arbitrary: bs)
  case Nil
  then show ?case
    using parse_records_NilD by (auto simp: frames_size_def)
next
  case (Cons f fs)
  then show ?case
    using parse_records_ConsD [OF Cons(2)] by (fastforce simp: frames_size_def)
qed

lemma ring_used_frames: "ring_inv lo hi r m \<Longrightarrow> ring_used m r = frames_size (ring_frames r m)"
  using parse_records_size [of "ring_linear m r"] ring_invD(2) [of lo hi r m]
  by (simp add: ring_linear_def)

text \<open>Linux to firmware.  The state is the firmware's, which contains the block.\<close>

definition to_fw_send :: "bytes \<Rightarrow> fw_state \<Rightarrow> fw_state option" where
  "to_fw_send f s = map_option (\<lambda>(m, kick). s\<lparr>shm := m\<rparr>) (esp_shm_push f 0 (shm s))"

definition to_fw_recv :: "hosted_lib \<Rightarrow> fw_state \<Rightarrow> bytes option \<times> fw_state" where
  "to_fw_recv L s =
     (case shm_read L [] True True True s of
        Some (Read_frame b n, s') \<Rightarrow> (ib_payload b, s')
      | Some (_, s') \<Rightarrow> (None, s')
      | None \<Rightarrow> (None, s))"

text \<open>Firmware to Linux: \<open>hs\<close> is the size of the header that \<open>ring_push\<close> gets
  apart from the payload.\<close>

definition to_host_send :: "nat \<Rightarrow> bytes \<Rightarrow> esp_shm_context \<Rightarrow> esp_shm_context option" where
  "to_host_send hs f ctx =
     map_option (\<lambda>(m, kick). ctx\<lparr>shm := m\<rparr>) (fw_ring_push to_host (take hs f) (drop hs f) (shm ctx))"

definition to_host_recv :: "nat \<Rightarrow> esp_shm_context \<Rightarrow> bytes option \<times> esp_shm_context" where
  "to_host_recv hs ctx =
     esp_shm_read_loop hs (\<lambda>_. True) 0 (load32 (shm ctx) (r_ctrl to_host + ESP_SHM_TAIL_OFF)) ctx"

definition frame_fits :: "nat \<Rightarrow> nat \<Rightarrow> bytes \<Rightarrow> bool" where
  "frame_fits lo hi f \<longleftrightarrow> lo \<le> length f \<and> length f \<le> hi"

lemma service_shm [simp]:
  "shm (shm_service_host_requests L s) = store32 (shm s) (ESP_SHM_CTRL + ESP_SHM_HOST_REQ_OFF) 0"
  by (simp add: shm_service_host_requests_def send_bootup_event_to_host_def Let_def)

lemma service_ring [simp]:
  "ring_inv lo hi to_fw (store32 m 8 v) = ring_inv lo hi to_fw m"
  "ring_frames to_fw (store32 m 8 v) = ring_frames to_fw m"
  "ring_head (store32 m 8 v) to_fw = ring_head m to_fw"
  "ring_tail (store32 m 8 v) to_fw = ring_tail m to_fw"
  by (simp_all add: ctrl_store_same ring_head_def ring_tail_def to_fw_def load32_store32_other)

lemma shm_read_blocks:
  assumes "ring_inv lo hi to_fw (shm s)" and "ring_frames to_fw (shm s) = []"
  shows "shm_read L [] malloc_ok True True s = None"
  using to_fw_ring.empty_iff [OF assms(1)] assms(2)
    service_ring(3) [of "shm s" 0]
  by (simp add: shm_read_def shm_read_wait.simps Let_def ring_head_def ring_tail_def)

lemma shm_read_good:
  assumes inv: "ring_inv (hdr_size L) hi to_fw (shm s)" and hi: "hi \<le> SHM_TO_FW_FRAME_MAX"
    and fs: "ring_frames to_fw (shm s) = f # fs"
  obtains s' where "shm_read L rounds True True True s = Some (Read_frame (frame_buffer L f) (length f), s')"
    and "ring_inv (hdr_size L) hi to_fw (shm s')" and "ring_frames to_fw (shm s') = fs"
proof -
  define s1 where "s1 = shm_service_host_requests L s"
  have s1: "ring_inv (hdr_size L) hi to_fw (shm s1)" "ring_frames to_fw (shm s1) = f # fs"
    and tl: "load32 (shm s) (r_ctrl to_fw + ESP_SHM_TAIL_OFF) = ring_tail (shm s1) to_fw"
    and hd: "load32 (shm s1) (r_ctrl to_fw + ESP_SHM_HEAD_OFF) = ring_head (shm s1) to_fw"
    using inv fs service_ring(4) [of "shm s" 0] by (simp_all add: s1_def ring_tail_def ring_head_def)
  have ne: "ring_head (shm s1) to_fw \<noteq> ring_tail (shm s1) to_fw"
    using to_fw_ring.empty_iff [OF s1(1)] s1(2) by simp
  have w: "shm_read_wait L rounds (ring_tail (shm s1) to_fw) s = Some (ring_head (shm s1) to_fw, s1)"
    using ne hd by (subst shm_read_wait.simps) (simp add: Let_def flip: s1_def)
  obtain res s' where rd: "shm_read_frame L True (ring_head (shm s1) to_fw) (ring_tail (shm s1) to_fw) s1 = (res, s')"
    by fastforce
  note g = read_frame_good [OF s1(1) hi s1(2) rd]
  show thesis
    using that [of s'] g rd w by (simp add: shm_read_def Let_def tl)
qed

interpretation to_fw_chan:
  bounded_channel "\<lambda>s. ring_inv (hdr_size L) SHM_TO_FW_FRAME_MAX to_fw (shm s)"
    "\<lambda>s. ring_frames to_fw (shm s)" to_fw_send "to_fw_recv L"
    "frame_fits (hdr_size L) SHM_TO_FW_FRAME_MAX" "0x4000"
  for L :: hosted_lib
proof (unfold_locales, goal_cases)
  case (1 s f s')
  then obtain m k where p: "esp_shm_push f 0 (shm s) = Some (m, k)" "s' = s\<lparr>shm := m\<rparr>"
    by (auto simp: to_fw_send_def)
  then show ?case
    using 1 esp_shm_push_frame [OF 1(1) _ _ _ p(1)] by (simp add: frame_fits_def)
next
  case (2 s)
  then show ?case
    using shm_read_blocks [OF 2, of L True] by (simp add: to_fw_recv_def)
next
  case (3 s f fs)
  then obtain s' where "shm_read L [] True True True s = Some (Read_frame (frame_buffer L f) (length f), s')"
    "ring_inv (hdr_size L) SHM_TO_FW_FRAME_MAX to_fw (shm s')" "ring_frames to_fw (shm s') = fs"
    using shm_read_good [OF 3(1) order_refl 3(2)] by blast
  then show ?case
    by (simp add: to_fw_recv_def frame_buffer_def split: prod.splits)
next
  case (4 s f)
  then show ?case
    using to_fw_ring.push_room [of "shm s" "[]" f] ring_invD(1) [OF 4(1)] ring_used_frames [OF 4(1)]
    by (simp add: to_fw_send_def esp_shm_push_eq frame_fits_def to_fw_ring.size_pow)
qed

interpretation to_host_chan:
  bounded_channel "\<lambda>ctx. ring_inv hs 0x8000 to_host (shm ctx)"
    "\<lambda>ctx. ring_frames to_host (shm ctx)" "to_host_send hs" "to_host_recv hs"
    "frame_fits hs SHM_TO_HOST_FRAME_MAX" "0x8000"
  for hs :: nat
proof (unfold_locales, goal_cases)
  case (1 s f s')
  then obtain m k where p: "fw_ring_push to_host (take hs f) (drop hs f) (shm s) = Some (m, k)" "s' = s\<lparr>shm := m\<rparr>"
    by (auto simp: to_host_send_def)
  then show ?case
    using 1(2) to_host_ring.push_frame [OF 1(1) _ _ _ p(1)] by (simp add: frame_fits_def)
next
  case (2 s)
  then show ?case
    using read_loop_empty [OF 2, where alloc = "\<lambda>_. True" and i = 0] by (simp add: to_host_recv_def ring_tail_def)
next
  case (3 s f fs)
  then show ?case
    using read_loop_step(1) [OF 3(1) order_refl 3(2), where alloc = "\<lambda>_. True" and i = 0]
      read_loop_step(2-4) [OF 3(1) order_refl 3(2)]
    by (simp add: to_host_recv_def ring_tail_def)
next
  case (4 s f)
  have "length (take hs f) + length (drop hs f) = length f"
    by (simp flip: length_append)
  then show ?case
    using 4 to_host_ring.push_room [of "shm s" "take hs f" "drop hs f"] ring_invD(1) [OF 4(1)]
      ring_used_frames [OF 4(1)]
    by (simp add: to_host_send_def frame_fits_def to_host_ring.size_pow del: length_take length_drop)
qed

section \<open>The block after the firmware's init\<close>

lemma zero_ring:
  assumes "\<And>a. a \<in> {r_ctrl r ..< r_ctrl r + 0x44} \<Longrightarrow> m a = 0"
  shows "ring_inv lo hi r m" and "ring_frames r m = []"
proof -
  have "load_bytes m (r_ctrl r) 4 = load_bytes (\<lambda>_. 0) (r_ctrl r) 4"
    "load_bytes m (r_ctrl r + 0x40) 4 = load_bytes (\<lambda>_. 0) (r_ctrl r + 0x40) 4"
    using assms by (auto intro!: nth_equalityI simp: nth_load_bytes)
  then have "ring_used m r = 0"
    by (simp add: ring_used_def ring_head_def ring_tail_def load32_def load_bytes_def upt_rec)
  moreover from this have "ring_linear m r = []"
    by (simp add: ring_linear_def ring_bytes_def)
  ultimately show "ring_inv lo hi r m" "ring_frames r m = []"
    by (simp_all add: ring_inv_def ring_frames_def)
qed

lemma init_rings:
  assumes "shm_init rx_ok space_ok intr_ok s = (True, s')"
  shows "ring_inv lo hi to_fw (shm s')" and "ring_frames to_fw (shm s') = []"
    and "ring_inv lo hi to_host (shm s')" and "ring_frames to_host (shm s') = []"
    and "load32 (shm s') (ESP_SHM_CTRL + ESP_SHM_MAGIC_OFF) = ESP_SHM_MAGIC"
    and "load32 (shm s') (ESP_SHM_CTRL + ESP_SHM_VERSION_OFF) = ESP_SHM_VERSION"
proof -
  have m: "shm s' = store32 (store32 (\<lambda>i. if i < ESP_SHM_SIZE then 0 else shm s i) 4 ESP_SHM_VERSION) 0 ESP_SHM_MAGIC"
    using assms by (auto simp: shm_init_def Let_def split: if_splits cong: if_cong)
  show "ring_inv lo hi to_fw (shm s')" "ring_frames to_fw (shm s') = []"
    by (rule zero_ring; simp add: m to_fw_def store32_out)+
  show "ring_inv lo hi to_host (shm s')" "ring_frames to_host (shm s') = []"
    by (rule zero_ring; simp add: m to_host_def store32_out)+
  show "load32 (shm s') (ESP_SHM_CTRL + ESP_SHM_MAGIC_OFF) = ESP_SHM_MAGIC"
    "load32 (shm s') (ESP_SHM_CTRL + ESP_SHM_VERSION_OFF) = ESP_SHM_VERSION"
    by (simp_all add: m load32_store32_other)
qed

text \<open>Concrete states for the witnesses: a block the firmware has initialised,
  and an ESP-Hosted library with a 12-byte header.\<close>

definition blank_fw :: fw_state where
  "blank_fw = \<lparr>shm = (\<lambda>_. 0), doorbell_to_fw = 0, doorbell_to_host = 0, s_rx_sem = None,
     s_space_sem = None, s_intr = False, s_handle_init = False, s_boot_cap = 0, s_boot_ext_cap = 0,
     s_boot_cap_valid = False, fw_log = []\<rparr>"

definition demo_lib :: hosted_lib where
  "demo_lib = \<lparr>hdr_size = 12,
     enc_hdr = (\<lambda>t n f p l off. [t, n, f, p] @ put_le16 l @ put_le16 off @ [0, 0, 0, 0]),
     dec_hdr = (\<lambda>b. (b ! 0, b ! 1, b ! 3, b ! 2)),
     ESP_BOOTUP_FIRMWARE_CHIP_ID = 0, ESP_BOOTUP_CAPABILITY = 1, ESP_BOOTUP_EXT_CAPABILITY = 2,
     ESP_BOOTUP_RX_BUF_SIZE = 3, ESP_BOOTUP_FW_DATA = 4, CONFIG_IDF_FIRMWARE_CHIP_ID = 5,
     LENGTH_1_BYTE = 1, LENGTH_4_BYTE = 4, boot_mac_tlv = [], fw_data = [],
     bootup_event = (\<lambda>_ _. []), calloc_ok = True, send_to_host_ok = True\<rparr>"

definition demo_ctx :: esp_shm_context where
  "demo_ctx = \<lparr>shm = (\<lambda>_. 0), doorbell_to_fw = 0, doorbell_to_host = 0, tx_queue = [],
     tx_work = False, flash = False, running = True, tx_quiesced = False, tx_paused = False, lx_log = []\<rparr>"

definition demo_adapter :: esp_adapter where
  "demo_adapter = \<lparr>if_context = Some demo_ctx, tx_aggr_size = 8192, transport_removing = False,
     cleanup_in_progress = False, init_done = True, context_state = ESP_CONTEXT_RX_READY, chipset = 0\<rparr>"

lemma blank_rings [simp]:
  "ring_inv lo hi to_fw (\<lambda>_. 0)" "ring_frames to_fw (\<lambda>_. 0) = []"
  "ring_inv lo hi to_host (\<lambda>_. 0)" "ring_frames to_host (\<lambda>_. 0) = []"
  by (rule zero_ring; simp)+

section \<open>Sequences of driver events\<close>

datatype lx_event =
    Ev_write "sk_buff option" | Ev_work | Ev_irq | Ev_read | Ev_quiesce | Ev_reinit | Ev_recover

definition on_ctx :: "(esp_shm_context \<Rightarrow> esp_shm_context) \<Rightarrow> esp_adapter \<Rightarrow> esp_adapter" where
  "on_ctx g ad = ad\<lparr>if_context := map_option g (if_context ad)\<rparr>"

fun lx_step :: "nat \<Rightarrow> (mem \<Rightarrow> mem) \<Rightarrow> nat \<Rightarrow> (nat \<Rightarrow> bool) \<Rightarrow> lx_event \<Rightarrow> esp_adapter \<Rightarrow> esp_adapter" where
  "lx_step n_if fw hs alloc (Ev_write skb) ad = the (snd (esp_shm_write n_if fw (Some ad) skb))"
| "lx_step n_if fw hs alloc Ev_work ad = on_ctx (esp_shm_tx_work n_if fw) ad"
| "lx_step n_if fw hs alloc Ev_irq ad = on_ctx esp_shm_irq ad"
| "lx_step n_if fw hs alloc Ev_read ad = the (snd (esp_shm_read hs alloc (Some ad)))"
| "lx_step n_if fw hs alloc Ev_quiesce ad = the (snd (esp_shm_quiesce_for_fw_reset (Some ad)))"
| "lx_step n_if fw hs alloc Ev_reinit ad = the (snd (esp_shm_reinit_after_fw_reset (Some ad)))"
| "lx_step n_if fw hs alloc Ev_recover ad = the (snd (esp_shm_recover_transport (Some ad)))"

definition adapter_inv :: "esp_adapter \<Rightarrow> bool" where
  "adapter_inv ad \<longleftrightarrow> (case if_context ad of None \<Rightarrow> True | Some ctx \<Rightarrow> tx_inv ctx)"

lemma rx_done_tx [simp]:
  "tx_queue (esp_shm_rx_done t ctx) = tx_queue ctx" "tx_paused (esp_shm_rx_done t ctx) = tx_paused ctx"
  by (simp_all add: esp_shm_rx_done_def Let_def)

lemma read_loop_tx:
  "esp_shm_read_loop hs alloc i t ctx = (res, ctx') \<Longrightarrow>
   tx_queue ctx' = tx_queue ctx \<and> tx_paused ctx' = tx_paused ctx"
proof (induction hs alloc i t ctx rule: esp_shm_read_loop.induct)
  case (1 hs alloc i t ctx)
  then show ?case
    by (subst (asm) (2) esp_shm_read_loop.simps)
      (auto simp: Let_def log_call_def split: if_splits)
qed

lemma esp_shm_write_keeps_Some: "\<exists>ad'. snd (esp_shm_write n_if fw (Some ad) skb) = Some ad'"
  by (auto simp: esp_shm_write_def Let_def split: option.splits)

lemma write_no_ctx: "if_context ad = None \<Longrightarrow> snd (esp_shm_write n_if fw (Some ad) skb) = Some ad"
  by (auto simp: esp_shm_write_def split: option.splits)

lemma step_adapter_inv: "adapter_inv ad \<Longrightarrow> adapter_inv (lx_step n_if fw hs alloc ev ad)"
proof (cases "if_context ad")
  case None
  then show ?thesis
    by (cases ev) (simp_all add: adapter_inv_def on_ctx_def write_no_ctx esp_shm_read_def
        esp_shm_quiesce_for_fw_reset_def esp_shm_reinit_after_fw_reset_def esp_shm_recover_transport_def)
next
  case (Some ctx)
  assume "adapter_inv ad"
  then have i: "tx_inv ctx"
    by (simp add: adapter_inv_def Some)
  show ?thesis
  proof (cases ev)
    case (Ev_write skb)
    obtain res ad' where w: "esp_shm_write n_if fw (Some ad) skb = (res, Some ad')"
      using esp_shm_write_keeps_Some by (metis surjective_pairing)
    show ?thesis
      by (rule write_tx_inv [OF w Some i]) (simp add: Ev_write w adapter_inv_def)
  next
    case Ev_work
    have "tx_inv (ctx\<lparr>tx_work := False\<rparr>)"
      using i by (simp add: tx_inv_def)
    then show ?thesis
      using flush_tx_inv Ev_work by (simp add: adapter_inv_def on_ctx_def Some esp_shm_tx_work_def)
  next
    case Ev_read
    show ?thesis
      using read_loop_tx [of hs alloc 0 _ ctx] i
      by (auto simp: Ev_read adapter_inv_def Some esp_shm_read_def tx_inv_def split: prod.splits)
  qed (use i in \<open>simp_all add: adapter_inv_def on_ctx_def Some tx_inv_def esp_shm_irq_def log_call_def Let_def
      esp_shm_quiesce_for_fw_reset_def esp_shm_reinit_after_fw_reset_def esp_shm_recover_transport_def
      esp_shm_tx_purge_def cancel_tx_work_def esp_shm_set_tx_quiesced_def esp_shm_request_ready_replay_def\<close>)
qed

lemma steps_adapter_inv:
  "adapter_inv ad \<Longrightarrow> adapter_inv (fold (lx_step n_if fw hs alloc) evs ad)"
  by (induction evs arbitrary: ad) (simp_all add: step_adapter_inv)

lemma write_ok:
  assumes "if_context ad = Some ctx" and "running ctx" and "\<not> tx_quiesced ctx"
    and "length (skb_data skb) \<le> tx_aggr_size ad" and "\<not> (skb_nonlinear skb \<and> skb_linearize_fails skb)"
    and "length (tx_queue ctx) < ESP_SHM_TX_QUEUE_MAX"
  obtains ctx' where "esp_shm_write n_if fw (Some ad) (Some skb) = (Inr (), Some (ad\<lparr>if_context := Some ctx'\<rparr>))"
    and "\<exists>k. tx_flush_loop fw (tx_queue ctx @ [skb_data skb]) (shm ctx) False = (tx_queue ctx', shm ctx', k)"
    and "length (tx_queue ctx') \<ge> ESP_SHM_TX_PAUSE \<Longrightarrow> tx_paused ctx'"
proof -
  define c1 where "c1 = ctx\<lparr>tx_queue := tx_queue ctx @ [skb_data skb]\<rparr>"
  define c2 where "c2 = esp_shm_tx_flush n_if fw c1"
  define c3 where "c3 = (if length (tx_queue c2) \<ge> ESP_SHM_TX_PAUSE then esp_shm_tx_flow n_if True c2 else c2)"
  have "esp_shm_write n_if fw (Some ad) (Some skb) = (Inr (), Some (ad\<lparr>if_context := Some c3\<rparr>))"
    using assms by (auto simp: esp_shm_write_def Let_def c1_def c2_def c3_def)
  moreover have "running c1" "\<not> tx_quiesced c1"
    using assms by (simp_all add: c1_def)
  then have "\<exists>k. tx_flush_loop fw (tx_queue c1) (shm c1) False = (tx_queue c2, shm c2, k)"
    by (rule tx_flush_cases [where fw = fw and n_if = n_if]) (auto simp: c2_def)
  then have "\<exists>k. tx_flush_loop fw (tx_queue ctx @ [skb_data skb]) (shm ctx) False = (tx_queue c3, shm c3, k)"
    by (simp add: c1_def c3_def)
  moreover have "length (tx_queue c3) \<ge> ESP_SHM_TX_PAUSE \<Longrightarrow> tx_paused c3"
    by (simp add: c3_def split: if_splits)
  ultimately show thesis
    by (rule that)
qed

section \<open>Properties\<close>

text \<open>C1: over any sequence of sends by Linux and reads by the firmware, the
  frames that \<open>shm_read\<close> returns, followed by those still in the ring, are the
  frames that were in the ring followed by those that \<open>esp_shm_push\<close> accepted:
  nothing is lost, duplicated, changed or reordered, across every wrap of the
  indices and of the ring.  The ring stays well formed.\<close>

theorem to_fw_fifo:
  assumes "ring_inv (hdr_size L) SHM_TO_FW_FRAME_MAX to_fw (shm s)"
    and "\<forall>f. Send f \<in> set ops \<longrightarrow> frame_fits (hdr_size L) SHM_TO_FW_FRAME_MAX f"
    and "chan_run to_fw_send (to_fw_recv L) ops s = (sent, received, s')"
  shows "ring_frames to_fw (shm s) @ sent = received @ ring_frames to_fw (shm s') \<and>
    ring_inv (hdr_size L) SHM_TO_FW_FRAME_MAX to_fw (shm s')"
  using to_fw_chan.run_fifo [OF assms] by simp

theorem to_fw_fifo_witness:
  "\<exists>sent received s'.
     chan_run to_fw_send (to_fw_recv demo_lib) [Send (replicate 20 7), Recv, Recv] blank_fw = (sent, received, s') \<and>
     sent = received @ ring_frames to_fw (shm s')"
proof -
  obtain sent received s' where r:
    "chan_run to_fw_send (to_fw_recv demo_lib) [Send (replicate 20 7), Recv, Recv] blank_fw = (sent, received, s')"
    using prod_cases3 by blast
  show ?thesis
    using to_fw_fifo [OF _ _ r] r by (simp add: blank_fw_def frame_fits_def demo_lib_def)
qed

text \<open>C2: the same for the other direction: frames that the firmware puts into
  the ring with \<open>ring_push\<close> (header and payload apart) come out of the loop of
  \<open>esp_shm_read\<close> in order, unchanged and exactly once.\<close>

theorem to_host_fifo:
  assumes "ring_inv hs 0x8000 to_host (shm ctx)"
    and "\<forall>f. Send f \<in> set ops \<longrightarrow> frame_fits hs SHM_TO_HOST_FRAME_MAX f"
    and "chan_run (to_host_send hs) (to_host_recv hs) ops ctx = (sent, received, ctx')"
  shows "ring_frames to_host (shm ctx) @ sent = received @ ring_frames to_host (shm ctx') \<and>
    ring_inv hs 0x8000 to_host (shm ctx')"
  using to_host_chan.run_fifo [OF assms] by simp

theorem to_host_fifo_witness:
  "\<exists>sent received ctx'.
     chan_run (to_host_send 12) (to_host_recv 12) [Send (replicate 20 7), Recv, Recv] demo_ctx = (sent, received, ctx') \<and>
     sent = received @ ring_frames to_host (shm ctx')"
proof -
  obtain sent received ctx' where r:
    "chan_run (to_host_send 12) (to_host_recv 12) [Send (replicate 20 7), Recv, Recv] demo_ctx = (sent, received, ctx')"
    using prod_cases3 by blast
  show ?thesis
    using to_host_fifo [OF _ _ r] r by (simp add: demo_ctx_def frame_fits_def)
qed

text \<open>C3: \<open>ring_push\<close> on either ring, whatever the block holds, as long as head
  is at most the ring size ahead of tail: it refuses a frame exactly when its
  record does not fit in the free space; otherwise it appends the record to the
  unread bytes without changing any of them, reports the empty ring (the kick),
  and writes nothing but the head word and the ring's data.\<close>

theorem ring_push_spec:
  assumes r: "r = to_fw \<or> r = to_host" and used: "ring_used m r \<le> unat (r_size r)"
    and len: "length hdr + length payload + 7 < 2 ^ 32"
  shows "case fw_ring_push r hdr payload m of
      None \<Rightarrow> ring_used m r + rec_len (length hdr + length payload) > unat (r_size r)
    | Some (m', kick) \<Rightarrow>
        ring_used m r + rec_len (length hdr + length payload) \<le> unat (r_size r) \<and>
        (\<exists>pad. ring_linear m' r = ring_linear m r @ put_le32 (of_nat (length (hdr @ payload))) @ hdr @ payload @ pad) \<and>
        ring_tail m' r = ring_tail m r \<and>
        kick = (ring_head m r = ring_tail m r) \<and>
        (\<forall>a. a \<notin> {r_ctrl r ..< r_ctrl r + 4} \<longrightarrow> a \<notin> {r_data r ..< r_data r + unat (r_size r)} \<longrightarrow> m' a = m a)"
proof -
  obtain k where "byte_ring r k"
    using r to_fw_ring.byte_ring_axioms to_host_ring.byte_ring_axioms by blast
  note br = byte_ring.size_pow [OF this] byte_ring.push_room [OF this] byte_ring.push_record [OF this]
  have e: "ring_used m r = 0 \<longleftrightarrow> ring_head m r = ring_tail m r"
    by (simp add: ring_used_def unat_eq_0)
  show ?thesis
  proof (cases "fw_ring_push r hdr payload m")
    case None
    then have "ring_used m r + rec_len (length hdr + length payload) > unat (r_size r)"
      using br(1) br(2) [of m hdr payload] used len by simp
    then show ?thesis
      by (simp add: None)
  next
    case (Some a)
    then obtain m' kick where p: "fw_ring_push r hdr payload m = Some (m', kick)"
      by (cases a) auto
    have u: "ring_used m r \<le> 2 ^ k"
      using used br(1) by simp
    note pr = br(3-) [OF u len p]
    have "\<forall>a. a \<notin> {r_ctrl r ..< r_ctrl r + 4} \<longrightarrow> a \<notin> {r_data r ..< r_data r + unat (r_size r)} \<longrightarrow> m' a = m a"
      using pr(6) br(1) by fastforce
    moreover have "\<exists>pad. ring_linear m' r = ring_linear m r @ put_le32 (of_nat (length (hdr @ payload))) @ hdr @ payload @ pad"
      using pr(5) by (auto simp: record_bytes_def)
    ultimately show ?thesis
      using p pr e br(1) by (simp del: length_append)
  qed
qed

theorem ring_push_spec_witness:
  "case fw_ring_push to_fw [1, 2] [3] (\<lambda>_. 0) of
      None \<Rightarrow> False
    | Some (m', kick) \<Rightarrow> ring_tail m' to_fw = 0 \<and> kick"
proof -
  have z: "ring_used (\<lambda>_. 0) to_fw = 0" "ring_head (\<lambda>_. 0) to_fw = 0" "ring_tail (\<lambda>_. 0) to_fw = 0"
    by (simp_all add: ring_used_def ring_head_def ring_tail_def load32_def load_bytes_def upt_rec)
  show ?thesis
    using ring_push_spec [of to_fw "\<lambda>_. 0" "[1, 2]" "[3]"]
    by (auto simp: z rec_len_def to_fw_ring.size_pow split: option.splits)
qed

text \<open>A call of \<open>esp_shm_read\<close> on a bound, running transport takes frames from the
  front of the ring until an allocation succeeds: it returns the first frame
  whose allocation succeeds, has dropped those before it and nothing after it,
  and returns none only with the ring empty.\<close>

theorem esp_shm_read_spec:
  assumes "if_context ad = Some ctx" and "running ctx"
    and inv: "ring_inv hs 0x8000 to_host (shm ctx)"
    and "ring_frames to_host (shm ctx) = fs"
  shows "\<exists>res ctx'. esp_shm_read hs alloc (Some ad) = (res, Some (ad\<lparr>if_context := Some ctx'\<rparr>)) \<and>
    ring_inv hs 0x8000 to_host (shm ctx') \<and>
    (case res of
       None \<Rightarrow> ring_frames to_host (shm ctx') = [] \<and> (\<forall>j < length fs. \<not> alloc j)
     | Some f \<Rightarrow> (\<exists>n < length fs. (\<forall>j < n. \<not> alloc j) \<and> alloc n \<and> f = fs ! n \<and>
         ring_frames to_host (shm ctx') = drop (Suc n) fs))"
proof -
  obtain res ctx' where r: "esp_shm_read_loop hs alloc 0 (ring_tail (shm ctx) to_host) ctx = (res, ctx')"
    by fastforce
  then have "esp_shm_read hs alloc (Some ad) = (res, Some (ad\<lparr>if_context := Some ctx'\<rparr>))"
    using assms(1,2) by (simp add: esp_shm_read_def ring_tail_def)
  then show ?thesis
    using read_loop_spec [OF inv order_refl r] assms(4)
    by (intro exI [where x = res] exI [where x = ctx']) (auto split: option.splits)
qed

theorem esp_shm_read_spec_witness:
  "\<exists>res ctx'. esp_shm_read 12 (\<lambda>_. True) (Some demo_adapter) =
      (res, Some (demo_adapter\<lparr>if_context := Some ctx'\<rparr>)) \<and> res = None"
  using esp_shm_read_spec [of demo_adapter demo_ctx 12 "[]" "\<lambda>_. True"]
  by (auto simp: demo_adapter_def demo_ctx_def split: option.splits)

text \<open>C4: whatever the firmware wrote into the block, \<open>esp_shm_read\<close> returns (its
  loop ends), and a frame that it returns has at least a header and at most the
  ring's size.\<close>

theorem esp_shm_read_bounds:
  assumes "hs < 2 ^ 32"
  shows "case fst (esp_shm_read hs alloc adapter) of
      None \<Rightarrow> True
    | Some f \<Rightarrow> hs \<le> length f \<and> length f \<le> 0x8000"
  using assms
  by (auto simp: esp_shm_read_def split: option.splits prod.splits dest!: read_loop_bounds)

theorem esp_shm_read_bounds_witness:
  "case fst (esp_shm_read 12 (\<lambda>_. True) (Some (demo_adapter\<lparr>if_context := Some (demo_ctx\<lparr>shm := \<lambda>_. 0xff\<rparr>)\<rparr>))) of
      None \<Rightarrow> True
    | Some f \<Rightarrow> 12 \<le> length f \<and> length f \<le> 0x8000"
  using esp_shm_read_bounds [of 12] by simp

text \<open>C5: a read by the firmware that finds a frame returns a buffer of at least a
  header and at most the size it announced in the boot event, whatever Linux
  wrote into the block, and never with an error code.\<close>

theorem shm_read_bounds:
  assumes "hdr_size L < 2 ^ 32" and "shm_read L rounds malloc_ok True True s = Some (Read_frame b n, s')"
  shows "\<exists>buf. ib_payload b = Some buf \<and> n = length buf \<and> hdr_size L \<le> n \<and> n \<le> SHM_TO_FW_FRAME_MAX"
  using assms(2) read_frame_bounds [OF _ assms(1)]
  by (auto simp: shm_read_def Let_def frame_buffer_def split: option.splits prod.splits)

theorem shm_read_bounds_witness:
  "\<exists>s b s'. shm_read demo_lib [] True True True s = Some (Read_frame b 20, s') \<and>
     hdr_size demo_lib \<le> 20"
proof -
  obtain s where s: "to_fw_send (replicate 20 7) blank_fw = Some s"
    using to_fw_chan.drained_accepts [of demo_lib blank_fw "replicate 20 7"]
    by (auto simp: blank_fw_def frame_fits_def demo_lib_def rec_len_def)
  have "ring_inv (hdr_size demo_lib) SHM_TO_FW_FRAME_MAX to_fw (shm s)"
    "ring_frames to_fw (shm s) = [replicate 20 7]"
    using to_fw_chan.send_ok [OF _ _ s, of demo_lib] by (simp_all add: blank_fw_def frame_fits_def demo_lib_def)
  then obtain s' where "shm_read demo_lib [] True True True s =
      Some (Read_frame (frame_buffer demo_lib (replicate 20 7)) 20, s')"
    using shm_read_good [of demo_lib SHM_TO_FW_FRAME_MAX s "replicate 20 7" "[]" "[]"] by auto
  then show ?thesis
    using shm_read_bounds [of demo_lib "[]" True s _ 20] by (fastforce simp: demo_lib_def)
qed

text \<open>C6: flow control.  From a bound adapter whose queue is in order, after any
  sequence of writes, reads, interrupts, work runs and session operations, at
  most 256 frames wait for ring space, and whenever 64 or more wait the net
  queues are stopped.\<close>

theorem tx_queue_bounded:
  assumes "adapter_inv ad" and "if_context (fold (lx_step n_if fw hs alloc) evs ad) = Some ctx"
  shows "length (tx_queue ctx) \<le> ESP_SHM_TX_QUEUE_MAX \<and>
    (ESP_SHM_TX_PAUSE \<le> length (tx_queue ctx) \<longrightarrow> tx_paused ctx)"
  using steps_adapter_inv [OF assms(1), of n_if fw hs alloc evs] assms(2)
  by (simp add: adapter_inv_def tx_inv_def)

theorem tx_queue_bounded_witness:
  "\<exists>ctx. if_context (fold (lx_step 2 id 12 (\<lambda>_. True)) [Ev_irq, Ev_quiesce, Ev_reinit] demo_adapter) = Some ctx \<and>
     length (tx_queue ctx) \<le> 256"
  using tx_queue_bounded [of demo_adapter 2 id 12 "\<lambda>_. True" "[Ev_irq, Ev_quiesce, Ev_reinit]"]
  by (simp add: demo_adapter_def demo_ctx_def adapter_inv_def tx_inv_def on_ctx_def
      esp_shm_quiesce_for_fw_reset_def esp_shm_reinit_after_fw_reset_def esp_shm_irq_def log_call_def Let_def
      esp_shm_tx_purge_def cancel_tx_work_def esp_shm_set_tx_quiesced_def)

text \<open>C7: a frame that \<open>esp_shm_write\<close> accepts joins the end of the queue, and the
  queue drains into the ring from its front in order, while the firmware takes
  frames concurrently: the ring then holds a suffix of what it held followed by
  the frames moved, and the rest of the queue waits.\<close>

theorem esp_shm_write_fifo:
  assumes "if_context ad = Some ctx" and "running ctx" and "\<not> tx_quiesced ctx"
    and "length (skb_data skb) \<le> tx_aggr_size ad" and "\<not> (skb_nonlinear skb \<and> skb_linearize_fails skb)"
    and "length (tx_queue ctx) < ESP_SHM_TX_QUEUE_MAX"
    and "ring_inv lo SHM_TO_FW_FRAME_MAX to_fw (shm ctx)" and "fw_consumes lo SHM_TO_FW_FRAME_MAX fw"
    and "list_all (frame_fits lo SHM_TO_FW_FRAME_MAX) (tx_queue ctx @ [skb_data skb])"
  shows "\<exists>ctx' moved d. esp_shm_write n_if fw (Some ad) (Some skb) = (Inr (), Some (ad\<lparr>if_context := Some ctx'\<rparr>)) \<and>
    tx_queue ctx @ [skb_data skb] = moved @ tx_queue ctx' \<and>
    ring_frames to_fw (shm ctx') = drop d (ring_frames to_fw (shm ctx) @ moved) \<and>
    ring_inv lo SHM_TO_FW_FRAME_MAX to_fw (shm ctx')"
proof -
  obtain ctx' where w: "esp_shm_write n_if fw (Some ad) (Some skb) = (Inr (), Some (ad\<lparr>if_context := Some ctx'\<rparr>))"
    and "\<exists>k. tx_flush_loop fw (tx_queue ctx @ [skb_data skb]) (shm ctx) False = (tx_queue ctx', shm ctx', k)"
    by (rule write_ok [OF assms(1-6), of n_if fw]) blast
  then obtain k where k: "tx_flush_loop fw (tx_queue ctx @ [skb_data skb]) (shm ctx) False = (tx_queue ctx', shm ctx', k)"
    by blast
  have q: "list_all (\<lambda>f. lo \<le> length f \<and> length f \<le> SHM_TO_FW_FRAME_MAX) (tx_queue ctx @ [skb_data skb])"
    using assms(9) by (simp add: frame_fits_def [abs_def])
  show ?thesis
    using tx_flush_loop_spec [OF assms(7) q _ assms(8) k] w by auto
qed

theorem esp_shm_write_fifo_witness:
  "\<exists>ctx' moved d. esp_shm_write 2 id (Some demo_adapter)
       (Some \<lparr>skb_data = replicate 20 7, skb_nonlinear = False, skb_linearize_fails = False\<rparr>) =
     (Inr (), Some (demo_adapter\<lparr>if_context := Some ctx'\<rparr>)) \<and>
    [replicate 20 7] = moved @ tx_queue ctx' \<and> ring_frames to_fw (shm ctx') = drop d moved"
proof -
  have "fw_consumes 12 SHM_TO_FW_FRAME_MAX id"
    unfolding fw_consumes_def by (auto intro: exI [where x = 0])
  then show ?thesis
    using esp_shm_write_fifo [of demo_adapter demo_ctx
        "\<lparr>skb_data = replicate 20 7, skb_nonlinear = False, skb_linearize_fails = False\<rparr>" 12 id 2]
    by (auto simp: demo_adapter_def demo_ctx_def frame_fits_def)
qed

text \<open>C8: \<open>shm_write\<close> of the firmware returns once a wait has passed the timeout;
  when it returns a length, the frame is the last in the ring behind the frames
  Linux has not read; when it fails after waiting, it has added nothing.\<close>

theorem shm_write_spec:
  assumes "ring_inv (hdr_size L) 0x8000 to_host (shm s)" and "rounds_consume (hdr_size L) 0x8000 rounds"
    and "ib_payload b = Some p" and "p \<noteq> []" and "hdr_size L + length p \<le> SHM_TO_HOST_FRAME_MAX"
    and "\<forall>t n f pk l off. length (enc_hdr L t n f pk l off) = hdr_size L"
    and "\<exists>w \<in> set rounds. tick_count w - start > timeout"
  shows "\<exists>res s' d. shm_write L rounds start timeout True (Some b) s = Some (res, s') \<and>
    ring_inv (hdr_size L) 0x8000 to_host (shm s') \<and>
    ((res = Some (length p) \<and>
      ring_frames to_host (shm s') = drop d (ring_frames to_host (shm s)) @
        [enc_hdr L (ib_if_type b) (ib_if_num b) (ib_flag b) (ib_pkt_type b)
           (of_nat (length p)) (of_nat (hdr_size L)) @ p]) \<or>
     (res = None \<and> ring_frames to_host (shm s') = drop d (ring_frames to_host (shm s))))"
proof -
  define h where "h = enc_hdr L (ib_if_type b) (ib_if_num b) (ib_flag b) (ib_pkt_type b)
    (of_nat (length p)) (of_nat (hdr_size L))"
  have h: "hdr_size L \<le> length (h @ p)" "length (h @ p) \<le> 0x8000"
    using assms(5,6) by (simp_all add: h_def)
  note sp = write_loop_spec [OF assms(1) h _ assms(2), of start timeout]
  note rt = write_loop_returns [OF assms(7), of h p "shm s"]
  show ?thesis
    using sp rt assms(3-5)
    by (cases "shm_write_loop rounds start timeout h p (shm s)")
      (auto simp: shm_write_def ring_host_doorbell_def simp flip: h_def)
qed

theorem shm_write_spec_witness:
  "\<exists>res s'. shm_write demo_lib [\<lparr>host_before_retry = id, tick_count = 1001, host_during_wait = id\<rparr>] 0 1000 True
     (Some \<lparr>ib_if_type = 1, ib_if_num = 0, ib_flag = 0, ib_pkt_type = 2, ib_payload = Some [5, 6]\<rparr>) blank_fw =
     Some (res, s') \<and> ring_inv 12 0x8000 to_host (shm s')"
proof -
  define w where "w = \<lparr>host_before_retry = id, tick_count = 1001, host_during_wait = id\<rparr>"
  define b where "b = \<lparr>ib_if_type = 1, ib_if_num = 0, ib_flag = 0, ib_pkt_type = 2, ib_payload = Some [5, 6 :: u8]\<rparr>"
  have L: "hdr_size demo_lib = 12"
    by (simp add: demo_lib_def)
  have 1: "ring_inv (hdr_size demo_lib) 0x8000 to_host (shm blank_fw)"
    by (simp add: blank_fw_def)
  have 2: "rounds_consume (hdr_size demo_lib) 0x8000 [w]"
    by (auto simp: rounds_consume_def host_consumes_def w_def intro: exI [where x = 0])
  have 3: "ib_payload b = Some [5, 6]" "[5, 6 :: u8] \<noteq> []" "hdr_size demo_lib + length [5, 6 :: u8] \<le> SHM_TO_HOST_FRAME_MAX"
    by (simp_all add: b_def L)
  have 4: "\<forall>t n f pk l off. length (enc_hdr demo_lib t n f pk l off) = hdr_size demo_lib"
    by (simp add: demo_lib_def)
  have 5: "\<exists>w \<in> set [w]. tick_count w - 0 > 1000"
    by (simp add: w_def)
  obtain res s' where "shm_write demo_lib [w] 0 1000 True (Some b) blank_fw = Some (res, s')"
    "ring_inv (hdr_size demo_lib) 0x8000 to_host (shm s')"
    using shm_write_spec [OF 1 2 3 4 5] by blast
  then show ?thesis
    unfolding w_def b_def L by blast
qed

text \<open>The handshake.  When the firmware's init succeeds, a Linux adapter
  without a transport binds to the block and starts with both rings empty and
  an empty queue; after the firmware's deinit, or before its init, it does not
  bind.\<close>

theorem init_probe:
  assumes "shm_init rx_ok space_ok intr_ok s = (True, s')"
    and "if_context ad = None" and "hw_block env = shm s'" and "kzalloc_ok env"
    and "map_shm env = None" and "map_doorbell env = None" and "get_irq env = None" and "request_irq env = None"
  shows "\<exists>ctx. fst (esp_shm_probe env (Some ad)) = Inr () \<and>
    map_option if_context (snd (esp_shm_probe env (Some ad))) = Some (Some ctx) \<and> running ctx \<and> tx_inv ctx \<and>
    ring_inv lo hi to_fw (shm ctx) \<and> ring_frames to_fw (shm ctx) = [] \<and>
    ring_inv lo hi to_host (shm ctx) \<and> ring_frames to_host (shm ctx) = [] \<and>
    fst (esp_shm_probe (env\<lparr>hw_block := shm (shm_deinit s')\<rparr>) (Some ad)) = Inl ENODEV"
  using init_rings [OF assms(1)] assms(2-)
  by (simp add: esp_shm_probe_def Let_def tx_inv_def shm_deinit_def)

theorem init_probe_witness:
  "fst (esp_shm_probe
       \<lparr>kzalloc_ok = True, map_shm = None, map_doorbell = None, get_irq = None, request_irq = None,
        hw_block = shm (snd (shm_init True True True blank_fw)), flash_bound = False\<rparr>
       (Some (demo_adapter\<lparr>if_context := None\<rparr>))) = Inr ()"
proof -
  define env where "env = \<lparr>kzalloc_ok = True, map_shm = None, map_doorbell = None, get_irq = None,
    request_irq = None, hw_block = shm (snd (shm_init True True True blank_fw)), flash_bound = False\<rparr>"
  have "shm_init True True True blank_fw = (True, snd (shm_init True True True blank_fw))"
    by (simp add: shm_init_def Let_def)
  from init_probe [OF this, of "demo_adapter\<lparr>if_context := None\<rparr>" env]
  have "fst (esp_shm_probe env (Some (demo_adapter\<lparr>if_context := None\<rparr>))) = Inr ()"
    by (simp add: env_def)
  then show ?thesis
    unfolding env_def .
qed

end
