(* ===== verification/Shm_Doorbell.thy ===== *)
theory Shm_Doorbell
  imports Shm_Ring
begin

text \<open>
  The doorbell protocol of the ring to the firmware as an interleaving of the
  two harts.  One step is one access to a shared word (head, tail, the wait
  flag, the doorbell registers, the semaphore); the fences of the code order
  the accesses of a hart as written, so every interleaving of them is a run.
  The sender is \<open>esp_shm_tx_flush\<close> with \<open>esp_shm_push\<close> and the interrupt handler
  of \<open>esp_shm.c\<close>; the receiver is \<open>shm_read\<close> with the doorbell interrupt of
  \<open>shm_slave_api.c\<close>.

  \<open>d_head\<close> and \<open>d_tail\<close> count bytes without the wrap at \<open>2 ^ 32\<close> (the words in the
  block are their residues, and only differences of at most the ring size are
  used); \<open>d_recs\<close> is the lengths of the frames in the records between them, which stand for the bytes
  (theory Shm_Ring).  A frame in a queue is its length.  \<open>d_hdr\<close> is the size of
  \<open>struct esp_payload_header\<close>, a constant of the run: \<open>shm_read\<close> takes a shorter frame for a broken
  record and drops everything up to the head that it loaded, without a look at the wait
  flag.
\<close>

section \<open>State and steps\<close>

datatype lx_pc =
    L_idle
  | L_peek                 \<comment> \<open>the while condition of the flush\<close>
  | L_push nat             \<comment> \<open>first push, tail loaded\<close>
  | L_wait                 \<comment> \<open>store of the wait flag\<close>
  | L_reload               \<comment> \<open>second push, before its load of tail\<close>
  | L_repush nat           \<comment> \<open>second push, tail loaded\<close>
  | L_kick nat             \<comment> \<open>head stored, before the load of tail; the old head\<close>
  | L_done                 \<comment> \<open>after the loop\<close>

datatype fw_pc =
    F_service              \<comment> \<open>top of the loop of shm_read\<close>
  | F_head                 \<comment> \<open>before the load of head\<close>
  | F_take                 \<comment> \<open>waits for the semaphore\<close>
  | F_read nat nat         \<comment> \<open>a record is there; the head that was loaded, and the records up to it\<close>
  | F_tail                 \<comment> \<open>before the store of tail\<close>
  | F_wait                 \<comment> \<open>before the load of the wait flag\<close>
  | F_clear                \<comment> \<open>before the store of the wait flag\<close>
  | F_bell                 \<comment> \<open>before the doorbell to the host\<close>

record db_state =
  d_head :: nat
  d_tail :: nat
  d_recs :: "nat list"
  d_wait :: bool
  d_bell_fw :: bool
  d_bell_host :: bool
  d_sem :: bool
  d_work :: bool
  d_queue :: "nat list"
  d_kick :: bool
  d_lx :: lx_pc
  d_fw :: fw_pc
  d_hdr :: nat
  d_sent :: "nat list"
  d_gone :: "(nat \<times> bool) list"

text \<open>\<open>d_sent\<close> and \<open>d_gone\<close> record the run: the frames that Linux queued, and those that left
  the ring, each with whether \<open>shm_read\<close> returned it.\<close>

abbreviation (input) ring_size :: nat where "ring_size \<equiv> 0x4000"

definition db_fits :: "nat \<Rightarrow> nat \<Rightarrow> db_state \<Rightarrow> bool" where
  "db_fits need t s \<longleftrightarrow> need \<le> ring_size - (d_head s - t)"

text \<open>The limits: the firmware announces \<open>SHM_TO_FW_FRAME_MAX\<close> to Linux, which sends no
  longer frame.\<close>

abbreviation (input) frame_max :: nat where "frame_max \<equiv> 8192"

definition bad_record :: "nat \<Rightarrow> nat \<Rightarrow> db_state \<Rightarrow> bool" where
  "bad_record f h s \<longleftrightarrow> f < d_hdr s \<or> f > frame_max \<or> rec_len f > h - d_tail s"

definition db_store_head :: "db_state \<Rightarrow> db_state" where
  "db_store_head s = s\<lparr>d_head := d_head s + rec_len (hd (d_queue s)), d_recs := d_recs s @ [hd (d_queue s)],
     d_lx := L_kick (d_head s)\<rparr>"

inductive db_step :: "db_state \<Rightarrow> db_state \<Rightarrow> bool" where
  lx_write: "d_lx s = L_idle \<Longrightarrow> f \<le> frame_max \<Longrightarrow>
    db_step s (s\<lparr>d_queue := d_queue s @ [f], d_sent := d_sent s @ [f], d_kick := False, d_lx := L_peek\<rparr>)"
| lx_work: "d_lx s = L_idle \<Longrightarrow> d_work s \<Longrightarrow>
    db_step s (s\<lparr>d_work := False, d_kick := False, d_lx := L_peek\<rparr>)"
| lx_empty: "d_lx s = L_peek \<Longrightarrow> d_queue s = [] \<Longrightarrow> db_step s (s\<lparr>d_lx := L_done\<rparr>)"
| lx_load: "d_lx s = L_peek \<Longrightarrow> d_queue s \<noteq> [] \<Longrightarrow> db_step s (s\<lparr>d_lx := L_push (d_tail s)\<rparr>)"
| lx_push: "d_lx s = L_push t \<Longrightarrow> db_fits (rec_len (hd (d_queue s))) t s \<Longrightarrow> db_step s (db_store_head s)"
| lx_full: "d_lx s = L_push t \<Longrightarrow> \<not> db_fits (rec_len (hd (d_queue s))) t s \<Longrightarrow> db_step s (s\<lparr>d_lx := L_wait\<rparr>)"
| lx_wait: "d_lx s = L_wait \<Longrightarrow> db_step s (s\<lparr>d_wait := True, d_lx := L_reload\<rparr>)"
| lx_reload: "d_lx s = L_reload \<Longrightarrow> db_step s (s\<lparr>d_lx := L_repush (d_tail s)\<rparr>)"
| lx_repush: "d_lx s = L_repush t \<Longrightarrow> db_fits (rec_len (hd (d_queue s))) t s \<Longrightarrow> db_step s (db_store_head s)"
| lx_break: "d_lx s = L_repush t \<Longrightarrow> \<not> db_fits (rec_len (hd (d_queue s))) t s \<Longrightarrow> db_step s (s\<lparr>d_lx := L_done\<rparr>)"
| lx_kick: "d_lx s = L_kick h \<Longrightarrow>
    db_step s (s\<lparr>d_kick := (d_kick s \<or> d_tail s = h), d_queue := tl (d_queue s), d_lx := L_peek\<rparr>)"
| lx_done: "d_lx s = L_done \<Longrightarrow>
    db_step s (s\<lparr>d_bell_fw := (d_bell_fw s \<or> d_kick s), d_kick := False, d_lx := L_idle\<rparr>)"
| lx_irq: "d_bell_host s \<Longrightarrow>
    db_step s (s\<lparr>d_bell_host := False, d_work := (d_work s \<or> d_queue s \<noteq> [])\<rparr>)"
| fw_service: "d_fw s = F_service \<Longrightarrow> db_step s (s\<lparr>d_fw := F_head\<rparr>)"
| fw_empty: "d_fw s = F_head \<Longrightarrow> d_head s = d_tail s \<Longrightarrow> db_step s (s\<lparr>d_fw := F_take\<rparr>)"
| fw_some: "d_fw s = F_head \<Longrightarrow> d_head s \<noteq> d_tail s \<Longrightarrow> db_step s (s\<lparr>d_fw := F_read (d_head s) (length (d_recs s))\<rparr>)"
| fw_take: "d_fw s = F_take \<Longrightarrow> d_sem s \<Longrightarrow> db_step s (s\<lparr>d_sem := False, d_fw := F_service\<rparr>)"
| fw_bad: "d_fw s = F_read h k \<Longrightarrow> bad_record (hd (d_recs s)) h s \<Longrightarrow>
    db_step s (s\<lparr>d_tail := h, d_recs := drop k (d_recs s), d_gone := d_gone s @ map (\<lambda>f. (f, False)) (take k (d_recs s)),
      d_fw := F_service\<rparr>)"
| fw_nomem: "d_fw s = F_read h k \<Longrightarrow> \<not> bad_record (hd (d_recs s)) h s \<Longrightarrow> db_step s (s\<lparr>d_fw := F_service\<rparr>)"
| fw_copy: "d_fw s = F_read h k \<Longrightarrow> \<not> bad_record (hd (d_recs s)) h s \<Longrightarrow> db_step s (s\<lparr>d_fw := F_tail\<rparr>)"
| fw_tail: "d_fw s = F_tail \<Longrightarrow>
    db_step s (s\<lparr>d_tail := d_tail s + rec_len (hd (d_recs s)), d_recs := tl (d_recs s),
      d_gone := d_gone s @ [(hd (d_recs s), True)], d_fw := F_wait\<rparr>)"
| fw_nowait: "d_fw s = F_wait \<Longrightarrow> \<not> d_wait s \<Longrightarrow> db_step s (s\<lparr>d_fw := F_service\<rparr>)"
| fw_wait: "d_fw s = F_wait \<Longrightarrow> d_wait s \<Longrightarrow> db_step s (s\<lparr>d_fw := F_clear\<rparr>)"
| fw_clear: "d_fw s = F_clear \<Longrightarrow> db_step s (s\<lparr>d_wait := False, d_fw := F_bell\<rparr>)"
| fw_bell: "d_fw s = F_bell \<Longrightarrow> db_step s (s\<lparr>d_bell_host := True, d_fw := F_service\<rparr>)"
| fw_isr: "d_bell_fw s \<Longrightarrow> db_step s (s\<lparr>d_bell_fw := False, d_sem := True\<rparr>)"

definition db_init :: db_state where
  "db_init = \<lparr>d_head = 0, d_tail = 0, d_recs = [], d_wait = False, d_bell_fw = False,
     d_bell_host = False, d_sem = False, d_work = False, d_queue = [], d_kick = False,
     d_lx = L_idle, d_fw = F_service, d_hdr = 0, d_sent = [], d_gone = []\<rparr>"

inductive db_reachable :: "db_state \<Rightarrow> bool" where
  db_reach_init: "db_reachable (db_init\<lparr>d_hdr := n\<rparr>)"
| db_reach_step: "db_reachable s \<Longrightarrow> db_step s s' \<Longrightarrow> db_reachable s'"

section \<open>Invariants\<close>

text \<open>The ring: tail and head bound the records; the sender inside a push has a
  frame; the receiver about to read has a record.\<close>

definition db_ring :: "db_state \<Rightarrow> bool" where
  "db_ring s \<longleftrightarrow> d_head s = d_tail s + sum_list (map rec_len (d_recs s)) \<and> sum_list (map rec_len (d_recs s)) \<le> ring_size \<and>
     (\<forall>f \<in> set (d_recs s) \<union> set (d_queue s). f \<le> frame_max)"

definition db_local :: "db_state \<Rightarrow> bool" where
  "db_local s \<longleftrightarrow>
     (case d_lx s of
        L_idle \<Rightarrow> \<not> d_kick s
      | L_peek \<Rightarrow> True
      | L_done \<Rightarrow> True
      | L_push t \<Rightarrow> d_queue s \<noteq> [] \<and> t \<le> d_tail s
      | L_repush t \<Rightarrow> d_queue s \<noteq> [] \<and> t \<le> d_tail s
      | _ \<Rightarrow> d_queue s \<noteq> []) \<and>
     (case d_fw s of
        F_read h k \<Rightarrow> 0 < k \<and> k \<le> length (d_recs s) \<and> h = d_tail s + sum_list (map rec_len (take k (d_recs s)))
      | F_tail \<Rightarrow> d_recs s \<noteq> []
      | _ \<Rightarrow> True)"

text \<open>The frames in order: those that left the ring, those in it, those in the
  queue; a frame is only lost when one of the run is shorter than the header.\<close>

definition db_good :: "db_state \<Rightarrow> bool" where
  "db_good s \<longleftrightarrow> (\<forall>f \<in> set (d_sent s). d_hdr s \<le> f)"

definition db_flow :: "db_state \<Rightarrow> bool" where
  "db_flow s \<longleftrightarrow> d_sent s = map fst (d_gone s) @ d_recs s @ (case d_lx s of L_kick _ \<Rightarrow> tl (d_queue s) | _ \<Rightarrow> d_queue s) \<and>
     (db_good s \<longrightarrow> (\<forall>x \<in> set (d_gone s). snd x))"

text \<open>Frames in the ring and a sleeping receiver: a doorbell is on its way.\<close>

definition db_rx_wake :: "db_state \<Rightarrow> bool" where
  "db_rx_wake s \<longleftrightarrow> d_fw s = F_take \<and> d_recs s \<noteq> [] \<longrightarrow>
     d_sem s \<or> d_bell_fw s \<or> d_kick s \<or> d_lx s = L_kick (d_tail s)"

text \<open>A wake-up of the sender is on its way: a doorbell or a work item, or the
  receiver is about to ring it.\<close>

definition space_coming :: "db_state \<Rightarrow> bool" where
  "space_coming s \<longleftrightarrow> d_bell_host s \<or> d_work s \<or> d_fw s = F_clear \<or> d_fw s = F_bell \<or>
     d_wait s \<and> d_fw s = F_wait"

definition db_tx_wake :: "db_state \<Rightarrow> bool" where
  "db_tx_wake s \<longleftrightarrow>
     (case d_lx s of
        L_reload \<Rightarrow> d_wait s \<or> space_coming s
      | L_repush t \<Rightarrow> d_wait s \<and> d_tail s = t \<or> space_coming s
      | L_done \<Rightarrow> d_queue s \<noteq> [] \<longrightarrow>
          d_wait s \<and> \<not> db_fits (rec_len (hd (d_queue s))) (d_tail s) s \<or> space_coming s
      | L_idle \<Rightarrow> d_queue s \<noteq> [] \<longrightarrow>
          d_wait s \<and> \<not> db_fits (rec_len (hd (d_queue s))) (d_tail s) s \<or> space_coming s
      | _ \<Rightarrow> True)"

definition db_inv :: "db_state \<Rightarrow> bool" where
  "db_inv s \<longleftrightarrow> db_ring s \<and> db_local s \<and> db_rx_wake s \<and> db_flow s \<and> (db_good s \<longrightarrow> db_tx_wake s)"

lemmas db_defs = db_ring_def db_local_def db_rx_wake_def db_tx_wake_def space_coming_def db_flow_def

lemma db_init_inv: "db_inv (db_init\<lparr>d_hdr := n\<rparr>)"
  by (simp add: db_inv_def db_defs db_init_def)

lemma rec_len_pos [simp]: "0 < rec_len n"
  by (simp add: rec_len_def)

lemma rec_len_max: "f \<le> frame_max \<Longrightarrow> rec_len f \<le> ring_size"
proof -
  assume "f \<le> frame_max"
  then have "(f + 3) div 4 \<le> 8195 div 4"
    by (intro div_le_mono) simp
  then show ?thesis
    by (simp add: rec_len_def)
qed

lemma sum_recs_hd_tl: "xs \<noteq> [] \<Longrightarrow> sum_list (map rec_len xs) = rec_len (hd xs) + sum_list (map rec_len (tl xs))"
  by (cases xs) auto

lemma sum_recs_take_drop: "sum_list (map rec_len xs) = sum_list (map rec_len (take k xs)) + sum_list (map rec_len (drop k xs))"
  by (metis append_take_drop_id map_append sum_list_append)

lemma step_ring:
  assumes "db_step s s'" and "db_ring s" and "db_local s"
  shows "db_ring s'"
  using assms
proof (cases rule: db_step.cases)
  case (lx_push t)
  then show ?thesis
    using assms(2,3) hd_in_set [of "d_queue s"] by (auto simp: db_ring_def db_local_def db_fits_def db_store_head_def)
next
  case (lx_repush t)
  then show ?thesis
    using assms(2,3) hd_in_set [of "d_queue s"] by (auto simp: db_ring_def db_local_def db_fits_def db_store_head_def)
next
  case fw_tail
  then show ?thesis
    using assms(2,3) sum_recs_hd_tl [of "d_recs s"]
    by (auto simp: db_ring_def db_local_def dest: list.set_sel(2))
next
  case (fw_bad h k)
  then show ?thesis
    using assms(2,3) sum_recs_take_drop [of "d_recs s" k]
    by (auto simp: db_ring_def db_local_def dest: in_set_dropD)
next
  case (lx_kick h)
  then show ?thesis
    using assms(2,3) by (auto simp: db_ring_def db_local_def dest: list.set_sel(2))
qed (auto simp: db_ring_def)

lemma db_ring_empty: "db_ring s \<Longrightarrow> d_head s = d_tail s \<longleftrightarrow> d_recs s = []"
  using rec_len_pos by (cases "d_recs s") (auto simp: db_ring_def)

lemma step_local:
  assumes "db_step s s'" and "db_ring s" and "db_local s"
  shows "db_local s'"
  using assms db_ring_empty [OF assms(2)]
  by (cases rule: db_step.cases)
    (auto simp: db_ring_def db_local_def db_store_head_def split: lx_pc.splits fw_pc.splits)

lemma step_rx_wake:
  assumes "db_step s s'" and "db_ring s" and "db_local s" and "db_rx_wake s"
  shows "db_rx_wake s'"
  using assms db_ring_empty [OF assms(2)]
  by (cases rule: db_step.cases)
    (auto simp: db_ring_def db_local_def db_rx_wake_def db_store_head_def split: lx_pc.splits)

text \<open>A record that the firmware finds is a good one when all frames are.\<close>

lemma good_record:
  assumes "db_ring s" and "db_local s" and "db_flow s" and "db_good s" and "d_fw s = F_read h k"
  shows "\<not> bad_record (hd (d_recs s)) h s"
proof -
  have k: "0 < k" "k \<le> length (d_recs s)" "h = d_tail s + sum_list (map rec_len (take k (d_recs s)))"
    using assms(2,5) by (simp_all add: db_local_def)
  then obtain f fs where f: "d_recs s = f # fs"
    by (cases "d_recs s") auto
  have "f \<in> set (d_sent s)" "f \<le> frame_max"
    using assms(1,3) by (simp_all add: db_flow_def db_ring_def f)
  moreover have "rec_len f \<le> h - d_tail s"
    using k by (cases k) (simp_all add: f)
  ultimately show ?thesis
    using assms(4) by (auto simp: bad_record_def db_good_def f)
qed

lemma step_good: "db_step s s' \<Longrightarrow> db_good s' \<Longrightarrow> db_good s"
  by (cases rule: db_step.cases) (auto simp: db_good_def db_store_head_def)

lemma step_flow:
  assumes "db_step s s'" and "db_ring s" and "db_local s" and "db_flow s"
  shows "db_flow s'"
proof -
  have order: "d_sent s' = map fst (d_gone s') @ d_recs s' @ (case d_lx s' of L_kick _ \<Rightarrow> tl (d_queue s') | _ \<Rightarrow> d_queue s')"
    using assms by (cases rule: db_step.cases)
      (auto simp: db_flow_def db_local_def db_store_head_def comp_def split: lx_pc.splits)
  have "\<forall>x \<in> set (d_gone s'). snd x" if "db_good s'"
    using assms(1)
  proof (cases rule: db_step.cases)
    case (fw_bad h k)
    then show ?thesis
      using good_record [OF assms(2-4) step_good [OF assms(1) that]] by blast
  qed (use assms(4) step_good [OF assms(1) that] in \<open>auto simp: db_flow_def db_store_head_def\<close>)
  then show ?thesis
    using order by (simp add: db_flow_def)
qed

lemma step_tx_wake:
  assumes "db_step s s'" and "db_ring s" and "db_local s" and "db_tx_wake s"
    and good: "\<And>h k. d_fw s = F_read h k \<Longrightarrow> \<not> bad_record (hd (d_recs s)) h s"
  shows "db_tx_wake s'"
  using assms(1)
proof (cases rule: db_step.cases)
  case (fw_bad h k)
  then show ?thesis
    using good by blast
qed (use assms(2-4) in \<open>auto simp: db_ring_def db_local_def db_tx_wake_def space_coming_def db_store_head_def db_fits_def
      split: lx_pc.splits\<close>)

lemma reachable_inv: "db_reachable s \<Longrightarrow> db_inv s"
proof (induction rule: db_reachable.induct)
  case db_reach_init
  show ?case by (rule db_init_inv)
next
  case (db_reach_step s s')
  have i: "db_ring s" "db_local s" "db_rx_wake s" "db_flow s" and t: "db_good s \<Longrightarrow> db_tx_wake s"
    using db_reach_step.IH by (simp_all add: db_inv_def)
  have "db_tx_wake s'" if "db_good s'"
    using step_good [OF db_reach_step.hyps(2) that] good_record [OF i(1,2,4)] t
    by (intro step_tx_wake [OF db_reach_step.hyps(2) i(1,2)]) auto
  then show ?case
    using step_ring step_local step_rx_wake step_flow db_reach_step.hyps(2) i unfolding db_inv_def by blast
qed

section \<open>Properties\<close>

text \<open>A reachable state in which the receiver sleeps: it found the ring empty.\<close>

definition db_asleep :: db_state where
  "db_asleep = db_init\<lparr>d_fw := F_take\<rparr>"

lemma db_asleep_reachable: "db_reachable db_asleep"
proof -
  have "db_reachable db_init"
    using db_reach_init [of 0] by (simp add: db_init_def)
  then have "db_reachable (db_init\<lparr>d_fw := F_head\<rparr>)"
    by (rule db_reach_step) (rule fw_service, simp add: db_init_def)
  moreover have "db_step (db_init\<lparr>d_fw := F_head\<rparr>) ((db_init\<lparr>d_fw := F_head\<rparr>)\<lparr>d_fw := F_take\<rparr>)"
    by (rule fw_empty) (simp_all add: db_init_def)
  ultimately show ?thesis
    unfolding db_asleep_def using db_reach_step by fastforce
qed

text \<open>C9: no missed doorbell.  In every reachable interleaving, when the firmware
  sleeps in \<open>shm_read\<close> with no doorbell pending and Linux is not inside a flush,
  the ring is empty: no frame waits for a receiver that nothing will wake.\<close>

theorem no_missed_doorbell:
  assumes "db_reachable s" and "d_fw s = F_take" and "\<not> d_sem s" and "\<not> d_bell_fw s" and "d_lx s = L_idle"
  shows "d_recs s = [] \<and> d_head s = d_tail s"
  using reachable_inv [OF assms(1)] assms(2-) db_ring_empty [of s]
  by (auto simp: db_inv_def db_rx_wake_def db_local_def)

theorem no_missed_doorbell_witness: "d_recs db_asleep = [] \<and> d_head db_asleep = d_tail db_asleep"
  by (rule no_missed_doorbell [OF db_asleep_reachable]) (simp_all add: db_asleep_def db_init_def)

text \<open>When neither side can go on: the firmware sleeps with no doorbell pending; Linux is
  outside a flush with no doorbell and no work pending.\<close>

definition quiescent :: "db_state \<Rightarrow> bool" where
  "quiescent s \<longleftrightarrow> d_fw s = F_take \<and> \<not> d_sem s \<and> \<not> d_bell_fw s \<and> d_lx s = L_idle \<and> \<not> d_bell_host s \<and> \<not> d_work s"

section \<open>A run with a broken record\<close>

text \<open>Linux queues a frame outside a flush with an empty queue: the record fits and is sent,
  or the flush sets the wait flag.\<close>

lemma write_sends:
  assumes "db_reachable s" and "d_lx s = L_idle" and "d_queue s = []" and "f \<le> frame_max"
    and "rec_len f \<le> ring_size - (d_head s - d_tail s)"
  shows "db_reachable (s\<lparr>d_head := d_head s + rec_len f, d_recs := d_recs s @ [f], d_sent := d_sent s @ [f],
    d_bell_fw := (d_bell_fw s \<or> d_tail s = d_head s), d_kick := False\<rparr>)"
proof -
  define s1 where "s1 = s\<lparr>d_queue := d_queue s @ [f], d_sent := d_sent s @ [f], d_kick := False, d_lx := L_peek\<rparr>"
  define s2 where "s2 = s1\<lparr>d_lx := L_push (d_tail s1)\<rparr>"
  define s3 where "s3 = db_store_head s2"
  define s4 where "s4 = s3\<lparr>d_kick := (d_kick s3 \<or> d_tail s3 = d_head s), d_queue := tl (d_queue s3), d_lx := L_peek\<rparr>"
  define s5 where "s5 = s4\<lparr>d_lx := L_done\<rparr>"
  have "db_step s s1"
    unfolding s1_def by (rule lx_write) (use assms(2,4) in simp_all)
  moreover have "db_step s1 s2"
    unfolding s2_def by (rule lx_load) (simp_all add: s1_def)
  moreover have "db_step s2 s3"
    unfolding s3_def by (rule lx_push) (use assms(3,5) in \<open>simp_all add: s1_def s2_def db_fits_def\<close>)
  moreover have "db_step s3 s4"
    unfolding s4_def by (rule lx_kick) (simp add: s1_def s2_def s3_def db_store_head_def)
  moreover have "db_step s4 s5"
    unfolding s5_def by (rule lx_empty) (use assms(3) in \<open>simp_all add: s1_def s2_def s3_def s4_def db_store_head_def\<close>)
  moreover have "db_step s5 (s5\<lparr>d_bell_fw := (d_bell_fw s5 \<or> d_kick s5), d_kick := False, d_lx := L_idle\<rparr>)"
    by (rule lx_done) (simp add: s5_def)
  moreover have "s5\<lparr>d_bell_fw := (d_bell_fw s5 \<or> d_kick s5), d_kick := False, d_lx := L_idle\<rparr> =
      s\<lparr>d_head := d_head s + rec_len f, d_recs := d_recs s @ [f], d_sent := d_sent s @ [f],
        d_bell_fw := (d_bell_fw s \<or> d_tail s = d_head s), d_kick := False\<rparr>"
    using assms(2,3) by (simp add: s1_def s2_def s3_def s4_def s5_def db_store_head_def)
  ultimately show ?thesis
    using assms(1) db_reach_step by metis
qed

lemma write_waits:
  assumes "db_reachable s" and "d_lx s = L_idle" and "d_queue s = []" and "f \<le> frame_max"
    and "ring_size - (d_head s - d_tail s) < rec_len f"
  shows "db_reachable (s\<lparr>d_queue := [f], d_sent := d_sent s @ [f], d_wait := True, d_kick := False\<rparr>)"
proof -
  define s1 where "s1 = s\<lparr>d_queue := d_queue s @ [f], d_sent := d_sent s @ [f], d_kick := False, d_lx := L_peek\<rparr>"
  define s2 where "s2 = s1\<lparr>d_lx := L_push (d_tail s1)\<rparr>"
  define s3 where "s3 = s2\<lparr>d_lx := L_wait\<rparr>"
  define s4 where "s4 = s3\<lparr>d_wait := True, d_lx := L_reload\<rparr>"
  define s5 where "s5 = s4\<lparr>d_lx := L_repush (d_tail s4)\<rparr>"
  define s6 where "s6 = s5\<lparr>d_lx := L_done\<rparr>"
  note d = s1_def s2_def s3_def s4_def s5_def s6_def
  have "db_step s s1"
    unfolding s1_def by (rule lx_write) (use assms(2,4) in simp_all)
  moreover have "db_step s1 s2"
    unfolding s2_def by (rule lx_load) (simp_all add: s1_def)
  moreover have "db_step s2 s3"
    unfolding s3_def by (rule lx_full) (use assms(3,5) in \<open>simp_all add: d db_fits_def not_le\<close>)
  moreover have "db_step s3 s4"
    unfolding s4_def by (rule lx_wait) (simp add: s3_def)
  moreover have "db_step s4 s5"
    unfolding s5_def by (rule lx_reload) (simp add: s4_def)
  moreover have "db_step s5 s6"
    unfolding s6_def by (rule lx_break) (use assms(3,5) in \<open>simp_all add: d db_fits_def not_le\<close>)
  moreover have "db_step s6 (s6\<lparr>d_bell_fw := (d_bell_fw s6 \<or> d_kick s6), d_kick := False, d_lx := L_idle\<rparr>)"
    by (rule lx_done) (simp add: s6_def)
  moreover have "s6\<lparr>d_bell_fw := (d_bell_fw s6 \<or> d_kick s6), d_kick := False, d_lx := L_idle\<rparr> =
      s\<lparr>d_queue := [f], d_sent := d_sent s @ [f], d_wait := True, d_kick := False\<rparr>"
    using assms(2,3) by (simp add: d)
  ultimately show ?thesis
    using assms(1) db_reach_step by metis
qed

text \<open>A sleeping firmware with a doorbell wakes, finds a broken record, drops the ring and
  sleeps again.\<close>

lemma wake_drops:
  assumes "db_reachable s" and "d_fw s = F_take" and "d_bell_fw s" and "d_head s \<noteq> d_tail s" and "hd (d_recs s) < d_hdr s"
  shows "db_reachable (s\<lparr>d_bell_fw := False, d_sem := False, d_tail := d_head s, d_recs := [],
    d_gone := d_gone s @ map (\<lambda>f. (f, False)) (d_recs s)\<rparr>)"
proof -
  define s1 where "s1 = s\<lparr>d_bell_fw := False, d_sem := True\<rparr>"
  define s2 where "s2 = s1\<lparr>d_sem := False, d_fw := F_service\<rparr>"
  define s3 where "s3 = s2\<lparr>d_fw := F_head\<rparr>"
  define s4 where "s4 = s3\<lparr>d_fw := F_read (d_head s3) (length (d_recs s3))\<rparr>"
  define s5 where "s5 = s4\<lparr>d_tail := d_head s3, d_recs := drop (length (d_recs s3)) (d_recs s4),
    d_gone := d_gone s4 @ map (\<lambda>f. (f, False)) (take (length (d_recs s3)) (d_recs s4)), d_fw := F_service\<rparr>"
  define s6 where "s6 = s5\<lparr>d_fw := F_head\<rparr>"
  note d = s1_def s2_def s3_def s4_def s5_def s6_def
  have "db_step s s1"
    unfolding s1_def by (rule fw_isr) (rule assms(3))
  moreover have "db_step s1 s2"
    unfolding s2_def by (rule fw_take) (use assms(2) in \<open>simp_all add: d\<close>)
  moreover have "db_step s2 s3"
    unfolding s3_def by (rule fw_service) (simp add: s2_def)
  moreover have "db_step s3 s4"
    unfolding s4_def by (rule fw_some) (use assms(4) in \<open>simp_all add: d\<close>)
  moreover have "db_step s4 s5"
    unfolding s5_def by (rule fw_bad) (use assms(5) in \<open>simp_all add: d bad_record_def\<close>)
  moreover have "db_step s5 s6"
    unfolding s6_def by (rule fw_service) (simp add: s5_def)
  moreover have "db_step s6 (s6\<lparr>d_fw := F_take\<rparr>)"
    by (rule fw_empty) (simp_all add: d)
  moreover have "s6\<lparr>d_fw := F_take\<rparr> = s\<lparr>d_bell_fw := False, d_sem := False, d_tail := d_head s, d_recs := [],
      d_gone := d_gone s @ map (\<lambda>f. (f, False)) (d_recs s)\<rparr>"
    using assms(2) by (simp add: d)
  ultimately show ?thesis
    using assms(1) db_reach_step by metis
qed

text \<open>With a header of 12 bytes: an empty frame and two of 8 KiB, which do not fit together.  The firmware drops the first two,
  and the third stays in the queue, with the ring empty, the wait flag set and neither side awake.\<close>

lemma broken_record_stalls:
  "\<exists>s. db_reachable s \<and> d_fw s = F_take \<and> \<not> d_sem s \<and> \<not> d_bell_fw s \<and> d_lx s = L_idle \<and> \<not> d_bell_host s \<and> \<not> d_work s \<and>
    d_recs s = [] \<and> d_wait s \<and> d_queue s = [8192] \<and> d_gone s = [(0, False), (8192, False)]"
proof -
  define s0 where "s0 = db_init\<lparr>d_hdr := 12, d_fw := F_take\<rparr>"
  have r0: "db_reachable s0"
  proof -
    have "db_step (db_init\<lparr>d_hdr := 12\<rparr>) (db_init\<lparr>d_hdr := 12\<rparr>\<lparr>d_fw := F_head\<rparr>)"
      by (rule fw_service) (simp add: db_init_def)
    moreover have "db_step (db_init\<lparr>d_hdr := 12\<rparr>\<lparr>d_fw := F_head\<rparr>) (db_init\<lparr>d_hdr := 12\<rparr>\<lparr>d_fw := F_head\<rparr>\<lparr>d_fw := F_take\<rparr>)"
      by (rule fw_empty) (simp_all add: db_init_def)
    moreover have "db_init\<lparr>d_hdr := 12\<rparr>\<lparr>d_fw := F_head\<rparr>\<lparr>d_fw := F_take\<rparr> = s0"
      by (simp add: s0_def db_init_def)
    ultimately show ?thesis
      using db_reach_init db_reach_step by metis
  qed
  have rl: "rec_len 0 = 4" "rec_len 8192 = 8196"
    by (simp_all add: rec_len_def)
  note s0 = s0_def db_init_def
  have r1: "db_reachable (s0\<lparr>d_head := 4, d_recs := [0], d_sent := [0], d_bell_fw := True\<rparr>)"
    using write_sends [OF r0, of 0] by (simp add: s0 rl)
  have r2: "db_reachable (s0\<lparr>d_head := 8200, d_recs := [0, 8192], d_sent := [0, 8192], d_bell_fw := True\<rparr>)"
    using write_sends [OF r1, of 8192] by (simp add: s0 rl)
  have r3: "db_reachable (s0\<lparr>d_head := 8200, d_recs := [0, 8192], d_sent := [0, 8192, 8192], d_bell_fw := True, d_queue := [8192], d_wait := True\<rparr>)"
    using write_waits [OF r2, of 8192] by (simp add: s0 rl)
  let ?s = "s0\<lparr>d_head := 8200, d_tail := 8200, d_sent := [0, 8192, 8192], d_queue := [8192], d_wait := True, d_gone := [(0, False), (8192, False)]\<rparr>"
  have "db_reachable ?s"
    using wake_drops [OF r3] by (simp add: s0)
  then show ?thesis
    by (rule exI [of _ ?s, OF conjI]) (simp add: s0)
qed

section \<open>No wake-up is lost\<close>

text \<open>C10: no lost wake-up in either direction, unless a record is broken.  In every reachable
  interleaving, with any size of the header, the ring never holds more than its size, and when neither side can go on
  the ring is empty.  When no frame of the run is shorter than the header, the queue is
  empty then too, and every frame that Linux queued was returned by \<open>shm_read\<close>, in order.  (A frame
  shorter than the header is a broken record: lemma \<open>broken_record_stalls\<close> has a run in which the drop of the
  ring leaves a frame in the queue and nothing that will send it.)\<close>

theorem quiescent_delivered:
  assumes "db_reachable s"
  shows "d_head s - d_tail s \<le> ring_size \<and>
    (quiescent s \<longrightarrow> d_recs s = [] \<and> d_head s = d_tail s \<and>
      ((\<forall>f \<in> set (d_sent s). d_hdr s \<le> f) \<longrightarrow> d_queue s = [] \<and> d_gone s = map (\<lambda>f. (f, True)) (d_sent s)))"
proof -
  note i = reachable_inv [OF assms, unfolded db_inv_def]
  have "d_head s - d_tail s \<le> ring_size"
    using i by (auto simp: db_ring_def)
  moreover have "d_recs s = [] \<and> d_head s = d_tail s" if "quiescent s"
    using i that db_ring_empty [of s] by (auto simp: quiescent_def db_rx_wake_def db_local_def)
  moreover have "d_queue s = [] \<and> d_gone s = map (\<lambda>f. (f, True)) (d_sent s)"
    if st: "quiescent s" and good: "db_good s"
  proof -
    have e: "d_recs s = []" "d_head s = d_tail s"
      using i st db_ring_empty [of s] by (auto simp: quiescent_def db_rx_wake_def db_local_def)
    have "\<not> space_coming s"
      using st by (simp add: quiescent_def space_coming_def)
    moreover have "db_fits (rec_len (hd (d_queue s))) (d_tail s) s" if "d_queue s \<noteq> []"
    proof -
      have "hd (d_queue s) \<le> frame_max"
        using i hd_in_set [OF that] by (simp add: db_ring_def)
      then show ?thesis
        using rec_len_max e by (simp add: db_fits_def)
    qed
    ultimately have q: "d_queue s = []"
      using i st e good by (auto simp: db_tx_wake_def quiescent_def)
    then have "d_sent s = map fst (d_gone s)" "\<forall>x \<in> set (d_gone s). snd x"
      using i st e good by (auto simp: db_flow_def quiescent_def)
    then show ?thesis
      using q by (auto simp: comp_def prod_eq_iff intro!: map_idI [symmetric])
  qed
  ultimately show ?thesis
    unfolding db_good_def by blast
qed

theorem quiescent_delivered_witness: "d_queue db_asleep = []"
  using quiescent_delivered [OF db_asleep_reachable] by (simp add: quiescent_def db_asleep_def db_init_def)

end
