(* ===== verification/Flash_Mailbox.thy ===== *)
theory Flash_Mailbox
  imports Shm_Ring
begin

text \<open>
  The flash window of Linux: \<open>esp_shm_flash.c\<close> (the MTD device) and
  \<open>shm_flash.c\<close> (the firmware's mailbox task).  Linux puts one command into the
  mailbox of the shared block and waits; the firmware checks it against the
  window and runs it on the SPI flash.

  The SPI flash driver of ESP-IDF is the record \<open>flash_dev\<close>: its write and erase
  give an error code and the new contents.  \<open>nor_dev\<close> is what it documents: an
  operation touches only its range, a successful write clears bits, a successful
  erase sets all of them.  \<open>completes i\<close> says whether the firmware's task runs
  during the wait of the i-th command of a call; if not, the wait times out.
\<close>

section \<open>State\<close>

abbreviation (input) ESP_SHM_FLASH :: nat where "ESP_SHM_FLASH \<equiv> 0x300"
abbreviation (input) ESP_SHM_FLASH_SIZE_OFF :: nat where "ESP_SHM_FLASH_SIZE_OFF \<equiv> 0x0"
abbreviation (input) ESP_SHM_FLASH_CMD_OFF :: nat where "ESP_SHM_FLASH_CMD_OFF \<equiv> 0x4"
abbreviation (input) ESP_SHM_FLASH_STATUS_OFF :: nat where "ESP_SHM_FLASH_STATUS_OFF \<equiv> 0x8"
abbreviation (input) ESP_SHM_FLASH_ADDR_OFF :: nat where "ESP_SHM_FLASH_ADDR_OFF \<equiv> 0xc"
abbreviation (input) ESP_SHM_FLASH_LEN_OFF :: nat where "ESP_SHM_FLASH_LEN_OFF \<equiv> 0x10"
abbreviation (input) ESP_SHM_FLASH_MAP_OFF :: nat where "ESP_SHM_FLASH_MAP_OFF \<equiv> 0x14"
abbreviation (input) ESP_SHM_FLASH_DATA :: nat where "ESP_SHM_FLASH_DATA \<equiv> 0x800"
abbreviation (input) ESP_SHM_FLASH_DATA_SIZE :: nat where "ESP_SHM_FLASH_DATA_SIZE \<equiv> 0x800"
abbreviation (input) ESP_SHM_FLASH_SECTOR :: nat where "ESP_SHM_FLASH_SECTOR \<equiv> 0x1000"
abbreviation (input) ESP_SHM_FLASH_BLOCK :: nat where "ESP_SHM_FLASH_BLOCK \<equiv> 0x10000"
abbreviation (input) ESP_SHM_FLASH_PROGRAM :: u32 where "ESP_SHM_FLASH_PROGRAM \<equiv> 2"
abbreviation (input) ESP_SHM_FLASH_ERASE :: u32 where "ESP_SHM_FLASH_ERASE \<equiv> 3"
abbreviation (input) ESP_ERR_INVALID_ARG :: u32 where "ESP_ERR_INVALID_ARG \<equiv> 0x102"

record flash_dev =
  esp_flash_write :: "bytes \<Rightarrow> u32 \<Rightarrow> mem \<Rightarrow> u32 \<times> mem"
  esp_flash_erase_region :: "u32 \<Rightarrow> u32 \<Rightarrow> mem \<Rightarrow> u32 \<times> mem"

text \<open>The block, the contents of the SPI flash, the doorbell to the firmware and
  the statics of \<open>shm_flash.c\<close> (\<open>s_kick\<close>: None before the task exists).\<close>

record flash_sys =
  fl_shm :: mem
  fl_flash :: mem
  fl_doorbell_fw :: u32
  fl_doorbell_host :: u32
  s_base :: u32
  s_size :: u32
  s_kick :: "bool option"

definition nor_dev :: "flash_dev \<Rightarrow> bool" where
  "nor_dev D \<longleftrightarrow>
     (\<forall>bs a m e m'. esp_flash_write D bs a m = (e, m') \<longrightarrow> unat a + length bs \<le> 2 ^ 32 \<longrightarrow>
        (\<forall>i. i < unat a \<or> unat a + length bs \<le> i \<longrightarrow> m' i = m i) \<and>
        (e = 0 \<longrightarrow> (\<forall>i < length bs. m' (unat a + i) = m (unat a + i) AND bs ! i))) \<and>
     (\<forall>a n m e m'. esp_flash_erase_region D a n m = (e, m') \<longrightarrow> unat a + unat n \<le> 2 ^ 32 \<longrightarrow>
        (\<forall>i. i < unat a \<or> unat a + unat n \<le> i \<longrightarrow> m' i = m i) \<and>
        (e = 0 \<longrightarrow> (\<forall>i < unat n. m' (unat a + i) = 0xff)))"

lemma nor_writeD:
  assumes "nor_dev D" and "esp_flash_write D bs a m = (0, m')" and "unat a + length bs \<le> 2 ^ 32" and "i < length bs"
  shows "m' (unat a + i) = m (unat a + i) AND bs ! i"
  using assms(1) [unfolded nor_dev_def, THEN conjunct1, THEN spec, THEN spec, THEN spec, THEN spec, THEN spec,
      THEN mp, OF assms(2), THEN mp, OF assms(3)] assms(4) by simp

lemma nor_eraseD:
  assumes "nor_dev D" and "esp_flash_erase_region D a n m = (0, m')" and "unat a + unat n \<le> 2 ^ 32" and "i < unat n"
  shows "m' (unat a + i) = 0xff"
  using assms(1) [unfolded nor_dev_def, THEN conjunct2, THEN spec, THEN spec, THEN spec, THEN spec, THEN spec,
      THEN mp, OF assms(2), THEN mp, OF assms(3)] assms(4) by simp

section \<open>The firmware\<close>

definition flash_word :: "flash_sys \<Rightarrow> nat \<Rightarrow> u32" where
  "flash_word s off = load32 (fl_shm s) (ESP_SHM_FLASH + off)"

definition set_flash_word :: "nat \<Rightarrow> u32 \<Rightarrow> flash_sys \<Rightarrow> flash_sys" where
  "set_flash_word off v s = s\<lparr>fl_shm := store32 (fl_shm s) (ESP_SHM_FLASH + off) v\<rparr>"

definition flash_op :: "flash_dev \<Rightarrow> u32 \<Rightarrow> u32 \<Rightarrow> u32 \<Rightarrow> flash_sys \<Rightarrow> u32 \<times> flash_sys" where
  "flash_op D cmd addr len s =
     (let (e, f) =
        (if cmd = ESP_SHM_FLASH_PROGRAM
         then esp_flash_write D (load_bytes (fl_shm s) ESP_SHM_FLASH_DATA (unat len)) (s_base s + addr) (fl_flash s)
         else esp_flash_erase_region D (s_base s + addr) len (fl_flash s))
      in (e, s\<lparr>fl_flash := f\<rparr>))"

definition flash_request_valid :: "u32 \<Rightarrow> u32 \<Rightarrow> u32 \<Rightarrow> u32 \<Rightarrow> bool" where
  "flash_request_valid win cmd addr len =
     (if addr \<ge> win \<or> len > win - addr then False
      else if cmd = ESP_SHM_FLASH_ERASE
      then addr mod of_nat ESP_SHM_FLASH_BLOCK = 0 \<and> len = of_nat ESP_SHM_FLASH_BLOCK
      else cmd = ESP_SHM_FLASH_PROGRAM \<and> len \<le> of_nat ESP_SHM_FLASH_DATA_SIZE \<and>
           addr mod of_nat ESP_SHM_FLASH_SECTOR + len \<le> of_nat ESP_SHM_FLASH_SECTOR)"

definition shm_flash_service :: "flash_dev \<Rightarrow> flash_sys \<Rightarrow> bool \<times> flash_sys" where
  "shm_flash_service D s =
     (let cmd = flash_word s ESP_SHM_FLASH_CMD_OFF;
          addr = flash_word s ESP_SHM_FLASH_ADDR_OFF;
          len = flash_word s ESP_SHM_FLASH_LEN_OFF
      in if cmd = 0 then (False, s)
         else let (err, s) = (if \<not> flash_request_valid (s_size s) cmd addr len
                              then (ESP_ERR_INVALID_ARG, s) else flash_op D cmd addr len s)
              in (True, set_flash_word ESP_SHM_FLASH_CMD_OFF 0
                          (set_flash_word ESP_SHM_FLASH_STATUS_OFF err s)))"

definition shm_flash_kick :: "flash_sys \<Rightarrow> flash_sys" where
  "shm_flash_kick s = s\<lparr>s_kick := map_option (\<lambda>_. True) (s_kick s)\<rparr>"

text \<open>One turn of the task's loop; None while it waits for the semaphore.
  \<open>s_done\<close> is \<open>ring_host_doorbell\<close>.\<close>

definition flash_task :: "flash_dev \<Rightarrow> flash_sys \<Rightarrow> flash_sys option" where
  "flash_task D s =
     (if s_kick s \<noteq> Some True then None
      else let (done, s) = shm_flash_service D (s\<lparr>s_kick := Some False\<rparr>)
           in Some (if done then s\<lparr>fl_doorbell_host := 1\<rparr> else s))"

text \<open>The two partitions (address and size), the address where \<open>spi_flash_mmap\<close>
  maps the window (None: it fails), and the outcomes of the semaphore and task
  creation.\<close>

definition flash_task_start :: "bool \<Rightarrow> bool \<Rightarrow> flash_sys \<Rightarrow> bool \<times> flash_sys" where
  "flash_task_start sem_ok task_ok s =
     (if sem_ok \<and> task_ok then (True, s\<lparr>s_kick := Some False\<rparr>) else (False, s\<lparr>s_kick := None\<rparr>))"

definition shm_flash_init ::
  "(u32 \<times> u32) option \<Rightarrow> (u32 \<times> u32) option \<Rightarrow> u32 option \<Rightarrow> bool \<Rightarrow> bool \<Rightarrow> flash_sys \<Rightarrow> flash_sys" where
  "shm_flash_init root data mmap sem_ok task_ok s =
     (let s = s\<lparr>s_base := 0, s_size := 0\<rparr>;
          (map, s) =
            (case (root, data) of
               (Some (ra, rs), Some (da, ds)) \<Rightarrow>
                 if da = ra + rs
                 then (case mmap of
                         None \<Rightarrow> (0, s)
                       | Some mp \<Rightarrow>
                           let (ok, s) = flash_task_start sem_ok task_ok s
                           in (mp, if ok then s\<lparr>s_base := ra, s_size := rs + ds\<rparr> else s))
                 else (0, s)
             | _ \<Rightarrow> (0, s))
      in set_flash_word ESP_SHM_FLASH_SIZE_OFF (s_size s) (set_flash_word ESP_SHM_FLASH_MAP_OFF map s))"

text \<open>The timeouts of the two buses, with the enable bits \<open>ien\<close> and \<open>den\<close> of ESP-IDF, and
  the cache lock: the word, and whether the wrappers of the ROM's functions take it.\<close>

definition disable_bus_timeouts :: "u32 \<Rightarrow> u32 \<Rightarrow> u32 \<times> u32 \<Rightarrow> u32 \<times> u32" where
  "disable_bus_timeouts ien den = (\<lambda>(ibus, dbus). (ibus AND NOT ien, dbus AND NOT den))"

definition CACHE_LOCK :: nat where
  "CACHE_LOCK = 0xc"

definition shm_flash_share_cache :: "mem \<times> bool \<Rightarrow> mem \<times> bool" where
  "shm_flash_share_cache s = (store32 (fst s) CACHE_LOCK 0, True)"

lemma share_cache_spec:
  "load32 (fst (shm_flash_share_cache s)) CACHE_LOCK = 0"
  "off + 4 \<le> CACHE_LOCK \<or> CACHE_LOCK + 4 \<le> off \<Longrightarrow> load32 (fst (shm_flash_share_cache s)) off = load32 (fst s) off"
  by (auto simp: shm_flash_share_cache_def load32_store32_same load32_store32_other)

section \<open>Linux\<close>

definition esp_shm_flash_cmd ::
  "flash_dev \<Rightarrow> bool \<Rightarrow> u32 \<Rightarrow> u32 \<Rightarrow> bytes \<Rightarrow> u32 \<Rightarrow> flash_sys \<Rightarrow> (errno + unit) \<times> flash_sys" where
  "esp_shm_flash_cmd D completes cmd addr buf len s =
     (if flash_word s ESP_SHM_FLASH_CMD_OFF \<noteq> 0 then (Inl EBUSY, s)
      else let s = set_flash_word ESP_SHM_FLASH_ADDR_OFF addr s;
               s = set_flash_word ESP_SHM_FLASH_LEN_OFF len s;
               s = (if cmd = ESP_SHM_FLASH_PROGRAM
                    then s\<lparr>fl_shm := store_bytes (fl_shm s) ESP_SHM_FLASH_DATA (take (unat len) buf)\<rparr> else s);
               s = set_flash_word ESP_SHM_FLASH_CMD_OFF cmd s;
               s = s\<lparr>fl_doorbell_fw := 1\<rparr>;
               s = (if completes then snd (shm_flash_service D s) else s)
           in if flash_word s ESP_SHM_FLASH_CMD_OFF \<noteq> 0 then (Inl ETIMEDOUT, s)
              else if flash_word s ESP_SHM_FLASH_STATUS_OFF \<noteq> 0 then (Inl EIO, s)
              else (Inr (), s))"

definition esp_shm_flash_read :: "nat \<Rightarrow> nat \<Rightarrow> flash_sys \<Rightarrow> bytes" where
  "esp_shm_flash_read from len s = load_bytes (fl_flash s) (unat (s_base s) + from) len"

text \<open>The loop of \<open>esp_shm_flash_write\<close>; \<open>i\<close> counts its commands, \<open>retlen\<close> is
  \<open>*retlen\<close>.\<close>

function esp_shm_flash_write ::
  "flash_dev \<Rightarrow> (nat \<Rightarrow> bool) \<Rightarrow> nat \<Rightarrow> nat \<Rightarrow> bytes \<Rightarrow> nat \<Rightarrow> flash_sys \<Rightarrow> (errno + unit) \<times> nat \<times> flash_sys" where
  "esp_shm_flash_write D completes i to buf retlen s =
     (if buf = [] then (Inr (), retlen, s)
      else let n = min (length buf) (ESP_SHM_FLASH_DATA_SIZE - to mod ESP_SHM_FLASH_DATA_SIZE) in
        case esp_shm_flash_cmd D (completes i) ESP_SHM_FLASH_PROGRAM (of_nat to) buf (of_nat n) s of
          (Inl e, s) \<Rightarrow> (Inl e, retlen, s)
        | (Inr _, s) \<Rightarrow> esp_shm_flash_write D completes (Suc i) (to + n) (drop n buf) (retlen + n) s)"
  by pat_completeness auto
termination
proof (relation "measure (\<lambda>(D, c, i, to, buf, retlen, s). length buf)", goal_cases)
  case (2 D completes i to buf retlen s n)
  have "to mod ESP_SHM_FLASH_DATA_SIZE < ESP_SHM_FLASH_DATA_SIZE"
    by simp
  then show ?case
    using 2 by (auto simp: min_def)
qed simp

declare esp_shm_flash_write.simps [simp del]

text \<open>The loop of \<open>esp_shm_flash_erase\<close> from \<open>addr\<close> to \<open>instr->addr + instr->len\<close>;
  the option is \<open>fail_addr\<close>.\<close>

function esp_shm_flash_erase ::
  "flash_dev \<Rightarrow> (nat \<Rightarrow> bool) \<Rightarrow> nat \<Rightarrow> nat \<Rightarrow> nat \<Rightarrow> flash_sys \<Rightarrow> (errno + unit) \<times> nat option \<times> flash_sys" where
  "esp_shm_flash_erase D completes i addr stop s =
     (if addr < stop then
        case esp_shm_flash_cmd D (completes i) ESP_SHM_FLASH_ERASE (of_nat addr) [] (of_nat ESP_SHM_FLASH_BLOCK) s of
          (Inl e, s) \<Rightarrow> (Inl e, Some addr, s)
        | (Inr _, s) \<Rightarrow> esp_shm_flash_erase D completes (Suc i) (addr + ESP_SHM_FLASH_BLOCK) stop s
      else (Inr (), None, s))"
  by pat_completeness auto
termination
  by (relation "measure (\<lambda>(D, c, i, addr, stop, s). stop - addr)") auto

declare esp_shm_flash_erase.simps [simp del]

record mtd_info =
  mtd_size :: u32
  mtd_erasesize :: nat
  mtd_writesize :: nat
  mtd_writebufsize :: nat

definition esp_shm_flash_probe :: "bool \<Rightarrow> bool \<Rightarrow> bool \<Rightarrow> bool \<Rightarrow> mem \<Rightarrow> mtd_info option" where
  "esp_shm_flash_probe child alloc_ok remap_ok register_ok m =
     (let win = load32 m (ESP_SHM_FLASH + ESP_SHM_FLASH_SIZE_OFF)
      in if win = 0 \<or> \<not> child then None
         else if \<not> alloc_ok then None
         else if \<not> remap_ok then None
         else if register_ok
              then Some \<lparr>mtd_size = win, mtd_erasesize = ESP_SHM_FLASH_BLOCK, mtd_writesize = 1,
                         mtd_writebufsize = ESP_SHM_FLASH_DATA_SIZE\<rparr>
              else None)"

text \<open>What a probe has acquired when it returns, and what is left after the removal.\<close>

datatype flash_res = Flash_node | Flash_state | Flash_window | Flash_mtd

definition flash_probe_held :: "bool \<Rightarrow> bool \<Rightarrow> bool \<Rightarrow> bool \<Rightarrow> mem \<Rightarrow> flash_res set" where
  "flash_probe_held child alloc_ok remap_ok register_ok m =
     (let win = load32 m (ESP_SHM_FLASH + ESP_SHM_FLASH_SIZE_OFF);
          held = (if child then {Flash_node} else {})
      in if win = 0 \<or> \<not> child then held - {Flash_node}
         else if \<not> alloc_ok then held - {Flash_node}
         else let held = insert Flash_state held
         in if \<not> remap_ok then held - {Flash_state} - {Flash_node}
         else let held = insert Flash_window held
         in if register_ok then insert Flash_mtd held
            else held - {Flash_window} - {Flash_state} - {Flash_node})"

definition esp_shm_flash_remove :: "mtd_info option \<Rightarrow> flash_res set \<Rightarrow> flash_res set" where
  "esp_shm_flash_remove flash held =
     (if flash = None then held else held - {Flash_mtd} - {Flash_node} - {Flash_window} - {Flash_state})"

text \<open>A failed probe holds nothing, and the removal releases everything.\<close>

lemma flash_probe_releases:
  assumes "esp_shm_flash_probe child a r g m = flash"
  shows "flash = None \<longleftrightarrow> flash_probe_held child a r g m = {}"
    and "esp_shm_flash_remove flash (flash_probe_held child a r g m) = {}"
  using assms by (auto simp: esp_shm_flash_probe_def flash_probe_held_def esp_shm_flash_remove_def Let_def split: if_splits)

section \<open>The window check\<close>

definition window_ok :: "flash_sys \<Rightarrow> bool" where
  "window_ok s \<longleftrightarrow> unat (s_base s) + unat (s_size s) \<le> 2 ^ 32"

lemma valid_range:
  assumes "flash_request_valid sz cmd addr len"
  shows "unat addr + unat len \<le> unat sz" and "cmd = 2 \<or> cmd = 3"
    and "cmd = 2 \<Longrightarrow> unat len \<le> 0x800"
proof -
  have a: "addr < sz" "len \<le> sz - addr"
    using assms by (auto simp: flash_request_valid_def split: if_splits)
  then have "unat (sz - addr) = unat sz - unat addr" "unat len \<le> unat (sz - addr)" "unat addr < unat sz"
    by (simp_all add: unat_sub less_imp_le word_le_nat_alt word_less_nat_alt)
  then show "unat addr + unat len \<le> unat sz"
    by linarith
  show "cmd = 2 \<or> cmd = 3" "cmd = 2 \<Longrightarrow> unat len \<le> 0x800"
    using assms by (auto simp: flash_request_valid_def word_le_nat_alt split: if_splits)
qed

lemma base_add:
  assumes "window_ok s" and "unat addr + unat len \<le> unat (s_size s)" and "unat addr < unat (s_size s)"
  shows "unat (s_base s + addr) = unat (s_base s) + unat addr"
    and "unat (s_base s + addr) + unat len \<le> 2 ^ 32"
  using assms unat_add_eq_iff [of "s_base s" addr] by (simp_all add: window_ok_def)

lemma flash_op_range:
  assumes D: "nor_dev D" and w: "window_ok s" and v: "flash_request_valid (s_size s) cmd addr len"
    and op: "flash_op D cmd addr len s = (e, s')"
  shows "i < unat (s_base s) + unat addr \<or> unat (s_base s) + unat addr + unat len \<le> i \<Longrightarrow>
      fl_flash s' i = fl_flash s i"
    and "s' = s\<lparr>fl_flash := fl_flash s'\<rparr>"
proof -
  have "unat addr < unat (s_size s)"
    using v by (auto simp: flash_request_valid_def word_less_nat_alt not_le split: if_splits)
  note b = base_add [OF w valid_range(1) [OF v] this]
  show "fl_flash s' i = fl_flash s i"
    if "i < unat (s_base s) + unat addr \<or> unat (s_base s) + unat addr + unat len \<le> i"
    using D op that b unfolding nor_dev_def
    by (auto simp: flash_op_def Let_def split: prod.splits if_splits)
  show "s' = s\<lparr>fl_flash := fl_flash s'\<rparr>"
    using op by (auto simp: flash_op_def Let_def split: prod.splits)
qed

section \<open>One command\<close>

lemma set_word_simps [simp]:
  "fl_flash (set_flash_word off v s) = fl_flash s" "s_base (set_flash_word off v s) = s_base s"
  "s_size (set_flash_word off v s) = s_size s"
  "flash_word (set_flash_word off v s) off = v"
  by (simp_all add: set_flash_word_def flash_word_def)

lemma flash_word_other:
  "off + 4 \<le> off' \<or> off' + 4 \<le> off \<Longrightarrow> flash_word (set_flash_word off v s) off' = flash_word s off'"
  by (auto simp: set_flash_word_def flash_word_def intro!: load32_store32_other)

text \<open>The mailbox after Linux filled it.\<close>

definition mailbox :: "u32 \<Rightarrow> u32 \<Rightarrow> bytes \<Rightarrow> u32 \<Rightarrow> flash_sys \<Rightarrow> flash_sys" where
  "mailbox cmd addr buf len s =
     (let s = set_flash_word ESP_SHM_FLASH_LEN_OFF len (set_flash_word ESP_SHM_FLASH_ADDR_OFF addr s);
          s = (if cmd = ESP_SHM_FLASH_PROGRAM
               then s\<lparr>fl_shm := store_bytes (fl_shm s) ESP_SHM_FLASH_DATA (take (unat len) buf)\<rparr> else s)
      in (set_flash_word ESP_SHM_FLASH_CMD_OFF cmd s)\<lparr>fl_doorbell_fw := 1\<rparr>)"

lemma mailbox_words:
  "flash_word (mailbox cmd addr buf len s) ESP_SHM_FLASH_CMD_OFF = cmd"
  "flash_word (mailbox cmd addr buf len s) ESP_SHM_FLASH_ADDR_OFF = addr"
  "flash_word (mailbox cmd addr buf len s) ESP_SHM_FLASH_LEN_OFF = len"
  by (auto simp: mailbox_def Let_def flash_word_def set_flash_word_def load32_store32_other
      load32_store_bytes_other)

lemma mailbox_simps [simp]:
  "fl_flash (mailbox cmd addr buf len s) = fl_flash s"
  "s_base (mailbox cmd addr buf len s) = s_base s" "s_size (mailbox cmd addr buf len s) = s_size s"
  by (auto simp: mailbox_def Let_def)

lemma mailbox_data:
  assumes "unat len \<le> length buf"
  shows "load_bytes (fl_shm (mailbox ESP_SHM_FLASH_PROGRAM addr buf len s)) ESP_SHM_FLASH_DATA (unat len) =
    take (unat len) buf"
proof -
  have "length (take (unat len) buf) = unat len"
    using assms by simp
  then show ?thesis
    using load_store_same [of _ "0x800" "take (unat len) buf"]
    by (simp add: mailbox_def Let_def set_flash_word_def store32_def load_store_other)
qed

lemma cmd_eq:
  "esp_shm_flash_cmd D c cmd addr buf len s =
     (if flash_word s ESP_SHM_FLASH_CMD_OFF \<noteq> 0 then (Inl EBUSY, s)
      else let s = mailbox cmd addr buf len s;
               s = (if c then snd (shm_flash_service D s) else s)
           in if flash_word s ESP_SHM_FLASH_CMD_OFF \<noteq> 0 then (Inl ETIMEDOUT, s)
              else if flash_word s ESP_SHM_FLASH_STATUS_OFF \<noteq> 0 then (Inl EIO, s)
              else (Inr (), s))"
  by (simp add: esp_shm_flash_cmd_def mailbox_def Let_def)

lemma service_valid:
  assumes "flash_word s ESP_SHM_FLASH_CMD_OFF = cmd" and "cmd \<noteq> 0"
    and "flash_word s ESP_SHM_FLASH_ADDR_OFF = addr" and "flash_word s ESP_SHM_FLASH_LEN_OFF = len"
    and "flash_request_valid (s_size s) cmd addr len"
    and "flash_op D cmd addr len s = (e, s1)"
  shows "shm_flash_service D s =
    (True, set_flash_word ESP_SHM_FLASH_CMD_OFF 0 (set_flash_word ESP_SHM_FLASH_STATUS_OFF e s1))"
  using assms by (simp add: shm_flash_service_def Let_def)

text \<open>A command in the window: what it does to the flash when it succeeds, and
  that it stays in its range and keeps the window whatever happens.\<close>

lemma cmd_effect:
  assumes D: "nor_dev D" and w: "window_ok s" and v: "flash_request_valid (s_size s) cmd addr len"
    and buf: "cmd = 2 \<Longrightarrow> unat len \<le> length buf"
    and c: "esp_shm_flash_cmd D c cmd addr buf len s = (r, s')"
  defines "a \<equiv> unat (s_base s) + unat addr"
  shows "s_base s' = s_base s" and "s_size s' = s_size s"
    and "i < a \<or> a + unat len \<le> i \<Longrightarrow> fl_flash s' i = fl_flash s i"
    and "r = Inr () \<Longrightarrow> i < unat len \<Longrightarrow>
      fl_flash s' (a + i) = (if cmd = 2 then fl_flash s (a + i) AND buf ! i else 0xff)"
    and "r = Inr () \<Longrightarrow> flash_word s' ESP_SHM_FLASH_CMD_OFF = 0"
proof -
  define s1 where "s1 = mailbox cmd addr buf len s"
  obtain e s2 where op: "flash_op D cmd addr len s1 = (e, s2)"
    by fastforce
  have cmd: "cmd = 2 \<or> cmd = 3" and v1: "flash_request_valid (s_size s1) cmd addr len" and w1: "window_ok s1"
    using valid_range(2) [OF v] v w by (simp_all add: s1_def window_ok_def)
  note rng = flash_op_range [OF D w1 v1 op]
  have sv: "shm_flash_service D s1 =
      (True, set_flash_word ESP_SHM_FLASH_CMD_OFF 0 (set_flash_word ESP_SHM_FLASH_STATUS_OFF e s2))"
    using service_valid [OF _ _ _ _ v1 op] mailbox_words [of cmd addr buf len s] cmd by (auto simp: s1_def)
  have s': "s' = s \<or> s' = s1 \<or> s' = snd (shm_flash_service D s1)"
    and ok: "r = Inr () \<Longrightarrow> s' = snd (shm_flash_service D s1) \<and> e = 0"
    using c cmd mailbox_words(1) [of cmd addr buf len s]
    by (auto simp: cmd_eq Let_def sv flash_word_other simp flip: s1_def split: if_splits)
  have s1: "s_base s1 = s_base s" "s_size s1 = s_size s" "fl_flash s1 = fl_flash s"
    by (simp_all add: s1_def)
  have same: "s_base s2 = s_base s" "s_size s2 = s_size s"
    by (subst rng(2), simp add: s1)+
  show "s_base s' = s_base s" "s_size s' = s_size s"
    using s' same s1 by (auto simp: sv)
  show "fl_flash s' i = fl_flash s i" if "i < a \<or> a + unat len \<le> i"
    using s' rng(1) [of i] that by (auto simp: s1 sv a_def)
  show "flash_word s' ESP_SHM_FLASH_CMD_OFF = 0" if "r = Inr ()"
    using ok that by (simp add: sv)
  show "fl_flash s' (a + i) = (if cmd = 2 then fl_flash s (a + i) AND buf ! i else 0xff)"
    if "r = Inr ()" "i < unat len"
  proof -
    have "unat addr < unat (s_size s)"
      using v by (auto simp: flash_request_valid_def word_less_nat_alt not_le split: if_splits)
    note b = base_add [OF w valid_range(1) [OF v] this]
    have fl: "fl_flash s' = fl_flash s2" "e = 0"
      using ok [OF that(1)] by (simp_all add: sv)
    show ?thesis
    proof (cases "cmd = 2")
      case True
      then have "esp_flash_write D (take (unat len) buf) (s_base s + addr) (fl_flash s) = (0, fl_flash s2)"
        using op fl mailbox_data [OF buf, of addr s] by (auto simp: flash_op_def Let_def s1_def split: prod.splits)
      then show ?thesis
        using nor_writeD [OF D, of "take (unat len) buf" "s_base s + addr" "fl_flash s" "fl_flash s2" i]
          b buf True that fl by (simp add: a_def min_def)
    next
      case False
      then have "esp_flash_erase_region D (s_base s + addr) len (fl_flash s) = (0, fl_flash s2)"
        using op fl by (auto simp: flash_op_def Let_def s1_def split: prod.splits)
      then show ?thesis
        using nor_eraseD [OF D, of "s_base s + addr" len "fl_flash s" "fl_flash s2" i] b False that fl
        by (simp add: a_def)
    qed
  qed
qed

section \<open>The loops\<close>

lemma chunk_valid:
  fixes to n :: nat
  assumes "n \<le> ESP_SHM_FLASH_DATA_SIZE - to mod ESP_SHM_FLASH_DATA_SIZE" and "0 < n" and "to + n \<le> unat sz"
  shows "flash_request_valid sz 2 (of_nat to) (of_nat n)"
proof -
  have lt: "to < 2 ^ 32" "n < 2 ^ 32"
    using assms unsigned_less [of sz, where ?'a = nat] by simp_all
  then have u: "unat (of_nat to :: u32) = to" "unat (of_nat n :: u32) = n"
    by (simp_all add: unat_of_nat)
  have a: "(of_nat to :: u32) < sz"
    using assms by (simp add: word_less_nat_alt u)
  then have b: "of_nat n \<le> sz - of_nat to"
    using assms by (simp add: word_le_nat_alt unat_sub less_imp_le u)
  have c: "unat (of_nat to mod 0x1000 + of_nat n :: u32) = to mod 0x1000 + n"
    using assms by (subst unat_add_eq_iff) (simp_all add: unat_mod u)
  have "to mod 0x800 = (to mod 0x1000) mod 0x800"
    by (simp add: mod_mod_cancel)
  then have "to mod 0x1000 = to mod 0x800 \<or> to mod 0x1000 = to mod 0x800 + 0x800"
    using mod_less_divisor [of "0x1000" to] by (auto simp: mod_if [of "to mod 0x1000"])
  then have "to mod 0x1000 + n \<le> 0x1000"
    using assms by auto
  then show ?thesis
    using a b c assms by (simp add: flash_request_valid_def word_le_nat_alt u not_le not_less)
qed

lemma block_valid:
  fixes addr :: nat
  assumes "addr mod ESP_SHM_FLASH_BLOCK = 0" and "addr + ESP_SHM_FLASH_BLOCK \<le> unat sz"
  shows "flash_request_valid sz 3 (of_nat addr) (of_nat ESP_SHM_FLASH_BLOCK)"
proof -
  have "addr < 2 ^ 32"
    using assms unsigned_less [of sz, where ?'a = nat] by simp
  then have u: "unat (of_nat addr :: u32) = addr"
    by (simp add: unat_of_nat)
  have a: "(of_nat addr :: u32) < sz"
    using assms by (simp add: word_less_nat_alt u)
  then have b: "0x10000 \<le> sz - of_nat addr"
    using assms by (simp add: word_le_nat_alt unat_sub less_imp_le u)
  have "unat (of_nat addr mod 0x10000 :: u32) = 0"
    using assms by (simp add: unat_mod u)
  then show ?thesis
    using a b by (simp add: flash_request_valid_def not_le not_less unat_eq_0)
qed

definition programmed :: "nat \<Rightarrow> bytes \<Rightarrow> nat \<Rightarrow> mem \<Rightarrow> mem \<Rightarrow> bool" where
  "programmed a buf n m m' \<longleftrightarrow>
     (\<forall>j < n. m' (a + j) = m (a + j) AND buf ! j) \<and>
     (\<forall>i. i < a \<or> a + length buf \<le> i \<longrightarrow> m' i = m i)"

lemma programmed_step:
  assumes "\<And>i. i < a \<or> a + n \<le> i \<Longrightarrow> m1 i = m i"
    and "\<And>i. i < n \<Longrightarrow> m1 (a + i) = m (a + i) AND buf ! i"
    and "programmed (a + n) (drop n buf) k m1 m'" and "n \<le> length buf"
  shows "programmed a buf (n + k) m m'"
proof -
  have "m' (a + j) = m (a + j) AND buf ! j" if "j < n + k" for j
  proof (cases "j < n")
    case True
    then show ?thesis
      using assms(2) assms(3) by (simp add: programmed_def)
  next
    case False
    then have j: "a + j = a + n + (j - n)" "j - n < k"
      using that by simp_all
    have "m' (a + n + (j - n)) = m1 (a + n + (j - n)) AND drop n buf ! (j - n)"
      using assms(3) j(2) unfolding programmed_def by blast
    then have "m' (a + j) = m1 (a + j) AND drop n buf ! (j - n)"
      by (simp only: j(1) [symmetric])
    then show ?thesis
      using assms(1) [of "a + j"] assms(4) False by simp
  qed
  moreover have "m' i = m i" if "i < a \<or> a + length buf \<le> i" for i
    using that assms(1) [of i] assms(3,4) by (auto simp: programmed_def)
  ultimately show ?thesis
    by (simp add: programmed_def)
qed

lemma write_loop:
  "nor_dev D \<Longrightarrow> window_ok s \<Longrightarrow> to + length buf \<le> unat (s_size s) \<Longrightarrow>
    esp_shm_flash_write D c i to buf ret s = (r, ret', s') \<Longrightarrow>
    s_base s' = s_base s \<and> s_size s' = s_size s \<and> ret \<le> ret' \<and> ret' \<le> ret + length buf \<and>
    (r = Inr () \<longrightarrow> ret' = ret + length buf) \<and>
    programmed (unat (s_base s) + to) buf (ret' - ret) (fl_flash s) (fl_flash s')"
proof (induction D c i to buf ret s rule: esp_shm_flash_write.induct)
  case (1 D c i to buf ret s)
  show ?case
  proof (cases "buf = []")
    case True
    then show ?thesis
      using 1(5) by (subst (asm) esp_shm_flash_write.simps) (simp add: programmed_def)
  next
    case False
    define n where "n = min (length buf) (ESP_SHM_FLASH_DATA_SIZE - to mod ESP_SHM_FLASH_DATA_SIZE)"
    have n: "0 < n" "n \<le> length buf" "n \<le> ESP_SHM_FLASH_DATA_SIZE - to mod ESP_SHM_FLASH_DATA_SIZE" "n < 2 ^ 32"
      using False mod_less_divisor [of "0x800" to] by (auto simp: n_def)
    have to: "to < 2 ^ 32"
      using 1(4) n unsigned_less [of "s_size s", where ?'a = nat] by simp
    have u: "unat (of_nat n :: u32) = n" "unat (of_nat to :: u32) = to"
      using n to by (simp_all add: unat_of_nat)
    obtain r1 s1 where c1: "esp_shm_flash_cmd D (c i) 2 (of_nat to) buf (of_nat n) s = (r1, s1)"
      by fastforce
    have v: "flash_request_valid (s_size s) 2 (of_nat to) (of_nat n)"
      using chunk_valid n 1(4) by simp
    note e = cmd_effect [OF 1(2,3) v _ c1, unfolded u]
    show ?thesis
    proof (cases r1)
      case (Inl err)
      then have "r = Inl err" "ret' = ret" "s' = s1"
        using 1(5) False c1
        by (subst (asm) esp_shm_flash_write.simps; simp add: Let_def flip: n_def)+
      then show ?thesis
        using e n by (auto simp: programmed_def)
    next
      case (Inr x)
      have "esp_shm_flash_write D c (Suc i) (to + n) (drop n buf) (ret + n) s1 = (r, ret', s')"
        using 1(5) False c1 Inr by (subst (asm) esp_shm_flash_write.simps) (simp add: Let_def flip: n_def)
      moreover have "window_ok s1" "to + n + length (drop n buf) \<le> unat (s_size s1)"
        using 1(3,4) e n by (simp_all add: window_ok_def)
      ultimately have IH: "s_base s' = s_base s1 \<and> s_size s' = s_size s1 \<and> ret + n \<le> ret' \<and>
          ret' \<le> ret + n + length (drop n buf) \<and> (r = Inr () \<longrightarrow> ret' = ret + n + length (drop n buf)) \<and>
          programmed (unat (s_base s1) + (to + n)) (drop n buf) (ret' - (ret + n)) (fl_flash s1) (fl_flash s')"
        using 1(1) [OF False n_def c1 [symmetric] Inr 1(2)] by blast
      have "programmed (unat (s_base s) + to) buf (n + (ret' - (ret + n))) (fl_flash s) (fl_flash s')"
        using e n IH Inr by (intro programmed_step [of _ n "fl_flash s1"]) (simp_all add: add.assoc)
      then show ?thesis
        using IH n e by auto
    qed
  qed
qed

text \<open>With a device that does not fail and a firmware that answers, an idle
  mailbox takes every command in the window.\<close>

definition dev_succeeds :: "flash_dev \<Rightarrow> bool" where
  "dev_succeeds D \<longleftrightarrow> (\<forall>bs a m. fst (esp_flash_write D bs a m) = 0) \<and>
     (\<forall>a n m. fst (esp_flash_erase_region D a n m) = 0)"

lemma cmd_succeeds:
  assumes "dev_succeeds D" and "flash_request_valid (s_size s) cmd addr len"
    and "flash_word s ESP_SHM_FLASH_CMD_OFF = 0"
  obtains s' where "esp_shm_flash_cmd D True cmd addr buf len s = (Inr (), s')"
    and "flash_word s' ESP_SHM_FLASH_CMD_OFF = 0"
proof -
  define s1 where "s1 = mailbox cmd addr buf len s"
  obtain e s2 where op: "flash_op D cmd addr len s1 = (e, s2)"
    by fastforce
  have "e = 0"
    using op assms(1) by (auto simp: flash_op_def dev_succeeds_def Let_def split: prod.splits if_splits)
      (metis fst_conv)+
  moreover have "shm_flash_service D s1 =
      (True, set_flash_word ESP_SHM_FLASH_CMD_OFF 0 (set_flash_word ESP_SHM_FLASH_STATUS_OFF e s2))"
    using service_valid [OF _ _ _ _ _ op] mailbox_words [of cmd addr buf len s] valid_range(2) [OF assms(2)] assms(2)
    by (auto simp: s1_def)
  ultimately show thesis
    using assms(3) that [of "snd (shm_flash_service D s1)"]
    by (simp add: cmd_eq Let_def flash_word_other flip: s1_def)
qed

lemma write_succeeds:
  "dev_succeeds D \<Longrightarrow> nor_dev D \<Longrightarrow> window_ok s \<Longrightarrow> c = (\<lambda>_. True) \<Longrightarrow> to + length buf \<le> unat (s_size s) \<Longrightarrow>
   flash_word s ESP_SHM_FLASH_CMD_OFF = 0 \<Longrightarrow>
   fst (esp_shm_flash_write D c i to buf ret s) = Inr ()"
proof (induction D c i to buf ret s rule: esp_shm_flash_write.induct)
  case (1 D c i to buf ret s)
  show ?case
  proof (cases "buf = []")
    case True
    then show ?thesis
      by (subst esp_shm_flash_write.simps) simp
  next
    case False
    define n where "n = min (length buf) (ESP_SHM_FLASH_DATA_SIZE - to mod ESP_SHM_FLASH_DATA_SIZE)"
    have n: "0 < n" "n \<le> length buf" "n \<le> ESP_SHM_FLASH_DATA_SIZE - to mod ESP_SHM_FLASH_DATA_SIZE" "n < 2 ^ 32"
      using False mod_less_divisor [of "0x800" to] by (auto simp: n_def)
    have v: "flash_request_valid (s_size s) 2 (of_nat to) (of_nat n)"
      using chunk_valid n 1(6) by simp
    obtain s1 where c1: "esp_shm_flash_cmd D True 2 (of_nat to) buf (of_nat n) s = (Inr (), s1)"
      and idle: "flash_word s1 ESP_SHM_FLASH_CMD_OFF = 0"
      using cmd_succeeds [OF 1(2) v 1(7)] by blast
    have ci: "c i = True"
      by (simp add: 1(5))
    have "unat (of_nat n :: u32) = n"
      using n by (simp add: unat_of_nat)
    note e = cmd_effect [OF 1(3,4) v _ c1, unfolded this]
    have "fst (esp_shm_flash_write D c (Suc i) (to + n) (drop n buf) (ret + n) s1) = Inr ()"
      using 1(1) [OF False n_def c1 [symmetric, folded ci] refl 1(2,3) _ 1(5)] 1(4,6) e n idle
      by (simp add: window_ok_def)
    then show ?thesis
      using False c1 ci by (subst esp_shm_flash_write.simps) (simp add: Let_def flip: n_def)
  qed
qed

definition erased :: "nat \<Rightarrow> nat \<Rightarrow> mem \<Rightarrow> mem \<Rightarrow> bool" where
  "erased a n m m' \<longleftrightarrow> (\<forall>j < n. m' (a + j) = 0xff) \<and> (\<forall>i. i < a \<or> a + n \<le> i \<longrightarrow> m' i = m i)"

lemma erase_loop:
  "dev_succeeds D \<Longrightarrow> nor_dev D \<Longrightarrow> window_ok s \<Longrightarrow>
   addr mod ESP_SHM_FLASH_BLOCK = 0 \<Longrightarrow> stop = addr + k * ESP_SHM_FLASH_BLOCK \<Longrightarrow> stop \<le> unat (s_size s) \<Longrightarrow>
   flash_word s ESP_SHM_FLASH_CMD_OFF = 0 \<Longrightarrow>
   \<exists>s'. esp_shm_flash_erase D (\<lambda>_. True) i addr stop s = (Inr (), None, s') \<and>
     s_base s' = s_base s \<and> s_size s' = s_size s \<and> flash_word s' ESP_SHM_FLASH_CMD_OFF = 0 \<and>
     erased (unat (s_base s) + addr) (k * ESP_SHM_FLASH_BLOCK) (fl_flash s) (fl_flash s')"
proof (induction k arbitrary: i addr s)
  case 0
  then show ?case
    by (subst esp_shm_flash_erase.simps) (simp add: erased_def)
next
  case (Suc k)
  have v: "flash_request_valid (s_size s) 3 (of_nat addr) (of_nat ESP_SHM_FLASH_BLOCK)"
    using Suc.prems by (intro block_valid) simp_all
  obtain s1 where c1: "esp_shm_flash_cmd D True 3 (of_nat addr) [] (of_nat ESP_SHM_FLASH_BLOCK) s = (Inr (), s1)"
    and idle: "flash_word s1 ESP_SHM_FLASH_CMD_OFF = 0"
    using cmd_succeeds [OF Suc.prems(1) v Suc.prems(7)] by blast
  have "addr < 2 ^ 32"
    using Suc.prems unsigned_less [of "s_size s", where ?'a = nat] by simp
  then have u: "unat (of_nat addr :: u32) = addr" "unat (of_nat ESP_SHM_FLASH_BLOCK :: u32) = ESP_SHM_FLASH_BLOCK"
    by (simp_all add: unat_of_nat)
  note e = cmd_effect [OF Suc.prems(2,3) v _ c1, unfolded u, simplified]
  have m: "(addr + ESP_SHM_FLASH_BLOCK) mod ESP_SHM_FLASH_BLOCK = 0"
    using Suc.prems(4) by simp
  obtain s' where s': "esp_shm_flash_erase D (\<lambda>_. True) (Suc i) (addr + ESP_SHM_FLASH_BLOCK) stop s1 = (Inr (), None, s')"
    "s_base s' = s_base s1" "s_size s' = s_size s1" "flash_word s' ESP_SHM_FLASH_CMD_OFF = 0"
    "erased (unat (s_base s1) + (addr + ESP_SHM_FLASH_BLOCK)) (k * ESP_SHM_FLASH_BLOCK) (fl_flash s1) (fl_flash s')"
    using Suc.IH [of s1 "addr + ESP_SHM_FLASH_BLOCK" "Suc i", OF Suc.prems(1,2) _ m] Suc.prems e idle
    by (auto simp: window_ok_def)
  have "esp_shm_flash_erase D (\<lambda>_. True) i addr stop s = (Inr (), None, s')"
    using s'(1) c1 Suc.prems(5) by (subst esp_shm_flash_erase.simps) simp
  moreover have "erased (unat (s_base s) + addr) (Suc k * ESP_SHM_FLASH_BLOCK) (fl_flash s) (fl_flash s')"
    unfolding erased_def
  proof (intro conjI allI impI)
    fix j
    assume j: "j < Suc k * ESP_SHM_FLASH_BLOCK"
    show "fl_flash s' (unat (s_base s) + addr + j) = 0xff"
    proof (cases "j < ESP_SHM_FLASH_BLOCK")
      case True
      then show ?thesis
        using s'(5) e(1,4) by (auto simp: erased_def)
    next
      case False
      then have "j - ESP_SHM_FLASH_BLOCK < k * ESP_SHM_FLASH_BLOCK"
        "unat (s_base s) + addr + j = unat (s_base s1) + (addr + ESP_SHM_FLASH_BLOCK) + (j - ESP_SHM_FLASH_BLOCK)"
        using j e(1) by simp_all
      then show ?thesis
        using s'(5) unfolding erased_def by metis
    qed
  next
    fix x
    assume "x < unat (s_base s) + addr \<or> unat (s_base s) + addr + Suc k * ESP_SHM_FLASH_BLOCK \<le> x"
    then show "fl_flash s' x = fl_flash s x"
      using s'(5) e(1,3) by (auto simp: erased_def)
  qed
  ultimately show ?case
    using s' e by simp
qed

section \<open>Properties\<close>

text \<open>A flash device for the witnesses, and a system with a window of two blocks
  at \<open>0x10000\<close>.\<close>

definition demo_nor :: flash_dev where
  "demo_nor = \<lparr>
     esp_flash_write = (\<lambda>bs a m. (0, \<lambda>i. if unat a \<le> i \<and> i < unat a + length bs then m i AND bs ! (i - unat a) else m i)),
     esp_flash_erase_region = (\<lambda>a n m. (0, \<lambda>i. if unat a \<le> i \<and> i < unat a + unat n then 0xff else m i))\<rparr>"

definition demo_flash :: flash_sys where
  "demo_flash = \<lparr>fl_shm = (\<lambda>_. 0), fl_flash = (\<lambda>_. 0), fl_doorbell_fw = 0, fl_doorbell_host = 0,
     s_base = 0x10000, s_size = 0x20000, s_kick = Some False\<rparr>"

lemma demo_nor_ok: "nor_dev demo_nor" "dev_succeeds demo_nor"
  by (auto simp: nor_dev_def dev_succeeds_def demo_nor_def)

lemma demo_flash_ok:
  "window_ok demo_flash" "flash_word demo_flash ESP_SHM_FLASH_CMD_OFF = 0"
  by (simp_all add: window_ok_def demo_flash_def flash_word_def load32_def load_bytes_def upt_rec)

text \<open>C11: whatever is in the mailbox, one run of the firmware's mailbox service
  changes no flash byte outside the window, and of the shared block only the
  status and command words: no request of Linux reaches the bootloader, the
  firmware or the rings.\<close>

theorem service_stays_in_window:
  assumes "nor_dev D" and "window_ok s" and "shm_flash_service D s = (b, s')"
  shows "(\<forall>i. i < unat (s_base s) \<or> unat (s_base s) + unat (s_size s) \<le> i \<longrightarrow> fl_flash s' i = fl_flash s i) \<and>
    (\<forall>a. a < 0x304 \<or> 0x30c \<le> a \<longrightarrow> fl_shm s' a = fl_shm s a)"
proof -
  define cmd addr len where "cmd = flash_word s ESP_SHM_FLASH_CMD_OFF"
    and "addr = flash_word s ESP_SHM_FLASH_ADDR_OFF" and "len = flash_word s ESP_SHM_FLASH_LEN_OFF"
  obtain e s1 where op: "flash_op D cmd addr len s = (e, s1)"
    by fastforce
  consider "s' = s"
    | e' where "s' = set_flash_word ESP_SHM_FLASH_CMD_OFF 0 (set_flash_word ESP_SHM_FLASH_STATUS_OFF e' s)"
    | "flash_request_valid (s_size s) cmd addr len"
      "s' = set_flash_word ESP_SHM_FLASH_CMD_OFF 0 (set_flash_word ESP_SHM_FLASH_STATUS_OFF e s1)"
    using assms(3) op
    by (auto simp: shm_flash_service_def Let_def simp flip: cmd_def addr_def len_def split: if_splits)
  then show ?thesis
  proof cases
    case 3
    note r = flash_op_range [OF assms(1,2) 3(1) op]
    have "fl_shm s1 = fl_shm s"
      by (subst r(2)) simp
    then show ?thesis
      using 3 r(1) valid_range(1) [OF 3(1)] by (auto simp: set_flash_word_def store32_out)
  qed (auto simp: set_flash_word_def store32_out)
qed

theorem service_stays_in_window_witness:
  "fl_flash (snd (shm_flash_service demo_nor (mailbox 3 0x10000 [] 0x10000 demo_flash))) 0 = 0"
  using service_stays_in_window [OF demo_nor_ok(1), of "mailbox 3 0x10000 [] 0x10000 demo_flash"]
    demo_flash_ok(1)
  by (cases "shm_flash_service demo_nor (mailbox 3 0x10000 [] 0x10000 demo_flash)")
    (simp add: window_ok_def demo_flash_def)

text \<open>an MTD write inside the window, with any number of failing or late
  commands: \<open>*retlen\<close> counts bytes that are programmed (the flash holds the
  conjunction of old and new bits there), no byte outside the requested range
  changes, and the write reports success only with all bytes programmed.  With
  a working device and an idle mailbox it does succeed: every chunk passes the
  firmware's check.\<close>

theorem flash_write_spec:
  assumes "nor_dev D" and "window_ok s" and "to + length buf \<le> unat (s_size s)"
    and "esp_shm_flash_write D completes 0 to buf 0 s = (r, retlen, s')"
  shows "retlen \<le> length buf \<and> (r = Inr () \<longrightarrow> retlen = length buf) \<and>
    (\<forall>j < retlen. fl_flash s' (unat (s_base s) + to + j) = fl_flash s (unat (s_base s) + to + j) AND buf ! j) \<and>
    (\<forall>i. i < unat (s_base s) + to \<or> unat (s_base s) + to + length buf \<le> i \<longrightarrow> fl_flash s' i = fl_flash s i) \<and>
    (dev_succeeds D \<and> completes = (\<lambda>_. True) \<and> flash_word s ESP_SHM_FLASH_CMD_OFF = 0 \<longrightarrow> r = Inr ())"
  using write_loop [OF assms] write_succeeds [OF _ assms(1,2) _ assms(3), of completes 0 0] assms(4)
  by (auto simp: programmed_def)

theorem flash_write_spec_witness:
  "fst (esp_shm_flash_write demo_nor (\<lambda>_. True) 0 0x7ff [1, 2, 3] 0 demo_flash) = Inr ()"
proof -
  obtain r n s' where w: "esp_shm_flash_write demo_nor (\<lambda>_. True) 0 0x7ff [1, 2, 3] 0 demo_flash = (r, n, s')"
    using prod_cases3 by blast
  have "0x7ff + length [1, 2, 3 :: u8] \<le> unat (s_size demo_flash)"
    by (simp add: demo_flash_def)
  from flash_write_spec [OF demo_nor_ok(1) demo_flash_ok(1) this w] show ?thesis
    by (simp add: w demo_nor_ok demo_flash_ok [simplified])
qed

text \<open>C12: erase, program, read.  On an idle mailbox with a working device, erasing
  whole blocks of the window and then writing inside them makes a read of that
  range return exactly the bytes written.\<close>

theorem erase_write_read:
  assumes "nor_dev D" and "dev_succeeds D" and "window_ok s" and "flash_word s ESP_SHM_FLASH_CMD_OFF = 0"
    and "addr mod ESP_SHM_FLASH_BLOCK = 0" and "addr + k * ESP_SHM_FLASH_BLOCK \<le> unat (s_size s)"
    and "addr \<le> to" and "to + length buf \<le> addr + k * ESP_SHM_FLASH_BLOCK"
  shows "\<exists>s1 s2. esp_shm_flash_erase D (\<lambda>_. True) 0 addr (addr + k * ESP_SHM_FLASH_BLOCK) s = (Inr (), None, s1) \<and>
    esp_shm_flash_write D (\<lambda>_. True) 0 to buf 0 s1 = (Inr (), length buf, s2) \<and>
    esp_shm_flash_read to (length buf) s2 = buf"
proof -
  obtain s1 where s1: "esp_shm_flash_erase D (\<lambda>_. True) 0 addr (addr + k * ESP_SHM_FLASH_BLOCK) s = (Inr (), None, s1)"
    "s_base s1 = s_base s" "s_size s1 = s_size s" "flash_word s1 ESP_SHM_FLASH_CMD_OFF = 0"
    "erased (unat (s_base s) + addr) (k * ESP_SHM_FLASH_BLOCK) (fl_flash s) (fl_flash s1)"
    using erase_loop [OF assms(2,1,3,5) refl assms(6,4)] by blast
  have w1: "window_ok s1" and b1: "to + length buf \<le> unat (s_size s1)"
    using assms(3,6,8) s1 by (simp_all add: window_ok_def)
  obtain r n s2 where wr: "esp_shm_flash_write D (\<lambda>_. True) 0 to buf 0 s1 = (r, n, s2)"
    using prod_cases3 by blast
  have r: "r = Inr ()"
    using write_succeeds [OF assms(2,1) w1 refl b1 s1(4), of 0 0] wr by simp
  note wl = write_loop [OF assms(1) w1 b1 wr]
  have "fl_flash s2 (unat (s_base s) + to + j) = buf ! j" if "j < length buf" for j
  proof -
    have "fl_flash s2 (unat (s_base s) + to + j) = fl_flash s1 (unat (s_base s) + to + j) AND buf ! j"
      using wl r s1(2) that by (auto simp: programmed_def)
    moreover have "unat (s_base s) + to + j = unat (s_base s) + addr + (to + j - addr)"
      "to + j - addr < k * ESP_SHM_FLASH_BLOCK"
      using assms(7,8) that by simp_all
    then have "fl_flash s1 (unat (s_base s) + to + j) = 0xff"
      using s1(5) unfolding erased_def by metis
    moreover have "(0xff :: u8) = - 1"
      by simp
    then have "(0xff :: u8) AND x = x" for x
      by (metis and.left_neutral)
    ultimately show ?thesis
      by simp
  qed
  then have "esp_shm_flash_read to (length buf) s2 = buf"
    using wl s1(2) by (auto simp: esp_shm_flash_read_def nth_load_bytes intro!: nth_equalityI)
  then show ?thesis
    using s1(1) wr r wl by auto
qed

theorem erase_write_read_witness:
  "\<exists>s1 s2. esp_shm_flash_erase demo_nor (\<lambda>_. True) 0 0x10000 0x20000 demo_flash = (Inr (), None, s1) \<and>
    esp_shm_flash_write demo_nor (\<lambda>_. True) 0 0x10fff [1, 2, 3] 0 s1 = (Inr (), 3, s2) \<and>
    esp_shm_flash_read 0x10fff 3 s2 = [1, 2, 3]"
  using erase_write_read [OF demo_nor_ok demo_flash_ok, of "0x10000" 1 "0x10fff" "[1, 2, 3]"]
  by (simp add: demo_flash_def numeral_3_eq_3)

text \<open>A command that timed out keeps the mailbox.  It stays in the mailbox as
  written, every later command of Linux returns \<open>EBUSY\<close> and changes nothing, and
  when the firmware's task runs at last it executes the original request.\<close>

theorem timeout_keeps_mailbox:
  assumes "esp_shm_flash_cmd D c cmd addr buf len s = (Inl ETIMEDOUT, s')"
    and "flash_request_valid (s_size s) cmd addr len" and "cmd = ESP_SHM_FLASH_PROGRAM \<Longrightarrow> unat len \<le> length buf"
  shows "(\<forall>c' cmd' addr' buf' len'. esp_shm_flash_cmd D c' cmd' addr' buf' len' s' = (Inl EBUSY, s')) \<and>
    fl_flash s' = fl_flash s \<and>
    fl_flash (snd (shm_flash_service D s')) =
      snd (if cmd = ESP_SHM_FLASH_PROGRAM
           then esp_flash_write D (take (unat len) buf) (s_base s + addr) (fl_flash s)
           else esp_flash_erase_region D (s_base s + addr) len (fl_flash s))"
proof -
  have cmd: "cmd \<noteq> 0"
    using valid_range(2) [OF assms(2)] by auto
  obtain e s2 where op: "flash_op D cmd addr len (mailbox cmd addr buf len s) = (e, s2)"
    by fastforce
  have sv: "shm_flash_service D (mailbox cmd addr buf len s) =
      (True, set_flash_word ESP_SHM_FLASH_CMD_OFF 0 (set_flash_word ESP_SHM_FLASH_STATUS_OFF e s2))"
    using service_valid [OF _ _ _ _ _ op] mailbox_words [of cmd addr buf len s] cmd assms(2) by auto
  have s': "s' = mailbox cmd addr buf len s"
    using assms(1) cmd sv by (auto simp: cmd_eq Let_def split: if_splits)
  have "fl_flash s2 = snd (if cmd = ESP_SHM_FLASH_PROGRAM
      then esp_flash_write D (take (unat len) buf) (s_base s + addr) (fl_flash s)
      else esp_flash_erase_region D (s_base s + addr) len (fl_flash s))"
    using op mailbox_data [OF assms(3), of addr s]
    by (auto simp: flash_op_def Let_def split: prod.splits if_splits)
  moreover have "esp_shm_flash_cmd D c' cmd' addr' buf' len' s' = (Inl EBUSY, s')" for c' cmd' addr' buf' len'
    unfolding s' using cmd by (simp add: cmd_eq mailbox_words)
  ultimately show ?thesis
    by (simp add: s' sv)
qed

theorem timeout_keeps_mailbox_witness:
  "fl_flash (snd (shm_flash_service demo_nor (mailbox 3 0 [] 0x10000 demo_flash))) 0x10005 = 0xff"
proof -
  have "esp_shm_flash_cmd demo_nor False 3 0 [] 0x10000 demo_flash = (Inl ETIMEDOUT, mailbox 3 0 [] 0x10000 demo_flash)"
    using demo_flash_ok(2) mailbox_words(1) [of 3 0 "[]" "0x10000" demo_flash] by (simp add: cmd_eq)
  moreover have "flash_request_valid (s_size demo_flash) 3 0 0x10000"
    by (simp add: flash_request_valid_def demo_flash_def)
  ultimately have "fl_flash (snd (shm_flash_service demo_nor (mailbox 3 0 [] 0x10000 demo_flash))) =
      snd (esp_flash_erase_region demo_nor (s_base demo_flash + 0) 0x10000 (fl_flash demo_flash))"
    using timeout_keeps_mailbox [of demo_nor False 3 0 "[]" "0x10000" demo_flash] by simp
  then show ?thesis
    by (simp add: demo_nor_def demo_flash_def)
qed

end
