(* ===== verification/Ble_Api.thy ===== *)
theory Ble_Api
  imports Prelude
begin

text \<open>
  \<open>tools/ble-ha/api.c\<close>: the messages of the ESPHome native API.  A writer gives
  the bytes it appends; C strings are byte lists without the final zero.
  The lemmas show that the reader inverts the writer on every frame, takes no
  strict prefix of a frame for a frame, and never reads beyond its input, and
  give the sizes that the callers' buffers rely on.
\<close>

section \<open>Protobuf\<close>

function pb_varint :: "u64 \<Rightarrow> bytes" where
  "pb_varint v =
     (let b = ucast (v AND 0x7f) OR (if v > 0x7f then 0x80 else 0);
          v' = drop_bit 7 v
      in if v' = 0 then [b] else b # pb_varint v')"
  by pat_completeness auto
termination
proof (relation "measure unat", goal_cases)
  case (2 v b v')
  have "unat v' = unat v div 128"
    using 2 by (simp add: drop_bit_eq_div unat_div)
  moreover have "unat v' \<noteq> 0"
    using 2 by (simp add: unat_eq_0)
  ultimately show ?case
    by simp
qed simp

declare pb_varint.simps [simp del]

definition pb_key :: "nat \<Rightarrow> nat \<Rightarrow> bytes" where
  "pb_key field wire = pb_varint (push_bit 3 (of_nat field) OR of_nat wire)"

definition pb_uint :: "nat \<Rightarrow> u64 \<Rightarrow> bytes" where
  "pb_uint field v = (if v = 0 then [] else pb_key field 0 @ pb_varint v)"

definition pb_bytes :: "nat \<Rightarrow> bytes \<Rightarrow> bytes" where
  "pb_bytes field data =
     (if data = [] then [] else pb_key field 2 @ pb_varint (of_nat (length data)) @ data)"

definition pb_str :: "nat \<Rightarrow> bytes option \<Rightarrow> bytes" where
  "pb_str field s = (case s of None \<Rightarrow> [] | Some s \<Rightarrow> pb_bytes field s)"

definition c_str :: "string \<Rightarrow> bytes" where
  "c_str s = map of_char s"

section \<open>Messages\<close>

definition api_frame :: "u32 \<Rightarrow> bytes \<Rightarrow> bytes" where
  "api_frame ty msg = 0 # pb_varint (of_nat (length msg)) @ pb_varint (ucast ty) @ msg"

record api_info =
  info_name :: bytes
  info_mac :: bytes
  info_bt_mac :: bytes
  info_model :: bytes

definition api_hello :: "api_info \<Rightarrow> bytes" where
  "api_hello info = pb_uint 1 1 @ pb_uint 2 10 @ pb_str 3 (Some (c_str ''ble-ha (ESP32-S31 Linux)'')) @
     pb_str 4 (Some (info_name info))"

definition api_device_info :: "api_info \<Rightarrow> bytes" where
  "api_device_info info =
     pb_str 2 (Some (info_name info)) @ pb_str 3 (Some (info_mac info)) @
     pb_str 4 (Some (c_str ''2026.10.0'')) @ pb_str 6 (Some (info_model info)) @
     pb_str 8 (Some (c_str ''esp32-s31-linux.ble-ha'')) @ pb_str 9 (Some (c_str ''1'')) @
     pb_str 12 (Some (c_str ''Espressif'')) @ pb_str 13 (Some (info_name info)) @
     pb_uint 15 (push_bit 0 1 OR push_bit 5 1) @ pb_str 18 (Some (info_bt_mac info))"

text \<open>\<open>adv_data\<close> is the first \<open>len\<close> bytes of the array, so \<open>len\<close> is its length.\<close>

record adv =
  adv_addr :: u64
  adv_addr_type :: u8
  adv_rssi :: u8
  adv_data :: bytes

definition zigzag :: "u8 \<Rightarrow> u32" where
  "zigzag rssi = push_bit 1 (scast rssi) XOR (if bit rssi 7 then - 1 else 0)"

definition adv_entry :: "adv \<Rightarrow> bytes" where
  "adv_entry a =
     (let sub = pb_uint 1 (adv_addr a) @ pb_uint 2 (ucast (zigzag (adv_rssi a))) @
                pb_uint 3 (ucast (adv_addr_type a)) @ pb_bytes 4 (adv_data a)
      in pb_key 1 2 @ pb_varint (of_nat (length sub)) @ sub)"

definition api_adv_batch :: "adv list \<Rightarrow> bytes" where
  "api_adv_batch ads = concat (map adv_entry ads)"

section \<open>The reader\<close>

datatype varint_result = V_incomplete | V_bad | V_ok u32 nat

function read_varint_loop :: "bytes \<Rightarrow> nat \<Rightarrow> nat \<Rightarrow> u32 \<Rightarrow> varint_result" where
  "read_varint_loop p pos shift v =
     (if shift < 35 then
        if pos \<ge> length p then V_incomplete
        else let v = v OR push_bit shift (ucast (p ! pos AND 0x7f))
             in if p ! pos AND 0x80 = 0 then V_ok v (pos + 1)
                else read_varint_loop p (pos + 1) (shift + 7) v
      else V_bad)"
  by pat_completeness auto
termination
  by (relation "measure (\<lambda>(p, pos, shift, v). 35 - shift)") auto

declare read_varint_loop.simps [simp del]

definition read_varint :: "bytes \<Rightarrow> nat \<Rightarrow> varint_result" where
  "read_varint p pos = read_varint_loop p pos 0 0"

datatype api_result = Api_incomplete | Api_bad | Api_frame nat u32 bytes

definition api_next :: "bytes \<Rightarrow> api_result" where
  "api_next buf =
     (if buf = [] then Api_incomplete
      else if buf ! 0 \<noteq> 0 then Api_bad
      else case read_varint buf 1 of
             V_incomplete \<Rightarrow> Api_incomplete
           | V_bad \<Rightarrow> Api_bad
           | V_ok n pos \<Rightarrow>
               (case read_varint buf pos of
                  V_incomplete \<Rightarrow> Api_incomplete
                | V_bad \<Rightarrow> Api_bad
                | V_ok ty pos \<Rightarrow>
                    if n > 4096 then Api_bad
                    else if pos + unat n > length buf then Api_incomplete
                    else Api_frame (pos + unat n) ty (take (unat n) (drop pos buf))))"

section \<open>Varints\<close>

definition varint_byte :: "u64 \<Rightarrow> u8" where
  "varint_byte v = ucast (v AND 0x7f) OR (if v > 0x7f then 0x80 else 0)"

lemma mask7: "(0x7f :: 'a::len word) = mask 7"
  by (simp add: mask_eq_decr_exp)

lemma bit_0x80: "bit (0x80 :: int) n \<longleftrightarrow> n = 7"
proof -
  have "bit (2 ^ 7 :: int) n \<longleftrightarrow> n = 7"
    unfolding bit_exp_iff by auto
  then show ?thesis
    by simp
qed

lemma varint_byte_low:
  "ucast (varint_byte v AND 0x7f) = (ucast (take_bit 7 v) :: u32)"
  unfolding varint_byte_def mask7 by (rule bit_word_eqI) (auto simp: bit_simps bit_0x80)

lemma varint_byte_more: "varint_byte v AND 0x80 = 0 \<longleftrightarrow> drop_bit 7 v = 0"
proof -
  have "drop_bit 7 v = 0 \<longleftrightarrow> \<not> v > 0x7f"
    by (simp add: drop_bit_eq_div word_unat_eq_iff unat_div word_less_nat_alt div_eq_0_iff not_less less_Suc_eq_le)
      linarith
  moreover have "(ucast (v AND 0x7f) :: u8) AND 0x80 = 0"
    unfolding mask7 by (rule bit_word_eqI) (auto simp: bit_simps bit_0x80)
  moreover have "(x OR 0x80) AND 0x80 \<noteq> 0" for x :: u8
  proof -
    have "bit ((x OR 0x80) AND 0x80) 7"
      by (simp add: bit_simps bit_0x80)
    then show ?thesis
      by (metis bit_0_eq bot_apply bot_bool_def)
  qed
  ultimately show ?thesis
    by (auto simp: varint_byte_def)
qed

lemma pb_varint_step:
  "pb_varint v = (if drop_bit 7 v = 0 then [varint_byte v] else varint_byte v # pb_varint (drop_bit 7 v))"
  by (subst pb_varint.simps) (simp add: varint_byte_def Let_def)

lemma pb_varint_nonempty [simp]: "pb_varint v \<noteq> []" "0 < length (pb_varint v)"
  by (subst pb_varint_step, simp)+

lemma varint_acc:
  "(acc OR push_bit sh (ucast (take_bit 7 v))) OR push_bit (sh + 7) (ucast (drop_bit 7 v)) =
   (acc :: u32) OR push_bit sh (ucast (v :: u64))"
proof (rule bit_word_eqI, goal_cases)
  case (1 n)
  consider "n < sh" | "sh \<le> n" "n - sh < 7" | "sh + 7 \<le> n"
    by linarith
  then show ?case
  proof cases
    case 3
    then have "7 + (n - (sh + 7)) = n - sh" "sh \<le> n" "\<not> n - sh < 7"
      by simp_all
    then show ?thesis
      using 1 3 by (auto simp: bit_simps)
  qed (use 1 in \<open>auto simp: bit_simps\<close>)
qed

lemma varint_small:
  fixes v :: u64
  assumes "drop_bit 7 v \<noteq> 0" and "unat v < 2 ^ (32 - sh)"
  shows "sh + 7 < 32" and "unat (drop_bit 7 v) < 2 ^ (32 - (sh + 7))"
proof -
  have d: "unat (drop_bit 7 v) = unat v div 128"
    by (simp add: drop_bit_eq_div unat_div)
  have "unat (drop_bit 7 v) \<noteq> 0"
    using assms(1) by (simp only: unat_eq_0 not_False_eq_True)
  then have "128 \<le> unat v"
    using d by (metis div_less not_le)
  then have "(2::nat) ^ 7 < 2 ^ (32 - sh)"
    using assms(2) by simp
  then show sh: "sh + 7 < 32"
    using power_less_imp_less_exp [of "2::nat" 7 "32 - sh"] by simp
  have "32 - sh = 7 + (32 - (sh + 7))"
    using sh by simp
  then have "(2::nat) ^ (32 - sh) = 2 ^ 7 * 2 ^ (32 - (sh + 7))"
    by (metis power_add)
  then show "unat (drop_bit 7 v) < 2 ^ (32 - (sh + 7))"
    using d assms(2) by (simp add: less_mult_imp_div_less mult.commute)
qed

lemma read_varint_ok:
  assumes "unat v < 2 ^ (32 - sh)" and "sh < 32"
  shows "read_varint_loop (pre @ pb_varint v @ post) (length pre) sh acc =
    V_ok (acc OR push_bit sh (ucast v)) (length pre + length (pb_varint v))"
  using assms
proof (induction v arbitrary: pre sh acc rule: pb_varint.induct)
  case (1 v)
  have nth: "(pre @ pb_varint v @ post) ! length pre = varint_byte v"
    by (subst pb_varint_step) (simp add: nth_append)
  have lt: "\<not> length (pre @ pb_varint v @ post) \<le> length pre"
    by simp
  show ?case
  proof (cases "drop_bit 7 v = 0")
    case True
    have "take_bit 7 v = v"
      using bits_ident [of 7 v] True by simp
    then show ?thesis
      using 1(3) True lt nth
      by (subst read_varint_loop.simps) (simp add: Let_def varint_byte_low varint_byte_more, subst pb_varint_step, simp)
  next
    case False
    note sm = varint_small [OF False 1(2)]
    have "read_varint_loop (pre @ pb_varint v @ post) (length pre + 1) (sh + 7)
        (acc OR push_bit sh (ucast (take_bit 7 v))) =
      read_varint_loop ((pre @ [varint_byte v]) @ pb_varint (drop_bit 7 v) @ post)
        (length (pre @ [varint_byte v])) (sh + 7) (acc OR push_bit sh (ucast (take_bit 7 v)))"
      using False by (subst pb_varint_step) simp
    also have "\<dots> = V_ok (acc OR push_bit sh (ucast v)) (length pre + length (pb_varint v))"
      using 1(1) [OF refl refl False sm(2,1), of "pre @ [varint_byte v]"] False
      by (subst (2) pb_varint_step) (simp add: varint_acc)
    finally show ?thesis
      using 1(3) False lt nth
      by (subst read_varint_loop.simps) (simp add: Let_def varint_byte_low varint_byte_more)
  qed
qed

lemma read_varint_prefix:
  assumes "unat v < 2 ^ (32 - sh)" and "sh < 32" and "j < length (pb_varint v)"
  shows "read_varint_loop (pre @ take j (pb_varint v)) (length pre) sh acc = V_incomplete"
  using assms
proof (induction v arbitrary: pre sh acc j rule: pb_varint.induct)
  case (1 v)
  show ?case
  proof (cases j)
    case 0
    then show ?thesis
      using 1(3) by (subst read_varint_loop.simps) simp
  next
    case (Suc i)
    then have d: "drop_bit 7 v \<noteq> 0" and i: "i < length (pb_varint (drop_bit 7 v))"
      using 1(4) by (subst (asm) pb_varint_step; simp split: if_splits)+
    have tk: "take j (pb_varint v) = varint_byte v # take i (pb_varint (drop_bit 7 v))"
      using d Suc by (subst pb_varint_step) simp
    note sm = varint_small [OF d 1(2)]
    have "read_varint_loop ((pre @ [varint_byte v]) @ take i (pb_varint (drop_bit 7 v)))
        (length (pre @ [varint_byte v])) (sh + 7) (acc OR push_bit sh (ucast (take_bit 7 v))) = V_incomplete"
      using 1(1) [OF refl refl d sm(2,1) i] by blast
    then show ?thesis
      using 1(3) d unfolding tk
      by (subst read_varint_loop.simps) (simp add: Let_def nth_append varint_byte_low varint_byte_more)
  qed
qed

lemma read_varint_append:
  assumes "unat v < 2 ^ 32"
  shows "read_varint (pre @ pb_varint v @ post) (length pre) = V_ok (ucast v) (length pre + length (pb_varint v))"
  using read_varint_ok [of v 0 pre post 0] assms by (simp add: read_varint_def)

lemma read_varint_cut:
  assumes "unat v < 2 ^ 32" and "j < length (pb_varint v)"
  shows "read_varint (pre @ take j (pb_varint v)) (length pre) = V_incomplete"
  using read_varint_prefix [of v 0 j pre 0] assms by (simp add: read_varint_def)

lemma length_pb_varint: "unat v < 128 ^ n \<Longrightarrow> 0 < n \<Longrightarrow> length (pb_varint v) \<le> n"
proof (induction n arbitrary: v)
  case (Suc n)
  show ?case
  proof (cases "drop_bit 7 v = 0")
    case True
    then show ?thesis
      by (subst pb_varint_step) simp
  next
    case False
    have d: "unat (drop_bit 7 v) = unat v div 128"
      by (simp add: drop_bit_eq_div unat_div)
    moreover have "unat (drop_bit 7 v) \<noteq> 0"
      using False by (simp only: unat_eq_0 not_False_eq_True)
    ultimately have "0 < n"
      using Suc.prems by (cases n) auto
    moreover have "unat (drop_bit 7 v) < 128 ^ n"
      using Suc.prems d by (simp add: less_mult_imp_div_less mult.commute)
    ultimately have "length (pb_varint (drop_bit 7 v)) \<le> n"
      using Suc.IH by blast
    then show ?thesis
      using False by (subst pb_varint_step) simp
  qed
qed simp

lemma read_varint_loop_pos:
  "read_varint_loop p pos sh v = V_ok n pos' \<Longrightarrow> pos < pos' \<and> pos' \<le> length p"
proof (induction p pos sh v rule: read_varint_loop.induct)
  case (1 p pos sh v)
  then show ?case
    by (subst (asm) (2) read_varint_loop.simps) (auto simp: Let_def split: if_splits)
qed

lemma read_varint_pos: "read_varint p pos = V_ok n pos' \<Longrightarrow> pos < pos' \<and> pos' \<le> length p"
  by (auto simp: read_varint_def dest: read_varint_loop_pos)

section \<open>Frames\<close>

lemma length_word64: "n \<le> 4096 \<Longrightarrow> unat (of_nat n :: u64) = n"
  by (simp add: unat_of_nat)

lemma ucast_length: "n \<le> 4096 \<Longrightarrow> ucast (of_nat n :: u64) = (of_nat n :: u32)"
  by (simp add: word_unat_eq_iff unsigned_ucast_eq unat_of_nat take_bit_nat_eq_self)

lemma ucast_type: "ucast (ucast (ty :: u32) :: u64) = ty"
  by (rule bit_word_eqI) (simp add: bit_simps)

lemma next_frame:
  assumes "length msg \<le> 4096"
  shows "api_next (api_frame ty msg @ rest) = Api_frame (length (api_frame ty msg)) ty msg"
proof -
  define A where "A = pb_varint (of_nat (length msg))"
  define B where "B = pb_varint (ucast ty)"
  have n: "unat (of_nat (length msg) :: u64) < 2 ^ 32" "unat (ucast ty :: u64) < 2 ^ 32"
    using assms unsigned_less [of ty, where ?'a = nat] by (simp_all add: length_word64 unat_ucast_up)
  have buf: "api_frame ty msg @ rest = 0 # A @ B @ msg @ rest"
    by (simp add: api_frame_def A_def B_def)
  have r1: "read_varint (0 # A @ B @ msg @ rest) (Suc 0) = V_ok (of_nat (length msg)) (Suc (length A))"
    using read_varint_append [OF n(1), of "[0]" "B @ msg @ rest"] assms by (simp add: A_def ucast_length)
  have r2: "read_varint (0 # A @ B @ msg @ rest) (Suc (length A)) = V_ok ty (Suc (length A + length B))"
    using read_varint_append [OF n(2), of "0 # A" "msg @ rest"] by (simp add: B_def ucast_type)
  have u: "unat (of_nat (length msg) :: u32) = length msg" "\<not> (of_nat (length msg) :: u32) > 4096"
    using assms by (simp_all add: unat_of_nat word_less_nat_alt)
  show ?thesis
    unfolding buf api_next_def using u
    by (simp add: r1 r2) (simp add: api_frame_def A_def B_def)
qed

lemma next_prefix:
  assumes "length msg \<le> 4096" and "j < length (api_frame ty msg)"
  shows "api_next (take j (api_frame ty msg)) = Api_incomplete"
proof -
  define A where "A = pb_varint (of_nat (length msg))"
  define B where "B = pb_varint (ucast ty)"
  have n: "unat (of_nat (length msg) :: u64) < 2 ^ 32" "unat (ucast ty :: u64) < 2 ^ 32"
    using assms unsigned_less [of ty, where ?'a = nat] by (simp_all add: length_word64 unat_ucast_up)
  have fr: "api_frame ty msg = 0 # A @ B @ msg"
    by (simp add: api_frame_def A_def B_def)
  have u: "unat (of_nat (length msg) :: u32) = length msg" "\<not> (of_nat (length msg) :: u32) > 4096"
    using assms by (simp_all add: unat_of_nat word_less_nat_alt)
  consider "j = 0" | i where "j = Suc i" "i < length A"
    | i where "j = Suc (length A + i)" "i < length B"
    | i where "j = Suc (length A + length B + i)" "i < length msg"
    using assms(2) unfolding fr by (cases j) (auto, metis le_Suc_ex not_less add_less_cancel_left)
  then show ?thesis
  proof cases
    case 1
    then show ?thesis
      by (simp add: api_next_def)
  next
    case 2
    have "read_varint (0 # take i A) 1 = V_incomplete"
      using read_varint_cut [OF n(1), of i "[0]"] 2(2) by (simp add: A_def)
    then show ?thesis
      using 2 by (simp add: fr api_next_def)
  next
    case 3
    have "read_varint (0 # A @ take i B) 1 = V_ok (of_nat (length msg)) (1 + length A)"
      using read_varint_append [OF n(1), of "[0]" "take i B"] assms(1) by (simp add: A_def ucast_length)
    moreover have "read_varint (0 # A @ take i B) (1 + length A) = V_incomplete"
      using read_varint_cut [OF n(2), of i "0 # A"] 3(2) by (simp add: B_def)
    ultimately show ?thesis
      using 3 by (simp add: fr api_next_def)
  next
    case 4
    have "read_varint (0 # A @ B @ take i msg) 1 = V_ok (of_nat (length msg)) (1 + length A)"
      using read_varint_append [OF n(1), of "[0]" "B @ take i msg"] assms(1) by (simp add: A_def ucast_length)
    moreover have "read_varint (0 # A @ B @ take i msg) (1 + length A) = V_ok ty (1 + length A + length B)"
      using read_varint_append [OF n(2), of "0 # A" "take i msg"] by (simp add: B_def ucast_type)
    ultimately show ?thesis
      using 4 u by (simp add: fr api_next_def)
  qed
qed

lemma next_bounds:
  assumes "api_next buf = Api_frame used ty msg"
  shows "3 \<le> used" and "used \<le> length buf" and "length msg \<le> 4096"
    and "drop (used - length msg) (take used buf) = msg"
proof -
  obtain n p1 p2 where r: "read_varint buf 1 = V_ok n p1" "read_varint buf p1 = V_ok ty p2"
    "\<not> n > 4096" "p2 + unat n \<le> length buf" "used = p2 + unat n" "msg = take (unat n) (drop p2 buf)"
    using assms by (auto simp: api_next_def split: if_splits varint_result.splits)
  have "1 < p1" "p1 < p2" "unat n \<le> 4096"
    using read_varint_pos [OF r(1)] read_varint_pos [OF r(2)] r(3)
    by (simp_all add: word_less_nat_alt not_less)
  then show "3 \<le> used" "used \<le> length buf" "length msg \<le> 4096"
    "drop (used - length msg) (take used buf) = msg"
    using r by (auto simp: drop_take)
qed

section \<open>Sizes\<close>

lemma pb_key_small: "field < 16 \<Longrightarrow> wire < 8 \<Longrightarrow> length (pb_key field wire) = 1"
proof -
  assume a: "field < 16" "wire < 8"
  have "unat (push_bit 3 (of_nat field) OR of_nat wire :: u64) < 2 ^ 7"
  proof -
    have "push_bit 3 (of_nat field) OR of_nat wire = (take_bit 7 (push_bit 3 (of_nat field) OR of_nat wire) :: u64)"
    proof (rule bit_word_eqI, goal_cases)
      case (1 n)
      have "\<not> bit field i" if "4 \<le> i" for i
        using a(1) that bit_take_bit_iff [of 4 field i] by (simp add: take_bit_nat_eq_self)
      moreover have "\<not> bit wire i" if "3 \<le> i" for i
        using a(2) that bit_take_bit_iff [of 3 wire i] by (simp add: take_bit_nat_eq_self)
      ultimately show ?case
        by (auto simp: bit_simps)
    qed
    then show ?thesis
      by (metis take_bit_nat_less_exp unsigned_take_bit_eq)
  qed
  then have "length (pb_key field wire) \<le> 1"
    using length_pb_varint [of _ 1] by (simp add: pb_key_def)
  moreover have "0 < length (pb_key field wire)"
    unfolding pb_key_def by (rule pb_varint_nonempty(2))
  ultimately show ?thesis
    by linarith
qed

lemma length_pb_uint:
  assumes "field < 16" and "unat v < 128 ^ n" and "0 < n"
  shows "length (pb_uint field v) \<le> n + 1"
  using pb_key_small [OF assms(1), of 0] length_pb_varint [OF assms(2,3)] by (simp add: pb_uint_def)

lemma length_pb_bytes:
  assumes "field < 16" and "length d < 128"
  shows "length (pb_bytes field d) \<le> length d + 2"
proof -
  have "unat (of_nat (length d) :: u64) < 128 ^ 1"
    using assms by (simp add: unat_of_nat)
  then show ?thesis
    using pb_key_small [OF assms(1), of 2] length_pb_varint [of "of_nat (length d)" 1] by (simp add: pb_bytes_def)
qed

text \<open>The zigzag code of the RSSI: what \<open>sint32\<close> of protobuf prescribes.\<close>

lemma zigzag_of_int:
  "zigzag r = word_of_int (if 0 \<le> sint r then 2 * sint r else - 2 * sint r - 1)"
proof -
  have sc: "(scast r :: u32) = word_of_int (sint r)"
    by simp
  have neg: "bit r 7 \<longleftrightarrow> sint r < 0"
    using bit_last_iff [of r] by simp
  have p: "push_bit 1 (scast r :: u32) = word_of_int (2 * sint r)"
    by (simp only: sc push_bit_eq_mult power_one_right of_int_mult of_int_numeral mult.commute)
  have "x XOR - 1 = - x - 1" for x :: u32
    by (simp add: not_eq_complement minus_diff_commute)
  then show ?thesis
    using neg unfolding zigzag_def p by (auto simp: not_less)
qed

lemma zigzag_spec:
  "int (unat (zigzag r)) = (if 0 \<le> sint r then 2 * sint r else - 2 * sint r - 1)"
proof -
  define k where "k = (if 0 \<le> sint r then 2 * sint r else - 2 * sint r - 1)"
  have "- 128 \<le> sint r" "sint r < 128"
    using sint_ge [of r] sint_lt [of r] by simp_all
  then have k: "0 \<le> k" "k < 256"
    by (auto simp: k_def)
  have "int (unat (word_of_int k :: u32)) = k"
    using k by (simp add: uint_word_of_int)
  then show ?thesis
    by (simp add: zigzag_of_int k_def)
qed

lemma adv_entry_size:
  assumes "unat (adv_addr a) < 2 ^ 48" and "length (adv_data a) \<le> 31"
  shows "length (adv_entry a) \<le> (if adv_addr_type a < 0x80 then 48 else 49)"
proof -
  define t :: nat where "t = (if adv_addr_type a < 0x80 then 1 else 2)"
  have "int (unat (zigzag (adv_rssi a))) < 256"
    unfolding zigzag_spec using sint_ge [of "adv_rssi a"] sint_lt [of "adv_rssi a"] by auto
  then have "unat (zigzag (adv_rssi a)) < 256"
    by linarith
  then have z: "unat (ucast (zigzag (adv_rssi a)) :: u64) < 128 ^ 2"
    by (simp add: unat_ucast_up)
  have ty: "unat (ucast (adv_addr_type a) :: u64) < 128 ^ t"
    using unsigned_less [of "adv_addr_type a", where ?'a = nat]
    by (simp add: unat_ucast_up t_def word_less_nat_alt)
  define sub where "sub = pb_uint 1 (adv_addr a) @ pb_uint 2 (ucast (zigzag (adv_rssi a))) @
                pb_uint 3 (ucast (adv_addr_type a)) @ pb_bytes 4 (adv_data a)"
  have "length (pb_uint 1 (adv_addr a)) \<le> 8" "length (pb_uint 2 (ucast (zigzag (adv_rssi a)))) \<le> 3"
    "length (pb_uint 3 (ucast (adv_addr_type a))) \<le> t + 1" "length (pb_bytes 4 (adv_data a)) \<le> 33"
    using length_pb_uint [of 1 "adv_addr a" 7] length_pb_uint [OF _ z, of 2] length_pb_uint [OF _ ty, of 3]
      length_pb_bytes [of 4 "adv_data a"] assms by (simp_all add: t_def split: if_splits)
  then have sub: "length sub \<le> 45 + t"
    by (simp add: sub_def)
  then have "unat (of_nat (length sub) :: u64) < 128 ^ 1"
    by (simp add: unat_of_nat t_def split: if_splits)
  then have "length (pb_varint (of_nat (length sub))) \<le> 1"
    by (rule length_pb_varint) simp
  moreover have "adv_entry a = pb_key 1 2 @ pb_varint (of_nat (length sub)) @ sub"
    by (simp only: adv_entry_def Let_def sub_def)
  ultimately show ?thesis
    using sub pb_key_small [of 1 2] by (simp add: t_def split: if_splits)
qed

lemma adv_batch_size:
  assumes "\<And>a. a \<in> set ads \<Longrightarrow> length (adv_entry a) \<le> k"
  shows "length (api_adv_batch ads) \<le> k * length ads"
  using assms
proof (induction ads)
  case (Cons a ads)
  then have "length (adv_entry a) \<le> k" "length (api_adv_batch ads) \<le> k * length ads"
    by simp_all
  then show ?case
    by (simp add: api_adv_batch_def)
qed (simp add: api_adv_batch_def)

section \<open>Properties\<close>

text \<open>The bound of 48 needs the address type: with \<open>0x80\<close> and more, an entry of 49
  bytes exists, and sixteen of them exceed the 768 bytes of \<open>flush_batch\<close>.\<close>

lemma adv_batch_overflow:
  "length (api_adv_batch (replicate 16
     \<lparr>adv_addr = 0xffffffffffff, adv_addr_type = 0x80, adv_rssi = 0x80, adv_data = replicate 31 0\<rparr>)) = 784"
proof -
  have "length (adv_entry \<lparr>adv_addr = 0xffffffffffff, adv_addr_type = 0x80, adv_rssi = 0x80,
      adv_data = replicate 31 0\<rparr>) = 49"
    by code_simp
  then show ?thesis
    by (simp add: api_adv_batch_def length_concat sum_list_replicate)
qed

text \<open>C13: framing of the native API.  The reader finds in front of any further
  bytes exactly the frame that \<open>api_frame\<close> wrote (its length, type and message),
  and reports every strict prefix of a frame as incomplete.\<close>

theorem api_frame_roundtrip:
  assumes "length msg \<le> 4096"
  shows "api_next (api_frame ty msg @ rest) = Api_frame (length (api_frame ty msg)) ty msg \<and>
    (\<forall>j < length (api_frame ty msg). api_next (take j (api_frame ty msg)) = Api_incomplete)"
  using next_frame [OF assms] next_prefix [OF assms] by blast

theorem api_frame_roundtrip_witness:
  "api_next (api_frame 93 [1, 2, 3] @ [0]) = Api_frame (length (api_frame 93 [1, 2, 3])) 93 [1, 2, 3]"
  using api_frame_roundtrip [of "[1, 2, 3]" 93 "[0]"] by simp

text \<open>The size of an advertisement batch.  With addresses of 48 bits, data of
  at most 31 bytes and address types below \<open>0x80\<close> (every one the Bluetooth
  specification defines), a batch of n advertisements takes at most 48 n bytes,
  the room the proxy gives it; with any address type, at most 49 n.\<close>

theorem adv_batch_bound:
  assumes "\<forall>a \<in> set ads. unat (adv_addr a) < 2 ^ 48 \<and> length (adv_data a) \<le> 31"
  shows "length (api_adv_batch ads) \<le> 49 * length ads \<and>
    ((\<forall>a \<in> set ads. adv_addr_type a < 0x80) \<longrightarrow> length (api_adv_batch ads) \<le> 48 * length ads)"
proof -
  have e: "length (adv_entry a) \<le> (if adv_addr_type a < 0x80 then 48 else 49)" if "a \<in> set ads" for a
    using adv_entry_size [of a] assms that by blast
  have "length (adv_entry a) \<le> 49" if "a \<in> set ads" for a
    using e [OF that] by (simp split: if_splits)
  then have "length (api_adv_batch ads) \<le> 49 * length ads"
    by (rule adv_batch_size)
  moreover have "length (api_adv_batch ads) \<le> 48 * length ads" if "\<forall>a \<in> set ads. adv_addr_type a < 0x80"
    by (rule adv_batch_size) (use e that in auto)
  ultimately show ?thesis
    by blast
qed

theorem adv_batch_bound_witness:
  "length (api_adv_batch [\<lparr>adv_addr = 0x123456789abc, adv_addr_type = 1, adv_rssi = 0xc0, adv_data = [1, 2]\<rparr>]) \<le> 48"
  using adv_batch_bound [of "[\<lparr>adv_addr = 0x123456789abc, adv_addr_type = 1, adv_rssi = 0xc0, adv_data = [1, 2]\<rparr>]"]
  by simp

end
