(* ===== verification/Ble_Hci.thy ===== *)
theory Ble_Hci
  imports Ble_Api
begin

text \<open>
  \<open>tools/ble-ha/hci.c\<close>: the HCI packets that ble-ha reads and writes.  The
  lemmas show that the parser of advertising reports stays inside the event,
  returns at most the entries that fit, and inverts the controller's encoding.
\<close>

section \<open>Advertising reports\<close>

definition adv_addr_of :: "bytes \<Rightarrow> nat \<Rightarrow> u64" where
  "adv_addr_of ev pos = foldl (\<lambda>a b. push_bit 8 a OR ucast (ev ! (pos + 2 + b))) 0 [5, 4, 3, 2, 1, 0]"

fun adv_reports :: "bytes \<Rightarrow> nat \<Rightarrow> nat \<Rightarrow> adv list" where
  "adv_reports ev pos 0 = []"
| "adv_reports ev pos (Suc k) =
     (if pos + 9 > length ev \<or> ev ! (pos + 8) > 31 \<or> pos + 10 + unat (ev ! (pos + 8)) > length ev then []
      else let len = unat (ev ! (pos + 8))
           in \<lparr>adv_addr = adv_addr_of ev pos, adv_addr_type = ev ! (pos + 1),
               adv_rssi = ev ! (pos + 9 + len), adv_data = take len (drop (pos + 9) ev)\<rparr>
              # adv_reports ev (pos + (10 + len)) k)"

declare adv_reports.simps(2) [simp del]

definition hci_parse_adv_reports :: "bytes \<Rightarrow> nat \<Rightarrow> adv list" where
  "hci_parse_adv_reports ev limit =
     (if length ev < 4 \<or> ev ! 0 \<noteq> 0x3e \<or> ev ! 2 \<noteq> 0x02 then []
      else adv_reports ev 4 (min (unat (ev ! 3)) limit))"

section \<open>Packets to the controller\<close>

definition improv_uuid :: bytes where
  "improv_uuid = [0x00, 0x80, 0x26, 0x78, 0x74, 0x27, 0x63, 0x46,
                  0x72, 0x22, 0x28, 0x62, 0x68, 0x77, 0x46, 0x00]"

definition hci_improv_adv_data :: "u8 \<Rightarrow> u8 \<Rightarrow> bytes" where
  "hci_improv_adv_data state caps =
     [2, 0x01, 0x06] @ [17, 0x07] @ improv_uuid @ [9, 0x16, 0x77, 0x46] @ [state, caps] @ replicate 4 0"

definition hci_name_data :: "bytes \<Rightarrow> bytes" where
  "hci_name_data name =
     (let n = (if length name > 31 - 2 then 31 - 2 else length name)
      in [of_nat (n + 1), 0x09] @ take n name)"

definition hci_acl_frame :: "u16 \<Rightarrow> u16 \<Rightarrow> bytes \<Rightarrow> bytes" where
  "hci_acl_frame handle cid data =
     (let l2 = of_nat (length data + 4) :: u16; len = of_nat (length data) :: u16
      in [0x02, ucast handle, ucast (drop_bit 8 handle AND 0x0f),
          ucast l2, ucast (drop_bit 8 l2), ucast len, ucast (drop_bit 8 len),
          ucast cid, ucast (drop_bit 8 cid)] @ data)"

section \<open>The parser\<close>

lemma adv_reports_length: "length (adv_reports ev pos k) \<le> k"
  by (induction ev pos k rule: adv_reports.induct) (auto simp: adv_reports.simps(2) Let_def)

lemma byte_small:
  assumes "take_bit n a = a"
  shows "take_bit (n + 8) (push_bit 8 a OR ucast (b :: u8) :: u64) = push_bit 8 a OR ucast b"
proof (rule bit_word_eqI, goal_cases)
  case (1 i)
  have "bit a (i - 8) \<Longrightarrow> i < n + 8"
    using assms by (metis bit_take_bit_iff less_diff_conv2 not_less trans_less_add2)
  then show ?case
    by (auto simp: bit_simps dest: bit_imp_le_length)
qed

lemma adv_addr_small: "unat (adv_addr_of ev pos) < 2 ^ 48"
proof -
  have "take_bit 48 (adv_addr_of ev pos) = adv_addr_of ev pos"
    using byte_small [OF byte_small [OF byte_small [OF byte_small [OF byte_small [OF byte_small]]]], of 0 0]
    by (simp add: adv_addr_of_def)
  then show ?thesis
    by (metis take_bit_nat_less_exp unsigned_take_bit_eq)
qed

lemma adv_reports_ok:
  "a \<in> set (adv_reports ev pos k) \<Longrightarrow> unat (adv_addr a) < 2 ^ 48 \<and> length (adv_data a) \<le> 31"
proof (induction ev pos k rule: adv_reports.induct)
  case (2 ev pos k)
  then show ?case
    using adv_addr_small [of ev pos]
    by (auto simp: adv_reports.simps(2) Let_def word_less_nat_alt not_less split: if_splits)
qed simp

text \<open>One report as the controller writes it; \<open>ty\<close> is the event type, which the
  parser skips.\<close>

definition enc_report :: "u8 \<Rightarrow> adv \<Rightarrow> bytes" where
  "enc_report ty a = [ty, adv_addr_type a] @
     map (\<lambda>b. ucast (drop_bit (8 * b) (adv_addr a))) [0, 1, 2, 3, 4, 5] @
     [of_nat (length (adv_data a))] @ adv_data a @ [adv_rssi a]"

lemma length_enc_report: "length (enc_report ty a) = 10 + length (adv_data a)"
  by (simp add: enc_report_def)

lemma byte_step:
  "push_bit 8 (drop_bit (k + 8) x) OR ucast (ucast (drop_bit k x) :: u8) = drop_bit k (x :: u64)"
proof (rule bit_word_eqI, goal_cases)
  case (1 n)
  then show ?case
    by (cases "n < 8") (auto simp: bit_simps not_less ac_simps dest: bit_imp_le_length)
qed

lemma enc_report_addr:
  assumes "unat (adv_addr a) < 2 ^ 48"
  shows "adv_addr_of (pre @ enc_report ty a @ post) (length pre) = adv_addr a"
proof -
  have z: "drop_bit 48 (adv_addr a) = 0"
    using assms by (simp add: word_unat_eq_iff drop_bit_eq_div unat_div)
  have nth: "(pre @ enc_report ty a @ post) ! (length pre + 2 + b) =
      ucast (drop_bit (8 * b) (adv_addr a))" if "b \<in> {0, 1, 2, 3, 4, 5}" for b
    using that by (auto simp: enc_report_def nth_append)
  show ?thesis
    using byte_step [of 40 "adv_addr a"] byte_step [of 32 "adv_addr a"] byte_step [of 24 "adv_addr a"]
      byte_step [of 16 "adv_addr a"] byte_step [of 8 "adv_addr a"] byte_step [of 0 "adv_addr a"]
      nth [of 0] nth [of 1] nth [of 2] nth [of 3] nth [of 4] nth [of 5]
    by (simp add: adv_addr_of_def z add.assoc)
qed

lemma parse_enc_report:
  assumes "unat (adv_addr a) < 2 ^ 48" and "length (adv_data a) \<le> 31"
  shows "adv_reports (pre @ enc_report ty a @ post) (length pre) (Suc k) =
    a # adv_reports (pre @ enc_report ty a @ post) (length (pre @ enc_report ty a)) k"
proof -
  define ev where "ev = pre @ enc_report ty a @ post"
  have l: "ev ! (length pre + 8) = of_nat (length (adv_data a))"
    "ev ! Suc (length pre) = adv_addr_type a"
    "ev ! (length pre + 9 + length (adv_data a)) = adv_rssi a"
    "take (length (adv_data a)) (drop (length pre + 9) ev) = adv_data a"
    by (simp_all add: ev_def enc_report_def nth_append numeral_eq_Suc)
  have u: "unat (of_nat (length (adv_data a)) :: u8) = length (adv_data a)"
    using assms(2) by (simp add: unat_of_nat)
  have "length pre + 10 + length (adv_data a) \<le> length ev"
    by (simp add: ev_def length_enc_report)
  then show ?thesis
    using assms(2) l enc_report_addr [OF assms(1), of pre ty post]
    by (subst adv_reports.simps(2)) (simp add: Let_def word_less_nat_alt u length_enc_report add.assoc flip: ev_def)
qed

lemma parse_enc_reports:
  assumes "\<forall>(ty, a) \<in> set rs. unat (adv_addr a) < 2 ^ 48 \<and> length (adv_data a) \<le> 31"
  shows "adv_reports (pre @ concat (map (\<lambda>(ty, a). enc_report ty a) rs) @ post) (length pre) k =
    (if k \<le> length rs then take k (map snd rs) else
       map snd rs @ adv_reports (pre @ concat (map (\<lambda>(ty, a). enc_report ty a) rs) @ post)
         (length (pre @ concat (map (\<lambda>(ty, a). enc_report ty a) rs))) (k - length rs))"
  using assms
proof (induction rs arbitrary: pre k)
  case (Cons r rs)
  obtain ty a where r: "r = (ty, a)" by (cases r)
  show ?case
  proof (cases k)
    case (Suc j)
    have "adv_reports (pre @ enc_report ty a @ (concat (map (\<lambda>(ty, a). enc_report ty a) rs) @ post)) (length pre) (Suc j) =
      a # adv_reports ((pre @ enc_report ty a) @ concat (map (\<lambda>(ty, a). enc_report ty a) rs) @ post)
        (length (pre @ enc_report ty a)) j"
      using parse_enc_report [of a pre ty] Cons.prems r by simp
    then show ?thesis
      using Cons.IH [of "pre @ enc_report ty a" j] Cons.prems Suc r by simp
  qed simp
qed simp

section \<open>Properties\<close>

text \<open>C14: parsing of an LE Advertising Report event.  Whatever the bytes of the
  event, at most \<open>limit\<close> advertisements are returned, each with an address of 48
  bits and at most 31 bytes of data; and for an event that a controller built
  from a list of such advertisements, the result is that list, cut to \<open>limit\<close>.\<close>

theorem parse_adv_reports_spec:
  "length (hci_parse_adv_reports ev limit) \<le> limit \<and>
   list_all (\<lambda>a. unat (adv_addr a) < 2 ^ 48 \<and> length (adv_data a) \<le> 31) (hci_parse_adv_reports ev limit) \<and>
   (\<forall>plen rs. length rs < 256 \<and> (\<forall>(ty, a) \<in> set rs. unat (adv_addr a) < 2 ^ 48 \<and> length (adv_data a) \<le> 31) \<longrightarrow>
      hci_parse_adv_reports ([0x3e, plen, 0x02, of_nat (length rs)] @ concat (map (\<lambda>(ty, a). enc_report ty a) rs)) limit =
      take limit (map snd rs))"
proof (intro conjI allI impI)
  show "length (hci_parse_adv_reports ev limit) \<le> limit"
    using adv_reports_length [of ev 4 "min (unat (ev ! 3)) limit"]
    by (auto simp: hci_parse_adv_reports_def)
  show "list_all (\<lambda>a. unat (adv_addr a) < 2 ^ 48 \<and> length (adv_data a) \<le> 31) (hci_parse_adv_reports ev limit)"
    using adv_reports_ok by (auto simp: hci_parse_adv_reports_def list_all_iff)
  fix plen :: u8 and rs :: "(u8 \<times> adv) list"
  assume a: "length rs < 256 \<and> (\<forall>(ty, a) \<in> set rs. unat (adv_addr a) < 2 ^ 48 \<and> length (adv_data a) \<le> 31)"
  then have u: "unat (of_nat (length rs) :: u8) = length rs"
    by (simp add: unat_of_nat)
  define h :: bytes where "h = [0x3e, plen, 0x02, of_nat (length rs)]"
  have h: "length h = 4"
    by (simp add: h_def)
  have "adv_reports (h @ concat (map (\<lambda>(ty, a). enc_report ty a) rs)) 4 (min (length rs) limit) =
      take (min (length rs) limit) (map snd rs)"
    using parse_enc_reports [of rs h "[]" "min (length rs) limit"] a by (simp add: h)
  then show "hci_parse_adv_reports ([0x3e, plen, 0x02, of_nat (length rs)] @ concat (map (\<lambda>(ty, a). enc_report ty a) rs)) limit =
      take limit (map snd rs)"
    by (simp add: hci_parse_adv_reports_def u min_def take_all h_def)
qed

theorem parse_adv_reports_spec_witness:
  "hci_parse_adv_reports ([0x3e, 0, 0x02, 1] @
     enc_report 0 \<lparr>adv_addr = 0x123456789abc, adv_addr_type = 1, adv_rssi = 0xc0, adv_data = [1, 2]\<rparr>) 8 =
   [\<lparr>adv_addr = 0x123456789abc, adv_addr_type = 1, adv_rssi = 0xc0, adv_data = [1, 2]\<rparr>]"
proof -
  define rs :: "(u8 \<times> adv) list" where
    "rs = [(0, \<lparr>adv_addr = 0x123456789abc, adv_addr_type = 1, adv_rssi = 0xc0, adv_data = [1, 2]\<rparr>)]"
  have "length rs < 256 \<and> (\<forall>(ty, a) \<in> set rs. unat (adv_addr a) < 2 ^ 48 \<and> length (adv_data a) \<le> 31)"
    by (simp add: rs_def)
  from parse_adv_reports_spec [of "[]" 8, THEN conjunct2, THEN conjunct2, rule_format, OF this, of 0]
  show ?thesis
    by (simp add: rs_def)
qed

end
