(* ===== verification/Ble_Improv.thy ===== *)
theory Ble_Improv
  imports Prelude
begin

text \<open>
  \<open>tools/ble-ha/improv.c\<close>: the RPC packets of Improv Wi-Fi.  The parser returns
  the C result code with the command (0 complete, 1 incomplete, else an error).
  The lemmas show which packets are accepted, that an accepted Wi-Fi command is
  safe to hand on, and that a result fits its buffer and is well formed.
\<close>

section \<open>Parsing\<close>

abbreviation (input) IMPROV_ERR_INVALID :: u8 where "IMPROV_ERR_INVALID \<equiv> 0x01"
abbreviation (input) IMPROV_ERR_UNKNOWN :: u8 where "IMPROV_ERR_UNKNOWN \<equiv> 0x02"
abbreviation (input) IMPROV_CMD_WIFI :: u8 where "IMPROV_CMD_WIFI \<equiv> 0x01"
abbreviation (input) IMPROV_CMD_IDENTIFY :: u8 where "IMPROV_CMD_IDENTIFY \<equiv> 0x02"
abbreviation (input) IMPROV_CMD_INFO :: u8 where "IMPROV_CMD_INFO \<equiv> 0x03"

record improv_cmd =
  ic_cmd :: u8
  ic_ssid :: bytes
  ic_pass :: bytes

definition checksum :: "bytes \<Rightarrow> u8" where
  "checksum p = ucast (foldl (\<lambda>(acc :: u32) b. acc + ucast b) 0 p)"

definition valid_pass :: "bytes \<Rightarrow> bool" where
  "valid_pass p \<longleftrightarrow> \<not> (p \<noteq> [] \<and> (length p < 8 \<or> length p > 63)) \<and>
     list_all (\<lambda>b. \<not> (b < 0x20 \<or> b > 0x7e)) p"

definition parse_wifi :: "bytes \<Rightarrow> improv_cmd \<Rightarrow> u8 \<times> improv_cmd" where
  "parse_wifi d c =
     (if length d < 2 then (IMPROV_ERR_INVALID, c)
      else let sl = unat (d ! 0) in
        if sl = 0 \<or> sl > 32 \<or> 1 + sl + 1 > length d then (IMPROV_ERR_INVALID, c)
        else let pl = unat (d ! (1 + sl)) in
          if 2 + sl + pl \<noteq> length d \<or> \<not> valid_pass (take pl (drop (2 + sl) d)) \<or> 0 \<in> set (take sl (drop 1 d))
          then (IMPROV_ERR_INVALID, c)
          else (0, c\<lparr>ic_ssid := take sl (drop 1 d), ic_pass := take pl (drop (2 + sl) d)\<rparr>))"

definition improv_parse :: "bytes \<Rightarrow> improv_cmd \<Rightarrow> u8 \<times> improv_cmd" where
  "improv_parse buf c =
     (if length buf < 3 then (1, c)
      else let dl = unat (buf ! 1) in
        if length buf < dl + 3 then (1, c)
        else if length buf > dl + 3 \<or> checksum (take (dl + 2) buf) \<noteq> buf ! (dl + 2) then (IMPROV_ERR_INVALID, c)
        else let c = c\<lparr>ic_cmd := buf ! 0\<rparr> in
          if ic_cmd c = IMPROV_CMD_WIFI then parse_wifi (take dl (drop 2 buf)) c
          else if ic_cmd c = IMPROV_CMD_IDENTIFY \<or> ic_cmd c = IMPROV_CMD_INFO
               then (if dl \<noteq> 0 then IMPROV_ERR_INVALID else 0, c)
          else (IMPROV_ERR_UNKNOWN, c))"

section \<open>Results\<close>

fun result_body :: "nat \<Rightarrow> bytes list \<Rightarrow> bytes" where
  "result_body pos [] = []"
| "result_body pos (s # ss) =
     (if length s > 40 \<or> pos + 1 + length s > 60 then []
      else of_nat (length s) # s @ result_body (pos + 1 + length s) ss)"

definition improv_result :: "u8 \<Rightarrow> bytes list \<Rightarrow> bytes" where
  "improv_result cmd ss =
     (let body = result_body 2 ss; p = cmd # of_nat (length body) # body in p @ [checksum p])"

section \<open>Lemmas\<close>

text \<open>A packet: command, length, data, checksum.\<close>

definition packet :: "u8 \<Rightarrow> bytes \<Rightarrow> bytes" where
  "packet cmd d = (let p = cmd # of_nat (length d) # d in p @ [checksum p])"

lemma length_packet [simp]: "length (packet cmd d) = length d + 3"
  by (simp add: packet_def Let_def)

lemma packet_parts:
  assumes "length d < 256"
  shows "unat (packet cmd d ! 1) = length d" and "packet cmd d ! 0 = cmd"
    and "take (length d) (drop 2 (packet cmd d)) = d"
    and "packet cmd d ! (length d + 2) = checksum (take (length d + 2) (packet cmd d))"
  using assms by (simp_all add: packet_def Let_def unat_of_nat nth_append)

lemma parse_packet:
  assumes "length d < 256"
  shows "improv_parse (packet cmd d) c =
    (let c = c\<lparr>ic_cmd := cmd\<rparr> in
       if cmd = IMPROV_CMD_WIFI then parse_wifi d c
       else if cmd = IMPROV_CMD_IDENTIFY \<or> cmd = IMPROV_CMD_INFO
            then (if d \<noteq> [] then IMPROV_ERR_INVALID else 0, c)
       else (IMPROV_ERR_UNKNOWN, c))"
  unfolding improv_parse_def Let_def packet_parts [OF assms] length_packet by simp

text \<open>Every accepted buffer is a packet.\<close>

lemma parse_ok_packet:
  assumes "improv_parse buf c = (0, c')"
  shows "\<exists>d. length d < 256 \<and> buf = packet (ic_cmd c') d"
proof -
  define dl where "dl = unat (buf ! 1)"
  define d where "d = take dl (drop 2 buf)"
  have len: "length buf = dl + 3" and ck: "checksum (take (dl + 2) buf) = buf ! (dl + 2)"
    using assms by (auto simp: improv_parse_def Let_def dl_def split: if_splits)
  have dl: "dl < 256"
    using unsigned_less [of "buf ! 1", where ?'a = nat] by (simp add: dl_def)
  obtain a b rest where buf: "buf = a # b # rest"
    using len by (cases buf; cases "tl buf") auto
  have rest: "rest = d @ [buf ! (dl + 2)]"
    using len by (simp add: buf d_def take_Suc_conv_app_nth [of dl rest, symmetric])
  have "ic_cmd c' = a"
    using assms buf
    by (auto simp: improv_parse_def parse_wifi_def Let_def split: if_splits)
  moreover have b: "of_nat (length d) = b"
    using len by (simp add: d_def buf dl_def)
  moreover have "take (dl + 2) buf = a # b # d"
    using len by (simp add: buf d_def)
  then have "buf ! (dl + 2) = checksum (a # b # d)"
    using ck by simp
  then have "buf = a # b # d @ [checksum (a # b # d)]"
    using buf rest by metis
  ultimately have "buf = packet (ic_cmd c') d"
    by (simp only: packet_def Let_def append_Cons)
  moreover have "length d < 256"
    using dl by (simp add: d_def)
  ultimately show ?thesis
    by blast
qed

definition wifi_data :: "bytes \<Rightarrow> bytes \<Rightarrow> bytes" where
  "wifi_data ssid pass = of_nat (length ssid) # ssid @ of_nat (length pass) # pass"

definition valid_ssid :: "bytes \<Rightarrow> bool" where
  "valid_ssid s \<longleftrightarrow> s \<noteq> [] \<and> length s \<le> 32 \<and> 0 \<notin> set s"

lemma valid_pass_length: "valid_pass p \<Longrightarrow> length p \<le> 63"
  by (auto simp: valid_pass_def)

lemma parse_wifi_ok:
  assumes "valid_ssid ssid" and "valid_pass pass"
  shows "parse_wifi (wifi_data ssid pass) c = (0, c\<lparr>ic_ssid := ssid, ic_pass := pass\<rparr>)"
proof -
  have l: "length ssid \<le> 32" "ssid \<noteq> []" "0 \<notin> set ssid" "length pass \<le> 63"
    using assms valid_pass_length by (auto simp: valid_ssid_def)
  then have u: "unat (of_nat (length ssid) :: u8) = length ssid" "unat (of_nat (length pass) :: u8) = length pass"
    by (simp_all add: unat_of_nat)
  show ?thesis
    using l u assms(2)
    by (simp add: parse_wifi_def wifi_data_def Let_def nth_append word_less_nat_alt)
qed

lemma parse_wifi_inv:
  assumes "parse_wifi d c = (0, c')"
  shows "valid_ssid (ic_ssid c')" and "valid_pass (ic_pass c')" and "d = wifi_data (ic_ssid c') (ic_pass c')"
proof -
  define sl pl where "sl = unat (d ! 0)" and "pl = unat (d ! (1 + sl))"
  have a: "sl \<noteq> 0" "sl \<le> 32" "2 + sl + pl = length d" "valid_pass (take pl (drop (2 + sl) d))"
    "0 \<notin> set (take sl (drop 1 d))" and c': "ic_ssid c' = take sl (drop 1 d)" "ic_pass c' = take pl (drop (2 + sl) d)"
    using assms by (auto simp: parse_wifi_def Let_def sl_def pl_def split: if_splits)
  show "valid_ssid (ic_ssid c')" "valid_pass (ic_pass c')"
    using a c' by (auto simp: valid_ssid_def)
  have "d = d ! 0 # drop 1 d"
    using a(3) Cons_nth_drop_Suc [of 0 d] by (metis One_nat_def add_is_0 drop0 gr0I zero_neq_numeral)
  moreover have "drop 1 d = take sl (drop 1 d) @ drop (1 + sl) d"
    by (metis append_take_drop_id drop_drop add.commute)
  moreover have "drop (1 + sl) d = d ! (1 + sl) # drop (2 + sl) d"
    using a(3) Cons_nth_drop_Suc [of "1 + sl" d] by simp
  moreover have "drop (2 + sl) d = take pl (drop (2 + sl) d)"
    using a(3) by simp
  ultimately have "d = [d ! 0] @ ic_ssid c' @ [d ! (1 + sl)] @ ic_pass c'"
    using c' by (metis append_Cons append_Nil)
  moreover have "length (ic_ssid c') = sl" "length (ic_pass c') = pl"
    using a(3) by (simp_all add: c')
  then have "of_nat (length (ic_ssid c')) = d ! 0" "of_nat (length (ic_pass c')) = d ! (1 + sl)"
    by (simp_all add: sl_def pl_def)
  ultimately show "d = wifi_data (ic_ssid c') (ic_pass c')"
    by (simp add: wifi_data_def)
qed

definition str_entries :: "bytes list \<Rightarrow> bytes" where
  "str_entries ss = concat (map (\<lambda>s. of_nat (length s) # s) ss)"

lemma result_body_prefix:
  "\<exists>n \<le> length ss. result_body pos ss = str_entries (take n ss) \<and>
     (pos \<le> 60 \<longrightarrow> pos + length (result_body pos ss) \<le> 60) \<and>
     (n < length ss \<longrightarrow> length (ss ! n) > 40 \<or> pos + length (result_body pos ss) + 1 + length (ss ! n) > 60)"
proof (induction pos ss rule: result_body.induct)
  case (2 pos s ss)
  show ?case
  proof (cases "length s > 40 \<or> pos + 1 + length s > 60")
    case True
    then show ?thesis
      by (intro exI [where x = 0]) (auto simp: str_entries_def)
  next
    case False
    then obtain n where "n \<le> length ss" "result_body (pos + 1 + length s) ss = str_entries (take n ss)"
      "pos + 1 + length s \<le> 60 \<longrightarrow> pos + 1 + length s + length (result_body (pos + 1 + length s) ss) \<le> 60"
      "n < length ss \<longrightarrow> length (ss ! n) > 40 \<or>
        pos + 1 + length s + length (result_body (pos + 1 + length s) ss) + 1 + length (ss ! n) > 60"
      using 2 by blast
    then show ?thesis
      using False by (intro exI [where x = "Suc n"]) (auto simp: str_entries_def)
  qed
qed (simp add: str_entries_def)

section \<open>Properties\<close>

text \<open>C15: Wi-Fi credentials.  \<open>improv_parse\<close> accepts a Wi-Fi command exactly when
  the buffer is a packet (with the right length and checksum) of a network name
  of 1 to 32 bytes without a zero byte and a passphrase that is empty or 8 to 63
  printable ASCII characters, and then returns that name and passphrase.\<close>

theorem improv_wifi_exact:
  "improv_parse buf c = (0, \<lparr>ic_cmd = IMPROV_CMD_WIFI, ic_ssid = ssid, ic_pass = pass\<rparr>) \<longleftrightarrow>
   valid_ssid ssid \<and> valid_pass pass \<and> buf = packet IMPROV_CMD_WIFI (wifi_data ssid pass)"
proof
  assume p: "improv_parse buf c = (0, \<lparr>ic_cmd = IMPROV_CMD_WIFI, ic_ssid = ssid, ic_pass = pass\<rparr>)"
  obtain d where d: "length d < 256" "buf = packet IMPROV_CMD_WIFI d"
    using parse_ok_packet [OF p] by auto
  then have "parse_wifi d (c\<lparr>ic_cmd := IMPROV_CMD_WIFI\<rparr>) = (0, \<lparr>ic_cmd = IMPROV_CMD_WIFI, ic_ssid = ssid, ic_pass = pass\<rparr>)"
    using p parse_packet [OF d(1), of IMPROV_CMD_WIFI c] by (simp add: Let_def)
  from parse_wifi_inv [OF this]
  show "valid_ssid ssid \<and> valid_pass pass \<and> buf = packet IMPROV_CMD_WIFI (wifi_data ssid pass)"
    using d by simp
next
  assume a: "valid_ssid ssid \<and> valid_pass pass \<and> buf = packet IMPROV_CMD_WIFI (wifi_data ssid pass)"
  then have l: "length (wifi_data ssid pass) < 256"
    using valid_pass_length [of pass] by (auto simp: wifi_data_def valid_ssid_def)
  show "improv_parse buf c = (0, \<lparr>ic_cmd = IMPROV_CMD_WIFI, ic_ssid = ssid, ic_pass = pass\<rparr>)"
    using a parse_wifi_ok [of ssid pass "c\<lparr>ic_cmd := IMPROV_CMD_WIFI\<rparr>"] parse_packet [OF l, of IMPROV_CMD_WIFI c]
    by (simp add: Let_def)
qed

text \<open>An RPC result.  It is a well-formed packet of at most 61 bytes (the
  buffer has 64) that carries the longest prefix of the strings that fits, each
  behind its length byte.\<close>

theorem improv_result_spec:
  "length (improv_result cmd ss) \<le> 61 \<and>
   (\<exists>n \<le> length ss. improv_result cmd ss = packet cmd (str_entries (take n ss)) \<and>
      (n < length ss \<longrightarrow> length (ss ! n) > 40 \<or> length (str_entries (take (Suc n) ss)) > 58))"
proof -
  obtain n where n: "n \<le> length ss" "result_body 2 ss = str_entries (take n ss)"
    "2 + length (result_body 2 ss) \<le> 60"
    "n < length ss \<longrightarrow> length (ss ! n) > 40 \<or> 2 + length (result_body 2 ss) + 1 + length (ss ! n) > 60"
    using result_body_prefix [of ss 2] by (elim exE conjE) (rule that, simp_all)
  have "length (str_entries (take (Suc n) ss)) = length (str_entries (take n ss)) + 1 + length (ss ! n)"
    if "n < length ss"
    using that by (simp add: take_Suc_conv_app_nth str_entries_def)
  then show ?thesis
    using n by (intro conjI exI [where x = n]) (auto simp: improv_result_def packet_def Let_def)
qed

theorem improv_result_spec_witness:
  "length (improv_result 3 [[1, 2], replicate 41 5]) \<le> 61"
  using improv_result_spec [of 3 "[[1, 2], replicate 41 5]"] by simp

end
