(* ===== verification/Ble_Gatt.thy ===== *)
theory Ble_Gatt
  imports Prelude
begin

text \<open>
  \<open>tools/ble-ha/gatt.c\<close>: the ATT server with its fixed database.  A handler
  gives the response bytes (none: no response).  A write to the RPC command
  calls back into the daemon; \<open>gatt_handle\<close> returns the bytes of that call, which
  the daemon runs before it sends the response (theory Ble_Ha).  The lemmas show
  that a response never exceeds the buffer and the MTU, that the server's state
  stays in its arrays, and that prepared writes reassemble.
\<close>

section \<open>The database\<close>

datatype attr_kind = SVC | DECL | VALUE | CCCD

record attr =
  at_kind :: attr_kind
  at_props :: u8
  at_uuid :: bytes

definition IMPROV :: "u8 \<Rightarrow> bytes" where
  "IMPROV x = [x, 0x80, 0x26, 0x78, 0x74, 0x27, 0x63, 0x46, 0x72, 0x22, 0x28, 0x62, 0x68, 0x77, 0x46, 0x00]"

abbreviation (input) LAST_HANDLE :: nat where "LAST_HANDLE \<equiv> 19"

definition db :: "attr list" where
  "db = map (\<lambda>(k, p, u). \<lparr>at_kind = k, at_props = p, at_uuid = u\<rparr>)
    [(SVC, 0, []),
     (SVC, 0, put_le16 0x1800),
     (DECL, 0x02, put_le16 0x2a00), (VALUE, 0x02, put_le16 0x2a00),
     (DECL, 0x02, put_le16 0x2a01), (VALUE, 0x02, put_le16 0x2a01),
     (SVC, 0, IMPROV 0x00),
     (DECL, 0x12, IMPROV 0x01), (VALUE, 0x12, IMPROV 0x01), (CCCD, 0, []),
     (DECL, 0x12, IMPROV 0x02), (VALUE, 0x12, IMPROV 0x02), (CCCD, 0, []),
     (DECL, 0x0c, IMPROV 0x03), (VALUE, 0x0c, IMPROV 0x03),
     (DECL, 0x12, IMPROV 0x04), (VALUE, 0x12, IMPROV 0x04), (CCCD, 0, []),
     (DECL, 0x02, IMPROV 0x05), (VALUE, 0x02, IMPROV 0x05)]"

section \<open>State\<close>

abbreviation (input) ERR_INVALID_HANDLE :: u8 where "ERR_INVALID_HANDLE \<equiv> 0x01"
abbreviation (input) ERR_READ_NOT_PERM :: u8 where "ERR_READ_NOT_PERM \<equiv> 0x02"
abbreviation (input) ERR_WRITE_NOT_PERM :: u8 where "ERR_WRITE_NOT_PERM \<equiv> 0x03"
abbreviation (input) ERR_NOT_SUPPORTED :: u8 where "ERR_NOT_SUPPORTED \<equiv> 0x06"
abbreviation (input) ERR_INVALID_OFFSET :: u8 where "ERR_INVALID_OFFSET \<equiv> 0x07"
abbreviation (input) ERR_QUEUE_FULL :: u8 where "ERR_QUEUE_FULL \<equiv> 0x09"
abbreviation (input) ERR_NOT_FOUND :: u8 where "ERR_NOT_FOUND \<equiv> 0x0a"
abbreviation (input) ERR_INVALID_LEN :: u8 where "ERR_INVALID_LEN \<equiv> 0x0d"
abbreviation (input) GATT_STATE_VALUE :: nat where "GATT_STATE_VALUE \<equiv> 8"
abbreviation (input) GATT_ERROR_VALUE :: nat where "GATT_ERROR_VALUE \<equiv> 11"
abbreviation (input) GATT_RPC_VALUE :: nat where "GATT_RPC_VALUE \<equiv> 14"
abbreviation (input) GATT_RESULT_VALUE :: nat where "GATT_RESULT_VALUE \<equiv> 16"

text \<open>\<open>g_result\<close> and \<open>g_prep\<close> are the used parts of the arrays.\<close>

record gatt =
  g_name :: bytes
  g_state :: u8
  g_error :: u8
  g_caps :: u8
  g_result :: bytes
  g_cccd :: "u16 list"
  g_mtu :: nat
  g_mtu_max :: nat
  g_prep :: bytes

definition gatt_init :: "bytes \<Rightarrow> u8 \<Rightarrow> gatt" where
  "gatt_init name caps = \<lparr>g_name = name, g_state = 0x02, g_error = 0, g_caps = caps, g_result = [],
     g_cccd = [0, 0, 0], g_mtu = 23, g_mtu_max = 23, g_prep = []\<rparr>"

definition cccd_index :: "nat \<Rightarrow> nat option" where
  "cccd_index h = (if h = 9 then Some 0 else if h = 12 then Some 1 else if h = 17 then Some 2 else None)"

definition gatt_notify_enabled :: "gatt \<Rightarrow> nat \<Rightarrow> bool" where
  "gatt_notify_enabled g value_handle =
     (case cccd_index (value_handle + 1) of None \<Rightarrow> False | Some i \<Rightarrow> bit (g_cccd g ! i) 0)"

section \<open>Attributes\<close>

definition attr_type :: "nat \<Rightarrow> bytes" where
  "attr_type h =
     (case at_kind (db ! h) of
        SVC \<Rightarrow> put_le16 0x2800
      | DECL \<Rightarrow> put_le16 0x2803
      | CCCD \<Rightarrow> put_le16 0x2902
      | VALUE \<Rightarrow> at_uuid (db ! h))"

definition attr_value :: "gatt \<Rightarrow> nat \<Rightarrow> u8 + bytes" where
  "attr_value g h =
     (if h < 1 \<or> h > LAST_HANDLE then Inl ERR_INVALID_HANDLE
      else case at_kind (db ! h) of
             SVC \<Rightarrow> Inr (at_uuid (db ! h))
           | DECL \<Rightarrow> Inr (at_props (db ! h) # put_le16 (of_nat (h + 1)) @ at_uuid (db ! h))
           | CCCD \<Rightarrow> Inr (put_le16 (g_cccd g ! the (cccd_index h)))
           | VALUE \<Rightarrow>
               if h = 3 then Inr (g_name g)
               else if h = 5 then Inr [0, 0]
               else if h = GATT_STATE_VALUE then Inr [g_state g]
               else if h = GATT_ERROR_VALUE then Inr [g_error g]
               else if h = GATT_RESULT_VALUE then Inr (g_result g)
               else if h = 19 then Inr [g_caps g]
               else Inl ERR_READ_NOT_PERM)"

definition error_rsp :: "u8 \<Rightarrow> nat \<Rightarrow> u8 \<Rightarrow> bytes" where
  "error_rsp op h err = [0x01, op] @ put_le16 (of_nat h) @ [err]"

definition get16 :: "bytes \<Rightarrow> nat \<Rightarrow> nat" where
  "get16 p i = unat (get_le16 (drop i p))"

definition group_end :: "nat \<Rightarrow> nat" where
  "group_end h = h + length (takeWhile (\<lambda>e. at_kind (db ! e) \<noteq> SVC) [h + 1..<LAST_HANDLE + 1])"

text \<open>The handles of \<open>for (h = start; h <= end && h <= LAST_HANDLE; h++)\<close>.\<close>

definition handles :: "nat \<Rightarrow> nat \<Rightarrow> nat list" where
  "handles start stop = [start..<min stop LAST_HANDLE + 1]"

section \<open>Requests\<close>

fun read_by_type_loop ::
  "gatt \<Rightarrow> bool \<Rightarrow> bytes \<Rightarrow> nat \<Rightarrow> nat list \<Rightarrow> nat \<Rightarrow> bytes \<Rightarrow> (nat \<times> u8) + nat \<times> bytes" where
  "read_by_type_loop g grp want limit [] entry out = Inr (entry, out)"
| "read_by_type_loop g grp want limit (h # hs) entry out =
     (if attr_type h \<noteq> want then read_by_type_loop g grp want limit hs entry out
      else case attr_value g h of
             Inl err \<Rightarrow> if entry \<noteq> 0 then Inr (entry, out) else Inl (h, err)
           | Inr v \<Rightarrow>
               (let el = (if grp then 4 else 2) + length v in
                if entry \<noteq> 0 \<and> el \<noteq> entry then Inr (entry, out)
                else if 2 + length out + el > limit then Inr (entry, out)
                else read_by_type_loop g grp want limit hs el
                       (out @ put_le16 (of_nat h) @
                        (if grp then put_le16 (of_nat (group_end h)) else []) @ v)))"

definition read_by_type :: "gatt \<Rightarrow> bytes \<Rightarrow> nat \<Rightarrow> bytes" where
  "read_by_type g req limit =
     (let start = get16 req 1; stop = get16 req 3; wl = length req - 5; grp = (req ! 0 = 0x10) in
      if (wl \<noteq> 2 \<and> wl \<noteq> 16) \<or> start = 0 \<or> start > stop
      then error_rsp (req ! 0) start (if wl \<noteq> 2 \<and> wl \<noteq> 16 then ERR_INVALID_LEN else ERR_INVALID_HANDLE)
      else case read_by_type_loop g grp (take wl (drop 5 req)) limit (handles start stop) 0 [] of
             Inl (h, err) \<Rightarrow> error_rsp (req ! 0) h err
           | Inr (entry, out) \<Rightarrow>
               if entry = 0 then error_rsp (req ! 0) start ERR_NOT_FOUND
               else (req ! 0 + 1) # of_nat entry # out)"

fun find_info_loop :: "nat \<Rightarrow> nat list \<Rightarrow> nat \<Rightarrow> bytes \<Rightarrow> nat \<times> bytes" where
  "find_info_loop limit [] tlen out = (tlen, out)"
| "find_info_loop limit (h # hs) tlen out =
     (let l = length (attr_type h) in
      if (tlen \<noteq> 0 \<and> l \<noteq> tlen) \<or> 2 + length out + 2 + l > limit then (tlen, out)
      else find_info_loop limit hs l (out @ put_le16 (of_nat h) @ attr_type h))"

definition find_info :: "bytes \<Rightarrow> nat \<Rightarrow> bytes" where
  "find_info req limit =
     (let start = get16 req 1; stop = get16 req 3 in
      if start = 0 \<or> start > stop then error_rsp (req ! 0) start ERR_INVALID_HANDLE
      else case find_info_loop limit (handles start stop) 0 [] of
             (tlen, out) \<Rightarrow>
               if tlen = 0 then error_rsp (req ! 0) start ERR_NOT_FOUND
               else 0x05 # (if tlen = 2 then 1 else 2) # out)"

fun find_by_value_loop :: "bytes \<Rightarrow> nat \<Rightarrow> nat list \<Rightarrow> bytes \<Rightarrow> bytes" where
  "find_by_value_loop req limit [] out = out"
| "find_by_value_loop req limit (h # hs) out =
     (if get16 req 5 \<noteq> 0x2800 \<or> at_kind (db ! h) \<noteq> SVC \<or> at_uuid (db ! h) \<noteq> drop 7 req \<or>
         1 + length out + 4 > limit
      then find_by_value_loop req limit hs out
      else find_by_value_loop req limit hs (out @ put_le16 (of_nat h) @ put_le16 (of_nat (group_end h))))"

definition find_by_value :: "bytes \<Rightarrow> nat \<Rightarrow> bytes" where
  "find_by_value req limit =
     (let start = get16 req 1; stop = get16 req 3 in
      if start = 0 \<or> start > stop then error_rsp (req ! 0) start ERR_INVALID_HANDLE
      else let out = find_by_value_loop req limit (handles start stop) [] in
        if out = [] then error_rsp (req ! 0) start ERR_NOT_FOUND else 0x07 # out)"

definition read_value :: "gatt \<Rightarrow> bytes \<Rightarrow> nat \<Rightarrow> bytes" where
  "read_value g req limit =
     (let h = get16 req 1; off = (if req ! 0 = 0x0c \<and> length req \<ge> 5 then get16 req 3 else 0) in
      case attr_value g h of
        Inl err \<Rightarrow> error_rsp (req ! 0) h err
      | Inr v \<Rightarrow>
          if off > length v then error_rsp (req ! 0) h ERR_INVALID_OFFSET
          else let n = length v - off; n = (if n > limit - 1 then limit - 1 else n)
               in (req ! 0 + 1) # take n (drop off v))"

text \<open>The ATT error (0: none), the state, and the bytes given to \<open>rpc_write\<close>.\<close>

definition write_value :: "gatt \<Rightarrow> nat \<Rightarrow> bytes \<Rightarrow> u8 \<times> gatt \<times> bytes option" where
  "write_value g h v =
     (case cccd_index h of
        Some i \<Rightarrow>
          if length v \<noteq> 2 then (ERR_INVALID_LEN, g, None)
          else (0, g\<lparr>g_cccd := (g_cccd g)[i := get_le16 v]\<rparr>, None)
      | None \<Rightarrow>
          if h = GATT_RPC_VALUE then (0, g, Some v)
          else (if h < 1 \<or> h > LAST_HANDLE then ERR_INVALID_HANDLE else ERR_WRITE_NOT_PERM, g, None))"

definition gatt_handle :: "gatt \<Rightarrow> bytes \<Rightarrow> nat \<Rightarrow> bytes \<times> gatt \<times> bytes option" where
  "gatt_handle g req room =
     (let limit = (if room > g_mtu g then g_mtu g else room); len = length req;
          bad = (error_rsp (req ! 0) 0 ERR_INVALID_LEN, g, None) in
      if len = 0 then ([], g, None)
      else if req ! 0 = 0x02 then
        if len < 3 then bad
        else let m = (if get16 req 1 < g_mtu_max g then get16 req 1 else g_mtu_max g);
                 m = (if m < 23 then 23 else m)
             in (0x03 # put_le16 (of_nat (g_mtu_max g)), g\<lparr>g_mtu := m\<rparr>, None)
      else if req ! 0 = 0x04 then (if len = 5 then (find_info req limit, g, None) else bad)
      else if req ! 0 = 0x06 then (if len \<ge> 7 then (find_by_value req limit, g, None) else bad)
      else if req ! 0 = 0x08 \<or> req ! 0 = 0x10 then (if len \<ge> 7 then (read_by_type g req limit, g, None) else bad)
      else if req ! 0 = 0x0a \<or> req ! 0 = 0x0c then (if len \<ge> 3 then (read_value g req limit, g, None) else bad)
      else if req ! 0 = 0x12 then
        if len < 3 then bad
        else (case write_value g (get16 req 1) (drop 3 req) of
                (err, g, rpc) \<Rightarrow>
                  if err \<noteq> 0 then (error_rsp (req ! 0) (get16 req 1) err, g, rpc) else ([0x13], g, rpc))
      else if req ! 0 = 0x52 then
        if len \<ge> 3 then (case write_value g (get16 req 1) (drop 3 req) of (err, g, rpc) \<Rightarrow> ([], g, rpc))
        else ([], g, None)
      else if req ! 0 = 0x16 then
        if len < 5 then bad
        else if get16 req 1 \<noteq> GATT_RPC_VALUE then (error_rsp (req ! 0) (get16 req 1) ERR_WRITE_NOT_PERM, g, None)
        else if get16 req 3 \<noteq> length (g_prep g) then (error_rsp (req ! 0) (get16 req 1) ERR_INVALID_OFFSET, g, None)
        else if length (g_prep g) + len - 5 > 128 then (error_rsp (req ! 0) (get16 req 1) ERR_QUEUE_FULL, g, None)
        else ((take (if len < limit then len else limit) req)[0 := 0x17],
              g\<lparr>g_prep := g_prep g @ drop 5 req\<rparr>, None)
      else if req ! 0 = 0x18 then
        ([0x19], g\<lparr>g_prep := []\<rparr>,
         if len \<ge> 2 \<and> req ! 1 = 1 \<and> g_prep g \<noteq> [] then Some (g_prep g) else None)
      else if req ! 0 = 0x1e then ([], g, None)
      else if req ! 0 AND 0x40 \<noteq> 0 then ([], g, None)
      else (error_rsp (req ! 0) 0 ERR_NOT_SUPPORTED, g, None))"

section \<open>Response sizes\<close>

lemma length_error_rsp [simp]: "length (error_rsp op h err) = 5"
  by (simp add: error_rsp_def)

lemma length_db: "length db = 20"
  by (simp add: db_def)

lemma read_by_type_loop_size:
  "read_by_type_loop g grp want limit hs entry out = Inr (entry', out') \<Longrightarrow> 2 + length out \<le> limit \<Longrightarrow>
   2 + length out' \<le> limit"
proof (induction g grp want limit hs entry out rule: read_by_type_loop.induct)
  case (2 g grp want limit h hs entry out)
  then show ?case
    by (auto simp: Let_def split: if_splits sum.splits)
qed simp

lemma find_info_loop_size:
  "find_info_loop limit hs tlen out = (tlen', out') \<Longrightarrow> 2 + length out \<le> limit \<Longrightarrow> 2 + length out' \<le> limit"
proof (induction limit hs tlen out rule: find_info_loop.induct)
  case (2 limit h hs tlen out)
  then show ?case
    by (auto simp: Let_def split: if_splits)
qed simp

lemma find_by_value_loop_size:
  "1 + length out \<le> limit \<Longrightarrow> 1 + length (find_by_value_loop req limit hs out) \<le> limit"
  by (induction req limit hs out rule: find_by_value_loop.induct) auto

lemma read_by_type_size: "5 \<le> limit \<Longrightarrow> length (read_by_type g req limit) \<le> limit"
  using read_by_type_loop_size [of g _ _ limit _ 0 "[]"]
  by (fastforce simp: read_by_type_def Let_def split: sum.splits)

lemma find_info_size: "5 \<le> limit \<Longrightarrow> length (find_info req limit) \<le> limit"
  by (auto simp: find_info_def Let_def split: prod.splits dest!: find_info_loop_size)

lemma find_by_value_size: "5 \<le> limit \<Longrightarrow> length (find_by_value req limit) \<le> limit"
  using find_by_value_loop_size [of "[]" limit req] by (auto simp: find_by_value_def Let_def)

lemma read_value_size: "5 \<le> limit \<Longrightarrow> length (read_value g req limit) \<le> limit"
  by (auto simp: read_value_def Let_def split: sum.splits)

section \<open>The invariant of the server\<close>

definition gatt_ok :: "gatt \<Rightarrow> bool" where
  "gatt_ok g \<longleftrightarrow> length (g_cccd g) = 3 \<and> 23 \<le> g_mtu_max g \<and> g_mtu_max g \<le> 247 \<and>
     23 \<le> g_mtu g \<and> g_mtu g \<le> g_mtu_max g \<and> length (g_prep g) \<le> 128 \<and>
     length (g_name g) \<le> 63 \<and> length (g_result g) \<le> 64"

lemma write_value_ok: "gatt_ok g \<Longrightarrow> write_value g h v = (err, g', rpc) \<Longrightarrow> gatt_ok g'"
  by (auto simp: write_value_def gatt_ok_def split: option.splits if_splits)

lemma write_value_rpc:
  "write_value g h v = (err, g', Some d) \<Longrightarrow> d = v \<and> h = GATT_RPC_VALUE"
  by (auto simp: write_value_def split: option.splits if_splits)

lemma attr_value_size: "gatt_ok g \<Longrightarrow> attr_value g h = Inr v \<Longrightarrow> length v \<le> 64"
proof -
  assume g: "gatt_ok g" and v: "attr_value g h = Inr v"
  have "\<forall>a \<in> set db. length (at_uuid a) \<le> 16"
    by (simp add: db_def IMPROV_def)
  moreover have "h < length db"
    using v by (auto simp: attr_value_def length_db split: if_splits)
  ultimately have "length (at_uuid (db ! h)) \<le> 16"
    by simp
  then show ?thesis
    using v g by (auto simp: attr_value_def gatt_ok_def split: if_splits attr_kind.splits)
qed

lemma gatt_handle_ok:
  assumes "gatt_ok g" and "gatt_handle g req room = (rsp, g', rpc)"
  shows "gatt_ok g'"
  using assms write_value_ok [OF assms(1)]
  by (auto simp: gatt_handle_def Let_def gatt_ok_def split: if_splits prod.splits)

lemma gatt_handle_size:
  assumes "gatt_ok g" and "23 \<le> room" and "gatt_handle g req room = (rsp, g', rpc)"
  shows "length rsp \<le> min room (g_mtu g)"
proof -
  define limit where "limit = (if room > g_mtu g then g_mtu g else room)"
  have l: "limit = min room (g_mtu g)" "5 \<le> limit" "23 \<le> limit"
    using assms(1,2) by (auto simp: limit_def gatt_ok_def)
  show ?thesis
    using assms(3) l read_by_type_size [OF l(2)] find_info_size [OF l(2)] find_by_value_size [OF l(2)]
      read_value_size [OF l(2)]
    unfolding l(1) [symmetric]
    by (auto simp: gatt_handle_def Let_def limit_def [symmetric] split: if_splits prod.splits)
qed

section \<open>Prepared writes\<close>

definition prepare_req :: "nat \<Rightarrow> bytes \<Rightarrow> bytes" where
  "prepare_req off d = 0x16 # put_le16 (of_nat GATT_RPC_VALUE) @ put_le16 (of_nat off) @ d"

definition execute_req :: bytes where
  "execute_req = [0x18, 0x01]"

text \<open>A client that sends a long value in pieces, each at the offset it has
  reached.\<close>

fun send_pieces :: "nat \<Rightarrow> bytes list \<Rightarrow> gatt \<Rightarrow> gatt" where
  "send_pieces room [] g = g"
| "send_pieces room (d # ds) g =
     send_pieces room ds (fst (snd (gatt_handle g (prepare_req (length (g_prep g)) d) room)))"

lemma prepare_parts:
  assumes "off < 65536"
  shows "prepare_req off d ! 0 = 0x16" and "get16 (prepare_req off d) (Suc 0) = GATT_RPC_VALUE"
    and "get16 (prepare_req off d) 3 = off" and "drop 5 (prepare_req off d) = d"
    and "length (prepare_req off d) = length d + 5"
  using assms get_put_le16 [of "of_nat 14" "put_le16 (of_nat off) @ d"] get_put_le16 [of "of_nat off" d]
  by (simp_all add: prepare_req_def get16_def unat_of_nat)

lemma prepare_step:
  assumes "length (g_prep g) + length d \<le> 128"
  shows "fst (snd (gatt_handle g (prepare_req (length (g_prep g)) d) room)) = g\<lparr>g_prep := g_prep g @ d\<rparr>"
  using assms prepare_parts [of "length (g_prep g)" d] by (simp add: gatt_handle_def Let_def)

lemma send_pieces_prep:
  "length (g_prep g) + length (concat ds) \<le> 128 \<Longrightarrow>
   send_pieces room ds g = g\<lparr>g_prep := g_prep g @ concat ds\<rparr>"
  by (induction ds arbitrary: g) (simp_all add: prepare_step)

section \<open>Properties\<close>

definition demo_gatt :: gatt where
  "demo_gatt = gatt_init [0x78] 3"

text \<open>C16: every ATT request, well formed or not: the server's arrays stay within
  their sizes (three CCCDs, 128 bytes of prepared writes), the MTU stays between
  23 and the largest that one ACL packet takes, and the response fits the buffer
  and the MTU in use.\<close>

theorem gatt_handle_safe:
  assumes "gatt_ok g" and "23 \<le> room" and "gatt_handle g req room = (rsp, g', rpc)"
  shows "gatt_ok g' \<and> length rsp \<le> min room (g_mtu g)"
  using gatt_handle_ok [OF assms(1,3)] gatt_handle_size [OF assms] by blast

theorem gatt_handle_safe_witness:
  "gatt_ok (fst (snd (gatt_handle demo_gatt [0x02, 0xff, 0x00] 23)))"
  using gatt_handle_safe [of demo_gatt 23 "[0x02, 0xff, 0x00]"]
  by (cases "gatt_handle demo_gatt [0x02, 0xff, 0x00] 23") (simp add: demo_gatt_def gatt_init_def gatt_ok_def)

text \<open>C17: a long write.  A value of at most 128 bytes that a client sends in any
  pieces, each at its offset, and executes, reaches \<open>rpc_write\<close> once and whole,
  and the queue is empty afterwards.\<close>

theorem long_write:
  assumes "g_prep g = []" and "concat ds \<noteq> []" and "length (concat ds) \<le> 128"
  shows "gatt_handle (send_pieces room ds g) execute_req room = ([0x19], g, Some (concat ds))"
proof -
  have "send_pieces room ds g = g\<lparr>g_prep := concat ds\<rparr>"
    using send_pieces_prep [of g ds room] assms by simp
  then show ?thesis
    using assms by (cases g) (simp add: gatt_handle_def execute_req_def Let_def)
qed

theorem long_write_witness:
  "gatt_handle (send_pieces 23 [[1, 2], [3]] demo_gatt) execute_req 23 = ([0x19], demo_gatt, Some [1, 2, 3])"
  using long_write [of demo_gatt "[[1, 2], [3]]" 23] by (simp add: demo_gatt_def gatt_init_def)

end
