(* ===== verification/Ble_Wpa.thy ===== *)
theory Ble_Wpa
  imports Ble_Improv Ble_Api
begin

text \<open>
  \<open>tools/ble-ha/wpa.c\<close>: the control socket of wpa_supplicant.  wpa_supplicant
  itself is outside the repository: \<open>req\<close> is one exchange on its socket, from a
  command and a state of the supplicant to its answer (None: no socket, no
  answer in time) and its new state.  The lemmas show that a join selects
  the network it configured exactly when every command was answered with OK, and else removes
  it again after the first that was not.
\<close>

type_synonym 'w supplicant = "bytes \<Rightarrow> 'w \<Rightarrow> bytes option \<times> 'w"

section \<open>Requests\<close>

text \<open>The answer as the C string in the caller's buffer of \<open>len\<close> bytes.\<close>

definition request :: "'w supplicant \<Rightarrow> bytes \<Rightarrow> nat \<Rightarrow> 'w \<Rightarrow> bytes option \<times> 'w" where
  "request req cmd len w =
     (case req cmd w of
        (None, w) \<Rightarrow> (None, w)
      | (Some r, w) \<Rightarrow> (Some (takeWhile (\<lambda>b. b \<noteq> 0) (take (len - 1) r)), w))"

definition request_ok :: "'w supplicant \<Rightarrow> bytes \<Rightarrow> 'w \<Rightarrow> bool \<times> 'w" where
  "request_ok req cmd w =
     (case request req cmd 64 w of
        (None, w) \<Rightarrow> (False, w)
      | (Some r, w) \<Rightarrow> (take 2 r = c_str ''OK'', w))"

definition wpa_networks :: "'w supplicant \<Rightarrow> 'w \<Rightarrow> nat option \<times> 'w" where
  "wpa_networks req w =
     (case request req (c_str ''LIST_NETWORKS'') 2048 w of
        (None, w) \<Rightarrow> (None, w)
      | (Some r, w) \<Rightarrow> (Some (length (filter (\<lambda>b. b = 10) r) - 1), w))"

section \<open>Numbers in commands\<close>

fun dec_digits :: "nat \<Rightarrow> bytes" where
  "dec_digits n = (if n < 10 then [of_nat (48 + n)] else dec_digits (n div 10) @ [of_nat (48 + n mod 10)])"

declare dec_digits.simps [simp del]

definition is_digit :: "u8 \<Rightarrow> bool" where
  "is_digit b \<longleftrightarrow> 48 \<le> b \<and> b \<le> 57"

definition dec_value :: "bytes \<Rightarrow> nat" where
  "dec_value r = foldl (\<lambda>n b. n * 10 + (unat b - 48)) 0 (takeWhile is_digit r)"

definition hex_digit :: "nat \<Rightarrow> u8" where
  "hex_digit n = (if n < 10 then of_nat (48 + n) else of_nat (87 + n))"

definition hex_byte :: "u8 \<Rightarrow> bytes" where
  "hex_byte b = [hex_digit (unat b div 16), hex_digit (unat b mod 16)]"

text \<open>\<open>snprintf\<close> into \<open>cmd[160]\<close> keeps 159 bytes.\<close>

definition cmd160 :: "bytes \<Rightarrow> bytes" where
  "cmd160 s = take 159 s"

fun ssid_hex :: "bytes \<Rightarrow> nat \<Rightarrow> bytes" where
  "ssid_hex [] pos = []"
| "ssid_hex (b # bs) pos = (if b = 0 \<or> \<not> pos + 3 < 160 then [] else hex_byte b @ ssid_hex bs (pos + 2))"

section \<open>Joining\<close>

definition set_network :: "nat \<Rightarrow> string \<Rightarrow> bytes" where
  "set_network nid what = c_str ''SET_NETWORK '' @ dec_digits nid @ c_str what"

definition wpa_finish :: "'w supplicant \<Rightarrow> nat \<Rightarrow> bool \<Rightarrow> 'w \<Rightarrow> bool \<times> 'w" where
  "wpa_finish req nid keep w =
     (let w = (if \<not> keep then snd (request_ok req (take 31 (c_str ''REMOVE_NETWORK '' @ dec_digits nid)) w) else w);
          w = snd (request_ok req (c_str ''ENABLE_NETWORK all'') w)
      in if keep then request_ok req (c_str ''SAVE_CONFIG'') w else (True, w))"

definition join_ssid_cmd :: "nat \<Rightarrow> bytes \<Rightarrow> bytes" where
  "join_ssid_cmd nid ssid =
     (let p = set_network nid '' ssid '' in cmd160 (p @ ssid_hex ssid (length p)))"

definition join_psk_cmd :: "nat \<Rightarrow> bytes \<Rightarrow> bytes" where
  "join_psk_cmd nid pass = cmd160 (set_network nid '' psk '' @ [34] @ pass @ [34])"

definition join_mgmt_cmd :: "nat \<Rightarrow> bytes \<Rightarrow> bytes" where
  "join_mgmt_cmd nid pass =
     cmd160 (set_network nid (if pass \<noteq> [] then '' key_mgmt WPA-PSK SAE'' else '' key_mgmt NONE''))"

definition join_select_cmd :: "nat \<Rightarrow> bytes" where
  "join_select_cmd nid = cmd160 (c_str ''SELECT_NETWORK '' @ dec_digits nid)"

definition wpa_join :: "'w supplicant \<Rightarrow> bytes \<Rightarrow> bytes \<Rightarrow> 'w \<Rightarrow> nat option \<times> 'w" where
  "wpa_join req ssid pass w =
     (case request req (c_str ''ADD_NETWORK'') 32 w of
        (None, w) \<Rightarrow> (None, w)
      | (Some r, w) \<Rightarrow>
          if r = [] \<or> \<not> is_digit (r ! 0) then (None, w)
          else let nid = dec_value r;
                   fail = (\<lambda>w. (None, snd (wpa_finish req nid False w)));
                   (ok, w) = request_ok req (join_ssid_cmd nid ssid) w
               in if \<not> ok then fail w
                  else let (ok, w) = (if pass \<noteq> [] then request_ok req (join_psk_cmd nid pass) w else (True, w))
                       in if \<not> ok then fail w
                          else let (ok, w) = request_ok req (join_mgmt_cmd nid pass) w
                               in if \<not> ok then fail w
                                  else let (ok, w) = request_ok req (join_select_cmd nid) w
                                       in if \<not> ok then fail w else (Some nid, w))"

section \<open>The state of the connection\<close>

fun starts_with :: "bytes \<Rightarrow> bytes \<Rightarrow> bool" where
  "starts_with [] s = True"
| "starts_with (p # ps) s = (case s of [] \<Rightarrow> False | c # cs \<Rightarrow> p = c \<and> starts_with ps cs)"

fun strstr :: "bytes \<Rightarrow> bytes \<Rightarrow> bytes option" where
  "strstr [] pat = (if pat = [] then Some [] else None)"
| "strstr (c # s) pat = (if starts_with pat (c # s) then Some (c # s) else strstr s pat)"

datatype connected = Wpa_error | Wpa_not_yet | Wpa_connected bytes

definition wpa_connected :: "'w supplicant \<Rightarrow> nat \<Rightarrow> 'w \<Rightarrow> connected \<times> 'w" where
  "wpa_connected req len w =
     (case request req (c_str ''STATUS'') 1024 w of
        (None, w) \<Rightarrow> (Wpa_error, w)
      | (Some r, w) \<Rightarrow>
          (case (strstr r (c_str ''wpa_state=COMPLETED'' @ [10]), strstr r ([10] @ c_str ''ip_address='')) of
             (Some _, Some p) \<Rightarrow>
               (Wpa_connected (take (len - 1) (takeWhile (\<lambda>b. b \<noteq> 10) (drop 12 p))), w)
           | _ \<Rightarrow> (Wpa_not_yet, w)))"

section \<open>The commands of a join\<close>

text \<open>A supplicant that also keeps the list of the commands it got, each with its answer.\<close>

type_synonym exchanges = "(bytes \<times> bytes option) list"

definition logged :: "'w supplicant \<Rightarrow> ('w \<times> exchanges) supplicant" where
  "logged req cmd wl = (case req cmd (fst wl) of (r, w) \<Rightarrow> (r, (w, snd wl @ [(cmd, r)])))"

text \<open>The C string that \<open>request\<close> makes of an answer; whether \<open>request_ok\<close> accepts it; the
  network of an answer to \<open>ADD_NETWORK\<close>, if there is one.\<close>

definition answer_str :: "nat \<Rightarrow> bytes \<Rightarrow> bytes" where
  "answer_str len r = takeWhile (\<lambda>b. b \<noteq> 0) (take (len - 1) r)"

definition accepted :: "bytes option \<Rightarrow> bool" where
  "accepted a = (case a of None \<Rightarrow> False | Some r \<Rightarrow> take 2 (answer_str 64 r) = c_str ''OK'')"

definition added_network :: "bytes option \<Rightarrow> nat option" where
  "added_network a =
     (case a of None \<Rightarrow> None
      | Some r \<Rightarrow> let s = answer_str 32 r in if s = [] \<or> \<not> is_digit (s ! 0) then None else Some (dec_value s))"

definition finish_cmds :: "nat \<Rightarrow> bytes list" where
  "finish_cmds nid = [take 31 (c_str ''REMOVE_NETWORK '' @ dec_digits nid), c_str ''ENABLE_NETWORK all'']"

definition join_cmds :: "nat \<Rightarrow> bytes \<Rightarrow> bytes \<Rightarrow> bytes list" where
  "join_cmds nid ssid pass = join_ssid_cmd nid ssid #
     (if pass \<noteq> [] then [join_psk_cmd nid pass] else []) @ [join_mgmt_cmd nid pass, join_select_cmd nid]"

lemma request_ok_log:
  assumes "request_ok (logged req) cmd wl = (ok, wl')"
  shows "\<exists>a. snd wl' = snd wl @ [(cmd, a)] \<and> ok = accepted a"
  using assms
  by (auto simp: request_ok_def request_def logged_def accepted_def answer_str_def split: prod.splits option.splits)

lemma finish_log: "\<exists>fin. snd (snd (wpa_finish (logged req) nid False wl)) = snd wl @ fin \<and> map fst fin = finish_cmds nid"
proof -
  obtain ok w1 where a: "request_ok (logged req) (take 31 (c_str ''REMOVE_NETWORK '' @ dec_digits nid)) wl = (ok, w1)"
    by (metis surj_pair)
  obtain ok2 w2 where b: "request_ok (logged req) (c_str ''ENABLE_NETWORK all'') w1 = (ok2, w2)"
    by (metis surj_pair)
  have "wpa_finish (logged req) nid False wl = (True, w2)"
    by (simp only: wpa_finish_def Let_def a b snd_conv not_False_eq_True if_True if_False)
  then show ?thesis
    using request_ok_log [OF a] request_ok_log [OF b] unfolding finish_cmds_def by auto
qed

text \<open>The commands one after the other, up to the first that is not accepted: the
  body of a join.\<close>

fun all_ok :: "'w supplicant \<Rightarrow> bytes list \<Rightarrow> 'w \<Rightarrow> bool \<times> 'w" where
  "all_ok req [] w = (True, w)"
| "all_ok req (c # cs) w = (let (ok, w) = request_ok req c w in if ok then all_ok req cs w else (False, w))"

lemma wpa_join_all_ok:
  "wpa_join req ssid pass w =
     (case request req (c_str ''ADD_NETWORK'') 32 w of
        (None, w) \<Rightarrow> (None, w)
      | (Some r, w) \<Rightarrow>
          if r = [] \<or> \<not> is_digit (r ! 0) then (None, w)
          else let (ok, w) = all_ok req (join_cmds (dec_value r) ssid pass) w
               in if ok then (Some (dec_value r), w) else (None, snd (wpa_finish req (dec_value r) False w)))"
  by (cases "pass = []") (auto simp: wpa_join_def join_cmds_def Let_def split: prod.split option.split)

lemma all_ok_log:
  assumes "all_ok (logged req) cs wl = (ok, wl')"
  shows "\<exists>log. snd wl' = snd wl @ log \<and>
    (if ok then map fst log = cs \<and> list_all (accepted \<circ> snd) log
     else \<exists>n < length cs. map fst log = take (Suc n) cs \<and> list_all (accepted \<circ> snd) (take n log) \<and> \<not> accepted (snd (log ! n)))"
  using assms
proof (induction cs arbitrary: wl)
  case (Cons c cs)
  obtain ok1 w1 where a: "request_ok (logged req) c wl = (ok1, w1)"
    by (metis surj_pair)
  obtain b where b: "snd w1 = snd wl @ [(c, b)]" "ok1 = accepted b"
    using request_ok_log [OF a] by blast
  show ?case
  proof (cases ok1)
    case False
    then show ?thesis
      using Cons.prems a b by auto
  next
    case True
    then have "all_ok (logged req) cs w1 = (ok, wl')"
      using Cons.prems a by simp
    then obtain log where l: "snd wl' = snd w1 @ log" and r: "if ok then map fst log = cs \<and> list_all (accepted \<circ> snd) log
     else \<exists>n < length cs. map fst log = take (Suc n) cs \<and> list_all (accepted \<circ> snd) (take n log) \<and> \<not> accepted (snd (log ! n))"
      using Cons.IH by blast
    show ?thesis
    proof (cases ok)
      case True
      then show ?thesis
        using l r b \<open>ok1\<close> by (intro exI [of _ "(c, b) # log"]) simp
    next
      case False
      then obtain n where "n < length cs" "map fst log = take (Suc n) cs" "list_all (accepted \<circ> snd) (take n log)" "\<not> accepted (snd (log ! n))"
        using r by auto
      then show ?thesis
        using l b \<open>ok1\<close> False by (intro exI [of _ "(c, b) # log"]) (auto intro: exI [of _ "Suc n"])
    qed
  qed
qed simp

text \<open>The exchanges of the configuration with those of the end.\<close>

lemma join_result:
  assumes "all_ok (logged req) cs (w1, [x]) = (ok, wl2)"
  shows "ok \<Longrightarrow> \<exists>w log. wl2 = (w, x # log) \<and> map fst log = cs \<and> list_all (accepted \<circ> snd) log"
    and "\<not> ok \<Longrightarrow> \<exists>w log. snd (wpa_finish (logged req) nid False wl2) = (w, x # log) \<and>
      (\<exists>n < length cs. map fst log = take (Suc n) cs @ finish_cmds nid \<and> list_all (accepted \<circ> snd) (take n log) \<and> \<not> accepted (snd (log ! n)))"
proof -
  show "ok \<Longrightarrow> \<exists>w log. wl2 = (w, x # log) \<and> map fst log = cs \<and> list_all (accepted \<circ> snd) log"
    using all_ok_log [OF assms] by (cases wl2) auto
  assume "\<not> ok"
  then obtain log n where l: "snd wl2 = x # log" and n: "n < length cs" "map fst log = take (Suc n) cs"
      "list_all (accepted \<circ> snd) (take n log)" "\<not> accepted (snd (log ! n))"
    using all_ok_log [OF assms] by auto
  obtain fin where f: "snd (snd (wpa_finish (logged req) nid False wl2)) = snd wl2 @ fin" "map fst fin = finish_cmds nid"
    using finish_log [of req nid wl2] by blast
  have len: "length log = Suc n"
    using n(1) arg_cong [OF n(2), of length] by simp
  show "\<exists>w log. snd (wpa_finish (logged req) nid False wl2) = (w, x # log) \<and>
      (\<exists>n < length cs. map fst log = take (Suc n) cs @ finish_cmds nid \<and> list_all (accepted \<circ> snd) (take n log) \<and> \<not> accepted (snd (log ! n)))"
  proof (intro exI conjI)
    show "snd (wpa_finish (logged req) nid False wl2) = (fst (snd (wpa_finish (logged req) nid False wl2)), x # (log @ fin))"
      using f(1) l by (simp add: prod_eq_iff)
    show "n < length cs" "map fst (log @ fin) = take (Suc n) cs @ finish_cmds nid" "list_all (accepted \<circ> snd) (take n (log @ fin))"
      "\<not> accepted (snd ((log @ fin) ! n))"
      using n f(2) len by (simp_all add: nth_append)
  qed
qed

section \<open>Properties\<close>

text \<open>C18: joining a network.  Whatever wpa_supplicant answers, the first command is
  \<open>ADD_NETWORK\<close>.  When its answer gives no number nothing else is sent and the join fails.
  Else the network has the number of that answer, and there are two cases: every command of the
  configuration and the selection was sent, in order, and every one was answered with OK, nothing
  else was sent, and the join returns the number; or the commands were sent up to the first one that was
  not answered with OK, then just those that remove this network and enable
  the others, and the join fails.\<close>

theorem wpa_join_all_or_nothing:
  "\<exists>res w add log. wpa_join (logged req) ssid pass (w0, []) = (res, (w, (c_str ''ADD_NETWORK'', add) # log)) \<and>
     (case added_network add of
        None \<Rightarrow> res = None \<and> log = []
      | Some nid \<Rightarrow>
          res = Some nid \<and> map fst log = join_cmds nid ssid pass \<and> list_all (accepted \<circ> snd) log \<or>
          res = None \<and> (\<exists>n < length (join_cmds nid ssid pass).
            map fst log = take (Suc n) (join_cmds nid ssid pass) @ finish_cmds nid \<and>
            list_all (accepted \<circ> snd) (take n log) \<and> \<not> accepted (snd (log ! n))))"
proof -
  obtain add w1 where a: "req (c_str ''ADD_NETWORK'') w0 = (add, w1)"
    by fastforce
  let ?wl = "(w1, [(c_str ''ADD_NETWORK'', add)])"
  have r: "request (logged req) (c_str ''ADD_NETWORK'') 32 (w0, []) = (map_option (answer_str 32) add, ?wl)"
    by (simp add: request_def logged_def a answer_str_def split: option.split)
  show ?thesis
  proof (cases "added_network add")
    case None
    then have "wpa_join (logged req) ssid pass (w0, []) = (None, ?wl)"
      unfolding wpa_join_all_ok r by (auto simp: added_network_def Let_def split: option.splits if_splits)
    then show ?thesis
      using None by auto
  next
    case (Some nid)
    then obtain r1 where r1: "add = Some r1" "answer_str 32 r1 \<noteq> []" "is_digit (answer_str 32 r1 ! 0)" "dec_value (answer_str 32 r1) = nid"
      by (auto simp: added_network_def Let_def split: option.splits if_splits)
    obtain ok wl2 where o: "all_ok (logged req) (join_cmds nid ssid pass) ?wl = (ok, wl2)"
      by (metis surj_pair)
    have j: "wpa_join (logged req) ssid pass (w0, []) =
        (if ok then (Some nid, wl2) else (None, snd (wpa_finish (logged req) nid False wl2)))"
      unfolding wpa_join_all_ok r using r1 o by (simp add: Let_def)
    show ?thesis
    proof (cases ok)
      case True
      then show ?thesis
        using join_result(1) [OF o True] j Some by fastforce
    next
      case False
      obtain w log where l: "snd (wpa_finish (logged req) nid False wl2) = (w, (c_str ''ADD_NETWORK'', add) # log)"
        "\<exists>n < length (join_cmds nid ssid pass). map fst log = take (Suc n) (join_cmds nid ssid pass) @ finish_cmds nid \<and>
          list_all (accepted \<circ> snd) (take n log) \<and> \<not> accepted (snd (log ! n))"
        using join_result(2) [OF o False] by blast
      then have "wpa_join (logged req) ssid pass (w0, []) = (None, (w, (c_str ''ADD_NETWORK'', add) # log))"
        using j False by simp
      then show ?thesis
        using l(2) Some by (intro exI [of _ None] exI [of _ w] exI [of _ add] exI [of _ log]) simp
    qed
  qed
qed

end
