(* ===== verification/Ble_Ha.thy ===== *)
theory Ble_Ha
  imports Ble_Api Ble_Hci Ble_Improv Ble_Gatt Ble_Wpa
begin

text \<open>
  \<open>tools/ble-ha/ble-ha.c\<close>: the daemon.  Its static state is the record \<open>ha\<close>; a
  handler maps a state to a state.  What the daemon meets at run time is the
  record \<open>ha_env\<close>: wpa_supplicant (theory Ble_Wpa), the two clocks (one reading
  per handler), and whether the adapter and a TCP client take what is written to
  them, as functions of what they got before.  \<open>ha_in\<close> is what \<open>hci_cmd\<close> reads
  from the adapter (\<open>None\<close>: its two seconds are over), \<open>ha_sent\<close> the packets
  written to the adapter, \<open>c_in\<close> the bytes that wait in a client's socket and
  \<open>c_out\<close> the frames sent to it.

  The properties of the daemon are in theory Ble_Ha_Inv.
\<close>

section \<open>State\<close>

record client =
  c_fd :: "nat option"
  c_buf :: bytes
  c_sub :: bool
  c_in :: bytes
  c_out :: "bytes list"

record 'w ha_env =
  e_req :: "'w supplicant"
  e_now :: int
  e_now_ms :: int
  e_tx_ok :: "bytes list \<Rightarrow> bytes \<Rightarrow> bool"
  e_send_ok :: "nat \<Rightarrow> bytes list \<Rightarrow> bytes \<Rightarrow> bool"

record 'w ha =
  ha_acl_len :: nat
  ha_credits :: u16
  ha_conn_sent :: u16
  ha_bdaddr :: bytes
  ha_scanning :: bool
  ha_batch :: "adv list"
  ha_batch_ms :: int
  ha_improv :: bool
  ha_advertising :: bool
  ha_adv_dirty :: bool
  ha_conn :: "u16 option"
  ha_l2 :: bytes
  ha_rpc :: bytes
  ha_gatt :: gatt
  ha_join_id :: "nat option"
  ha_join_end :: int
  ha_identify_end :: int
  ha_done_at :: int
  ha_check_at :: int
  ha_proxy :: bool
  ha_clients :: "client list"
  ha_info :: api_info
  ha_in :: "bytes option list"
  ha_sent :: "bytes list"
  ha_led :: "bool list"
  ha_wpa :: 'w

abbreviation (input) IMPROV_AUTHORIZED :: u8 where "IMPROV_AUTHORIZED \<equiv> 0x02"
abbreviation (input) IMPROV_PROVISIONING :: u8 where "IMPROV_PROVISIONING \<equiv> 0x03"
abbreviation (input) IMPROV_PROVISIONED :: u8 where "IMPROV_PROVISIONED \<equiv> 0x04"
abbreviation (input) IMPROV_ERR_NONE :: u8 where "IMPROV_ERR_NONE \<equiv> 0x00"
abbreviation (input) IMPROV_ERR_CONNECT :: u8 where "IMPROV_ERR_CONNECT \<equiv> 0x03"
abbreviation (input) IMPROV_ERR_OTHER :: u8 where "IMPROV_ERR_OTHER \<equiv> 0xff"
abbreviation (input) ADV_BATCH :: nat where "ADV_BATCH \<equiv> 16"

section \<open>Improv\<close>

definition acl_send :: "'w ha_env \<Rightarrow> u16 \<Rightarrow> bytes \<Rightarrow> 'w ha \<Rightarrow> 'w ha" where
  "acl_send env cid data s =
     (case ha_conn s of
        None \<Rightarrow> s
      | Some conn \<Rightarrow>
          if length data + 4 > ha_acl_len s \<or> length data + 9 > 300 then s
          else if ha_credits s = 0 then s
          else if e_tx_ok env (ha_sent s) (hci_acl_frame conn cid data)
               then s\<lparr>ha_sent := ha_sent s @ [hci_acl_frame conn cid data],
                      ha_credits := ha_credits s - 1, ha_conn_sent := ha_conn_sent s + 1\<rparr>
               else s)"

definition notify :: "'w ha_env \<Rightarrow> nat \<Rightarrow> bytes \<Rightarrow> 'w ha \<Rightarrow> 'w ha" where
  "notify env handle v s =
     (if \<not> gatt_notify_enabled (ha_gatt s) handle then s
      else let len = length v;
               len = (if len + 3 > g_mtu (ha_gatt s) then g_mtu (ha_gatt s) - 3 else len);
               len = (if len + 3 > 80 then 80 - 3 else len)
           in acl_send env 4 (0x1b # put_le16 (of_nat handle) @ take len v) s)"

definition set_state :: "'w ha_env \<Rightarrow> u8 \<Rightarrow> u8 \<Rightarrow> 'w ha \<Rightarrow> 'w ha" where
  "set_state env state err s =
     (let s = (if err \<noteq> g_error (ha_gatt s)
               then notify env GATT_ERROR_VALUE [err] (s\<lparr>ha_gatt := (ha_gatt s)\<lparr>g_error := err\<rparr>\<rparr>) else s)
      in if state \<noteq> g_state (ha_gatt s)
         then (notify env GATT_STATE_VALUE [state] (s\<lparr>ha_gatt := (ha_gatt s)\<lparr>g_state := state\<rparr>\<rparr>))\<lparr>ha_adv_dirty := True\<rparr>
         else s)"

definition set_result :: "'w ha_env \<Rightarrow> u8 \<Rightarrow> bytes list \<Rightarrow> 'w ha \<Rightarrow> 'w ha" where
  "set_result env cmd strs s =
     (let s = s\<lparr>ha_gatt := (ha_gatt s)\<lparr>g_result := improv_result cmd strs\<rparr>\<rparr>
      in notify env GATT_RESULT_VALUE (g_result (ha_gatt s)) s)"

definition identify :: "'w ha_env \<Rightarrow> bool \<Rightarrow> 'w ha \<Rightarrow> 'w ha" where
  "identify env on s = s\<lparr>ha_led := ha_led s @ [on], ha_identify_end := (if on then e_now env + 5 else 0)\<rparr>"

definition improv_command :: "'w ha_env \<Rightarrow> improv_cmd \<Rightarrow> 'w ha \<Rightarrow> 'w ha" where
  "improv_command env c s =
     (if ic_cmd c = IMPROV_CMD_WIFI then
        if g_state (ha_gatt s) \<noteq> IMPROV_AUTHORIZED then s
        else let s = set_state env IMPROV_PROVISIONING IMPROV_ERR_NONE s;
                 (nid, w) = wpa_join (e_req env) (ic_ssid c) (ic_pass c) (ha_wpa s);
                 s = s\<lparr>ha_join_id := nid, ha_wpa := w\<rparr>
             in if nid = None then set_state env IMPROV_AUTHORIZED IMPROV_ERR_OTHER s
                else s\<lparr>ha_join_end := e_now env + 30\<rparr>
      else if ic_cmd c = IMPROV_CMD_IDENTIFY then
        if g_caps (ha_gatt s) AND 0x01 \<noteq> 0 then identify env True s else s
      else if ic_cmd c = IMPROV_CMD_INFO then
        set_result env IMPROV_CMD_INFO [c_str ''ble-ha'', c_str ''1'', c_str ''ESP32-S31'', info_name (ha_info s)] s
      else s)"

definition rpc_write :: "'w ha_env \<Rightarrow> bytes \<Rightarrow> 'w ha \<Rightarrow> 'w ha" where
  "rpc_write env data s =
     (if length (ha_rpc s) + length data > 128
      then set_state env (g_state (ha_gatt s)) IMPROV_ERR_INVALID (s\<lparr>ha_rpc := []\<rparr>)
      else let s = s\<lparr>ha_rpc := ha_rpc s @ data\<rparr>;
               (r, c) = improv_parse (ha_rpc s) \<lparr>ic_cmd = 0, ic_ssid = [], ic_pass = []\<rparr>
           in if r = 1 then s
              else let s = s\<lparr>ha_rpc := []\<rparr>
                   in if r \<noteq> 0 then set_state env (g_state (ha_gatt s)) r s
                      else improv_command env c (set_state env (g_state (ha_gatt s)) IMPROV_ERR_NONE s))"

definition join_poll :: "'w ha_env \<Rightarrow> 'w ha \<Rightarrow> 'w ha" where
  "join_poll env s =
     (let (r, w) = wpa_connected (e_req env) 48 (ha_wpa s); s = s\<lparr>ha_wpa := w\<rparr>;
          finish = (\<lambda>keep s. s\<lparr>ha_wpa := snd (wpa_finish (e_req env) (the (ha_join_id s)) keep (ha_wpa s)),
                               ha_join_id := None\<rparr>)
      in case r of
           Wpa_connected ip \<Rightarrow>
             (set_state env IMPROV_PROVISIONED IMPROV_ERR_NONE
               (set_result env IMPROV_CMD_WIFI [] (finish True s)))\<lparr>ha_done_at := e_now env + 10\<rparr>
         | _ \<Rightarrow> if e_now env \<ge> ha_join_end s
                then set_state env IMPROV_AUTHORIZED IMPROV_ERR_CONNECT (finish False s)
                else s)"

section \<open>Packets of the adapter\<close>

definition l2cap_frame :: "'w ha_env \<Rightarrow> nat \<Rightarrow> bytes \<Rightarrow> 'w ha \<Rightarrow> 'w ha" where
  "l2cap_frame env cid p s =
     (let room = unat (of_nat (ha_acl_len s) - 4 :: u32); room = (if room > 256 then 256 else room) in
      if cid = 4 then
        (case gatt_handle (ha_gatt s) p room of
           (rsp, g, rpc) \<Rightarrow>
             (let s = s\<lparr>ha_gatt := g\<rparr>;
                  s = (case rpc of None \<Rightarrow> s | Some d \<Rightarrow> rpc_write env d s)
              in if rsp \<noteq> [] then acl_send env 4 rsp s else s))
      else if cid = 5 \<and> length p \<ge> 4 \<and> p ! 0 AND 1 = 0 then
        acl_send env 5 [0x01, p ! 1, 0x02, 0x00, 0x00, 0x00] s
      else if cid = 6 \<and> length p \<ge> 1 \<and> (p ! 0 = 0x01 \<or> p ! 0 = 0x0b) then
        acl_send env 6 [0x05, 0x05] s
      else s)"

definition handle_acl :: "'w ha_env \<Rightarrow> bytes \<Rightarrow> 'w ha \<Rightarrow> 'w ha" where
  "handle_acl env p s =
     (if length p < 5 then s
      else let dl = get16 p 3 in
        if dl + 5 > length p then s
        else let s = (if drop_bit 4 (p ! 2) AND 3 \<noteq> 1 then s\<lparr>ha_l2 := []\<rparr> else s) in
          if length (ha_l2 s) + dl > 256 then s\<lparr>ha_l2 := []\<rparr>
          else let s = s\<lparr>ha_l2 := ha_l2 s @ take dl (drop 5 p)\<rparr> in
            if length (ha_l2 s) < 4 then s
            else let need = get16 (ha_l2 s) 0 + 4 in
              if length (ha_l2 s) < need then s
              else (l2cap_frame env (get16 (ha_l2 s) 2) (take (need - 4) (drop 4 (ha_l2 s))) s)\<lparr>ha_l2 := []\<rparr>)"

definition le_meta :: "'w ha_env \<Rightarrow> bytes \<Rightarrow> 'w ha \<Rightarrow> 'w ha" where
  "le_meta env ev s =
     (if length ev < 3 then s
      else if ev ! 2 = 0x02 \<and> ha_scanning s then
        let ads = hci_parse_adv_reports ev 8;
            s = (if ads \<noteq> [] \<and> ha_batch s = [] then s\<lparr>ha_batch_ms := e_now_ms env\<rparr> else s)
        in s\<lparr>ha_batch := ha_batch s @ take (ADV_BATCH - length (ha_batch s)) ads\<rparr>
      else if ev ! 2 = 0x01 \<and> length ev \<ge> 6 \<and> ev ! 3 = 0 then
        s\<lparr>ha_conn := Some (of_nat (get16 ev 4) AND 0x0fff), ha_advertising := False, ha_l2 := [], ha_rpc := [],
          ha_gatt := (ha_gatt s)\<lparr>g_mtu := 23, g_cccd := [0, 0, 0], g_prep := []\<rparr>\<rparr>
      else s)"

definition handle_packet :: "'w ha_env \<Rightarrow> bytes \<Rightarrow> 'w ha \<Rightarrow> 'w ha" where
  "handle_packet env p s =
     (if length p < 3 then s
      else if p ! 0 = 0x02 then handle_acl env p s
      else if p ! 0 \<noteq> 0x04 then s
      else if p ! 1 = 0x3e then le_meta env (tl p) s
      else if p ! 1 = 0x05 then
        if length p \<ge> 6 \<and> ha_conn s = Some (of_nat (get16 p 4) AND 0x0fff)
        then s\<lparr>ha_credits := ha_credits s + ha_conn_sent s, ha_conn_sent := 0, ha_conn := None, ha_adv_dirty := True\<rparr>
        else s
      else if p ! 1 = 0x13 then
        if length p \<ge> 8
        then let n = of_nat (get16 p 6) :: u16
             in s\<lparr>ha_credits := ha_credits s + n,
                  ha_conn_sent := ha_conn_sent s - (if n < ha_conn_sent s then n else ha_conn_sent s)\<rparr>
        else s
      else s)"

section \<open>Commands of the adapter\<close>

datatype hci_answer = Hci_complete u8 bytes | Hci_status u8

definition cmd_answer :: "u16 \<Rightarrow> bytes \<Rightarrow> hci_answer option" where
  "cmd_answer opc p =
     (if p ! 0 = 0x04 \<and> p ! 1 = 0x0e \<and> length p \<ge> 7 \<and> get16 p 4 = unat opc then Some (Hci_complete (p ! 6) (drop 6 p))
      else if p ! 0 = 0x04 \<and> p ! 1 = 0x0f \<and> length p \<ge> 7 \<and> get16 p 5 = unat opc then Some (Hci_status (p ! 3))
      else None)"

text \<open>The status (\<open>None\<close>: no answer) and the caller's buffer, with the return
  parameters over its first bytes.\<close>

fun hci_wait :: "'w ha_env \<Rightarrow> u16 \<Rightarrow> bytes \<Rightarrow> bytes option list \<Rightarrow> 'w ha \<Rightarrow> u8 option \<times> bytes \<times> 'w ha" where
  "hci_wait env opc ret [] s = (None, ret, s\<lparr>ha_in := []\<rparr>)"
| "hci_wait env opc ret (None # ps) s = (None, ret, s\<lparr>ha_in := ps\<rparr>)"
| "hci_wait env opc ret (Some p # ps) s =
     (if p = [] then hci_wait env opc ret ps s
      else case cmd_answer opc p of
             Some (Hci_complete st r) \<Rightarrow>
               (Some st, take (length ret) r @ drop (length r) ret, s\<lparr>ha_in := ps\<rparr>)
           | Some (Hci_status st) \<Rightarrow> (Some st, ret, s\<lparr>ha_in := ps\<rparr>)
           | None \<Rightarrow> hci_wait env opc ret ps (handle_packet env p s))"

definition hci_cmd :: "'w ha_env \<Rightarrow> u16 \<Rightarrow> bytes \<Rightarrow> bytes \<Rightarrow> 'w ha \<Rightarrow> u8 option \<times> bytes \<times> 'w ha" where
  "hci_cmd env opc param ret s =
     (let pkt = [0x01, ucast opc, ucast (drop_bit 8 opc), of_nat (length param)] @ param in
      if \<not> e_tx_ok env (ha_sent s) pkt then (None, ret, s)
      else hci_wait env opc ret (ha_in s) (s\<lparr>ha_sent := ha_sent s @ [pkt]\<rparr>))"

text \<open>\<open>r0\<close>: the 16 bytes of \<open>r\<close> before the first answer.\<close>

definition hci_buffers :: "'w ha_env \<Rightarrow> bytes \<Rightarrow> 'w ha \<Rightarrow> 'w ha" where
  "hci_buffers env r s =
     (let (st, r, s) = hci_cmd env 0x2002 [] r s in
      if st = Some 0 \<and> get16 r 1 \<noteq> 0 then s\<lparr>ha_acl_len := get16 r 1, ha_credits := ucast (r ! 3)\<rparr>
      else let (st, r, s) = hci_cmd env 0x1005 [] r s in
        if st = Some 0 then s\<lparr>ha_acl_len := get16 r 1, ha_credits := of_nat (get16 r 4)\<rparr> else s)"

definition hci_init :: "'w ha_env \<Rightarrow> bytes \<Rightarrow> 'w ha \<Rightarrow> bool \<times> 'w ha" where
  "hci_init env r0 s =
     (let (st, _, s) = hci_cmd env 0x0c03 [] [] s in
      if st \<noteq> Some 0 then (False, s)
      else let (st, _, s) = hci_cmd env 0x0c01 [0xff, 0xff, 0xff, 0xff, 0xff, 0x1f, 0x00, 0x20] [] s in
      if st \<noteq> Some 0 then (False, s)
      else let (st, _, s) = hci_cmd env 0x2001 [0x1f, 0, 0, 0, 0, 0, 0, 0] [] s in
      if st \<noteq> Some 0 then (False, s)
      else let (st, r, s) = hci_cmd env 0x1009 [] r0 s in
      if st \<noteq> Some 0 then (False, s)
      else let s = hci_buffers env r (s\<lparr>ha_bdaddr := take 6 (drop 1 r)\<rparr>)
           in (True, if ha_acl_len s < 27 then s\<lparr>ha_acl_len := 27\<rparr> else s))"

definition set_scan :: "'w ha_env \<Rightarrow> bool \<Rightarrow> 'w ha \<Rightarrow> 'w ha" where
  "set_scan env on s =
     (if on = ha_scanning s then s
      else let (st, _, s) = (if on then hci_cmd env 0x200b [0x01, 0x00, 0x02, 0x30, 0x00, 0x00, 0x00] [] s
                             else (Some 0, [], s)) in
        if st \<noteq> Some 0 then s
        else let (st, _, s) = hci_cmd env 0x200c [of_bool on, 0x00] [] s
             in if st = Some 0 then s\<lparr>ha_scanning := on\<rparr> else s)"

definition adv_block :: "bytes \<Rightarrow> bytes" where
  "adv_block d = of_nat (length d) # d @ replicate (31 - length d) 0"

definition adv_setup :: "'w ha_env \<Rightarrow> 'w ha \<Rightarrow> 'w ha" where
  "adv_setup env s =
     (let s = snd (snd (hci_cmd env 0x2008 (adv_block (hci_improv_adv_data (g_state (ha_gatt s)) (g_caps (ha_gatt s)))) [] s)) in
      if ha_advertising s then s
      else let s = snd (snd (hci_cmd env 0x2009 (adv_block (hci_name_data (info_name (ha_info s)))) [] s))
           in snd (snd (hci_cmd env 0x2006
                [0xa0, 0x00, 0x40, 0x01, 0x00, 0x00, 0x00, 0, 0, 0, 0, 0, 0, 0x07, 0x00] [] s)))"

definition set_advertising :: "'w ha_env \<Rightarrow> bool \<Rightarrow> 'w ha \<Rightarrow> 'w ha" where
  "set_advertising env on s =
     (let s = (if on then adv_setup env s else s);
          s = (if on \<noteq> ha_advertising s
               then let (st, _, s) = hci_cmd env 0x200a [of_bool on] [] s
                    in if st = Some 0 then s\<lparr>ha_advertising := on\<rparr> else s
               else s)
      in s\<lparr>ha_adv_dirty := False\<rparr>)"

section \<open>Clients of the native API\<close>

definition client_close :: "client \<Rightarrow> client" where
  "client_close c = c\<lparr>c_fd := None, c_buf := [], c_sub := False, c_in := []\<rparr>"

definition client_send :: "'w ha_env \<Rightarrow> u32 \<Rightarrow> bytes \<Rightarrow> client \<Rightarrow> client" where
  "client_send env ty msg c =
     (if length msg + 12 > 1200 then c
      else let f = api_frame ty msg in
        if e_send_ok env (the (c_fd c)) (c_out c) f then c\<lparr>c_out := c_out c @ [f]\<rparr> else client_close c)"

definition client_message :: "'w ha_env \<Rightarrow> api_info \<Rightarrow> u32 \<Rightarrow> client \<Rightarrow> client" where
  "client_message env info ty c =
     (if ty = 1 then client_send env 2 (api_hello info) c
      else if ty = 5 then
        let c = client_send env 6 [] c in if c_fd c \<noteq> None then client_close c else c
      else if ty = 7 then client_send env 8 [] c
      else if ty = 9 then client_send env 10 (api_device_info info) c
      else if ty = 11 then client_send env 19 [] c
      else if ty = 66 then c\<lparr>c_sub := True\<rparr>
      else if ty = 87 then c\<lparr>c_sub := False\<rparr>
      else if ty = 80 then client_send env 81 [] c
      else c)"

lemma client_message_buf:
  "c_buf (client_message env info ty c) = c_buf c \<or> c_buf (client_message env info ty c) = []"
  by (simp add: client_message_def client_send_def client_close_def Let_def)

text \<open>The last component: the last \<open>api_next\<close> failed.\<close>

function client_msgs :: "'w ha_env \<Rightarrow> api_info \<Rightarrow> nat \<Rightarrow> client \<Rightarrow> client \<times> nat \<times> bool" where
  "client_msgs env info used c =
     (if c_fd c = None then (c, used, False)
      else case api_next (drop used (c_buf c)) of
             Api_incomplete \<Rightarrow> (c, used, False)
           | Api_bad \<Rightarrow> (c, used, True)
           | Api_frame r ty msg \<Rightarrow> client_msgs env info (used + r) (client_message env info ty c))"
  by pat_completeness auto
termination
proof (relation "measure (\<lambda>(env, info, used, c). length (c_buf c) - used)", simp, goal_cases)
  case (1 env info used c r ty msg)
  then have "3 \<le> r" "r \<le> length (drop used (c_buf c))"
    using next_bounds(1,2) by fast+
  then show ?case
    using client_message_buf [of env info ty c] by auto
qed

declare client_msgs.simps [simp del]

datatype recv = Recv_again | Recv_error | Recv nat

definition client_read :: "'w ha_env \<Rightarrow> api_info \<Rightarrow> recv \<Rightarrow> client \<Rightarrow> client" where
  "client_read env info rv c =
     (case rv of
        Recv_again \<Rightarrow> c
      | Recv_error \<Rightarrow> client_close c
      | Recv k \<Rightarrow>
          let n = min k (1024 - length (c_buf c)); d = take n (c_in c) in
          if d = [] then client_close c
          else let c = c\<lparr>c_buf := c_buf c @ d, c_in := drop n (c_in c)\<rparr>;
                   (c, used, bad) = client_msgs env info 0 c
               in if c_fd c = None then c
                  else if bad \<or> (used = 0 \<and> length (c_buf c) = 1024) then client_close c
                  else c\<lparr>c_buf := drop used (c_buf c)\<rparr>)"

fun put_client :: "nat \<Rightarrow> client list \<Rightarrow> client list" where
  "put_client fd [] = []"
| "put_client fd (c # cs) = (if c_fd c = None then c\<lparr>c_fd := Some fd\<rparr> # cs else c # put_client fd cs)"

definition accept_client :: "nat option \<Rightarrow> 'w ha \<Rightarrow> 'w ha" where
  "accept_client afd s = (case afd of None \<Rightarrow> s | Some fd \<Rightarrow> s\<lparr>ha_clients := put_client fd (ha_clients s)\<rparr>)"

definition flush_batch :: "'w ha_env \<Rightarrow> 'w ha \<Rightarrow> 'w ha" where
  "flush_batch env s =
     (if ha_batch s = [] then s
      else let msg = api_adv_batch (ha_batch s)
           in s\<lparr>ha_batch := [],
                ha_clients := map (\<lambda>c. if c_fd c \<noteq> None \<and> c_sub c then client_send env 93 msg c else c) (ha_clients s)\<rparr>)"

definition subscribers :: "'w ha \<Rightarrow> nat" where
  "subscribers s = length (filter (\<lambda>c. c_fd c \<noteq> None \<and> c_sub c) (ha_clients s))"

section \<open>The loop\<close>

definition poll_timeout :: "'w ha_env \<Rightarrow> 'w ha \<Rightarrow> int" where
  "poll_timeout env s =
     (let left = ha_batch_ms s + 100 - e_now_ms env in
      if ha_batch s \<noteq> [] then (if left > 0 then left else 0)
      else if ha_join_id s \<noteq> None \<or> ha_identify_end s \<noteq> 0 \<or> ha_done_at s \<noteq> 0 then 1000
      else if ha_improv s then 5000 else -1)"

definition check_networks :: "'w ha_env \<Rightarrow> 'w ha \<Rightarrow> 'w ha" where
  "check_networks env s =
     (let (n, w) = wpa_networks (e_req env) (ha_wpa s); s = s\<lparr>ha_check_at := e_now env + 5, ha_wpa := w\<rparr>
      in case n of
           Some (Suc _) \<Rightarrow> set_advertising env False (s\<lparr>ha_improv := False\<rparr>)
         | _ \<Rightarrow> s)"

definition timers :: "'w ha_env \<Rightarrow> 'w ha \<Rightarrow> 'w ha" where
  "timers env s =
     (let s = (if ha_batch s \<noteq> [] \<and> e_now_ms env \<ge> ha_batch_ms s + 100 then flush_batch env s else s);
          s = (if ha_join_id s \<noteq> None then join_poll env s else s);
          s = (if ha_identify_end s \<noteq> 0 \<and> e_now env \<ge> ha_identify_end s then identify env False s else s);
          s = (if ha_done_at s \<noteq> 0 \<and> e_now env \<ge> ha_done_at s \<and> ha_conn s = None
               then set_advertising env False (s\<lparr>ha_improv := False, ha_done_at := 0\<rparr>) else s)
      in if ha_improv s \<and> ha_join_id s = None \<and> ha_done_at s = 0 \<and> ha_conn s = None \<and> e_now env \<ge> ha_check_at s
         then check_networks env s else s)"

text \<open>What one pass of the loop meets: \<open>stop\<close>, the result of \<open>poll\<close>, the packet read
  (\<open>None\<close>: the read failed), the connection accepted, and one \<open>recv\<close> per client.\<close>

record 'w round =
  r_env :: "'w ha_env"
  r_stop :: bool
  r_poll_ok :: bool
  r_hci :: "bytes option option"
  r_accept :: "nat option option"
  r_recv :: "recv option list"
  r_in :: "bytes option list"

definition read_clients :: "'w ha_env \<Rightarrow> recv option list \<Rightarrow> 'w ha \<Rightarrow> 'w ha" where
  "read_clients env rvs s =
     s\<lparr>ha_clients := map (\<lambda>(c, rv). case rv of
        Some rv \<Rightarrow> if c_fd c \<noteq> None then client_read env (ha_info s) rv c else c
      | None \<Rightarrow> c) (zip (ha_clients s) (rvs @ replicate (length (ha_clients s)) None))\<rparr>"

definition run_prepare :: "'w ha_env \<Rightarrow> 'w ha \<Rightarrow> 'w ha" where
  "run_prepare env s =
     (let s = (if ha_adv_dirty s \<and> ha_improv s \<and> ha_conn s = None then set_advertising env True s else s)
      in set_scan env (subscribers s > 0) s)"

definition run_hci :: "'w ha_env \<Rightarrow> bytes option option \<Rightarrow> 'w ha \<Rightarrow> 'w ha" where
  "run_hci env pkt s = (case pkt of Some (Some p) \<Rightarrow> if p \<noteq> [] then handle_packet env p s else s | _ \<Rightarrow> s)"

definition run_events :: "'w round \<Rightarrow> 'w ha \<Rightarrow> 'w ha" where
  "run_events r s =
     (let env = r_env r;
          s = run_hci env (r_hci r) s;
          s = (case r_accept r of Some afd \<Rightarrow> accept_client afd s | None \<Rightarrow> s);
          s = read_clients env (r_recv r) s;
          s = (if length (ha_batch s) \<ge> ADV_BATCH then flush_batch env s else s)
      in timers env s)"

definition run_body :: "'w round \<Rightarrow> 'w ha \<Rightarrow> bool \<times> 'w ha" where
  "run_body r s =
     (let s = run_prepare (r_env r) (s\<lparr>ha_in := r_in r\<rparr>)
      in if \<not> r_poll_ok r \<or> r_hci r = Some None then (False, s) else (True, run_events r s))"

fun run :: "'w round list \<Rightarrow> 'w ha \<Rightarrow> 'w ha" where
  "run [] s = s"
| "run (r # rs) s =
     (if r_stop r \<or> \<not> (ha_proxy s \<or> ha_improv s) then s
      else case run_body r s of (go, s) \<Rightarrow> if go then run rs s else s)"

definition ha_exit :: "'w ha_env \<Rightarrow> 'w ha \<Rightarrow> 'w ha" where
  "ha_exit env s =
     (let s = set_advertising env False (set_scan env False s)
      in case ha_join_id s of
           None \<Rightarrow> s
         | Some nid \<Rightarrow> s\<lparr>ha_wpa := snd (wpa_finish (e_req env) nid False (ha_wpa s))\<rparr>)"

section \<open>The start\<close>

text \<open>\<open>stops\<close>: what \<open>stop\<close> is after each answer.\<close>

fun improv_needed :: "'w supplicant \<Rightarrow> bool list \<Rightarrow> nat \<Rightarrow> 'w \<Rightarrow> bool \<times> 'w" where
  "improv_needed req stops 0 w = (False, w)"
| "improv_needed req stops (Suc i) w =
     (case wpa_networks req w of
        (Some n, w) \<Rightarrow> (n = 0, w)
      | (None, w) \<Rightarrow> (case stops of True # _ \<Rightarrow> (False, w) | _ \<Rightarrow> improv_needed req (drop 1 stops) i w))"

definition ha_static :: "bool \<Rightarrow> bool \<Rightarrow> bytes option list \<Rightarrow> 'w \<Rightarrow> 'w ha" where
  "ha_static proxy improv inp w =
     \<lparr>ha_acl_len = 0, ha_credits = 0, ha_conn_sent = 0, ha_bdaddr = replicate 6 0, ha_scanning = False,
      ha_batch = [], ha_batch_ms = 0, ha_improv = improv, ha_advertising = False, ha_adv_dirty = False,
      ha_conn = None, ha_l2 = [], ha_rpc = [],
      ha_gatt = \<lparr>g_name = [], g_state = 0, g_error = 0, g_caps = 0, g_result = [], g_cccd = [0, 0, 0],
                 g_mtu = 0, g_mtu_max = 0, g_prep = []\<rparr>,
      ha_join_id = None, ha_join_end = 0, ha_identify_end = 0, ha_done_at = 0, ha_check_at = 0,
      ha_proxy = proxy,
      ha_clients = replicate 4 \<lparr>c_fd = None, c_buf = [], c_sub = False, c_in = [], c_out = []\<rparr>,
      ha_info = \<lparr>info_name = [], info_mac = [], info_bt_mac = [], info_model = []\<rparr>, ha_in = inp, ha_sent = [], ha_led = [], ha_wpa = w\<rparr>"

text \<open>What the system gives: the host name, the files, the directory of the processes,
  whether there is an LED, and the results of \<open>hci_open_user\<close> and \<open>open_listener\<close>.\<close>

record host =
  h_name :: bytes
  h_files :: "string \<Rightarrow> bytes option"
  h_procs :: "string list option"
  h_led :: bool
  h_open :: "int \<Rightarrow> bool"
  h_listen :: bool

text \<open>The first line of a file as the C string in a buffer of \<open>len\<close> bytes.\<close>

definition read_line :: "host \<Rightarrow> string \<Rightarrow> nat \<Rightarrow> bytes" where
  "read_line h path len =
     (case h_files h path of None \<Rightarrow> [] | Some s \<Rightarrow> takeWhile (\<lambda>b. b \<noteq> 0 \<and> b \<noteq> 10) (take (len - 1) s))"

definition upper :: "u8 \<Rightarrow> u8" where
  "upper b = (if 97 \<le> b \<and> b \<le> 102 then b - 32 else b)"

definition hex_upper :: "u8 \<Rightarrow> u8" where
  "hex_upper d = (if d < 10 then 48 + d else 55 + d)"

definition hex2 :: "u8 \<Rightarrow> bytes" where
  "hex2 b = [hex_upper (drop_bit 4 b), hex_upper (b AND 15)]"

definition bt_mac :: "bytes \<Rightarrow> bytes" where
  "bt_mac a = hex2 (a ! 5) @ concat (map (\<lambda>i. 58 # hex2 (a ! i)) [4, 3, 2, 1, 0])"

definition setup_info :: "host \<Rightarrow> 'w ha \<Rightarrow> 'w ha" where
  "setup_info h s =
     s\<lparr>ha_info := \<lparr>info_name = takeWhile (\<lambda>b. b \<noteq> 0) (take 63 (h_name h)),
        info_mac = map upper (read_line h ''/sys/class/net/wlan0/address'' 18),
        info_bt_mac = bt_mac (ha_bdaddr s),
        info_model = read_line h ''/proc/device-tree/model'' 64\<rparr>\<rparr>"

definition running :: "host \<Rightarrow> bytes \<Rightarrow> bool" where
  "running h name =
     (case h_procs h of
        None \<Rightarrow> False
      | Some ds \<Rightarrow>
          list_ex (\<lambda>d. d \<noteq> [] \<and> hd d \<in> set ''123456789'' \<and> read_line h (''/proc/'' @ take 20 d @ ''/comm'') 32 = name) ds)"

text \<open>From the options to the loop.  \<open>Inl\<close>: the exit status.\<close>

definition ha_start ::
  "'w ha_env \<Rightarrow> bool \<Rightarrow> bool \<Rightarrow> int \<Rightarrow> bool list \<Rightarrow> bytes \<Rightarrow> host \<Rightarrow> bytes option list \<Rightarrow> 'w \<Rightarrow> nat + 'w ha" where
  "ha_start env proxy want_improv dev stops r0 h inp w =
     (let (improv, w) = (if want_improv then improv_needed (e_req env) stops 30 w else (False, w)) in
      if \<not> proxy \<and> \<not> improv then Inl 0
      else if running h (c_str ''bluetoothd'') \<or> \<not> h_open h dev then Inl 1
      else let (ok, s) = hci_init env r0 (ha_static proxy improv inp w) in
        if \<not> ok then Inl 1
        else let s = setup_info h s;
                 g = gatt_init (info_name (ha_info s)) (if h_led h then 0x02 OR 0x01 else 0x02);
                 s = s\<lparr>ha_gatt := g\<lparr>g_mtu_max := (if ha_acl_len s - 4 < 247 then ha_acl_len s - 4 else 247)\<rparr>\<rparr>
             in if proxy \<and> \<not> h_listen h then Inl 1
                else Inr (if ha_improv s then s\<lparr>ha_adv_dirty := True\<rparr> else s))"

text \<open>The results of \<open>getopt\<close> with \<open>pid:h\<close>: the option, or \<open>?\<close>, and its argument.\<close>

fun ha_options :: "(char \<times> string) list \<Rightarrow> bool \<times> bool \<times> int \<Rightarrow> nat + bool \<times> bool \<times> int" where
  "ha_options [] opts = Inr opts"
| "ha_options ((c, arg) # os) (proxy, want_improv, dev) =
     (if c = CHR ''p'' then ha_options os (True, want_improv, dev)
      else if c = CHR ''i'' then ha_options os (proxy, True, dev)
      else if c = CHR ''d'' then ha_options os (proxy, want_improv, atoi arg)
      else Inl (if c = CHR ''h'' then 0 else 2))"

text \<open>\<open>main\<close>: the exit status, or the state at the end after the rounds of \<open>run\<close>.\<close>

definition ha_main ::
  "'w ha_env \<Rightarrow> (char \<times> string) list \<Rightarrow> bool list \<Rightarrow> bytes \<Rightarrow> host \<Rightarrow> bytes option list \<Rightarrow> 'w \<Rightarrow> 'w round list \<Rightarrow> nat + 'w ha" where
  "ha_main env os stops r0 h inp w rs =
     (case ha_options os (False, False, 0) of
        Inl st \<Rightarrow> Inl st
      | Inr (proxy, want_improv, dev) \<Rightarrow>
          (case ha_start env proxy want_improv dev stops r0 h inp w of
             Inl st \<Rightarrow> Inl st
           | Inr s \<Rightarrow> Inr (ha_exit env (run rs s))))"

end
