(* ===== verification/Ble_Ha_Inv.thy ===== *)
theory Ble_Ha_Inv
  imports Ble_Ha
begin

text \<open>
  Properties of the daemon \<open>ble-ha.c\<close> (theory Ble_Ha).  The locale \<open>packet_inv\<close> is
  the interface between the handler of packets and the commands that wait for an
  answer: a predicate that every packet keeps is kept by every command.  Its
  interpretations are the bounds of the buffers, the well-formedness of the ATT
  server and the state machine of Improv.  The lemmas show that these hold in
  the whole loop, the accounting of the controller's buffers, the reassembly of
  L2CAP frames, and that a client's byte stream is read the same way however TCP
  cuts it.
\<close>

section \<open>What a handler leaves alone\<close>

lemma acl_send_frame [simp]:
  "ha_gatt (acl_send env cid d s) = ha_gatt s" "ha_join_id (acl_send env cid d s) = ha_join_id s"
  "ha_l2 (acl_send env cid d s) = ha_l2 s" "ha_rpc (acl_send env cid d s) = ha_rpc s"
  "ha_batch (acl_send env cid d s) = ha_batch s" "ha_clients (acl_send env cid d s) = ha_clients s"
  "ha_acl_len (acl_send env cid d s) = ha_acl_len s" "ha_conn (acl_send env cid d s) = ha_conn s"
  "ha_info (acl_send env cid d s) = ha_info s" "ha_wpa (acl_send env cid d s) = ha_wpa s"
  "ha_scanning (acl_send env cid d s) = ha_scanning s"
  by (auto simp: acl_send_def split: option.splits)

lemma notify_frame [simp]:
  "ha_gatt (notify env h v s) = ha_gatt s" "ha_join_id (notify env h v s) = ha_join_id s"
  "ha_l2 (notify env h v s) = ha_l2 s" "ha_rpc (notify env h v s) = ha_rpc s"
  "ha_batch (notify env h v s) = ha_batch s" "ha_clients (notify env h v s) = ha_clients s"
  "ha_acl_len (notify env h v s) = ha_acl_len s" "ha_conn (notify env h v s) = ha_conn s"
  "ha_info (notify env h v s) = ha_info s" "ha_wpa (notify env h v s) = ha_wpa s"
  "ha_scanning (notify env h v s) = ha_scanning s"
  by (simp_all add: notify_def Let_def)

lemma set_state_frame [simp]:
  "ha_gatt (set_state env st err s) = (ha_gatt s)\<lparr>g_state := st, g_error := err\<rparr>"
  "ha_join_id (set_state env st err s) = ha_join_id s"
  "ha_l2 (set_state env st err s) = ha_l2 s" "ha_rpc (set_state env st err s) = ha_rpc s"
  "ha_batch (set_state env st err s) = ha_batch s" "ha_clients (set_state env st err s) = ha_clients s"
  "ha_acl_len (set_state env st err s) = ha_acl_len s" "ha_conn (set_state env st err s) = ha_conn s"
  "ha_info (set_state env st err s) = ha_info s" "ha_wpa (set_state env st err s) = ha_wpa s"
  "ha_scanning (set_state env st err s) = ha_scanning s"
  by (simp_all add: set_state_def Let_def)

lemma set_result_frame [simp]:
  "ha_gatt (set_result env cmd ss s) = (ha_gatt s)\<lparr>g_result := improv_result cmd ss\<rparr>"
  "ha_join_id (set_result env cmd ss s) = ha_join_id s"
  "ha_l2 (set_result env cmd ss s) = ha_l2 s" "ha_rpc (set_result env cmd ss s) = ha_rpc s"
  "ha_batch (set_result env cmd ss s) = ha_batch s" "ha_clients (set_result env cmd ss s) = ha_clients s"
  "ha_acl_len (set_result env cmd ss s) = ha_acl_len s" "ha_conn (set_result env cmd ss s) = ha_conn s"
  "ha_info (set_result env cmd ss s) = ha_info s" "ha_wpa (set_result env cmd ss s) = ha_wpa s"
  "ha_scanning (set_result env cmd ss s) = ha_scanning s"
  by (simp_all add: set_result_def Let_def)

lemma identify_frame [simp]:
  "ha_gatt (identify env on s) = ha_gatt s" "ha_join_id (identify env on s) = ha_join_id s"
  "ha_l2 (identify env on s) = ha_l2 s" "ha_rpc (identify env on s) = ha_rpc s"
  "ha_batch (identify env on s) = ha_batch s" "ha_clients (identify env on s) = ha_clients s"
  "ha_acl_len (identify env on s) = ha_acl_len s" "ha_conn (identify env on s) = ha_conn s"
  "ha_info (identify env on s) = ha_info s" "ha_credits (identify env on s) = ha_credits s"
  "ha_conn_sent (identify env on s) = ha_conn_sent s"
  by (simp_all add: identify_def)

lemma gatt_handle_state:
  "gatt_handle g req room = (rsp, g', rpc) \<Longrightarrow> g_state g' = g_state g"
  by (auto simp: gatt_handle_def Let_def write_value_def split: if_splits prod.splits option.splits)

section \<open>The Improv state machine\<close>

definition improv_move :: "u8 \<times> bool \<Rightarrow> u8 \<times> bool \<Rightarrow> bool" where
  "improv_move a b \<longleftrightarrow> b = a \<or>
     (fst a = IMPROV_AUTHORIZED \<and> b \<in> {(IMPROV_AUTHORIZED, False), (IMPROV_PROVISIONING, True)})"

definition improv_of :: "'w ha \<Rightarrow> u8 \<times> bool" where
  "improv_of s = (g_state (ha_gatt s), ha_join_id s \<noteq> None)"

lemma improv_move_refl [simp]: "improv_move a a"
  by (simp add: improv_move_def)

lemma improv_move_cong: "improv_move (improv_of s) b \<Longrightarrow> improv_of s = improv_of s' \<Longrightarrow> improv_move (improv_of s') b"
  by simp

lemma improv_command_move: "improv_move (improv_of s) (improv_of (improv_command env c s))"
  by (auto simp: improv_command_def improv_of_def improv_move_def Let_def split: prod.splits)

lemma rpc_write_move: "improv_move (improv_of s) (improv_of (rpc_write env d s))"
proof -
  have "improv_of s = improv_of (set_state env (g_state (ha_gatt s)) IMPROV_ERR_NONE (s\<lparr>ha_rpc := []\<rparr>))"
    by (simp add: improv_of_def)
  then have "improv_move (improv_of s)
     (improv_of (improv_command env c (set_state env (g_state (ha_gatt s)) IMPROV_ERR_NONE (s\<lparr>ha_rpc := []\<rparr>))))" for c
    using improv_command_move by metis
  then show ?thesis
    by (auto simp: rpc_write_def Let_def improv_of_def split: prod.splits)
qed

lemma l2cap_frame_move: "improv_move (improv_of s) (improv_of (l2cap_frame env cid p s))"
proof -
  obtain rsp g rpc where g: "gatt_handle (ha_gatt s) p (min 256 (unat (of_nat (ha_acl_len s) - 4 :: u32))) = (rsp, g, rpc)"
    by (metis surj_pair)
  have "improv_of (s\<lparr>ha_gatt := g\<rparr>) = improv_of s"
    using gatt_handle_state [OF g] by (simp add: improv_of_def)
  then have "improv_move (improv_of s) (improv_of (rpc_write env d (s\<lparr>ha_gatt := g\<rparr>)))" for d
    using rpc_write_move [of "s\<lparr>ha_gatt := g\<rparr>" env d] by simp
  then show ?thesis
    using g \<open>improv_of (s\<lparr>ha_gatt := g\<rparr>) = improv_of s\<close>
    by (auto simp: l2cap_frame_def Let_def improv_of_def min_def not_less split: option.splits if_splits)
qed

lemma handle_acl_eq:
  assumes "l2 = (if drop_bit 4 (p ! 2) AND 3 \<noteq> 1 then [] else ha_l2 s)" and "x = l2 @ take (get16 p 3) (drop 5 p)"
  shows "handle_acl env p s =
     (if length p < 5 \<or> get16 p 3 + 5 > length p then s
      else if length l2 + get16 p 3 > 256 then s\<lparr>ha_l2 := []\<rparr>
      else if length x < 4 \<or> length x < get16 x 0 + 4 then s\<lparr>ha_l2 := x\<rparr>
      else (l2cap_frame env (get16 x 2) (take (get16 x 0) (drop 4 x)) (s\<lparr>ha_l2 := x\<rparr>))\<lparr>ha_l2 := []\<rparr>)"
proof -
  have s': "(if drop_bit 4 (p ! 2) AND 3 \<noteq> 1 then s\<lparr>ha_l2 := []\<rparr> else s) = s\<lparr>ha_l2 := l2\<rparr>"
    by (simp add: assms(1))
  show ?thesis
    unfolding handle_acl_def Let_def s' assms(2) by simp
qed

lemma handle_acl_cases:
  obtains "handle_acl env p s = s"
  | x where "length x \<le> 256" "handle_acl env p s = s\<lparr>ha_l2 := x\<rparr>"
  | cid q x where "length x \<le> 256" "handle_acl env p s = (l2cap_frame env cid q (s\<lparr>ha_l2 := x\<rparr>))\<lparr>ha_l2 := []\<rparr>"
proof -
  define l2 where "l2 = (if drop_bit 4 (p ! 2) AND 3 \<noteq> 1 then [] else ha_l2 s)"
  define x where "x = l2 @ take (get16 p 3) (drop 5 p)"
  note h = handle_acl_eq [OF l2_def x_def, of env]
  consider "length p < 5 \<or> get16 p 3 + 5 > length p"
    | "\<not> (length p < 5 \<or> get16 p 3 + 5 > length p)" "length l2 + get16 p 3 > 256"
    | "\<not> (length p < 5 \<or> get16 p 3 + 5 > length p)" "\<not> length l2 + get16 p 3 > 256"
    by blast
  then show ?thesis
  proof cases
    case 3
    then have "length x \<le> 256"
      by (simp add: x_def)
    then show ?thesis
      using 3 h that(2,3) by (metis (no_types, lifting))
  qed (use h that(1) that(2) [of "[]"] in simp_all)
qed

lemma handle_packet_cases:
  obtains "handle_packet env p s = s"
  | "handle_packet env p s = handle_acl env p s"
  | t ads where "length (ha_batch s @ ads) \<le> ADV_BATCH \<or> ads = []"
      "handle_packet env p s = s\<lparr>ha_batch_ms := t, ha_batch := ha_batch s @ ads\<rparr>"
  | conn where "handle_packet env p s = s\<lparr>ha_conn := Some conn, ha_advertising := False, ha_l2 := [], ha_rpc := [],
      ha_gatt := (ha_gatt s)\<lparr>g_mtu := 23, g_cccd := [0, 0, 0], g_prep := []\<rparr>\<rparr>"
  | "handle_packet env p s =
      s\<lparr>ha_credits := ha_credits s + ha_conn_sent s, ha_conn_sent := 0, ha_conn := None, ha_adv_dirty := True\<rparr>"
  | n where "p ! 0 = 0x04" "p ! 1 = 0x13" "8 \<le> length p" "n = of_nat (get16 p 6)"
      "handle_packet env p s = s\<lparr>ha_credits := ha_credits s + n,
        ha_conn_sent := ha_conn_sent s - (if n < ha_conn_sent s then n else ha_conn_sent s)\<rparr>"
proof -
  consider (none) "length p < 3 \<or> (p ! 0 \<noteq> 0x02 \<and> p ! 0 \<noteq> 0x04)" | (acl) "3 \<le> length p" "p ! 0 = 0x02"
    | (meta) "3 \<le> length p" "p ! 0 = 0x04" "p ! 1 = 0x3e" | (disc) "3 \<le> length p" "p ! 0 = 0x04" "p ! 1 = 0x05"
    | (compl) "3 \<le> length p" "p ! 0 = 0x04" "p ! 1 = 0x13"
    | (other) "3 \<le> length p" "p ! 0 = 0x04" "p ! 1 \<noteq> 0x3e" "p ! 1 \<noteq> 0x05" "p ! 1 \<noteq> 0x13"
    by linarith
  then show ?thesis
  proof cases
    case meta
    define ads where "ads = hci_parse_adv_reports (tl p) 8"
    have h: "handle_packet env p s = le_meta env (tl p) s"
      using meta by (simp add: handle_packet_def)
    show ?thesis
    proof (cases "length (tl p) < 3 \<or> \<not> (tl p ! 2 = 0x02 \<and> ha_scanning s)")
      case True
      then have "le_meta env (tl p) s = s \<or> (le_meta env (tl p) s =
          s\<lparr>ha_conn := Some (of_nat (get16 (tl p) 4) AND 0x0fff), ha_advertising := False, ha_l2 := [], ha_rpc := [],
            ha_gatt := (ha_gatt s)\<lparr>g_mtu := 23, g_cccd := [0, 0, 0], g_prep := []\<rparr>\<rparr>)"
        unfolding le_meta_def by (simp only: de_Morgan_conj if_True if_False split: if_split) blast
      then show ?thesis
        using that(1,4) h by metis
    next
      case False
      have "handle_packet env p s = s\<lparr>ha_batch_ms := (if ads \<noteq> [] \<and> ha_batch s = [] then e_now_ms env else ha_batch_ms s),
          ha_batch := ha_batch s @ take (ADV_BATCH - length (ha_batch s)) ads\<rparr>"
        unfolding h using False by (simp add: le_meta_def Let_def ads_def)
      moreover have "length (ha_batch s @ take (ADV_BATCH - length (ha_batch s)) ads) \<le> ADV_BATCH \<or>
          take (ADV_BATCH - length (ha_batch s)) ads = []"
        by auto
      ultimately show ?thesis
        using that(3) by blast
    qed
  next
    case disc
    then show ?thesis
      using that(1,5)
      by (cases "length p \<ge> 6 \<and> ha_conn s = Some (of_nat (get16 p 4) AND 0x0fff)") (simp_all add: handle_packet_def)
  next
    case compl
    then show ?thesis
      using that(1,6) by (cases "length p \<ge> 8") (simp_all add: handle_packet_def Let_def)
  qed (use that(1,2) in \<open>auto simp: handle_packet_def\<close>)
qed

lemma handle_acl_move: "improv_move (improv_of s) (improv_of (handle_acl env p s))"
proof (cases rule: handle_acl_cases [of env p s])
  case (3 cid q x)
  then show ?thesis
    using l2cap_frame_move [of "s\<lparr>ha_l2 := x\<rparr>"] by (simp add: improv_of_def)
qed (simp_all add: improv_of_def)

lemma handle_packet_move: "improv_move (improv_of s) (improv_of (handle_packet env p s))"
  using handle_acl_move [of s env p] by (cases rule: handle_packet_cases [of env p s]) (simp_all add: improv_of_def)

section \<open>Buffers\<close>

definition client_ok :: "client \<Rightarrow> bool" where
  "client_ok c \<longleftrightarrow> length (c_buf c) < 1024 \<and> (c_fd c = None \<longrightarrow> c_buf c = [] \<and> \<not> c_sub c)"

definition ha_bufs :: "'w ha \<Rightarrow> bool" where
  "ha_bufs s \<longleftrightarrow> length (ha_l2 s) \<le> 256 \<and> length (ha_rpc s) \<le> 128 \<and> length (ha_batch s) \<le> ADV_BATCH \<and>
     length (ha_clients s) = 4 \<and> list_all client_ok (ha_clients s)"

lemma improv_command_bufs [simp]: "ha_bufs (improv_command env c s) \<longleftrightarrow> ha_bufs s"
  by (auto simp: improv_command_def ha_bufs_def Let_def split: prod.splits)

lemma rpc_write_bufs: "ha_bufs s \<Longrightarrow> ha_bufs (rpc_write env d s)"
  by (auto simp: rpc_write_def Let_def split: prod.splits) (auto simp: ha_bufs_def)

lemma l2cap_frame_bufs: "ha_bufs s \<Longrightarrow> ha_bufs (l2cap_frame env cid p s)"
proof -
  assume s: "ha_bufs s"
  then have "ha_bufs (s\<lparr>ha_gatt := g\<rparr>)" for g
    by (simp add: ha_bufs_def)
  with rpc_write_bufs have "ha_bufs (rpc_write env d (s\<lparr>ha_gatt := g\<rparr>))" for d g
    by blast
  then show ?thesis
    using s by (simp add: l2cap_frame_def Let_def ha_bufs_def split: prod.split option.split)
qed

lemma handle_packet_bufs: "ha_bufs s \<Longrightarrow> ha_bufs (handle_packet env p s)"
proof -
  assume s: "ha_bufs s"
  have "ha_bufs (handle_acl env p s)"
  proof (cases rule: handle_acl_cases [of env p s])
    case (3 cid q x)
    have "ha_bufs (s\<lparr>ha_l2 := x\<rparr>)"
      using s 3 by (simp add: ha_bufs_def)
    then have "ha_bufs (l2cap_frame env cid q (s\<lparr>ha_l2 := x\<rparr>))"
      by (rule l2cap_frame_bufs)
    then show ?thesis
      using 3 by (simp add: ha_bufs_def)
  qed (use s in \<open>simp_all add: ha_bufs_def\<close>)
  then show ?thesis
    using s by (cases rule: handle_packet_cases [of env p s]) (auto simp: ha_bufs_def)
qed

section \<open>The ATT server in the daemon\<close>

definition ha_server :: "'w ha \<Rightarrow> bool" where
  "ha_server s \<longleftrightarrow> gatt_ok (ha_gatt s) \<and> 27 \<le> ha_acl_len s"

lemma gatt_ok_update [simp]:
  "gatt_ok (g\<lparr>g_state := x\<rparr>) \<longleftrightarrow> gatt_ok g" "gatt_ok (g\<lparr>g_error := x\<rparr>) \<longleftrightarrow> gatt_ok g"
  by (simp_all add: gatt_ok_def)

lemma gatt_ok_result: "gatt_ok g \<Longrightarrow> gatt_ok (g\<lparr>g_result := improv_result cmd ss\<rparr>)"
  using result_body_prefix [of ss 2] by (auto simp: gatt_ok_def improv_result_def Let_def)

lemma improv_command_server: "ha_server s \<Longrightarrow> ha_server (improv_command env c s)"
  by (auto simp: improv_command_def ha_server_def Let_def gatt_ok_result split: prod.splits)

lemma rpc_write_server: "ha_server s \<Longrightarrow> ha_server (rpc_write env d s)"
  by (auto simp: rpc_write_def Let_def split: prod.splits intro!: improv_command_server) (auto simp: ha_server_def)

lemma l2cap_frame_server: "ha_server s \<Longrightarrow> ha_server (l2cap_frame env cid p s)"
proof -
  assume s: "ha_server s"
  define room where "room = min 256 (unat (of_nat (ha_acl_len s) - 4 :: u32))"
  obtain rsp g rpc where g: "gatt_handle (ha_gatt s) p room = (rsp, g, rpc)"
    by (metis surj_pair)
  then have "ha_server (s\<lparr>ha_gatt := g\<rparr>)"
    using s gatt_handle_ok [OF _ g] by (simp add: ha_server_def)
  with rpc_write_server have "ha_server (rpc_write env d (s\<lparr>ha_gatt := g\<rparr>))" for d
    by blast
  moreover have "(if 256 < unat (of_nat (ha_acl_len s) - 4 :: u32) then 256 else unat (of_nat (ha_acl_len s) - 4 :: u32)) = room"
    by (simp add: room_def min_def)
  ultimately show ?thesis
    using s g \<open>ha_server (s\<lparr>ha_gatt := g\<rparr>)\<close>
    by (simp add: l2cap_frame_def Let_def ha_server_def split: prod.split option.split)
qed

lemma handle_packet_server: "ha_server s \<Longrightarrow> ha_server (handle_packet env p s)"
proof -
  assume s: "ha_server s"
  have "ha_server (handle_acl env p s)"
  proof (cases rule: handle_acl_cases [of env p s])
    case (3 cid q x)
    then show ?thesis
      using s l2cap_frame_server [of "s\<lparr>ha_l2 := x\<rparr>" env cid q] by (simp add: ha_server_def)
  qed (use s in \<open>simp_all add: ha_server_def\<close>)
  then show ?thesis
    using s by (cases rule: handle_packet_cases [of env p s]) (auto simp: ha_server_def gatt_ok_def)
qed

section \<open>Commands keep what packets keep\<close>

locale packet_inv =
  fixes P :: "'w ha \<Rightarrow> bool"
  assumes packet: "P s \<Longrightarrow> P (handle_packet env p s)"
    and frame: "P (s\<lparr>ha_in := i\<rparr>) = P s" "P (s\<lparr>ha_sent := o'\<rparr>) = P s" "P (s\<lparr>ha_scanning := b\<rparr>) = P s"
      "P (s\<lparr>ha_advertising := b\<rparr>) = P s" "P (s\<lparr>ha_adv_dirty := b\<rparr>) = P s" "P (s\<lparr>ha_bdaddr := a\<rparr>) = P s"
begin

lemma wait_inv: "P s \<Longrightarrow> hci_wait env opc ret ps s = (st, r, s') \<Longrightarrow> P s'"
  by (induction env opc ret ps s rule: hci_wait.induct)
    (auto simp: frame packet split: if_splits option.splits hci_answer.splits)

lemma cmd_inv: "P s \<Longrightarrow> hci_cmd env opc param ret s = (st, r, s') \<Longrightarrow> P s'"
  using wait_inv [of "s\<lparr>ha_sent := ha_sent s @ [[0x01, ucast opc, ucast (drop_bit 8 opc), of_nat (length param)] @ param]\<rparr>"]
  by (auto simp: hci_cmd_def Let_def frame split: if_splits)

lemma cmd_inv_snd: "P s \<Longrightarrow> P (snd (snd (hci_cmd env opc param ret s)))"
  using cmd_inv [of s env opc param ret] by (metis prod.collapse)

lemma scan_inv: "P s \<Longrightarrow> P (set_scan env on s)"
  by (auto simp: set_scan_def Let_def frame split: prod.splits intro: cmd_inv)

lemma setup_inv: "P s \<Longrightarrow> P (adv_setup env s)"
  by (auto simp: adv_setup_def Let_def intro!: cmd_inv_snd)

lemma advertising_inv: "P s \<Longrightarrow> P (set_advertising env on s)"
  using setup_inv [of s env]
  by (auto simp: set_advertising_def Let_def frame split: prod.splits intro: cmd_inv)

end

locale setup_inv = packet_inv +
  assumes buffers: "P (s\<lparr>ha_acl_len := l\<rparr>) = P s" "P (s\<lparr>ha_credits := cr\<rparr>) = P s"
begin

lemma buffers_inv: "P s \<Longrightarrow> P (hci_buffers env r s)"
  by (auto simp: hci_buffers_def Let_def buffers split: prod.splits intro: cmd_inv)

lemma init_inv: "P s \<Longrightarrow> hci_init env r0 s = (ok, s') \<Longrightarrow> P s'"
  by (auto simp: hci_init_def Let_def buffers frame split: prod.splits if_splits intro!: buffers_inv)
    (meson cmd_inv)+

end

definition improv_ok :: "'w ha \<Rightarrow> bool" where
  "improv_ok s \<longleftrightarrow> g_state (ha_gatt s) \<in> {IMPROV_AUTHORIZED, IMPROV_PROVISIONING, IMPROV_PROVISIONED} \<and>
     (ha_join_id s \<noteq> None \<longleftrightarrow> g_state (ha_gatt s) = IMPROV_PROVISIONING)"

definition improv_idle :: "'w ha \<Rightarrow> bool" where
  "improv_idle s \<longleftrightarrow> g_state (ha_gatt s) = 0 \<and> ha_join_id s = None"

interpretation bufs: setup_inv ha_bufs
  by unfold_locales (simp_all add: handle_packet_bufs, simp_all add: ha_bufs_def)

interpretation server: packet_inv ha_server
  by unfold_locales (simp_all add: handle_packet_server, simp_all add: ha_server_def)

lemma handle_packet_improv: "improv_ok s \<Longrightarrow> improv_ok (handle_packet env p s)"
  using handle_packet_move [of s env p] by (auto simp: improv_move_def improv_of_def improv_ok_def)

lemma handle_packet_idle: "improv_idle s \<Longrightarrow> improv_idle (handle_packet env p s)"
  using handle_packet_move [of s env p] by (auto simp: improv_move_def improv_of_def improv_idle_def)

interpretation improv: packet_inv improv_ok
  by unfold_locales (simp_all add: handle_packet_improv, simp_all add: improv_ok_def)

interpretation idle: setup_inv improv_idle
  by unfold_locales (simp_all add: handle_packet_idle, simp_all add: improv_idle_def)

section \<open>Clients\<close>

lemma client_send_ok: "c_fd c \<noteq> None \<Longrightarrow> client_ok c \<Longrightarrow> client_ok (client_send env ty msg c)"
  by (auto simp: client_send_def client_close_def client_ok_def Let_def)

definition closed :: "client \<Rightarrow> bool" where
  "closed c \<longleftrightarrow> c_fd c = None \<and> c_buf c = [] \<and> \<not> c_sub c \<and> c_in c = []"

lemma closed_close [simp]: "closed (client_close c)"
  by (simp add: closed_def client_close_def)

lemma closed_ok: "closed c \<Longrightarrow> client_ok c"
  by (simp add: closed_def client_ok_def)

definition kept :: "client \<Rightarrow> client \<Rightarrow> bool" where
  "kept c c' \<longleftrightarrow> c_fd c' = c_fd c \<and> c_buf c' = c_buf c \<and> c_in c' = c_in c"

lemma client_send_kept: "kept c (client_send env ty msg c) \<or> closed (client_send env ty msg c)"
  by (simp add: client_send_def Let_def kept_def)

lemma client_message_kept: "kept c (client_message env info ty c) \<or> closed (client_message env info ty c)"
  using client_send_kept [of c env] by (auto simp: client_message_def Let_def) (auto simp: kept_def closed_def)

lemma client_msgs_inv:
  "client_msgs env info used c = (c', used', bad) \<Longrightarrow> used \<le> used' \<and> (kept c c' \<or> closed c')"
proof (induction env info used c rule: client_msgs.induct)
  case (1 env info used c)
  show ?case
  proof (cases "c_fd c = None")
    case True
    then show ?thesis
      using 1(2) by (simp add: client_msgs.simps kept_def)
  next
    case False
    show ?thesis
    proof (cases "api_next (drop used (c_buf c))")
      case (Api_frame r ty msg)
      then have m: "client_msgs env info (used + r) (client_message env info ty c) = (c', used', bad)"
        using 1(2) False by (subst (asm) client_msgs.simps) simp
      note ih = 1(1) [OF False Api_frame m]
      show ?thesis
      proof (cases "closed (client_message env info ty c)")
        case True
        then have "c' = client_message env info ty c"
          using m by (subst (asm) client_msgs.simps) (simp add: closed_def)
        then show ?thesis
          using ih True by simp
      next
        case False
        then show ?thesis
          using ih client_message_kept [of c env info ty] by (auto simp: kept_def)
      qed
    qed (use 1(2) False in \<open>simp_all add: client_msgs.simps kept_def\<close>)
  qed
qed

lemma client_read_ok: "c_fd c \<noteq> None \<Longrightarrow> client_ok c \<Longrightarrow> client_ok (client_read env info rv c)"
proof (cases rv)
  case (Recv k)
  assume c: "c_fd c \<noteq> None" "client_ok c"
  define n where "n = min k (1024 - length (c_buf c))"
  define c1 where "c1 = c\<lparr>c_buf := c_buf c @ take n (c_in c), c_in := drop n (c_in c)\<rparr>"
  obtain c2 used bad where m: "client_msgs env info 0 c1 = (c2, used, bad)"
    by (metis surj_pair)
  have l: "length (c_buf c1) \<le> 1024"
    using c by (auto simp: c1_def n_def client_ok_def)
  have "kept c1 c2 \<or> closed c2"
    using client_msgs_inv [OF m] by blast
  moreover have "client_ok (c2\<lparr>c_buf := drop used (c_buf c2)\<rparr>)"
    if "kept c1 c2" "c_fd c2 \<noteq> None" "\<not> (used = 0 \<and> length (c_buf c2) = 1024)"
    using that l by (auto simp: client_ok_def kept_def)
  moreover have "client_read env info rv c =
     (if take n (c_in c) = [] then client_close c else if c_fd c2 = None then c2
      else if bad \<or> (used = 0 \<and> length (c_buf c2) = 1024) then client_close c2
      else c2\<lparr>c_buf := drop used (c_buf c2)\<rparr>)"
    using m by (simp add: Recv client_read_def Let_def n_def [symmetric] c1_def [symmetric])
  ultimately show ?thesis
    using c by (auto simp: closed_ok) (auto simp: closed_def kept_def c1_def)
qed (simp_all add: client_read_def closed_ok)

section \<open>The byte stream of a client\<close>

definition frames :: "(u32 \<times> bytes) list \<Rightarrow> bytes" where
  "frames ms = concat (map (\<lambda>(ty, msg). api_frame ty msg) ms)"

definition msg_step :: "'w ha_env \<Rightarrow> api_info \<Rightarrow> u32 \<times> bytes \<Rightarrow> client \<Rightarrow> client" where
  "msg_step env info m c = (if c_fd c = None then c else client_message env info (fst m) c)"

definition client_poll :: "'w ha_env \<Rightarrow> api_info \<Rightarrow> nat \<Rightarrow> client \<Rightarrow> client" where
  "client_poll env info k c = (if c_fd c \<noteq> None \<and> c_in c \<noteq> [] then client_read env info (Recv k) c else c)"

definition core :: "client \<Rightarrow> client" where
  "core c = c\<lparr>c_buf := [], c_in := []\<rparr>"

lemma frames_simps [simp]: "frames [] = []" "frames (m # ms) = api_frame (fst m) (snd m) @ frames ms"
  by (auto simp: frames_def split: prod.split)

lemma core_fd [simp]: "c_fd (core c) = c_fd c"
  by (simp add: core_def)

lemma core_closed: "closed c \<Longrightarrow> core c = c"
  by (simp add: closed_def core_def)

lemma core_step: "core (msg_step env info m c) = msg_step env info m (core c)"
  by (auto simp: msg_step_def core_def client_message_def client_send_def client_close_def Let_def)

lemma core_steps: "core (fold (msg_step env info) ms c) = fold (msg_step env info) ms (core c)"
  by (induction ms arbitrary: c) (simp_all add: core_step)

lemma steps_shut: "c_fd c = None \<Longrightarrow> fold (msg_step env info) ms c = c"
  by (induction ms) (simp_all add: msg_step_def)

lemma msg_step_kept: "kept c (msg_step env info m c) \<or> closed (msg_step env info m c)"
  using client_message_kept [of c env info "fst m"] by (auto simp: msg_step_def kept_def)

lemma steps_kept:
  "kept c (fold (msg_step env info) ms c) \<or> closed (fold (msg_step env info) ms c)"
proof (induction ms arbitrary: c)
  case (Cons m ms)
  show ?case
  proof (cases "closed (msg_step env info m c)")
    case True
    then show ?thesis
      using steps_shut [of "msg_step env info m c" env info ms] by (simp add: closed_def)
  next
    case False
    then have "kept c (msg_step env info m c)"
      using msg_step_kept by blast
    then show ?thesis
      using Cons [of "msg_step env info m c"] by (simp add: kept_def)
  qed
qed (simp add: kept_def)

text \<open>One pass of the loop in \<open>client_read\<close> handles every complete frame in the buffer.\<close>

lemma client_msgs_frames:
  assumes "c_buf c = pre @ frames ms @ t" and "api_next t = Api_incomplete"
    and "\<forall>m \<in> set ms. length (snd m) \<le> 4096" and "c_fd c \<noteq> None"
  shows "\<exists>u. client_msgs env info (length pre) c = (fold (msg_step env info) ms c, u, False) \<and>
    (c_fd (fold (msg_step env info) ms c) \<noteq> None \<longrightarrow> u = length pre + length (frames ms))"
  using assms
proof (induction ms arbitrary: c pre)
  case Nil
  then show ?case
    by (subst client_msgs.simps) simp
next
  case (Cons m ms)
  define f where "f = api_frame (fst m) (snd m)"
  have n: "api_next (drop (length pre) (c_buf c)) = Api_frame (length f) (fst m) (snd m)"
    using Cons.prems next_frame [of "snd m" "fst m" "frames ms @ t"] by (simp add: f_def)
  have s: "msg_step env info m c = client_message env info (fst m) c"
    using Cons.prems(4) by (auto simp: msg_step_def)
  have m: "client_msgs env info (length pre) c = client_msgs env info (length (pre @ f)) (msg_step env info m c)"
    using Cons.prems(4) n by (subst client_msgs.simps) (auto simp: s)
  show ?case
  proof (cases "c_fd (msg_step env info m c) = None")
    case True
    then have "client_msgs env info (length (pre @ f)) (msg_step env info m c) = (msg_step env info m c, length (pre @ f), False)"
      by (subst client_msgs.simps) simp
    then show ?thesis
      using True m by (simp add: steps_shut)
  next
    case False
    then have "c_buf (msg_step env info m c) = (pre @ f) @ frames ms @ t"
      using msg_step_kept [of c env info m] Cons.prems(1) by (auto simp: kept_def closed_def f_def)
    from Cons.IH [OF this Cons.prems(2) _ False] show ?thesis
      using Cons.prems(3) m by (simp add: f_def add.assoc)
  qed
qed

lemma frames_split:
  assumes "xs @ ys = frames ms"
  obtains i t where "i \<le> length ms" "xs = frames (take i ms) @ t" "t @ ys = frames (drop i ms)"
    "t = [] \<or> i < length ms \<and> (\<exists>j < length (api_frame (fst (ms ! i)) (snd (ms ! i))).
       t = take j (api_frame (fst (ms ! i)) (snd (ms ! i))))"
  using assms
proof (induction ms arbitrary: xs thesis)
  case Nil
  then show ?case
    by (simp add: Nil(1) [of 0 "[]"])
next
  case (Cons m ms)
  define f where "f = api_frame (fst m) (snd m)"
  show ?case
  proof (cases "length xs < length f")
    case True
    then have "xs = take (length xs) f"
      using Cons.prems(2) by (metis f_def append_eq_append_conv_if frames_simps(2) less_imp_le)
    then show ?thesis
      using Cons.prems True by (intro Cons.prems(1) [of 0 xs]) (auto simp: f_def)
  next
    case False
    have "take (length f) (xs @ ys) = f" "drop (length f) (xs @ ys) = frames ms"
      using Cons.prems(2) by (simp_all add: f_def)
    then have x: "xs = f @ drop (length f) xs" "drop (length f) xs @ ys = frames ms"
      using False by (simp_all) (metis append_take_drop_id)
    show ?thesis
    proof (rule Cons.IH [OF _ x(2)], goal_cases)
      case (1 i t)
      then show ?case
        using x(1) by (intro Cons.prems(1) [of "Suc i" t]) (auto simp: f_def)
    qed
  qed
qed

definition stream_inv :: "'w ha_env \<Rightarrow> api_info \<Rightarrow> client \<Rightarrow> (u32 \<times> bytes) list \<Rightarrow> client \<Rightarrow> bool" where
  "stream_inv env info c0 ms c \<longleftrightarrow> (\<exists>j \<le> length ms. core c = fold (msg_step env info) (take j ms) (core c0) \<and>
     (closed c \<or> c_fd c \<noteq> None \<and> c_buf c @ c_in c = frames (drop j ms) \<and> api_next (c_buf c) = Api_incomplete \<and>
        length (c_buf c) < 1024))"

lemma next_nil [simp]: "api_next [] = Api_incomplete"
  by (simp add: api_next_def)

lemma api_frame_msg: "length msg < length (api_frame ty msg)"
  by (simp add: api_frame_def)

lemma frame_msg_small: "\<forall>m \<in> S. length (api_frame (fst m) (snd m)) \<le> 1024 \<Longrightarrow> (ty, msg) \<in> S \<Longrightarrow> length msg \<le> 4096"
  using api_frame_msg [of msg ty] by fastforce

lemma client_read_chunk:
  assumes n: "n = min k (1024 - length (c_buf c))" "take n (c_in c) \<noteq> []" and "c_fd c \<noteq> None"
    and b: "c_buf c @ take n (c_in c) = frames qs @ t" and t: "api_next t = Api_incomplete" "length t < 1024"
    and "\<forall>m \<in> set qs. length (snd m) \<le> 4096"
    and c2: "c2 = fold (msg_step env info) qs (c\<lparr>c_buf := frames qs @ t, c_in := drop n (c_in c)\<rparr>)"
  shows "client_read env info (Recv k) c = (if c_fd c2 = None then c2 else c2\<lparr>c_buf := t\<rparr>)"
    and "closed c2 \<or> c_fd c2 \<noteq> None \<and> c_in c2 = drop n (c_in c)"
proof -
  define c1 where "c1 = c\<lparr>c_buf := frames qs @ t, c_in := drop n (c_in c)\<rparr>"
  have k: "kept c1 c2 \<or> closed c2"
    using steps_kept by (auto simp: c1_def c2)
  then show "closed c2 \<or> c_fd c2 \<noteq> None \<and> c_in c2 = drop n (c_in c)"
    using assms(3) by (auto simp: kept_def c1_def)
  obtain u where u: "client_msgs env info 0 c1 = (c2, u, False)" "c_fd c2 \<noteq> None \<longrightarrow> u = length (frames qs)"
    using client_msgs_frames [of c1 "[]" qs t env info] assms by (auto simp: c1_def)
  have "c_buf c2 = frames qs @ t \<and> u = length (frames qs)" if "c_fd c2 \<noteq> None"
    using that k u(2) by (auto simp: kept_def closed_def c1_def)
  moreover have "client_read env info (Recv k) c =
     (if c_fd c2 = None then c2
      else if u = 0 \<and> length (c_buf c2) = 1024 then client_close c2
      else c2\<lparr>c_buf := drop u (c_buf c2)\<rparr>)"
    using u(1) n by (simp add: client_read_def Let_def n(1) [symmetric] b c1_def [symmetric])
  ultimately show "client_read env info (Recv k) c = (if c_fd c2 = None then c2 else c2\<lparr>c_buf := t\<rparr>)"
    using t(2) by auto
qed

lemma prefix_next:
  assumes small: "\<forall>m \<in> set ms. length (api_frame (fst m) (snd m)) \<le> 1024"
    and t: "t = [] \<or> i < length ms \<and> (\<exists>l < length (api_frame (fst (ms ! i)) (snd (ms ! i))).
       t = take l (api_frame (fst (ms ! i)) (snd (ms ! i))))"
  shows "api_next t = Api_incomplete \<and> length t < 1024"
proof (cases "t = []")
  case False
  then obtain l where l: "i < length ms" "l < length (api_frame (fst (ms ! i)) (snd (ms ! i)))"
    "t = take l (api_frame (fst (ms ! i)) (snd (ms ! i)))"
    using t by blast
  have "length (api_frame (fst (ms ! i)) (snd (ms ! i))) \<le> 1024"
    using small nth_mem [OF l(1)] by blast
  then show ?thesis
    using l next_prefix [of "snd (ms ! i)" l "fst (ms ! i)"] api_frame_msg [of "snd (ms ! i)" "fst (ms ! i)"] by simp
qed simp

lemma client_poll_inv:
  assumes inv: "stream_inv env info c0 ms c" and small: "\<forall>m \<in> set ms. length (api_frame (fst m) (snd m)) \<le> 1024"
    and k: "0 < k" and op: "c_fd c \<noteq> None" "c_in c \<noteq> []"
  shows "stream_inv env info c0 ms (client_poll env info k c) \<and>
    length (c_in (client_poll env info k c)) < length (c_in c)"
proof -
  obtain j where j: "j \<le> length ms" "core c = fold (msg_step env info) (take j ms) (core c0)"
    "c_buf c @ c_in c = frames (drop j ms)" "length (c_buf c) < 1024"
    using inv op by (auto simp: stream_inv_def closed_def)
  define n where "n = min k (1024 - length (c_buf c))"
  have n: "take n (c_in c) \<noteq> []" "length (drop n (c_in c)) < length (c_in c)"
    using j(4) k op by (auto simp: n_def)
  have "(c_buf c @ take n (c_in c)) @ drop n (c_in c) = frames (drop j ms)"
    using j(3) by simp
  then obtain i t where i: "i \<le> length (drop j ms)" "c_buf c @ take n (c_in c) = frames (take i (drop j ms)) @ t"
    "t @ drop n (c_in c) = frames (drop i (drop j ms))"
    and t: "t = [] \<or> i < length (drop j ms) \<and> (\<exists>l < length (api_frame (fst (drop j ms ! i)) (snd (drop j ms ! i))).
       t = take l (api_frame (fst (drop j ms ! i)) (snd (drop j ms ! i))))"
    using frames_split by metis
  define c2 where "c2 = fold (msg_step env info) (take i (drop j ms))
     (c\<lparr>c_buf := frames (take i (drop j ms)) @ t, c_in := drop n (c_in c)\<rparr>)"
  have small': "\<forall>m \<in> set (drop j ms). length (api_frame (fst m) (snd m)) \<le> 1024"
    using small by (meson in_set_dropD)
  then have "\<forall>m \<in> set (take i (drop j ms)). length (snd m) \<le> 4096"
    by (metis frame_msg_small in_set_takeD prod.collapse)
  note r = client_read_chunk [OF n_def n(1) op(1) i(2) conjunct1 [OF prefix_next [OF small' t]]
      conjunct2 [OF prefix_next [OF small' t]] this c2_def]
  have "core c2 = fold (msg_step env info) (take (j + i) ms) (core c0)"
    using j(2) by (simp add: c2_def core_steps take_add) (simp add: core_def)
  note c2 = this
  have p: "client_poll env info k c = (if c_fd c2 = None then c2 else c2\<lparr>c_buf := t\<rparr>)"
    using op r(1) by (simp add: client_poll_def)
  have le: "j + i \<le> length ms"
    using i(1) j(1) by simp
  show ?thesis
  proof (cases "closed c2")
    case True
    then have "client_poll env info k c = c2" "c_in c2 = []"
      using p by (simp_all add: closed_def)
    then show ?thesis
      unfolding stream_inv_def using True c2 le op by auto
  next
    case False
    then have q: "client_poll env info k c = c2\<lparr>c_buf := t\<rparr>" "c_fd c2 \<noteq> None" "c_in c2 = drop n (c_in c)"
      using p r(2) by auto
    have "core (c2\<lparr>c_buf := t\<rparr>) = core c2"
      by (simp add: core_def)
    moreover have "c_buf (c2\<lparr>c_buf := t\<rparr>) @ c_in (c2\<lparr>c_buf := t\<rparr>) = frames (drop (j + i) ms)"
      using i(3) q(3) by (simp add: add.commute)
    ultimately show ?thesis
      unfolding stream_inv_def q(1) using c2 le q(2,3) n(2) prefix_next [OF small' t]
      by (intro conjI exI [of _ "j + i"]) simp_all
  qed
qed

lemma client_polls_inv:
  assumes "stream_inv env info c0 ms c" and small: "\<forall>m \<in> set ms. length (api_frame (fst m) (snd m)) \<le> 1024"
    and "\<forall>k \<in> set ks. 0 < k"
  shows "stream_inv env info c0 ms (fold (client_poll env info) ks c) \<and>
    length (c_in (fold (client_poll env info) ks c)) \<le> length (c_in c) - length ks"
  using assms(1,3)
proof (induction ks arbitrary: c)
  case (Cons k ks)
  show ?case
  proof (cases "c_fd c \<noteq> None \<and> c_in c \<noteq> []")
    case True
    then have "stream_inv env info c0 ms (client_poll env info k c)"
      "length (c_in (client_poll env info k c)) < length (c_in c)"
      using client_poll_inv [OF Cons.prems(1) small, of k] Cons.prems(2) by auto
    then show ?thesis
      using Cons.IH [of "client_poll env info k c"] Cons.prems(2) by fastforce
  next
    case False
    then have "c_in c = []"
      using Cons.prems(1) by (auto simp: stream_inv_def closed_def)
    then show ?thesis
      using False Cons.IH [of c] Cons.prems by (simp add: client_poll_def)
  qed
qed simp

lemma stream_done:
  assumes "stream_inv env info c0 ms c" and "c_in c = []"
    and small: "\<forall>m \<in> set ms. length (api_frame (fst m) (snd m)) \<le> 1024"
  shows "c = fold (msg_step env info) ms (core c0)"
proof -
  obtain j where j: "j \<le> length ms" "core c = fold (msg_step env info) (take j ms) (core c0)"
    and c: "closed c \<or> c_fd c \<noteq> None \<and> c_buf c = frames (drop j ms) \<and> api_next (c_buf c) = Api_incomplete"
    using assms(1,2) by (auto simp: stream_inv_def)
  have f: "fold (msg_step env info) ms (core c0) = fold (msg_step env info) (drop j ms) (core c)"
    using j by (metis append_take_drop_id comp_apply fold_append)
  show ?thesis
  proof (cases "closed c")
    case True
    then show ?thesis
      using f core_closed [of c] steps_shut [of c env info "drop j ms"] by (simp add: closed_def)
  next
    case False
    have "drop j ms = []"
    proof (rule ccontr)
      assume "drop j ms \<noteq> []"
      then obtain m ms' where d: "drop j ms = m # ms'"
        by (meson neq_Nil_conv)
      then have "length (snd m) \<le> 4096"
        using small api_frame_msg [of "snd m" "fst m"] in_set_dropD [of m j ms] by fastforce
      then show False
        using c False next_frame [of "snd m" "fst m" "frames ms'"] by (auto simp: d)
    qed
    then show ?thesis
      using f c False assms(2) by (simp add: core_def)
  qed
qed

section \<open>The loop\<close>

definition ha_ok :: "'w ha \<Rightarrow> bool" where
  "ha_ok s \<longleftrightarrow> ha_bufs s \<and> ha_server s \<and> improv_ok s"

interpretation ok: packet_inv ha_ok
  by unfold_locales
    (simp_all add: ha_ok_def handle_packet_bufs handle_packet_server handle_packet_improv
      bufs.frame server.frame improv.frame)

lemma ha_ok_update [simp]:
  "ha_ok (s\<lparr>ha_wpa := w\<rparr>) = ha_ok s" "ha_ok (s\<lparr>ha_check_at := t\<rparr>) = ha_ok s" "ha_ok (s\<lparr>ha_done_at := t\<rparr>) = ha_ok s"
  "ha_ok (s\<lparr>ha_improv := b\<rparr>) = ha_ok s" "ha_ok (identify env on s) = ha_ok s"
  by (simp_all add: ha_ok_def ha_bufs_def ha_server_def improv_ok_def)

lemma flush_batch_ok: "ha_ok s \<Longrightarrow> ha_ok (flush_batch env s)"
  by (auto simp: flush_batch_def Let_def ha_ok_def ha_bufs_def ha_server_def improv_ok_def list_all_iff
      intro!: client_send_ok)

lemma join_poll_ok: "ha_ok s \<Longrightarrow> ha_ok (join_poll env s)"
  by (auto simp: join_poll_def Let_def ha_ok_def ha_bufs_def ha_server_def improv_ok_def gatt_ok_result
      split: prod.splits connected.splits)

lemma check_networks_ok: "ha_ok s \<Longrightarrow> ha_ok (check_networks env s)"
  by (auto simp: check_networks_def Let_def split: prod.splits option.splits nat.splits intro!: ok.advertising_inv)

lemma timers_ok: "ha_ok s \<Longrightarrow> ha_ok (timers env s)"
  unfolding timers_def Let_def
  by (simp add: flush_batch_ok join_poll_ok check_networks_ok ok.advertising_inv)

lemma accept_client_ok: "ha_ok s \<Longrightarrow> ha_ok (accept_client afd s)"
proof -
  have "list_all client_ok cs \<Longrightarrow> list_all client_ok (put_client fd cs)" "length (put_client fd cs) = length cs" for fd cs
    by (induction fd cs rule: put_client.induct) (auto simp: client_ok_def)
  then show "ha_ok s \<Longrightarrow> ha_ok (accept_client afd s)"
    by (simp add: accept_client_def ha_ok_def ha_bufs_def ha_server_def improv_ok_def split: option.split)
qed

lemma read_clients_ok: "ha_ok s \<Longrightarrow> ha_ok (read_clients env rvs s)"
  by (auto simp: read_clients_def ha_ok_def ha_bufs_def ha_server_def improv_ok_def list_all_iff client_read_ok
      dest!: set_zip_leftD split: option.splits)

lemma run_prepare_ok: "ha_ok s \<Longrightarrow> ha_ok (run_prepare env s)"
  by (simp add: run_prepare_def Let_def ok.advertising_inv ok.scan_inv)

lemma run_events_ok: "ha_ok s \<Longrightarrow> ha_ok (run_events r s)"
proof -
  assume "ha_ok s"
  then have "ha_ok (run_hci (r_env r) (r_hci r) s)"
    by (simp add: run_hci_def ok.packet split: option.split)
  then have "ha_ok (case r_accept r of Some afd \<Rightarrow> accept_client afd (run_hci (r_env r) (r_hci r) s)
      | None \<Rightarrow> run_hci (r_env r) (r_hci r) s)"
    by (simp add: accept_client_ok split: option.split)
  then show ?thesis
    unfolding run_events_def Let_def by (simp add: read_clients_ok flush_batch_ok timers_ok)
qed

lemma run_body_ok: "ha_ok s \<Longrightarrow> ha_ok (snd (run_body r s))"
  by (simp add: run_body_def Let_def ok.frame run_prepare_ok run_events_ok)

lemma run_ok: "ha_ok s \<Longrightarrow> ha_ok (run rs s)"
proof (induction rs arbitrary: s)
  case (Cons r rs)
  then show ?case
    using run_body_ok [OF Cons.prems, of r] by (auto split: prod.split)
qed simp

lemma hci_init_acl_len: "hci_init env r0 s = (True, s') \<Longrightarrow> 27 \<le> ha_acl_len s'"
  by (auto simp: hci_init_def Let_def split: prod.splits if_splits)

lemma read_line_length: "0 < len \<Longrightarrow> length (read_line h path len) < len"
proof -
  assume "0 < len"
  then have "length (takeWhile P (take (len - 1) xs)) < len" for P :: "u8 \<Rightarrow> bool" and xs
    by (rule_tac le_less_trans [OF length_takeWhile_le]) auto
  then show "length (read_line h path len) < len"
    using \<open>0 < len\<close> by (simp add: read_line_def split: option.split)
qed

text \<open>The strings of \<open>setup_info\<close> fit their arrays; the address of the adapter is its six
  bytes from the last to the first, in hexadecimal with colons.\<close>

lemma setup_info_sizes:
  "length (info_name (ha_info (setup_info h s))) < 64" "length (info_mac (ha_info (setup_info h s))) < 18"
  "length (info_bt_mac (ha_info (setup_info h s))) = 17" "length (info_model (ha_info (setup_info h s))) < 64"
proof -
  have "length (takeWhile (\<lambda>b. b \<noteq> 0) (take 63 (h_name h))) \<le> 63"
    by (rule le_trans [OF length_takeWhile_le]) simp
  then show "length (info_name (ha_info (setup_info h s))) < 64"
    by (simp add: setup_info_def)
qed (simp_all add: setup_info_def read_line_length bt_mac_def hex2_def)

lemma bt_mac_text: "bt_mac [0x01, 0x2a, 0xb3, 0x4c, 0xd5, 0xfe] = c_str ''FE:D5:4C:B3:2A:01''"
  by (simp add: bt_mac_def hex2_def hex_upper_def c_str_def)

text \<open>The options: each combination of \<open>-p\<close>, \<open>-i\<close> and \<open>-d\<close>, the last \<open>-d\<close> counts.\<close>

lemma ha_options_flags:
  assumes "\<forall>(c, arg) \<in> set os. c \<in> set ''pid''"
  shows "ha_options os (proxy, want, dev) =
    Inr (proxy \<or> CHR ''p'' \<in> fst ` set os, want \<or> CHR ''i'' \<in> fst ` set os,
         case filter (\<lambda>(c, _). c = CHR ''d'') (rev os) of [] \<Rightarrow> dev | (_, arg) # _ \<Rightarrow> atoi arg)"
  using assms
proof (induction os arbitrary: proxy want dev)
  case (Cons x os)
  then show ?case
    by (cases x) (auto split: list.split)
qed simp

lemma ha_start_ok:
  assumes st: "ha_start env proxy want_improv dev stops r0 h inp w = Inr s"
  shows "ha_ok s"
proof -
  obtain improv w' where w: "(if want_improv then improv_needed (e_req env) stops 30 w else (False, w)) = (improv, w')"
    by (metis surj_pair)
  define s0 where "s0 = ha_static proxy improv inp w'"
  obtain s1 where i: "hci_init env r0 s0 = (True, s1)"
    using st by (auto simp: ha_start_def Let_def w s0_def split: prod.splits if_splits)
  have "ha_bufs s0" "improv_idle s0"
    by (simp_all add: s0_def ha_static_def ha_bufs_def client_ok_def improv_idle_def list_all_iff)
  then have "ha_bufs s1" "improv_idle s1" "27 \<le> ha_acl_len s1"
    using bufs.init_inv [OF _ i] idle.init_inv [OF _ i] hci_init_acl_len [OF i] by auto
  moreover obtain n where n: "setup_info h s1 = s1\<lparr>ha_info := n\<rparr>"
    by (simp add: setup_info_def)
  moreover have "length (info_name n) \<le> 63"
    using setup_info_sizes(1) [of h s1] n by simp
  moreover have "s = (let s = s1\<lparr>ha_info := n, ha_gatt := (gatt_init (info_name n) (if h_led h then 0x02 OR 0x01 else 0x02))
      \<lparr>g_mtu_max := (if ha_acl_len s1 - 4 < 247 then ha_acl_len s1 - 4 else 247)\<rparr>\<rparr> in if ha_improv s1 then s\<lparr>ha_adv_dirty := True\<rparr> else s)"
    using st unfolding ha_start_def Let_def w prod.case s0_def [symmetric] i n
    by (simp split: if_splits)
  moreover have "23 \<le> ha_acl_len s1 - 4"
    using \<open>27 \<le> ha_acl_len s1\<close> by simp
  ultimately show ?thesis
    by (simp add: Let_def ha_ok_def ha_bufs_def ha_server_def improv_ok_def improv_idle_def gatt_ok_def gatt_init_def)
qed

lemma ha_exit_ok: "ha_ok s \<Longrightarrow> ha_ok (ha_exit env s)"
  by (auto simp: ha_exit_def Let_def ok.advertising_inv ok.scan_inv split: option.split)

lemma ha_main_ok: "ha_main env os stops r0 h inp w rs = Inr s \<Longrightarrow> ha_ok s"
  by (auto simp: ha_main_def split: sum.splits dest!: ha_start_ok intro!: ha_exit_ok run_ok)

section \<open>The controller's buffers\<close>

definition acl_total :: "'w ha \<Rightarrow> nat" where
  "acl_total s = unat (ha_credits s) + unat (ha_conn_sent s)"

lemma acl_total_update [simp]:
  "acl_total (s\<lparr>ha_gatt := g\<rparr>) = acl_total s" "acl_total (s\<lparr>ha_adv_dirty := b\<rparr>) = acl_total s"
  "acl_total (s\<lparr>ha_join_id := j\<rparr>) = acl_total s" "acl_total (s\<lparr>ha_wpa := w\<rparr>) = acl_total s"
  "acl_total (s\<lparr>ha_join_end := t\<rparr>) = acl_total s" "acl_total (s\<lparr>ha_rpc := x\<rparr>) = acl_total s"
  "acl_total (s\<lparr>ha_l2 := x\<rparr>) = acl_total s" "acl_total (identify env on s) = acl_total s"
  by (simp_all add: acl_total_def)

lemma acl_send_total: "acl_total s < 2 ^ 16 \<Longrightarrow> acl_total (acl_send env cid d s) = acl_total s"
proof -
  assume t: "acl_total s < 2 ^ 16"
  have "unat (ha_credits s - 1) + unat (ha_conn_sent s + 1) = unat (ha_credits s) + unat (ha_conn_sent s)"
    if "ha_credits s \<noteq> 0"
  proof -
    have p: "0 < unat (ha_credits s)"
      using that by (simp add: unat_gt_0)
    have "unat (ha_conn_sent s + 1) = unat (ha_conn_sent s) + 1"
      using t p by (simp add: acl_total_def unat_word_ariths(1))
    moreover have "unat (ha_credits s - 1) = unat (ha_credits s) - 1"
      using that by (simp add: unat_minus_one)
    ultimately show ?thesis
      using p by simp
  qed
  then show ?thesis
    by (simp add: acl_send_def acl_total_def split: option.split)
qed

lemma notify_total: "acl_total s < 2 ^ 16 \<Longrightarrow> acl_total (notify env h v s) = acl_total s"
  by (simp add: notify_def Let_def acl_send_total)

lemma set_state_total: "acl_total s < 2 ^ 16 \<Longrightarrow> acl_total (set_state env st err s) = acl_total s"
  by (simp add: set_state_def Let_def notify_total)

lemma set_result_total: "acl_total s < 2 ^ 16 \<Longrightarrow> acl_total (set_result env cmd ss s) = acl_total s"
  by (simp add: set_result_def Let_def notify_total)

lemmas total_simps = acl_send_total notify_total set_state_total set_result_total

lemma improv_command_total: "acl_total s < 2 ^ 16 \<Longrightarrow> acl_total (improv_command env c s) = acl_total s"
  by (simp add: improv_command_def Let_def total_simps split: prod.split)

lemma rpc_write_total: "acl_total s < 2 ^ 16 \<Longrightarrow> acl_total (rpc_write env d s) = acl_total s"
  by (simp add: rpc_write_def Let_def total_simps improv_command_total split: prod.split)

lemma l2cap_frame_total: "acl_total s < 2 ^ 16 \<Longrightarrow> acl_total (l2cap_frame env cid p s) = acl_total s"
  by (simp add: l2cap_frame_def Let_def total_simps rpc_write_total split: prod.split option.split)

lemma handle_acl_total: "acl_total s < 2 ^ 16 \<Longrightarrow> acl_total (handle_acl env p s) = acl_total s"
  by (cases rule: handle_acl_cases [of env p s]) (simp_all add: l2cap_frame_total)

lemma completed_total:
  fixes cr cs n :: u16
  assumes "unat cr + unat cs < 2 ^ 16" and "n \<le> cs"
  shows "unat (cr + n) + unat (cs - (if n < cs then n else cs)) = unat cr + unat cs"
proof -
  have n: "unat n \<le> unat cs"
    using assms(2) by (simp add: word_le_nat_alt)
  then have "unat (cr + n) = unat cr + unat n"
    using assms(1) by (simp add: unat_word_ariths(1))
  moreover have "unat (cs - (if n < cs then n else cs)) = unat cs - unat n"
    using assms(2) by (cases "n = cs") (simp_all add: unat_sub)
  ultimately show ?thesis
    using n by simp
qed

lemma get16_less: "get16 p i < 2 ^ 16"
  using unsigned_less [of "get_le16 (drop i p)", where ?'a = nat] by (simp add: get16_def)

lemma handle_packet_total:
  assumes t: "acl_total s < 2 ^ 16"
    and honest: "p ! 0 = 0x04 \<Longrightarrow> p ! 1 = 0x13 \<Longrightarrow> 8 \<le> length p \<Longrightarrow> get16 p 6 \<le> unat (ha_conn_sent s)"
  shows "acl_total (handle_packet env p s) = acl_total s"
proof (cases rule: handle_packet_cases [of env p s])
  case 2
  then show ?thesis
    using handle_acl_total [OF t] by simp
next
  case 5
  then show ?thesis
    using t by (simp add: acl_total_def unat_word_ariths(1))
next
  case (6 n)
  have "unat n = get16 p 6"
    using get16_less [of p 6] 6(4) by (simp add: unat_of_nat)
  then have "n \<le> ha_conn_sent s"
    using honest 6 by (simp add: word_le_nat_alt)
  then show ?thesis
    using completed_total [of "ha_credits s" "ha_conn_sent s" n] t 6 by (simp add: acl_total_def)
qed (simp_all add: acl_total_def)

section \<open>Reassembly\<close>

text \<open>An ACL packet with the flags in bits 4 and 5 of its third byte.\<close>

definition acl_pkt :: "u8 \<Rightarrow> u8 \<Rightarrow> bytes \<Rightarrow> bytes" where
  "acl_pkt h flags d = [0x02, h, flags] @ put_le16 (of_nat (length d)) @ d"

definition l2cap :: "u16 \<Rightarrow> bytes \<Rightarrow> bytes" where
  "l2cap cid d = put_le16 (of_nat (length d)) @ put_le16 cid @ d"

lemma get16_app: "i + 2 \<le> length x \<Longrightarrow> get16 (x @ y) i = get16 x i"
proof -
  assume i: "i + 2 \<le> length x"
  then have "2 \<le> length (drop i x)"
    by simp
  then obtain a b c where "drop i x = a # b # c"
    by (metis One_nat_def Suc_1 Suc_le_length_iff)
  then show ?thesis
    using i by (simp add: get16_def)
qed

lemma acl_pkt_parts:
  assumes "length d \<le> 256"
  shows "length (acl_pkt h f d) = length d + 5" "acl_pkt h f d ! 2 = f" "get16 (acl_pkt h f d) 3 = length d"
    "drop 5 (acl_pkt h f d) = d" "acl_pkt h f d ! 0 = 0x02"
proof -
  have "acl_pkt h f d = [0x02, h, f] @ (put_le16 (of_nat (length d)) @ d)"
    by (simp add: acl_pkt_def)
  then have "drop 3 (acl_pkt h f d) = put_le16 (of_nat (length d)) @ d"
    by simp
  then show "get16 (acl_pkt h f d) 3 = length d"
    using assms by (simp add: get16_def unat_of_nat)
qed (simp_all add: acl_pkt_def put_le16_def)

lemma l2cap_parts:
  assumes "length (l2cap cid d) \<le> 256"
  shows "length (l2cap cid d) = length d + 4" "get16 (l2cap cid d) 0 = length d" "get16 (l2cap cid d) 2 = unat cid"
    "drop 4 (l2cap cid d) = d"
  using assms get16_app [of 0 "put_le16 (of_nat (length d))" "put_le16 cid @ d"]
  by (simp_all add: l2cap_def unat_of_nat get16_def)

lemma acl_step:
  assumes "length d \<le> 256" and l2: "l2 = (if drop_bit 4 f AND 3 \<noteq> 1 then [] else ha_l2 s)" and w: "l2 @ d @ r = l2cap cid q"
    and len: "length (l2cap cid q) \<le> 256"
  shows "handle_packet env (acl_pkt h f d) s =
     (if r = [] then (l2cap_frame env (unat cid) q (s\<lparr>ha_l2 := l2cap cid q\<rparr>))\<lparr>ha_l2 := []\<rparr> else s\<lparr>ha_l2 := l2 @ d\<rparr>)"
proof -
  note a = acl_pkt_parts [OF assms(1), of h f] and p = l2cap_parts [OF len]
  have "handle_packet env (acl_pkt h f d) s = handle_acl env (acl_pkt h f d) s"
    using a(1,5) by (simp add: handle_packet_def)
  also have "\<dots> = (if length (l2 @ d) < 4 \<or> length (l2 @ d) < get16 (l2 @ d) 0 + 4 then s\<lparr>ha_l2 := l2 @ d\<rparr>
      else (l2cap_frame env (get16 (l2 @ d) 2) (take (get16 (l2 @ d) 0) (drop 4 (l2 @ d))) (s\<lparr>ha_l2 := l2 @ d\<rparr>))\<lparr>ha_l2 := []\<rparr>)"
  proof -
    have "length (l2 @ d) \<le> 256"
      using arg_cong [where f = length, OF w] len by simp
    then show ?thesis
      using a by (subst handle_acl_eq [OF _ refl, of l2]) (simp_all add: l2)
  qed
  finally have h: "handle_packet env (acl_pkt h f d) s = \<dots>" .
  show ?thesis
  proof (cases "r = []")
    case True
    then have "l2 @ d = l2cap cid q"
      using w by simp
    then show ?thesis
      using h p True by simp
  next
    case False
    have "length (l2 @ d) < 4 \<or> length (l2 @ d) < get16 (l2 @ d) 0 + 4"
    proof (cases "length (l2 @ d) < 4")
      case False
      then have "get16 (l2 @ d) 0 = length q"
        using get16_app [of 0 "l2 @ d" r] w p(2) by simp
      moreover have "length (l2 @ d) < length (l2cap cid q)"
        using arg_cong [where f = length, OF w] \<open>r \<noteq> []\<close> by (cases r) simp_all
      ultimately show ?thesis
        using p(1) by simp
    qed simp
    then show ?thesis
      using h False by simp
  qed
qed

fun acl_feed :: "'w ha_env \<Rightarrow> u8 \<Rightarrow> (u8 \<times> bytes) list \<Rightarrow> 'w ha \<Rightarrow> 'w ha" where
  "acl_feed env h [] s = s"
| "acl_feed env h ((f, d) # ds) s = acl_feed env h ds (handle_packet env (acl_pkt h f d) s)"

lemma acl_feed_cont:
  assumes "ha_l2 s @ concat (map snd ds) = l2cap cid q" and "length (l2cap cid q) \<le> 256"
    and "\<forall>x \<in> set ds. drop_bit 4 (fst x) AND 3 = 1" and "ds \<noteq> []" and "snd (last ds) \<noteq> []"
  shows "acl_feed env h ds s = (l2cap_frame env (unat cid) q (s\<lparr>ha_l2 := l2cap cid q\<rparr>))\<lparr>ha_l2 := []\<rparr>"
  using assms(1,3,4,5)
proof (induction ds arbitrary: s)
  case (Cons x ds)
  obtain f d where x: "x = (f, d)"
    by (metis surj_pair)
  have l: "length d \<le> 256"
    using arg_cong [where f = length, OF Cons.prems(1)] assms(2) x by simp
  have st: "handle_packet env (acl_pkt h f d) s =
     (if concat (map snd ds) = [] then (l2cap_frame env (unat cid) q (s\<lparr>ha_l2 := l2cap cid q\<rparr>))\<lparr>ha_l2 := []\<rparr>
      else s\<lparr>ha_l2 := ha_l2 s @ d\<rparr>)"
    using Cons.prems(1,2) x by (intro acl_step [OF l _ _ assms(2)]) auto
  show ?case
  proof (cases "ds = []")
    case True
    then show ?thesis
      using st x by simp
  next
    case False
    then have "concat (map snd ds) \<noteq> []"
      using Cons.prems(4) by (metis concat_eq_Nil_conv last.simps last_in_set last_map list.map_disc_iff)
    then show ?thesis
      using Cons.IH [of "s\<lparr>ha_l2 := ha_l2 s @ d\<rparr>"] Cons.prems st x False by (simp only: if_False) simp
  qed
qed simp


lemma acl_feed_frame:
  assumes "d @ concat (map snd ds) = l2cap cid q" and len: "length (l2cap cid q) \<le> 256"
    and f: "drop_bit 4 f AND 3 \<noteq> 1" and ds: "\<forall>x \<in> set ds. drop_bit 4 (fst x) AND 3 = 1"
    and "snd (last ((f, d) # ds)) \<noteq> []"
  shows "acl_feed env h ((f, d) # ds) s = (l2cap_frame env (unat cid) q (s\<lparr>ha_l2 := l2cap cid q\<rparr>))\<lparr>ha_l2 := []\<rparr>"
proof -
  have l: "length d \<le> 256"
    using arg_cong [where f = length, OF assms(1)] len by simp
  have st: "handle_packet env (acl_pkt h f d) s =
     (if concat (map snd ds) = [] then (l2cap_frame env (unat cid) q (s\<lparr>ha_l2 := l2cap cid q\<rparr>))\<lparr>ha_l2 := []\<rparr>
      else s\<lparr>ha_l2 := d\<rparr>)"
    using acl_step [OF l _ _ len, of "[]" f s "concat (map snd ds)" env h] assms(1) f by simp
  show ?thesis
  proof (cases "ds = []")
    case False
    then have "concat (map snd ds) \<noteq> []"
      using assms(5) by (auto intro!: bexI [of _ "last ds"])
    then have "handle_packet env (acl_pkt h f d) s = s\<lparr>ha_l2 := d\<rparr>"
      using st by (simp only: if_False)
    then show ?thesis
      using acl_feed_cont [OF _ len ds False, of "s\<lparr>ha_l2 := d\<rparr>" env h] assms(1,5) False by simp
  qed (use st in simp)
qed

section \<open>The RPC command\<close>

abbreviation (input) no_cmd :: improv_cmd where
  "no_cmd \<equiv> \<lparr>ic_cmd = 0, ic_ssid = [], ic_pass = []\<rparr>"

lemma parse_prefix:
  assumes "improv_parse (x @ y) c = (0, c')" and "y \<noteq> []"
  shows "fst (improv_parse x c) = 1"
proof -
  have l: "length (x @ y) = unat ((x @ y) ! 1) + 3"
    using assms(1) by (auto simp: improv_parse_def Let_def split: if_splits)
  then have "length x < 3 \<or> length x < unat (x ! 1) + 3"
    using assms(2) by (cases y) (auto simp: nth_append)
  then show ?thesis
    by (auto simp: improv_parse_def Let_def)
qed

lemma rpc_write_part:
  assumes "improv_parse (ha_rpc s @ d @ y) no_cmd = (0, c)" and "y \<noteq> []" and "length (ha_rpc s @ d @ y) \<le> 128"
  shows "rpc_write env d s = s\<lparr>ha_rpc := ha_rpc s @ d\<rparr>"
  using parse_prefix [of "ha_rpc s @ d" y no_cmd c] assms
  by (auto simp: rpc_write_def Let_def split: prod.splits)

lemma rpc_write_pieces:
  assumes "improv_parse (ha_rpc s @ concat ds) no_cmd = (0, c)" and "length (ha_rpc s @ concat ds) \<le> 128"
    and "ds \<noteq> []" and "last ds \<noteq> []"
  shows "fold (rpc_write env) ds s =
    improv_command env c (set_state env (g_state (ha_gatt s)) IMPROV_ERR_NONE (s\<lparr>ha_rpc := []\<rparr>))"
  using assms
proof (induction ds arbitrary: s)
  case (Cons d ds)
  show ?case
  proof (cases "ds = []")
    case True
    then show ?thesis
      using Cons.prems by (simp add: rpc_write_def Let_def)
  next
    case False
    then have "concat ds \<noteq> []"
      using Cons.prems(4) by (auto intro!: bexI [of _ "last ds"])
    then have "rpc_write env d s = s\<lparr>ha_rpc := ha_rpc s @ d\<rparr>"
      using Cons.prems(1,2) by (intro rpc_write_part [of s d "concat ds" c]) simp_all
    then show ?thesis
      using Cons.IH [of "s\<lparr>ha_rpc := ha_rpc s @ d\<rparr>"] Cons.prems False by simp
  qed
qed simp

lemma rpc_invalid:
  assumes "3 \<le> length bad" and "unat (bad ! 1) + 3 \<le> length bad" and "d \<noteq> []"
  shows "fst (improv_parse (bad @ d) c) = 1"
proof -
  have "(bad @ d) ! 1 = bad ! 1"
    using assms(1) by (simp add: nth_append)
  moreover have "length (bad @ d) > unat (bad ! 1) + 3"
    using assms by (cases d) simp_all
  ultimately show ?thesis
    using assms(1) unfolding improv_parse_def Let_def by simp
qed

section \<open>Properties\<close>

text \<open>An adapter that answers the commands of \<open>hci_init\<close>, and a supplicant that never answers.\<close>

definition demo_env :: "unit ha_env" where
  "demo_env = \<lparr>e_req = (\<lambda>cmd w. (None, w)), e_now = 100, e_now_ms = 100000,
     e_tx_ok = (\<lambda>sent p. True), e_send_ok = (\<lambda>fd out f. True)\<rparr>"



definition demo_info :: api_info where
  "demo_info = \<lparr>info_name = [0x78], info_mac = [], info_bt_mac = [], info_model = []\<rparr>"


definition demo_client :: client where
  "demo_client = \<lparr>c_fd = Some 5, c_buf = [], c_sub = False, c_in = frames [(66, []), (7, [])], c_out = []\<rparr>"



text \<open>C20: the byte stream of an API client.  However TCP cuts a stream of frames
  of at most 1024 bytes into reads, and whatever the client asks, the daemon
  handles exactly those messages, once and in order, until one of them closes
  the connection; at the end no byte is left in the buffer.\<close>

theorem client_stream:
  assumes "c_fd c = Some fd" and "c_buf c = []" and "c_in c = frames ms"
    and "\<forall>m \<in> set ms. length (api_frame (fst m) (snd m)) \<le> 1024"
    and "\<forall>k \<in> set ks. 0 < k" and "length (c_in c) \<le> length ks"
  shows "fold (client_poll env info) ks c = fold (msg_step env info) ms (c\<lparr>c_in := []\<rparr>)"
proof -
  have "stream_inv env info c ms c"
    unfolding stream_inv_def using assms(1-3) by (intro exI [of _ 0]) simp
  then have "stream_inv env info c ms (fold (client_poll env info) ks c)" "c_in (fold (client_poll env info) ks c) = []"
    using client_polls_inv [OF _ assms(4,5)] assms(6) by fastforce+
  from stream_done [OF this assms(4)] have "fold (client_poll env info) ks c = fold (msg_step env info) ms (core c)" .
  moreover have "core c = c\<lparr>c_in := []\<rparr>"
    using assms(2) by (cases c) (simp add: core_def)
  ultimately show ?thesis
    by simp
qed

theorem client_stream_witness:
  "fold (client_poll demo_env demo_info) [1, 3, 1, 1, 1, 1] demo_client =
   fold (msg_step demo_env demo_info) [(66, []), (7, [])] (demo_client\<lparr>c_in := []\<rparr>)"
proof (rule client_stream)
  have f: "api_frame 66 [] = [0, 0, 66]" "api_frame 7 [] = [0, 0, 7]"
    by code_simp+
  show "\<forall>m \<in> set [(66, []), (7, [])]. length (api_frame (fst m) (snd m)) \<le> 1024"
    by (simp add: f)
  show "length (c_in demo_client) \<le> length [1 :: nat, 3, 1, 1, 1, 1]"
    by (simp add: demo_client_def f)
qed (simp_all add: demo_client_def)

text \<open>C21: the controller's buffers.  As long as the controller reports no more
  packets as done than it got, no packet changes the sum of the free buffers and
  of the packets that the controller still has: a buffer is never lost, also not
  by a disconnection, and never used twice.\<close>

theorem acl_credits_conserved:
  assumes "acl_total s < 2 ^ 16"
    and "p ! 0 = 0x04 \<and> p ! 1 = 0x13 \<and> 8 \<le> length p \<longrightarrow> get16 p 6 \<le> unat (ha_conn_sent s)"
  shows "acl_total (handle_packet env p s) = acl_total s"
  using assms by (intro handle_packet_total) blast+

definition demo_ha :: "unit ha" where
  "demo_ha = (ha_static False True [] ())\<lparr>ha_acl_len := 251, ha_credits := 3, ha_conn_sent := 2, ha_conn := Some 1,
     ha_gatt := (gatt_init [0x78] 3)\<lparr>g_mtu_max := 247\<rparr>\<rparr>"

theorem acl_credits_conserved_witness:
  "acl_total (handle_packet demo_env [0x04, 0x13, 5, 1, 1, 0, 1, 0] demo_ha) = acl_total demo_ha"
  by (rule acl_credits_conserved) (simp_all add: demo_ha_def acl_total_def get16_def)

text \<open>C22: reassembly.  An L2CAP frame of at most 256 bytes that comes in any number
  of ACL fragments (a start fragment, then continuations, the last not empty) is
  handled exactly once, with its own channel and payload.\<close>

theorem l2cap_reassembly:
  assumes "d @ concat (map snd ds) = l2cap cid q" and "length (l2cap cid q) \<le> 256"
    and "drop_bit 4 f AND 3 \<noteq> 1" and "\<forall>x \<in> set ds. drop_bit 4 (fst x) AND 3 = 1"
    and "snd (last ((f, d) # ds)) \<noteq> []"
  shows "acl_feed env h ((f, d) # ds) s = (l2cap_frame env (unat cid) q (s\<lparr>ha_l2 := l2cap cid q\<rparr>))\<lparr>ha_l2 := []\<rparr>"
  by (rule acl_feed_frame [OF assms])

theorem l2cap_reassembly_witness:
  "acl_feed demo_env 1 [(0x20, [3]), (0x10, [0, 4, 0, 2]), (0x10, [23, 0])] demo_ha =
   (l2cap_frame demo_env (unat (4 :: u16)) [2, 23, 0] (demo_ha\<lparr>ha_l2 := l2cap 4 [2, 23, 0]\<rparr>))\<lparr>ha_l2 := []\<rparr>"
  by (rule l2cap_reassembly) (simp_all add: l2cap_def put_le16_def drop_bit_eq_div)

text \<open>An RPC command.  A packet that \<open>improv_parse\<close> accepts is executed exactly
  once, after its last byte, in however many writes it comes; the error of an
  earlier command is cleared first.\<close>

theorem rpc_pieces:
  assumes "ha_rpc s = []" and "improv_parse (concat ds) no_cmd = (0, c)" and "length (concat ds) \<le> 128"
    and "ds \<noteq> []" and "last ds \<noteq> []"
  shows "fold (rpc_write env) ds s = improv_command env c (set_state env (g_state (ha_gatt s)) IMPROV_ERR_NONE s)"
proof -
  have s: "s\<lparr>ha_rpc := []\<rparr> = s"
    using assms(1) by simp
  show ?thesis
    using rpc_write_pieces [of s ds c env] assms unfolding s by simp
qed

theorem rpc_pieces_witness:
  "fold (rpc_write demo_env) [[3], [0, 3]] demo_ha =
   improv_command demo_env \<lparr>ic_cmd = 3, ic_ssid = [], ic_pass = []\<rparr>
     (set_state demo_env (g_state (ha_gatt demo_ha)) IMPROV_ERR_NONE demo_ha)"
  by (rule rpc_pieces) (simp_all add: demo_ha_def ha_static_def improv_parse_def checksum_def)

text \<open>An invalid RPC command.  \<open>IMPROV_ERR_INVALID\<close> has the value 1, which
  \<open>rpc_write\<close> takes for "incomplete".  So after a complete packet with a wrong
  checksum or wrong data no error is reported, the packet stays in the buffer,
  and the bytes that follow, a valid packet included, are not executed.\<close>

theorem rpc_invalid_sticks:
  assumes "ha_rpc s = []" and "3 \<le> length bad" and "unat (bad ! 1) + 3 \<le> length bad"
    and "fst (improv_parse bad no_cmd) = IMPROV_ERR_INVALID" and "d \<noteq> []" and "length (bad @ d) \<le> 128"
  shows "rpc_write env d (rpc_write env bad s) = s\<lparr>ha_rpc := bad @ d\<rparr>"
proof -
  have "rpc_write env bad s = s\<lparr>ha_rpc := bad\<rparr>"
    using assms(1,4,6) by (auto simp: rpc_write_def Let_def split: prod.split)
  then show ?thesis
    using assms(6) rpc_invalid [OF assms(2,3,5), of no_cmd] by (auto simp: rpc_write_def Let_def split: prod.split)
qed

theorem rpc_invalid_sticks_witness:
  "rpc_write demo_env [3, 0, 3] (rpc_write demo_env [3, 0, 4] demo_ha) = demo_ha\<lparr>ha_rpc := [3, 0, 4, 3, 0, 3]\<rparr>"
  using rpc_invalid_sticks [of demo_ha "[3, 0, 4]" "[3, 0, 3]" demo_env]
  by (simp add: demo_ha_def ha_static_def improv_parse_def checksum_def)

end
