(* ===== verification/Pin_Driver.thy ===== *)
theory Pin_Driver
  imports Pin_Tool
begin

text \<open>
  The kernel's pin and GPIO controller
  (\<open>linux/drivers/pinctrl/pinctrl-esp32s31.c\<close>) on the registers of theory
  Pin_Chip.  \<open>writel\<close> to the GPIO page is the device \<open>dev\<close> (locale
  \<open>gpio_block\<close>); each operation runs to its end under the driver's lock.  The
  records of the pinctrl core (groups, configurations) are the lists that the
  driver reads from them.

  The lemmas show that a configuration reads back, which fields an operation may
  change, that the pin tool makes a GPIO exactly as the driver does, and that the
  tool keeps off pins whose interrupt the kernel has enabled.
\<close>

abbreviation (input) OUT_W1TS :: nat where "OUT_W1TS \<equiv> 0x08"
abbreviation (input) OUT_W1TC :: nat where "OUT_W1TC \<equiv> 0x0c"
abbreviation (input) OUT1_W1TS :: nat where "OUT1_W1TS \<equiv> 0x14"
abbreviation (input) OUT1_W1TC :: nat where "OUT1_W1TC \<equiv> 0x18"
abbreviation (input) ENABLE_W1TS :: nat where "ENABLE_W1TS \<equiv> 0x38"
abbreviation (input) ENABLE_W1TC :: nat where "ENABLE_W1TC \<equiv> 0x3c"
abbreviation (input) ENABLE1_W1TS :: nat where "ENABLE1_W1TS \<equiv> 0x44"
abbreviation (input) ENABLE1_W1TC :: nat where "ENABLE1_W1TC \<equiv> 0x48"
abbreviation (input) STATUS_W1TC :: nat where "STATUS_W1TC \<equiv> 0x7c"
abbreviation (input) STATUS1_W1TC :: nat where "STATUS1_W1TC \<equiv> 0x88"
abbreviation (input) MUX_SIG :: u32 where "MUX_SIG \<equiv> 0x1ff"
abbreviation (input) MUX_IN :: u32 where "MUX_IN \<equiv> 0x200"
abbreviation (input) MUX_OUT :: u32 where "MUX_OUT \<equiv> 0x400"
abbreviation (input) MUX_FUNC :: u32 where "MUX_FUNC \<equiv> 0x3800"
abbreviation (input) IN_SEL_IOMUX :: u32 where "IN_SEL_IOMUX \<equiv> 0x80"

definition GPIO_INT :: "nat \<Rightarrow> nat \<Rightarrow> nat" where
  "GPIO_INT line bnk = 0xa4 + bnk * 0x10 + line * 4"

definition PIN_INT_ENA :: "nat \<Rightarrow> u32" where
  "PIN_INT_ENA line = push_bit (13 + line) 1"

text \<open>\<open>writel\<close> to the GPIO page.\<close>

definition writel :: "gpio_hw \<Rightarrow> nat \<Rightarrow> u32 \<Rightarrow> regs \<Rightarrow> regs" where
  "writel dev off v r = r\<lparr>gpio := dev off v (gpio r)\<rparr>"

section \<open>Pin multiplexing\<close>

definition esp32s31_iomux_rmw :: "nat \<Rightarrow> u32 \<Rightarrow> u32 \<Rightarrow> regs \<Rightarrow> regs" where
  "esp32s31_iomux_rmw pin clr bits r = r\<lparr>iomux := (iomux r)(pin := (iomux r pin AND NOT clr) OR bits)\<rparr>"

definition esp32s31_pin_rmw :: "gpio_hw \<Rightarrow> nat \<Rightarrow> u32 \<Rightarrow> u32 \<Rightarrow> regs \<Rightarrow> regs" where
  "esp32s31_pin_rmw dev pin clr bits r = writel dev (GPIO_PIN pin) ((gpio_rd r (GPIO_PIN pin) AND NOT clr) OR bits) r"

definition esp32s31_bank :: "nat \<Rightarrow> nat \<Rightarrow> nat \<Rightarrow> nat" where
  "esp32s31_bank pin reg0 reg1 = (if pin < 32 then reg0 else reg1)"

definition esp32s31_cnnt_pads :: "(nat \<times> nat \<times> nat \<times> u32) list" where
  "esp32s31_cnnt_pads = [(13, 19, 2, 0x2), (20, 25, 4, 0x1)]"

definition esp32s31_cnnt_select :: "nat \<Rightarrow> nat \<Rightarrow> regs \<Rightarrow> regs" where
  "esp32s31_cnnt_select pin func r =
     foldl (\<lambda>r (first, lst, f, sel). if pin < first \<or> pin > lst \<or> func \<noteq> f then r else r\<lparr>cnnt := cnnt r OR sel\<rparr>)
       r esp32s31_cnnt_pads"

definition esp32s31_mux_one :: "gpio_hw \<Rightarrow> nat \<Rightarrow> u32 \<Rightarrow> regs \<Rightarrow> errno option \<times> regs" where
  "esp32s31_mux_one dev pin mux r =
     (let func = drop_bit 11 (mux AND MUX_FUNC); sig = unat (mux AND MUX_SIG); matrix = (func = 1) in
      if pin \<ge> NPINS \<or> sig \<ge> NSIGS then (Some EINVAL, r)
      else let bits = push_bit 12 func;
               r = (if mux AND MUX_IN \<noteq> 0
                    then writel dev (GPIO_IN_SEL sig) (if matrix then IN_SEL_MATRIX OR of_nat pin else IN_SEL_IOMUX) r else r);
               bits = (if mux AND MUX_IN \<noteq> 0 then bits OR IOMUX_IE else bits);
               r = (if mux AND MUX_OUT \<noteq> 0 then writel dev (GPIO_OUT_SEL pin) (of_nat sig) r else r);
               r = esp32s31_iomux_rmw pin IOMUX_MCU_MASK bits r
           in (None, esp32s31_cnnt_select pin (unat func) r))"

text \<open>The group: its pins with their \<open>pinmux\<close> cells; \<open>None\<close>: no such group.\<close>

fun mux_all :: "gpio_hw \<Rightarrow> (nat \<times> u32) list \<Rightarrow> regs \<Rightarrow> errno option \<times> regs" where
  "mux_all dev [] r = (None, r)"
| "mux_all dev ((pin, mux) # ms) r =
     (case esp32s31_mux_one dev pin mux r of
        (Some e, r) \<Rightarrow> (Some e, r)
      | (None, r) \<Rightarrow> mux_all dev ms r)"

definition esp32s31_set_mux :: "gpio_hw \<Rightarrow> (nat \<times> u32) list option \<Rightarrow> regs \<Rightarrow> errno option \<times> regs" where
  "esp32s31_set_mux dev grp r = (case grp of None \<Rightarrow> (Some EINVAL, r) | Some ms \<Rightarrow> mux_all dev ms r)"

definition esp32s31_gpio_request_enable :: "gpio_hw \<Rightarrow> nat \<Rightarrow> regs \<Rightarrow> regs" where
  "esp32s31_gpio_request_enable dev pin r =
     (let r = writel dev (esp32s31_bank pin ENABLE_W1TC ENABLE1_W1TC) (push_bit (pin mod 32) 1) r;
          r = writel dev (GPIO_OUT_SEL pin) SIG_GPIO_OUT r
      in esp32s31_iomux_rmw pin IOMUX_MCU_MASK (push_bit 12 1 OR IOMUX_IE) r)"

section \<open>Pin configuration\<close>

text \<open>A packed configuration: the parameter with its argument.\<close>

datatype param = BIAS_DISABLE | BIAS_PULL_UP | BIAS_PULL_DOWN | INPUT_ENABLE | DRIVE_STRENGTH | DRIVE_OPEN_DRAIN
  | DRIVE_PUSH_PULL | PARAM_OTHER nat

datatype conf_error = CONF_ENOTSUPP | CONF_EINVAL

definition esp32s31_pin_config_get :: "nat \<Rightarrow> param \<Rightarrow> regs \<Rightarrow> conf_error + u32" where
  "esp32s31_pin_config_get pin p r =
     (let m = iomux r pin; pad = gpio_rd r (GPIO_PIN pin);
          yes = (\<lambda>on. if on then Inr 1 else Inl CONF_EINVAL)
      in case p of
           BIAS_DISABLE \<Rightarrow> yes (m AND (IOMUX_WPU OR IOMUX_WPD) = 0)
         | BIAS_PULL_UP \<Rightarrow> yes (m AND IOMUX_WPU \<noteq> 0)
         | BIAS_PULL_DOWN \<Rightarrow> yes (m AND IOMUX_WPD \<noteq> 0)
         | INPUT_ENABLE \<Rightarrow> yes (m AND IOMUX_IE \<noteq> 0)
         | DRIVE_OPEN_DRAIN \<Rightarrow> yes (pad AND PIN_PAD_DRIVER \<noteq> 0)
         | DRIVE_PUSH_PULL \<Rightarrow> yes (pad AND PIN_PAD_DRIVER = 0)
         | DRIVE_STRENGTH \<Rightarrow> Inr (of_nat (drive_ma ! unat (drop_bit 10 (m AND IOMUX_DRV_MASK))))
         | PARAM_OTHER _ \<Rightarrow> Inl CONF_ENOTSUPP)"

definition esp32s31_drive_field :: "u32 \<Rightarrow> u32 option" where
  "esp32s31_drive_field ma =
     map_option (\<lambda>i. push_bit 10 (of_nat i)) (find (\<lambda>i. of_nat (drive_ma ! i) = ma) [0..<4])"

definition esp32s31_config_one :: "gpio_hw \<Rightarrow> nat \<Rightarrow> param \<times> u32 \<Rightarrow> regs \<Rightarrow> conf_error option \<times> regs" where
  "esp32s31_config_one dev pin c r =
     (let pull = IOMUX_WPU OR IOMUX_WPD; arg = snd c in
      case fst c of
        BIAS_DISABLE \<Rightarrow> (None, esp32s31_iomux_rmw pin pull 0 r)
      | BIAS_PULL_UP \<Rightarrow> (None, esp32s31_iomux_rmw pin pull IOMUX_WPU r)
      | BIAS_PULL_DOWN \<Rightarrow> (None, esp32s31_iomux_rmw pin pull IOMUX_WPD r)
      | INPUT_ENABLE \<Rightarrow> (None, esp32s31_iomux_rmw pin IOMUX_IE (if arg \<noteq> 0 then IOMUX_IE else 0) r)
      | DRIVE_STRENGTH \<Rightarrow>
          (case esp32s31_drive_field arg of
             None \<Rightarrow> (Some CONF_EINVAL, r)
           | Some drv \<Rightarrow> (None, esp32s31_iomux_rmw pin IOMUX_DRV_MASK drv r))
      | DRIVE_OPEN_DRAIN \<Rightarrow> (None, esp32s31_pin_rmw dev pin 0 PIN_PAD_DRIVER r)
      | DRIVE_PUSH_PULL \<Rightarrow> (None, esp32s31_pin_rmw dev pin PIN_PAD_DRIVER 0 r)
      | PARAM_OTHER _ \<Rightarrow> (Some CONF_ENOTSUPP, r))"

fun esp32s31_pin_config_set :: "gpio_hw \<Rightarrow> nat \<Rightarrow> (param \<times> u32) list \<Rightarrow> regs \<Rightarrow> conf_error option \<times> regs" where
  "esp32s31_pin_config_set dev pin [] r = (None, r)"
| "esp32s31_pin_config_set dev pin (c # cs) r =
     (case esp32s31_config_one dev pin c r of
        (Some e, r) \<Rightarrow> (Some e, r)
      | (None, r) \<Rightarrow> esp32s31_pin_config_set dev pin cs r)"

fun config_pins :: "gpio_hw \<Rightarrow> nat list \<Rightarrow> (param \<times> u32) list \<Rightarrow> regs \<Rightarrow> conf_error option \<times> regs" where
  "config_pins dev [] cs r = (None, r)"
| "config_pins dev (pin # pins) cs r =
     (case esp32s31_pin_config_set dev pin cs r of
        (Some e, r) \<Rightarrow> (Some e, r)
      | (None, r) \<Rightarrow> config_pins dev pins cs r)"

definition esp32s31_pin_config_group_set ::
  "gpio_hw \<Rightarrow> nat list option \<Rightarrow> (param \<times> u32) list \<Rightarrow> regs \<Rightarrow> conf_error option \<times> regs" where
  "esp32s31_pin_config_group_set dev grp cs r =
     (case grp of None \<Rightarrow> (Some CONF_EINVAL, r) | Some pins \<Rightarrow> config_pins dev pins cs r)"

section \<open>GPIO\<close>

definition esp32s31_gpio_set :: "gpio_hw \<Rightarrow> nat \<Rightarrow> bool \<Rightarrow> regs \<Rightarrow> regs" where
  "esp32s31_gpio_set dev off high r =
     writel dev (if high then esp32s31_bank off OUT_W1TS OUT1_W1TS else esp32s31_bank off OUT_W1TC OUT1_W1TC)
       (push_bit (off mod 32) 1) r"

definition esp32s31_gpio_get :: "regs \<Rightarrow> nat \<Rightarrow> bool" where
  "esp32s31_gpio_get r off \<longleftrightarrow> gpio_rd r (esp32s31_bank off GPIO_IN GPIO_IN1) AND push_bit (off mod 32) 1 \<noteq> 0"

datatype direction = Direction_in | Direction_out

definition esp32s31_gpio_get_direction :: "regs \<Rightarrow> nat \<Rightarrow> direction" where
  "esp32s31_gpio_get_direction r off =
     (if gpio_rd r (esp32s31_bank off GPIO_ENABLE GPIO_ENABLE1) AND push_bit (off mod 32) 1 \<noteq> 0
      then Direction_out else Direction_in)"

definition esp32s31_gpio_direction_input :: "gpio_hw \<Rightarrow> nat \<Rightarrow> regs \<Rightarrow> regs" where
  "esp32s31_gpio_direction_input dev off r =
     writel dev (esp32s31_bank off ENABLE_W1TC ENABLE1_W1TC) (push_bit (off mod 32) 1) r"

definition esp32s31_gpio_direction_output :: "gpio_hw \<Rightarrow> nat \<Rightarrow> bool \<Rightarrow> regs \<Rightarrow> regs" where
  "esp32s31_gpio_direction_output dev off high r =
     writel dev (esp32s31_bank off ENABLE_W1TS ENABLE1_W1TS) (push_bit (off mod 32) 1) (esp32s31_gpio_set dev off high r)"

definition esp32s31_gpio_set_config :: "gpio_hw \<Rightarrow> nat \<Rightarrow> param \<times> u32 \<Rightarrow> regs \<Rightarrow> conf_error option \<times> regs" where
  "esp32s31_gpio_set_config dev off c r = esp32s31_config_one dev off c r"

section \<open>Interrupts\<close>

definition esp32s31_irq_ena :: "nat \<Rightarrow> u32" where
  "esp32s31_irq_ena hwirq = PIN_INT_ENA (2 + hwirq div 32)"

definition esp32s31_irq_ack :: "gpio_hw \<Rightarrow> nat \<Rightarrow> regs \<Rightarrow> regs" where
  "esp32s31_irq_ack dev hwirq r =
     writel dev (esp32s31_bank hwirq STATUS_W1TC STATUS1_W1TC) (push_bit (hwirq mod 32) 1) r"

definition esp32s31_irq_mask :: "gpio_hw \<Rightarrow> nat \<Rightarrow> regs \<Rightarrow> regs" where
  "esp32s31_irq_mask dev hwirq r = esp32s31_pin_rmw dev hwirq (esp32s31_irq_ena hwirq) 0 r"

definition esp32s31_irq_unmask :: "gpio_hw \<Rightarrow> nat \<Rightarrow> regs \<Rightarrow> regs" where
  "esp32s31_irq_unmask dev hwirq r = esp32s31_pin_rmw dev hwirq 0 (esp32s31_irq_ena hwirq) r"

text \<open>The sense bits of Linux: rising 1, falling 2, both 3, high 4, low 8.\<close>

definition int_type :: "nat \<Rightarrow> u32" where
  "int_type ty = (if ty = 1 then 1 else if ty = 2 then 2 else if ty = 3 then 3 else if ty = 4 then 5
     else if ty = 8 then 4 else 0)"

datatype flow = Handle_level | Handle_edge

definition esp32s31_irq_set_type :: "gpio_hw \<Rightarrow> nat \<Rightarrow> nat \<Rightarrow> regs \<Rightarrow> errno + flow \<times> regs" where
  "esp32s31_irq_set_type dev hwirq ty r =
     (let ty = ty mod 16 in
      if ty > 8 \<or> int_type ty = 0 then Inl EINVAL
      else let r = esp32s31_pin_rmw dev hwirq PIN_INT_TYPE_MASK (push_bit 7 (int_type ty)) r;
               r = esp32s31_irq_ack dev hwirq r
           in Inr (if ty div 4 mod 4 \<noteq> 0 then Handle_level else Handle_edge, r))"

text \<open>The interrupts that the handler of a bank raises, in order.\<close>

definition esp32s31_gpio_irq_handler :: "regs \<Rightarrow> nat \<Rightarrow> nat list" where
  "esp32s31_gpio_irq_handler r bnk =
     (let pending = gpio_rd r (GPIO_INT (2 + bnk) bnk)
      in map (\<lambda>b. bnk * 32 + b) (filter (bit pending) [0..<32]))"

text \<open>\<open>irqs\<close>: what \<open>platform_get_irq\<close> gives for each parent interrupt of the device
  tree.  The result: the error, and whether the GPIOs get interrupts.\<close>

definition esp32s31_irq_init :: "gpio_hw \<Rightarrow> (errno + nat) list \<Rightarrow> regs \<Rightarrow> errno option \<times> bool \<times> regs" where
  "esp32s31_irq_init dev irqs r =
     (if length irqs < 2 then (None, False, r)
      else case (irqs ! 0, irqs ! 1) of
             (Inl e, _) \<Rightarrow> (Some e, False, r)
           | (_, Inl e) \<Rightarrow> (Some e, False, r)
           | _ \<Rightarrow> (None, True, fold (\<lambda>i. esp32s31_pin_rmw dev i (PIN_INT_ENA 2 OR PIN_INT_ENA 3) 0) [0..<NPINS] r))"

section \<open>The memory device\<close>

definition esp32s31_gpiomem_mmap :: "nat \<Rightarrow> nat \<Rightarrow> nat option" where
  "esp32s31_gpiomem_mmap pgoff len = (if pgoff \<ge> 2 \<or> len \<noteq> 4096 then None else Some pgoff)"

definition esp32s31_gpiomem_read :: "regs \<Rightarrow> nat \<Rightarrow> nat \<Rightarrow> errno + bytes" where
  "esp32s31_gpiomem_read r pos len = (if pos \<noteq> 0x2000 \<or> len \<noteq> 4 then Inl EINVAL else Inr (put_le32 (cnnt r)))"

definition esp32s31_gpiomem_write :: "nat \<Rightarrow> bytes \<Rightarrow> regs \<Rightarrow> errno + regs" where
  "esp32s31_gpiomem_write pos buf r =
     (if pos \<noteq> 0x2000 \<or> length buf \<noteq> 4 then Inl EINVAL else Inr (r\<lparr>cnnt := get_le32 buf\<rparr>))"

section \<open>Probing\<close>

definition esp32s31_pins_init :: "bool \<Rightarrow> (nat \<Rightarrow> bool) \<Rightarrow> errno + (nat \<times> string) list" where
  "esp32s31_pins_init array_ok name_ok =
     (if \<not> array_ok \<or> \<not> list_all name_ok [0..<NPINS] then Inl ENOMEM
      else Inr (map (\<lambda>i. (i, ''GPIO'' @ dec i)) [0..<NPINS]))"

text \<open>\<open>pages\<close>: the addresses of the two blocks, if they are in the device tree.\<close>

definition esp32s31_gpiomem_init :: "u32 option list \<Rightarrow> errno option \<Rightarrow> errno option \<Rightarrow> errno option" where
  "esp32s31_gpiomem_init pages misc action =
     (if list_ex (\<lambda>p. case p of None \<Rightarrow> True | Some a \<Rightarrow> a AND 0xfff \<noteq> 0) pages then Some EINVAL
      else first_error [misc, action])"

text \<open>The results of the calls: the errors of the three mappings and of the registrations,
  the memory, the parent interrupts, and those of the memory device.\<close>

record pin_probe_env =
  pe_alloc :: bool
  pe_remap :: "errno option list"
  pe_array :: bool
  pe_name :: "nat \<Rightarrow> bool"
  pe_register :: "errno option"
  pe_enable :: "errno option"
  pe_irqs :: "(errno + nat) list"
  pe_chip :: "errno option"
  pe_config :: bool
  pe_pages :: "u32 option list"
  pe_misc :: "errno option"
  pe_action :: "errno option"

text \<open>The result: the error, whether the GPIOs have interrupts, whether there is a memory
  device, and the registers.\<close>

definition esp32s31_pinctrl_probe :: "gpio_hw \<Rightarrow> pin_probe_env \<Rightarrow> regs \<Rightarrow> errno option \<times> bool \<times> bool \<times> regs" where
  "esp32s31_pinctrl_probe dev e r =
     (if \<not> pe_alloc e then (Some ENOMEM, False, False, r)
      else case first_error (pe_remap e) of
        Some err \<Rightarrow> (Some err, False, False, r)
      | None \<Rightarrow>
          (case esp32s31_pins_init (pe_array e) (pe_name e) of
             Inl err \<Rightarrow> (Some err, False, False, r)
           | Inr pins \<Rightarrow>
               (case first_error [pe_register e, pe_enable e] of
                  Some err \<Rightarrow> (Some err, False, False, r)
                | None \<Rightarrow>
                    (case esp32s31_irq_init dev (pe_irqs e) r of
                       (Some err, irqs, r) \<Rightarrow> (Some err, irqs, False, r)
                     | (None, irqs, r) \<Rightarrow>
                         if pe_chip e \<noteq> None then (pe_chip e, irqs, False, r)
                         else (None, irqs, pe_config e \<and> esp32s31_gpiomem_init (pe_pages e) (pe_misc e) (pe_action e) = None, r)))))"

section \<open>Lemmas\<close>

text \<open>The bits of the IO MUX word and of the GPIO word that a parameter is about.\<close>

fun conf_field :: "param \<Rightarrow> u32" where
  "conf_field INPUT_ENABLE = IOMUX_IE"
| "conf_field DRIVE_STRENGTH = IOMUX_DRV_MASK"
| "conf_field DRIVE_OPEN_DRAIN = 0"
| "conf_field DRIVE_PUSH_PULL = 0"
| "conf_field (PARAM_OTHER n) = 0"
| "conf_field p = IOMUX_WPU OR IOMUX_WPD"

fun pad_field :: "param \<Rightarrow> u32" where
  "pad_field DRIVE_OPEN_DRAIN = PIN_PAD_DRIVER"
| "pad_field DRIVE_PUSH_PULL = PIN_PAD_DRIVER"
| "pad_field p = 0"

context gpio_block
begin

lemma writel_pin: "pin < NPINS \<Longrightarrow> writel dev (GPIO_PIN pin) v r = r\<lparr>gpio := (gpio r)(61 + pin := v)\<rparr>"
  using plain [of "GPIO_PIN pin" v "gpio r"] by (simp add: writel_def)

lemma writel_in_sel: "sig < NSIGS \<Longrightarrow> writel dev (GPIO_IN_SEL sig) v r = r\<lparr>gpio := (gpio r)(189 + sig := v)\<rparr>"
  using plain [of "GPIO_IN_SEL sig" v "gpio r"] by (simp add: writel_def)

lemma writel_out_sel: "pin < NPINS \<Longrightarrow> writel dev (GPIO_OUT_SEL pin) v r = r\<lparr>gpio := (gpio r)(701 + pin := v)\<rparr>"
  using plain [of "GPIO_OUT_SEL pin" v "gpio r"] by (simp add: writel_def)

lemma pin_rmw: "pin < NPINS \<Longrightarrow>
  esp32s31_pin_rmw dev pin clr bits r = r\<lparr>gpio := (gpio r)(61 + pin := (gpio r (61 + pin) AND NOT clr) OR bits)\<rparr>"
  by (simp add: esp32s31_pin_rmw_def writel_pin gpio_rd_def)

text \<open>The registers after \<open>probe\<close>: with the two parent interrupts no pin has a line of the
  kernel enabled and all else is as before; without them nothing changes.\<close>

lemma rmw_all:
  assumes "n \<le> NPINS"
  shows "fold (\<lambda>i. esp32s31_pin_rmw dev i clr 0) [0..<n] r =
    r\<lparr>gpio := \<lambda>j. if 61 \<le> j \<and> j < 61 + n then gpio r j AND NOT clr else gpio r j\<rparr>"
  using assms
proof (induction n)
  case 0
  have "(\<lambda>j. if 61 \<le> j \<and> j < 61 then gpio r j AND NOT clr else gpio r j) = gpio r"
    by (auto simp: fun_eq_iff)
  then show ?case
    by simp
next
  case (Suc n)
  have "(\<lambda>j. if 61 \<le> j \<and> j < 61 + n then gpio r j AND NOT clr else gpio r j)(61 + n := gpio r (61 + n) AND NOT clr) =
      (\<lambda>j. if 61 \<le> j \<and> j < 61 + Suc n then gpio r j AND NOT clr else gpio r j)"
    by (auto simp: fun_eq_iff)
  then show ?case
    using Suc by (simp add: pin_rmw)
qed

lemma probe_regs:
  assumes "esp32s31_pinctrl_probe dev e r = (err, irqs, mem, r')"
  shows "r' = (if irqs then r\<lparr>gpio := \<lambda>j. if 61 \<le> j \<and> j < 61 + NPINS then gpio r j AND NOT (PIN_INT_ENA 2 OR PIN_INT_ENA 3) else gpio r j\<rparr> else r)"
    "mem \<longrightarrow> err = None \<and> (\<forall>a \<in> set (pe_pages e). \<exists>v. a = Some v \<and> v AND 0xfff = 0)"
    "irqs \<longrightarrow> 2 \<le> length (pe_irqs e)"
  using assms rmw_all [of NPINS "PIN_INT_ENA 2 OR PIN_INT_ENA 3" r]
  by (auto simp: esp32s31_pinctrl_probe_def esp32s31_irq_init_def esp32s31_gpiomem_init_def list_ex_iff simp del: upt_rec_numeral
      split: if_splits option.splits sum.splits)

text \<open>The memory device is a debug aid: what becomes of it does not change the result.\<close>

lemma gpiomem_optional:
  "fst (esp32s31_pinctrl_probe dev (e\<lparr>pe_config := c, pe_pages := ps, pe_misc := x, pe_action := y\<rparr>) r) = fst (esp32s31_pinctrl_probe dev e r)"
  by (simp add: esp32s31_pinctrl_probe_def split: option.split sum.split prod.split)

lemma dev_w1:
  "dev 8 v p = p(1 := w1_word (p 1) v True)" "dev 12 v p = p(1 := w1_word (p 1) v False)"
  "dev 20 v p = p(4 := w1_word (p 4) v True)" "dev 24 v p = p(4 := w1_word (p 4) v False)"
  "dev 56 v p = p(13 := w1_word (p 13) v True)" "dev 60 v p = p(13 := w1_word (p 13) v False)"
  "dev 68 v p = p(16 := w1_word (p 16) v True)" "dev 72 v p = p(16 := w1_word (p 16) v False)"
  "dev 124 v p = p(29 := w1_word (p 29) v False)" "dev 136 v p = p(32 := w1_word (p 32) v False)"
proof -
  show "dev 8 v p = p(1 := w1_word (p 1) v True)"
    using set_clear [of GPIO_OUT True v p] by simp
  show "dev 12 v p = p(1 := w1_word (p 1) v False)"
    using set_clear [of GPIO_OUT False v p] by simp
  show "dev 20 v p = p(4 := w1_word (p 4) v True)"
    using set_clear [of GPIO_OUT1 True v p] by simp
  show "dev 24 v p = p(4 := w1_word (p 4) v False)"
    using set_clear [of GPIO_OUT1 False v p] by simp
  show "dev 56 v p = p(13 := w1_word (p 13) v True)"
    using set_clear [of GPIO_ENABLE True v p] by simp
  show "dev 60 v p = p(13 := w1_word (p 13) v False)"
    using set_clear [of GPIO_ENABLE False v p] by simp
  show "dev 68 v p = p(16 := w1_word (p 16) v True)"
    using set_clear [of GPIO_ENABLE1 True v p] by simp
  show "dev 72 v p = p(16 := w1_word (p 16) v False)"
    using set_clear [of GPIO_ENABLE1 False v p] by simp
  show "dev 124 v p = p(29 := w1_word (p 29) v False)"
    using set_clear [of GPIO_STATUS False v p] by simp
  show "dev 136 v p = p(32 := w1_word (p 32) v False)"
    using set_clear [of GPIO_STATUS1 False v p] by simp
qed

lemma writel_w1:
  "writel dev (esp32s31_bank pin ENABLE_W1TC ENABLE1_W1TC) v r =
     r\<lparr>gpio := (gpio r)(bank pin GPIO_ENABLE GPIO_ENABLE1 div 4 := w1_word (gpio r (bank pin GPIO_ENABLE GPIO_ENABLE1 div 4)) v False)\<rparr>"
  "writel dev (esp32s31_bank pin ENABLE_W1TS ENABLE1_W1TS) v r =
     r\<lparr>gpio := (gpio r)(bank pin GPIO_ENABLE GPIO_ENABLE1 div 4 := w1_word (gpio r (bank pin GPIO_ENABLE GPIO_ENABLE1 div 4)) v True)\<rparr>"
  "writel dev (if on then esp32s31_bank pin OUT_W1TS OUT1_W1TS else esp32s31_bank pin OUT_W1TC OUT1_W1TC) v r =
     r\<lparr>gpio := (gpio r)(bank pin GPIO_OUT GPIO_OUT1 div 4 := w1_word (gpio r (bank pin GPIO_OUT GPIO_OUT1 div 4)) v on)\<rparr>"
  by (simp_all add: writel_def esp32s31_bank_def bank_def dev_w1)

lemma tool_out: "pin_set_out (live_backend dev) pin high r = esp32s31_gpio_set dev pin high r"
  unfolding pin_set_out_def gpio_w1_def esp32s31_gpio_set_def writel_w1
  by (rule live.w1) (simp add: bank_def)

lemma ie_same: "(x AND NOT (IOMUX_MCU_MASK OR IOMUX_IE)) OR (push_bit 12 1 OR IOMUX_IE) =
    (x AND NOT IOMUX_MCU_MASK) OR (push_bit 12 1 OR (IOMUX_IE :: u32))"
proof -
  have "(x AND NOT (m OR i)) OR (g OR i) = (x AND NOT m) OR (g OR i)" for m i g :: u32
    by (rule bit_word_eqI) (auto simp: bit_simps)
  then show ?thesis .
qed

lemma request_enable:
  assumes "pin < NPINS"
  shows "esp32s31_gpio_request_enable dev pin r = r\<lparr>gpio := (gpio r)(701 + pin := SIG_GPIO_OUT,
      bank pin GPIO_ENABLE GPIO_ENABLE1 div 4 :=
        w1_word (gpio r (bank pin GPIO_ENABLE GPIO_ENABLE1 div 4)) (push_bit (pin mod 32) 1) False),
      iomux := (iomux r)(pin := (iomux r pin AND NOT IOMUX_MCU_MASK) OR (push_bit 12 1 OR IOMUX_IE))\<rparr>"
proof -
  have "bank pin GPIO_ENABLE GPIO_ENABLE1 div 4 \<noteq> 701 + pin"
    by (simp add: bank_def)
  then show ?thesis
    unfolding esp32s31_gpio_request_enable_def Let_def writel_w1 writel_out_sel [OF assms] esp32s31_iomux_rmw_def
    by (simp add: fun_upd_twist)
qed

lemma tool_mode:
  assumes "pin < NPINS" and "mode = MODE_IP \<or> mode = MODE_OP"
  shows "pin_set_mode (live_backend dev) pin mode r = r\<lparr>gpio := (gpio r)(701 + pin := SIG_GPIO_OUT,
      bank pin GPIO_ENABLE GPIO_ENABLE1 div 4 :=
        w1_word (gpio r (bank pin GPIO_ENABLE GPIO_ENABLE1 div 4)) (push_bit (pin mod 32) 1) (mode = MODE_OP)),
      iomux := (iomux r)(pin := (iomux r pin AND NOT IOMUX_MCU_MASK) OR (push_bit 12 1 OR IOMUX_IE))\<rparr>"
proof -
  have b: "bank pin GPIO_ENABLE GPIO_ENABLE1 \<in> {GPIO_OUT, GPIO_OUT1, GPIO_ENABLE, GPIO_ENABLE1}"
    "bank pin GPIO_ENABLE GPIO_ENABLE1 div 4 \<noteq> 701 + pin"
    by (simp_all add: bank_def)
  have m: "\<not> mode \<le> MODE_A4" "mode \<noteq> MODE_NO"
    using assms(2) by auto
  show ?thesis
    using m b(2) unfolding pin_set_mode_def Let_def gpio_wr_def gpio_w1_def live.store [OF assms(1)] live.w1 [OF b(1)]
      iomux_rmw_def by (simp only: if_False ie_same) simp
qed

lemma tool_input: "pin < NPINS \<Longrightarrow> pin_set_mode (live_backend dev) pin MODE_IP r = esp32s31_gpio_request_enable dev pin r"
  by (simp add: tool_mode request_enable)

lemma w1_word_again: "w1_word (w1_word w m False) m True = w1_word w m True"
  unfolding w1_word_def by (simp only: if_True if_False, rule bit_word_eqI) (auto simp: bit_simps)

lemma tool_output:
  assumes "pin < NPINS"
  shows "pin_set_mode (live_backend dev) pin MODE_OP (pin_set_out (live_backend dev) pin high r) =
    esp32s31_gpio_direction_output dev pin high (esp32s31_gpio_request_enable dev pin r)"
proof -
  let ?o = "bank pin GPIO_OUT GPIO_OUT1 div 4" and ?e = "bank pin GPIO_ENABLE GPIO_ENABLE1 div 4"
  have n: "?o \<noteq> ?e" "?o \<noteq> 701 + pin" "?e \<noteq> 701 + pin"
    by (simp_all add: bank_def)
  have d: "esp32s31_gpio_direction_output dev pin high s = s\<lparr>gpio := (gpio s)
      (?o := w1_word (gpio s ?o) (push_bit (pin mod 32) 1) high, ?e := w1_word (gpio s ?e) (push_bit (pin mod 32) 1) True)\<rparr>" for s
    unfolding esp32s31_gpio_direction_output_def esp32s31_gpio_set_def writel_w1 using n by simp
  have o: "pin_set_out (live_backend dev) pin high r =
      r\<lparr>gpio := (gpio r)(?o := w1_word (gpio r ?o) (push_bit (pin mod 32) 1) high)\<rparr>"
    unfolding tool_out esp32s31_gpio_set_def writel_w1 ..
  have m: "pin_set_mode (live_backend dev) pin MODE_OP s = s\<lparr>gpio := (gpio s)(701 + pin := SIG_GPIO_OUT,
      ?e := w1_word (gpio s ?e) (push_bit (pin mod 32) 1) True),
      iomux := (iomux s)(pin := (iomux s pin AND NOT IOMUX_MCU_MASK) OR (push_bit 12 1 OR IOMUX_IE))\<rparr>" for s
    using tool_mode [OF assms, of MODE_OP s] by simp
  show ?thesis
    unfolding d o m request_enable [OF assms]
    by (rule regs.equality) (use n in \<open>simp_all add: w1_word_again fun_eq_iff\<close>)
qed

end

context gpio_block
begin

lemma drive_field:
  assumes "esp32s31_drive_field ma = Some f"
  shows "\<exists>i < 4. f = push_bit 10 (of_nat i) \<and> of_nat (drive_ma ! i) = ma"
  using assms by (fastforce simp: esp32s31_drive_field_def find_Some_iff)

lemma drive_back:
  assumes "i < (4 :: nat)"
  shows "unat (drop_bit 10 ((((x :: u32) AND NOT IOMUX_DRV_MASK) OR push_bit 10 (of_nat i)) AND IOMUX_DRV_MASK)) = i"
proof -
  have "i = 0 \<or> i = 1 \<or> i = 2 \<or> i = 3"
    using assms by linarith
  then show ?thesis
    unfolding field_set by (elim disjE; simp)
qed

lemma rmw_reads [simp]:
  "iomux (esp32s31_iomux_rmw pin clr bits r) q = (if q = pin then (iomux r q AND NOT clr) OR bits else iomux r q)"
  "gpio (esp32s31_iomux_rmw pin clr bits r) = gpio r"
  by (simp_all add: esp32s31_iomux_rmw_def)

lemma pin_rmw_reads:
  assumes "pin < NPINS"
  shows "iomux (esp32s31_pin_rmw dev pin clr bits r) = iomux r"
    and "gpio (esp32s31_pin_rmw dev pin clr bits r) i = (if i = 61 + pin then (gpio r i AND NOT clr) OR bits else gpio r i)"
  by (simp_all add: pin_rmw [OF assms])

lemma pull_bits:
  "(((x :: u32) AND NOT (IOMUX_WPU OR IOMUX_WPD)) OR b) AND m = b AND m" if "m \<in> {IOMUX_WPU, IOMUX_WPD, IOMUX_WPU OR IOMUX_WPD}"
  by (rule field_sub) (use that in auto)

lemma config_back:
  assumes "pin < NPINS" and "esp32s31_config_one dev pin (p, arg) r = (None, r')"
  shows "esp32s31_pin_config_get pin p r' =
    (if p = INPUT_ENABLE \<and> arg = 0 then Inl CONF_EINVAL else Inr (if p = DRIVE_STRENGTH then arg else 1))"
proof (cases p)
  case DRIVE_STRENGTH
  then obtain f where f: "esp32s31_drive_field arg = Some f" "r' = esp32s31_iomux_rmw pin IOMUX_DRV_MASK f r"
    using assms(2) by (auto simp: esp32s31_config_one_def split: option.splits)
  obtain i where i: "i < 4" "f = push_bit 10 (of_nat i)" "of_nat (drive_ma ! i) = arg"
    using drive_field [OF f(1)] by blast
  have "unat (drop_bit 10 (iomux r' pin AND IOMUX_DRV_MASK)) = i"
    using drive_back [OF i(1), of "iomux r pin"] by (simp only: f(2) i(2) rmw_reads if_True simp_thms)
  then show ?thesis
    using DRIVE_STRENGTH i(3) by (simp add: esp32s31_pin_config_get_def)
next
  case BIAS_DISABLE
  then have "iomux r' pin AND (IOMUX_WPU OR IOMUX_WPD) = 0"
    using assms(2) pull_bits [of "IOMUX_WPU OR IOMUX_WPD" "iomux r pin" 0] by (auto simp: esp32s31_config_one_def)
  then show ?thesis
    using BIAS_DISABLE by (simp add: esp32s31_pin_config_get_def)
next
  case BIAS_PULL_UP
  then have "iomux r' pin AND IOMUX_WPU \<noteq> 0"
    using assms(2) pull_bits [of IOMUX_WPU "iomux r pin" IOMUX_WPU] by (auto simp: esp32s31_config_one_def)
  then show ?thesis
    using BIAS_PULL_UP by (simp add: esp32s31_pin_config_get_def)
next
  case BIAS_PULL_DOWN
  then have "iomux r' pin AND IOMUX_WPD \<noteq> 0"
    using assms(2) pull_bits [of IOMUX_WPD "iomux r pin" IOMUX_WPD] by (auto simp: esp32s31_config_one_def)
  then show ?thesis
    using BIAS_PULL_DOWN by (simp add: esp32s31_pin_config_get_def)
next
  case INPUT_ENABLE
  then have "iomux r' pin AND IOMUX_IE = (if arg \<noteq> 0 then IOMUX_IE else 0)"
    using assms(2) field_set [of "iomux r pin" IOMUX_IE "if arg \<noteq> 0 then IOMUX_IE else 0"] by (auto simp: esp32s31_config_one_def)
  then show ?thesis
    using INPUT_ENABLE by (simp add: esp32s31_pin_config_get_def)
next
  case DRIVE_OPEN_DRAIN
  then have "gpio_rd r' (GPIO_PIN pin) AND PIN_PAD_DRIVER = (0 OR PIN_PAD_DRIVER) AND PIN_PAD_DRIVER"
  proof -
    have "gpio r' (61 + pin) = gpio r (61 + pin) OR PIN_PAD_DRIVER"
      using assms(2) DRIVE_OPEN_DRAIN by (auto simp: esp32s31_config_one_def pin_rmw_reads [OF assms(1)])
    then show ?thesis
      by (simp add: gpio_rd_def)
  qed
  then show ?thesis
    using DRIVE_OPEN_DRAIN by (simp add: esp32s31_pin_config_get_def)
next
  case DRIVE_PUSH_PULL
  then have "gpio_rd r' (GPIO_PIN pin) AND PIN_PAD_DRIVER = 0"
    using assms(2) field_set [of "gpio r (61 + pin)" PIN_PAD_DRIVER 0]
    by (auto simp: esp32s31_config_one_def gpio_rd_def pin_rmw_reads [OF assms(1)])
  then show ?thesis
    using DRIVE_PUSH_PULL by (simp add: esp32s31_pin_config_get_def)
qed (use assms(2) in \<open>simp add: esp32s31_config_one_def\<close>)

lemma config_frame:
  assumes "pin < NPINS" and "esp32s31_config_one dev pin c r = (err, r')"
  shows "q \<noteq> pin \<Longrightarrow> iomux r' q = iomux r q" and "i \<noteq> 61 + pin \<Longrightarrow> gpio r' i = gpio r i"
    and "gpio r' (61 + pin) AND NOT PIN_PAD_DRIVER = gpio r (61 + pin) AND NOT PIN_PAD_DRIVER"
    and "err \<noteq> None \<Longrightarrow> r' = r"
proof -
  have w: "(w AND NOT m OR 0) AND NOT m = w AND NOT m" "(w AND NOT 0 OR m) AND NOT m = w AND NOT m" for w m :: u32
    by (rule bit_word_eqI; auto simp: bit_simps)+
  show "q \<noteq> pin \<Longrightarrow> iomux r' q = iomux r q" "i \<noteq> 61 + pin \<Longrightarrow> gpio r' i = gpio r i"
    "err \<noteq> None \<Longrightarrow> r' = r"
    using assms(2) by (auto simp: esp32s31_config_one_def Let_def pin_rmw_reads [OF assms(1)] split: param.splits option.splits)
  have "gpio r' (61 + pin) = gpio r (61 + pin) \<or> gpio r' (61 + pin) = (gpio r (61 + pin) AND NOT 0) OR PIN_PAD_DRIVER \<or>
      gpio r' (61 + pin) = (gpio r (61 + pin) AND NOT PIN_PAD_DRIVER) OR 0"
    using assms(2) by (auto simp: esp32s31_config_one_def Let_def pin_rmw_reads [OF assms(1)] split: param.splits option.splits)
  then show "gpio r' (61 + pin) AND NOT PIN_PAD_DRIVER = gpio r (61 + pin) AND NOT PIN_PAD_DRIVER"
    by (elim disjE) (simp_all only: w)
qed

lemma config_own_frame:
  assumes "pin < NPINS" and "esp32s31_config_one dev pin (p, arg) r = (err, r')"
  shows "iomux r' pin AND NOT (conf_field p) = iomux r pin AND NOT (conf_field p)"
    and "gpio r' (61 + pin) AND NOT (pad_field p) = gpio r (61 + pin) AND NOT (pad_field p)" and "cnnt r' = cnnt r"
proof -
  have w: "(w AND NOT m OR b) AND NOT m = w AND NOT m" if "b AND NOT m = 0" for w m b :: u32
  proof -
    have "(w AND NOT m OR b) AND NOT m = (w AND NOT m) OR (b AND NOT m)"
      by (rule bit_word_eqI) (auto simp: bit_simps)
    then show ?thesis
      using that by simp
  qed
  have w0: "(w AND NOT 0 OR m) AND NOT m = w AND NOT m" for w m :: u32
    by (rule bit_word_eqI) (auto simp: bit_simps)
  have m: "IOMUX_WPU AND NOT (IOMUX_WPU OR IOMUX_WPD) = 0" "IOMUX_WPD AND NOT (IOMUX_WPU OR IOMUX_WPD) = 0" "IOMUX_IE AND NOT IOMUX_IE = 0"
    by simp_all
  have d: "f AND NOT IOMUX_DRV_MASK = 0" if f: "esp32s31_drive_field arg = Some f" for f
  proof -
    obtain i where "i < 4" "f = push_bit 10 (of_nat i)"
      using drive_field [OF f] by blast
    then show ?thesis
      by (auto simp: less_Suc_eq numeral_eq_Suc)
  qed
  show "iomux r' pin AND NOT (conf_field p) = iomux r pin AND NOT (conf_field p)"
    using assms(2) w [OF m(1)] w [OF m(2)] w [OF m(3)] w [OF d] by (cases p) (auto simp: esp32s31_config_one_def pin_rmw_reads [OF assms(1)] split: option.splits)
  show "gpio r' (61 + pin) AND NOT (pad_field p) = gpio r (61 + pin) AND NOT (pad_field p)"
    using assms(2) w [of 0] w0 [of "gpio r (61 + pin)" PIN_PAD_DRIVER] by (cases p) (auto simp: esp32s31_config_one_def pin_rmw_reads [OF assms(1)] split: option.splits)
  show "cnnt r' = cnnt r"
    using assms(2) by (cases p) (auto simp: esp32s31_config_one_def esp32s31_iomux_rmw_def pin_rmw [OF assms(1)] split: option.splits)
qed

lemma config_accepts:
  "fst (esp32s31_config_one dev pin (p, arg) r) =
    (case p of PARAM_OTHER _ \<Rightarrow> Some CONF_ENOTSUPP
     | DRIVE_STRENGTH \<Rightarrow> (if arg \<in> {5, 10, 20, 40} then None else Some CONF_EINVAL) | _ \<Rightarrow> None)"
  by (cases p) (auto simp: esp32s31_config_one_def esp32s31_drive_field_def drive_ma_def upt_rec)

lemma config_bias:
  assumes "esp32s31_config_one dev pin (p, arg) r = (err, r')"
    and "p \<in> {BIAS_DISABLE, BIAS_PULL_UP, BIAS_PULL_DOWN}" "q \<in> {BIAS_DISABLE, BIAS_PULL_UP, BIAS_PULL_DOWN}" "q \<noteq> p"
  shows "esp32s31_pin_config_get pin q r' = Inl CONF_EINVAL"
  using assms pull_bits [of IOMUX_WPU "iomux r pin"] pull_bits [of IOMUX_WPD "iomux r pin"]
    pull_bits [of "IOMUX_WPU OR IOMUX_WPD" "iomux r pin"] pull_bits [of IOMUX_WPU "iomux r pin" 0]
    pull_bits [of IOMUX_WPD "iomux r pin" 0]
  by (auto simp: esp32s31_config_one_def esp32s31_pin_config_get_def)

end

section \<open>Interrupt enables\<close>

lemma irq_ena_bit: "hwirq < NPINS \<Longrightarrow> bit (esp32s31_irq_ena hwirq) k \<longleftrightarrow> k = 15 + hwirq div 32"
  by (auto simp: esp32s31_irq_ena_def PIN_INT_ENA_def bit_simps)

lemma int_lines_nonzero:
  assumes "hwirq < NPINS" and "gpio r (61 + hwirq) = w OR esp32s31_irq_ena hwirq"
  shows "st_int_lines (pin_get be r hwirq) \<noteq> 0"
proof -
  let ?k = "2 + hwirq div 32"
  have m: "bit (PIN_INT_ENA_MASK :: u32) (13 + ?k)"
  proof -
    have "hwirq div 32 = 0 \<or> hwirq div 32 = 1"
      using assms(1) by auto
    then show ?thesis
      by (elim disjE) (simp_all add: bit_iff_odd)
  qed
  have "bit (drop_bit 13 (gpio r (61 + hwirq) AND PIN_INT_ENA_MASK)) ?k"
    unfolding bit_drop_bit_eq o_def bit_and_iff assms(2) bit_or_iff irq_ena_bit [OF assms(1)] using m by simp
  then have "drop_bit 13 (gpio r (61 + hwirq) AND PIN_INT_ENA_MASK) \<noteq> 0"
    by (metis bit_0_eq bot_apply bot_bool_def)
  then show ?thesis
    by (simp add: pin_get_def gpio_rd_def Let_def unat_eq_0 unat_gt_0 split: prod.split)
qed

context gpio_block
begin

lemma unmasked_refused:
  assumes "hwirq < NPINS"
  shows "set_refusal t (esp32s31_irq_unmask dev hwirq r) hwirq \<noteq> None"
proof -
  have "gpio (esp32s31_irq_unmask dev hwirq r) (61 + hwirq) = gpio r (61 + hwirq) OR esp32s31_irq_ena hwirq"
    by (simp add: esp32s31_irq_unmask_def pin_rmw [OF assms])
  from int_lines_nonzero [OF assms this, of "t_be t"] show ?thesis
    by (simp add: set_refusal_def Let_def)
qed

lemma mask_unmask:
  assumes "hwirq < NPINS"
  shows "gpio (esp32s31_irq_mask dev hwirq (esp32s31_irq_unmask dev hwirq r)) i =
    (if i = 61 + hwirq then gpio r i AND NOT (esp32s31_irq_ena hwirq) else gpio r i)"
  by (simp add: esp32s31_irq_unmask_def esp32s31_irq_mask_def pin_rmw [OF assms])
    (rule impI, rule bit_word_eqI, auto simp: bit_simps)

end

section \<open>Properties\<close>

text \<open>C25: a pin configuration.  The driver accepts exactly the parameters it
  knows, with one of the four currents for the drive strength.  What it accepted is
  what \<open>pin_config_get\<close> then reports (the drive strength in mA, 1 for a flag that
  is on, EINVAL for an input that was switched off, and of the three settings of the
  pull only the one that was made); and only the field of the parameter
  changes: all other bits of the pin's IO MUX word and of its GPIO word, the other
  pins' IO MUX words, the other words of the GPIO block and the CNNT select are as
  they were.  A configuration that is refused changes nothing.\<close>

theorem config_readback:
  assumes "gpio_block dev" and "pin < NPINS" and "esp32s31_config_one dev pin (p, arg) r = (err, r')"
  shows "err = (case p of PARAM_OTHER _ \<Rightarrow> Some CONF_ENOTSUPP
       | DRIVE_STRENGTH \<Rightarrow> (if arg \<in> {5, 10, 20, 40} then None else Some CONF_EINVAL) | _ \<Rightarrow> None) \<and>
    (err = None \<longrightarrow> esp32s31_pin_config_get pin p r' =
       (if p = INPUT_ENABLE \<and> arg = 0 then Inl CONF_EINVAL else Inr (if p = DRIVE_STRENGTH then arg else 1))) \<and>
    (p \<in> {BIAS_DISABLE, BIAS_PULL_UP, BIAS_PULL_DOWN} \<longrightarrow>
       (\<forall>q \<in> {BIAS_DISABLE, BIAS_PULL_UP, BIAS_PULL_DOWN} - {p}. esp32s31_pin_config_get pin q r' = Inl CONF_EINVAL)) \<and>
    (err \<noteq> None \<longrightarrow> r' = r) \<and>
    iomux r' pin AND NOT (conf_field p) = iomux r pin AND NOT (conf_field p) \<and>
    gpio r' (61 + pin) AND NOT (pad_field p) = gpio r (61 + pin) AND NOT (pad_field p) \<and>
    (\<forall>q. q \<noteq> pin \<longrightarrow> iomux r' q = iomux r q) \<and> (\<forall>i. i \<noteq> 61 + pin \<longrightarrow> gpio r' i = gpio r i) \<and> cnnt r' = cnnt r"
proof (intro conjI impI allI ballI)
  note c = assms(3) and g = assms(1)
  show "err = (case p of PARAM_OTHER _ \<Rightarrow> Some CONF_ENOTSUPP
       | DRIVE_STRENGTH \<Rightarrow> (if arg \<in> {5, 10, 20, 40} then None else Some CONF_EINVAL) | _ \<Rightarrow> None)"
    using gpio_block.config_accepts [OF g, of pin p arg r] unfolding c fst_conv .
  show "err = None \<Longrightarrow> esp32s31_pin_config_get pin p r' =
       (if p = INPUT_ENABLE \<and> arg = 0 then Inl CONF_EINVAL else Inr (if p = DRIVE_STRENGTH then arg else 1))"
    using gpio_block.config_back [OF g assms(2), of p arg r r'] c by blast
  show "\<And>q. p \<in> {BIAS_DISABLE, BIAS_PULL_UP, BIAS_PULL_DOWN} \<Longrightarrow>
      q \<in> {BIAS_DISABLE, BIAS_PULL_UP, BIAS_PULL_DOWN} - {p} \<Longrightarrow> esp32s31_pin_config_get pin q r' = Inl CONF_EINVAL"
    using gpio_block.config_bias [OF g c] by blast
qed (use gpio_block.config_frame [OF assms] gpio_block.config_own_frame [OF assms] in \<open>blast+\<close>)

theorem config_readback_witness:
  "esp32s31_pin_config_get 47 DRIVE_STRENGTH
     (snd (esp32s31_config_one w1_device 47 (DRIVE_STRENGTH, 20) \<lparr>iomux = (\<lambda>_. 0), gpio = (\<lambda>_. 0), cnnt = 0\<rparr>)) = Inr 20"
proof -
  let ?r = "\<lparr>iomux = (\<lambda>_. 0), gpio = (\<lambda>_. 0), cnnt = 0\<rparr>"
  have "esp32s31_config_one w1_device 47 (DRIVE_STRENGTH, 20) ?r =
      (None, snd (esp32s31_config_one w1_device 47 (DRIVE_STRENGTH, 20) ?r))"
    by (simp add: esp32s31_config_one_def esp32s31_drive_field_def drive_ma_def upt_rec)
  from config_readback [OF dev.gpio_block_axioms _ this] show ?thesis
    by simp
qed

text \<open>C26: the pin tool and the kernel agree on what a GPIO is.  On the chip, the
  tool's mode \<open>ip\<close> leaves every register as the driver does when the kernel
  requests the pin, and a level with the mode \<open>op\<close> as a request followed by
  \<open>direction_output\<close>; the tool's level alone is the driver's \<open>gpio_set\<close>.\<close>

theorem tool_as_driver:
  assumes "gpio_block dev" and "pin < NPINS"
  shows "pin_set_mode (live_backend dev) pin MODE_IP r = esp32s31_gpio_request_enable dev pin r \<and>
    pin_set_out (live_backend dev) pin high r = esp32s31_gpio_set dev pin high r \<and>
    apply_set (live_backend dev) \<lparr>sp_drive = Some high, sp_fsel = Some MODE_OP, sp_pull = None\<rparr> pin r =
      esp32s31_gpio_direction_output dev pin high (esp32s31_gpio_request_enable dev pin r)"
  using gpio_block.tool_input [OF assms] gpio_block.tool_output [OF assms] gpio_block.tool_out [OF assms(1)]
  by (simp add: apply_set_def Let_def)

theorem tool_as_driver_witness:
  "pin_set_mode (live_backend w1_device) 5 MODE_IP \<lparr>iomux = (\<lambda>_. 0xffff), gpio = (\<lambda>_. 0xffffffff), cnnt = 0\<rparr> =
     esp32s31_gpio_request_enable w1_device 5 \<lparr>iomux = (\<lambda>_. 0xffff), gpio = (\<lambda>_. 0xffffffff), cnnt = 0\<rparr>"
  using tool_as_driver [OF dev.gpio_block_axioms, of 5] by simp

text \<open>Interrupts.  Once the kernel has enabled the interrupt of a GPIO, \<open>set\<close>
  refuses the pin, also with \<open>-f\<close> and on a board with unknown lines; masking
  the interrupt again clears just its enable, and every other word of the GPIO
  block (each other pin's interrupt with it) is as it was.\<close>

theorem irq_keeps_tool_off:
  assumes "gpio_block dev" and "hwirq < NPINS"
  shows "set_refusal t (esp32s31_irq_unmask dev hwirq r) hwirq \<noteq> None \<and>
    gpio (esp32s31_irq_mask dev hwirq (esp32s31_irq_unmask dev hwirq r)) i =
      (if i = 61 + hwirq then gpio r i AND NOT (esp32s31_irq_ena hwirq) else gpio r i)"
  using gpio_block.unmasked_refused [OF assms] gpio_block.mask_unmask [OF assms] by blast

theorem irq_keeps_tool_off_witness:
  "gpio (esp32s31_irq_mask w1_device 40 (esp32s31_irq_unmask w1_device 40
     \<lparr>iomux = (\<lambda>_. 0), gpio = (\<lambda>_. 0xffffffff), cnnt = 0\<rparr>)) 101 = 0xfffeffff"
  using irq_keeps_tool_off [OF dev.gpio_block_axioms, of 40 _ "\<lparr>iomux = (\<lambda>_. 0), gpio = (\<lambda>_. 0xffffffff), cnnt = 0\<rparr>" 101]
  by (simp add: esp32s31_irq_ena_def PIN_INT_ENA_def)

end
