(* ===== verification/I2c_Driver.thy ===== *)
theory I2c_Driver
  imports Prelude
begin

text \<open>
  The I2C master of the kernel (\<open>linux/drivers/i2c/busses/i2c-esp32s31.c\<close>).  The
  driver cuts the messages of a transfer into lists of at most 8 commands for
  the controller, which runs a list, pauses the bus at its END command and
  interrupts; the interrupt handler stores the received bytes and starts the
  next list.

  The controller is a parameter: it answers the lists that have been started
  with an interrupt status and with the bytes that reads of its data register
  give.  A run of the controller is a list of the command registers with the
  bytes in its FIFO, kept in \<open>i_runs\<close>.

  The lemmas show what each list makes on the wire, that the lists of a
  transfer together are exactly its messages, that received bytes reach the
  right places, and that no answer of the controller leads outside the
  command registers, the FIFOs or the buffers of the messages.
\<close>

section \<open>Registers and messages\<close>

abbreviation (input) I2C_SCL_LOW_PERIOD :: nat where "I2C_SCL_LOW_PERIOD \<equiv> 0x00"
abbreviation (input) I2C_CTR :: nat where "I2C_CTR \<equiv> 0x04"
abbreviation (input) I2C_TO :: nat where "I2C_TO \<equiv> 0x0c"
abbreviation (input) I2C_FIFO_CONF :: nat where "I2C_FIFO_CONF \<equiv> 0x18"
abbreviation (input) I2C_INT_CLR :: nat where "I2C_INT_CLR \<equiv> 0x24"
abbreviation (input) I2C_INT_ENA :: nat where "I2C_INT_ENA \<equiv> 0x28"
abbreviation (input) I2C_SDA_HOLD :: nat where "I2C_SDA_HOLD \<equiv> 0x30"
abbreviation (input) I2C_SDA_SAMPLE :: nat where "I2C_SDA_SAMPLE \<equiv> 0x34"
abbreviation (input) I2C_SCL_HIGH_PERIOD :: nat where "I2C_SCL_HIGH_PERIOD \<equiv> 0x38"
abbreviation (input) I2C_SCL_START_HOLD :: nat where "I2C_SCL_START_HOLD \<equiv> 0x40"
abbreviation (input) I2C_SCL_RSTART_SETUP :: nat where "I2C_SCL_RSTART_SETUP \<equiv> 0x44"
abbreviation (input) I2C_SCL_STOP_HOLD :: nat where "I2C_SCL_STOP_HOLD \<equiv> 0x48"
abbreviation (input) I2C_SCL_STOP_SETUP :: nat where "I2C_SCL_STOP_SETUP \<equiv> 0x4c"
abbreviation (input) I2C_FILTER_CFG :: nat where "I2C_FILTER_CFG \<equiv> 0x50"
abbreviation (input) I2C_SCL_ST_TIME_OUT :: nat where "I2C_SCL_ST_TIME_OUT \<equiv> 0x78"
abbreviation (input) I2C_SCL_MAIN_ST_TIME_OUT :: nat where "I2C_SCL_MAIN_ST_TIME_OUT \<equiv> 0x7c"
abbreviation (input) I2C_SCL_SP_CONF :: nat where "I2C_SCL_SP_CONF \<equiv> 0x80"
abbreviation (input) I2C_CTR_MS_MODE :: u32 where "I2C_CTR_MS_MODE \<equiv> 0x10"
abbreviation (input) I2C_CTR_TRANS_START :: u32 where "I2C_CTR_TRANS_START \<equiv> 0x20"
abbreviation (input) I2C_CTR_FSM_RST :: u32 where "I2C_CTR_FSM_RST \<equiv> 0x400"
abbreviation (input) I2C_CTR_CONF_UPGATE :: u32 where "I2C_CTR_CONF_UPGATE \<equiv> 0x800"
abbreviation (input) I2C_FIFO_RX_RST :: u32 where "I2C_FIFO_RX_RST \<equiv> 0x1000"
abbreviation (input) I2C_FIFO_TX_RST :: u32 where "I2C_FIFO_TX_RST \<equiv> 0x2000"
abbreviation (input) I2C_INT_END_DETECT :: u32 where "I2C_INT_END_DETECT \<equiv> 0x8"
abbreviation (input) I2C_INT_ARB_LOST :: u32 where "I2C_INT_ARB_LOST \<equiv> 0x20"
abbreviation (input) I2C_INT_TRANS_COMPLETE :: u32 where "I2C_INT_TRANS_COMPLETE \<equiv> 0x80"
abbreviation (input) I2C_INT_NACK :: u32 where "I2C_INT_NACK \<equiv> 0x400"
abbreviation (input) I2C_INT_TIMEOUTS :: u32 where "I2C_INT_TIMEOUTS \<equiv> 0x6100"
abbreviation (input) I2C_INT_MASK :: u32 where "I2C_INT_MASK \<equiv> 0x65a8"
abbreviation (input) I2C_CMD_ACK_CHECK :: u32 where "I2C_CMD_ACK_CHECK \<equiv> 0x100"
abbreviation (input) I2C_CMD_ACK_VALUE :: u32 where "I2C_CMD_ACK_VALUE \<equiv> 0x400"
abbreviation (input) I2C_OP_WRITE :: u32 where "I2C_OP_WRITE \<equiv> 1"
abbreviation (input) I2C_OP_STOP :: u32 where "I2C_OP_STOP \<equiv> 2"
abbreviation (input) I2C_OP_READ :: u32 where "I2C_OP_READ \<equiv> 3"
abbreviation (input) I2C_OP_END :: u32 where "I2C_OP_END \<equiv> 4"
abbreviation (input) I2C_OP_RSTART :: u32 where "I2C_OP_RSTART \<equiv> 6"
abbreviation (input) I2C_NCMDS :: nat where "I2C_NCMDS \<equiv> 8"
abbreviation (input) I2C_FIFO_SIZE :: nat where "I2C_FIFO_SIZE \<equiv> 32"

definition I2C_COMD :: "nat \<Rightarrow> nat" where "I2C_COMD n = 0x58 + n * 4"

text \<open>A message: the byte that \<open>i2c_8bit_addr_from_msg\<close> makes of its address, the
  flags \<open>I2C_M_RD\<close> and \<open>I2C_M_TEN\<close>, and its buffer.\<close>

record i2c_msg =
  m_addr8 :: u8
  m_rd :: bool
  m_ten :: bool
  m_buf :: bytes

text \<open>The driver's state: the last values written to the registers, the bytes in
  the TX FIFO, the position in the transfer, the read commands of the list
  (message, offset and length), the error, the completion, and the runs.\<close>

type_synonym run = "u32 list \<times> bytes"

record i2c =
  i_regs :: "nat \<Rightarrow> u32"
  i_txq :: bytes
  i_msgs :: "i2c_msg list"
  i_msg :: nat
  i_pos :: nat
  i_addressed :: bool
  i_rx :: "(nat \<times> nat \<times> nat) list"
  i_err :: "errno option"
  i_done :: bool
  i_runs :: "run list"

definition i2c_writel :: "u32 \<Rightarrow> nat \<Rightarrow> i2c \<Rightarrow> i2c" where
  "i2c_writel v reg s = s\<lparr>i_regs := (i_regs s)(reg := v)\<rparr>"

text \<open>\<open>writel\<close> to \<open>I2C_DATA\<close>.\<close>

definition i2c_data :: "u8 \<Rightarrow> i2c \<Rightarrow> i2c" where
  "i2c_data v s = s\<lparr>i_txq := i_txq s @ [v]\<rparr>"

section \<open>The command list\<close>

definition cmd_word :: "u32 \<Rightarrow> u32 \<Rightarrow> u32 \<Rightarrow> u32" where
  "cmd_word op cnt flags = (push_bit 11 op AND 0x3800) OR (cnt AND 0xff) OR flags"

definition esp32s31_i2c_cmd :: "nat \<Rightarrow> u32 \<Rightarrow> nat \<Rightarrow> u32 \<Rightarrow> i2c \<Rightarrow> i2c" where
  "esp32s31_i2c_cmd n op cnt flags s = i2c_writel (cmd_word op (of_nat cnt) flags) (I2C_COMD n) s"

definition esp32s31_i2c_next_msg :: "i2c \<Rightarrow> i2c" where
  "esp32s31_i2c_next_msg s = s\<lparr>i_msg := i_msg s + 1, i_pos := 0, i_addressed := False\<rparr>"

record esp32s31_i2c_batch =
  b_cmd :: nat
  b_tx :: nat
  b_rx :: nat

type_synonym queue = "(esp32s31_i2c_batch \<times> i2c) option"

definition esp32s31_i2c_queue_addr :: "i2c_msg \<Rightarrow> esp32s31_i2c_batch \<Rightarrow> i2c \<Rightarrow> queue" where
  "esp32s31_i2c_queue_addr m b s =
     (if b_cmd b + 3 > I2C_NCMDS - 1 \<or> b_tx b = I2C_FIFO_SIZE then None
      else let s = esp32s31_i2c_cmd (b_cmd b) I2C_OP_RSTART 0 0 s;
               s = i2c_data (m_addr8 m) s;
               s = esp32s31_i2c_cmd (b_cmd b + 1) I2C_OP_WRITE 1 I2C_CMD_ACK_CHECK s
           in Some (b\<lparr>b_cmd := b_cmd b + 2, b_tx := b_tx b + 1\<rparr>, s\<lparr>i_addressed := True\<rparr>))"

definition esp32s31_i2c_queue_read :: "i2c_msg \<Rightarrow> esp32s31_i2c_batch \<Rightarrow> i2c \<Rightarrow> queue" where
  "esp32s31_i2c_queue_read m b s =
     (let left = length (m_buf m) - i_pos s;
          n = min left (I2C_FIFO_SIZE - b_rx b);
          lst = (if n = left then 1 else 0);
          bulk = n - lst
      in if n = 0 \<or> b_cmd b + (if bulk \<noteq> 0 then 1 else 0) + lst > I2C_NCMDS - 1 then None
         else let s = s\<lparr>i_rx := i_rx s @ [(i_msg s, i_pos s, n)]\<rparr>;
                  (c, s) = (if bulk \<noteq> 0 then (b_cmd b + 1, esp32s31_i2c_cmd (b_cmd b) I2C_OP_READ bulk 0 s) else (b_cmd b, s));
                  (c, s) = (if lst = 1 then (c + 1, esp32s31_i2c_cmd c I2C_OP_READ 1 I2C_CMD_ACK_VALUE s) else (c, s))
              in Some (b\<lparr>b_cmd := c, b_rx := b_rx b + n\<rparr>, s\<lparr>i_pos := i_pos s + n\<rparr>))"

definition esp32s31_i2c_queue_write :: "i2c_msg \<Rightarrow> esp32s31_i2c_batch \<Rightarrow> i2c \<Rightarrow> queue" where
  "esp32s31_i2c_queue_write m b s =
     (let n = min (length (m_buf m) - i_pos s) (I2C_FIFO_SIZE - b_tx b)
      in if n = 0 \<or> b_cmd b + 1 > I2C_NCMDS - 1 then None
         else let s = esp32s31_i2c_cmd (b_cmd b) I2C_OP_WRITE n I2C_CMD_ACK_CHECK s;
                  s = fold i2c_data (take n (drop (i_pos s) (m_buf m))) s
              in Some (b\<lparr>b_cmd := b_cmd b + 1, b_tx := b_tx b + n\<rparr>, s\<lparr>i_pos := i_pos s + n\<rparr>))"

text \<open>The body of the loop, up to \<open>queued\<close>.\<close>

definition queue_next :: "esp32s31_i2c_batch \<Rightarrow> i2c \<Rightarrow> queue" where
  "queue_next b s =
     (let m = i_msgs s ! i_msg s
      in if \<not> i_addressed s then esp32s31_i2c_queue_addr m b s
         else if m_rd m then esp32s31_i2c_queue_read m b s
         else esp32s31_i2c_queue_write m b s)"

lemma fold_data [simp]: "fold i2c_data xs s = s\<lparr>i_txq := i_txq s @ xs\<rparr>"
  by (induction xs arbitrary: s) (simp_all add: i2c_data_def)

lemmas queue_defs = queue_next_def esp32s31_i2c_queue_addr_def esp32s31_i2c_queue_read_def esp32s31_i2c_queue_write_def
  esp32s31_i2c_cmd_def i2c_writel_def i2c_data_def Let_def

lemma queue_next_same:
  assumes "queue_next b s = Some (b', s')"
  shows "i_msgs s' = i_msgs s" "i_msg s' = i_msg s"
    "\<not> i_addressed s \<and> i_addressed s' \<and> i_pos s' = i_pos s \<or>
     i_addressed s \<and> i_addressed s' \<and> i_pos s < i_pos s' \<and> i_pos s' \<le> length (m_buf (i_msgs s ! i_msg s))"
  using assms by (auto simp: queue_defs split: if_splits)

function fill_loop :: "esp32s31_i2c_batch \<Rightarrow> i2c \<Rightarrow> esp32s31_i2c_batch \<times> i2c" where
  "fill_loop b s =
     (if i_msg s < length (i_msgs s)
      then case queue_next b s of
             None \<Rightarrow> (b, s)
           | Some (b, s) \<Rightarrow>
               fill_loop b (if i_pos s = length (m_buf (i_msgs s ! i_msg s)) then esp32s31_i2c_next_msg s else s)
      else (b, s))"
  by pat_completeness auto
termination
proof (relation "measures [\<lambda>(b, s). length (i_msgs s) - i_msg s, \<lambda>(b, s). length (m_buf (i_msgs s ! i_msg s)) - i_pos s +
    (if i_addressed s then 0 else 1)]", goal_cases)
  case (2 b s bs b' s')
  have "queue_next b s = Some (b', s')"
    using 2(2,3) by simp
  note q = queue_next_same [OF this]
  show ?case
    using 2(1) q by (auto simp: esp32s31_i2c_next_msg_def)
qed simp

declare fill_loop.simps [simp del]

definition esp32s31_i2c_fill :: "i2c \<Rightarrow> i2c" where
  "esp32s31_i2c_fill s =
     (let (b, s) = fill_loop \<lparr>b_cmd = 0, b_tx = 0, b_rx = 0\<rparr> (s\<lparr>i_rx := []\<rparr>)
      in esp32s31_i2c_cmd (b_cmd b) (if i_msg s < length (i_msgs s) then I2C_OP_END else I2C_OP_STOP) 0 0 s)"

text \<open>The controller takes the list and the bytes of the TX FIFO.\<close>

definition esp32s31_i2c_start :: "i2c \<Rightarrow> i2c" where
  "esp32s31_i2c_start s =
     (i2c_writel (i_regs s I2C_CTR OR I2C_CTR_TRANS_START) I2C_CTR s)
       \<lparr>i_runs := i_runs s @ [(map (\<lambda>n. i_regs s (I2C_COMD n)) [0..<I2C_NCMDS], i_txq s)], i_txq := []\<rparr>"

section \<open>Interrupts\<close>

text \<open>\<open>d k\<close>: what the k-th read of \<open>I2C_DATA\<close> in the handler gives.\<close>

fun drain_loop :: "(nat \<Rightarrow> u8) \<Rightarrow> nat \<Rightarrow> (nat \<times> nat \<times> nat) list \<Rightarrow> i2c_msg list \<Rightarrow> i2c_msg list" where
  "drain_loop d k [] ms = ms"
| "drain_loop d k ((i, off, n) # rx) ms =
     drain_loop d (k + n) rx
       (fold (\<lambda>j ms. ms[i := (ms ! i)\<lparr>m_buf := (m_buf (ms ! i))[off + j := d (k + j)]\<rparr>]) [0..<n] ms)"

definition esp32s31_i2c_drain :: "(nat \<Rightarrow> u8) \<Rightarrow> i2c \<Rightarrow> i2c" where
  "esp32s31_i2c_drain d s = s\<lparr>i_msgs := drain_loop d 0 (i_rx s) (i_msgs s), i_rx := []\<rparr>"

definition irq_error :: "u32 \<Rightarrow> errno option \<Rightarrow> errno option" where
  "irq_error status err =
     (if status AND I2C_INT_NACK \<noteq> 0 then Some ENXIO
      else if status AND I2C_INT_ARB_LOST \<noteq> 0 then Some EAGAIN
      else if status AND I2C_INT_TIMEOUTS \<noteq> 0 then Some ETIMEDOUT
      else err)"

definition esp32s31_i2c_irq :: "u32 \<Rightarrow> (nat \<Rightarrow> u8) \<Rightarrow> i2c \<Rightarrow> i2c" where
  "esp32s31_i2c_irq status d s =
     (if status = 0 then s
      else let s = i2c_writel status I2C_INT_CLR s;
               s = s\<lparr>i_err := irq_error status (i_err s)\<rparr>
           in if i_err s = None \<and> status AND I2C_INT_END_DETECT \<noteq> 0
              then esp32s31_i2c_start (esp32s31_i2c_fill (esp32s31_i2c_drain d s))
              else if i_err s \<noteq> None \<or> status AND I2C_INT_TRANS_COMPLETE \<noteq> 0
              then let s = (if i_err s = None then esp32s31_i2c_drain d s else s);
                       s = i2c_writel 0 I2C_INT_ENA s
                   in s\<lparr>i_done := True\<rparr>
              else s)"

section \<open>Transfers\<close>

text \<open>The resets, the poll of the bus clear, the clocks, and the controller: its
  answer depends on the number of interrupts that are left before the timeout
  and on the runs that were started.\<close>

record i2c_env =
  e_assert :: "errno option"
  e_deassert :: "errno option"
  e_clear :: "errno option"
  e_rate :: u32
  e_bus_freq :: u32
  e_irqs :: nat
  e_ctl :: "nat \<Rightarrow> run list \<Rightarrow> u32 \<times> (nat \<Rightarrow> u8)"

definition esp32s31_i2c_reset_fifos :: "i2c \<Rightarrow> i2c" where
  "esp32s31_i2c_reset_fifos s =
     (let conf = i_regs s I2C_FIFO_CONF;
          s = i2c_writel (conf OR I2C_FIFO_RX_RST OR I2C_FIFO_TX_RST) I2C_FIFO_CONF s
      in (i2c_writel (conf AND NOT (I2C_FIFO_RX_RST OR I2C_FIFO_TX_RST)) I2C_FIFO_CONF s)\<lparr>i_txq := []\<rparr>)"

text \<open>\<open>order_base_2\<close>: the smallest power that is not below a number, as an exponent.\<close>

definition order_base_2 :: "u32 \<Rightarrow> nat" where
  "order_base_2 n = (case find (\<lambda>k. unat n \<le> 2 ^ k) [0..<33] of Some k \<Rightarrow> k | None \<Rightarrow> 32)"

definition scl_half :: "u32 \<Rightarrow> u32 \<Rightarrow> u32" where
  "scl_half rate freq = (rate + 2 * freq - 1) div (2 * freq)"

definition scl_wait :: "u32 \<Rightarrow> u32 \<Rightarrow> u32" where
  "scl_wait rate freq = (let half = scl_half rate freq in if freq \<ge> 80000 then half div 2 - 2 else half div 4)"

definition esp32s31_i2c_set_timing :: "u32 \<Rightarrow> u32 \<Rightarrow> i2c \<Rightarrow> i2c" where
  "esp32s31_i2c_set_timing rate freq s =
     (let half = scl_half rate freq;
          wait = scl_wait rate freq;
          s = i2c_writel (half - 1) I2C_SCL_LOW_PERIOD s;
          s = i2c_writel ((half - wait) OR (push_bit 9 wait AND 0xfe00)) I2C_SCL_HIGH_PERIOD s;
          s = i2c_writel (half div 4 - 1) I2C_SDA_HOLD s;
          s = i2c_writel (half div 2 - 1) I2C_SDA_SAMPLE s;
          s = i2c_writel (half - 1) I2C_SCL_START_HOLD s;
          s = i2c_writel (half - 1) I2C_SCL_RSTART_SETUP s;
          s = i2c_writel (half - 1) I2C_SCL_STOP_HOLD s;
          s = i2c_writel (half - 1) I2C_SCL_STOP_SETUP s;
          s = i2c_writel ((of_nat (min (order_base_2 (rate div 400)) 31) AND 0x1f) OR 0x20) I2C_TO s;
          s = i2c_writel 23 I2C_SCL_ST_TIME_OUT s
      in i2c_writel 23 I2C_SCL_MAIN_ST_TIME_OUT s)"

definition esp32s31_i2c_init :: "i2c_env \<Rightarrow> bool \<Rightarrow> i2c \<Rightarrow> errno option \<times> i2c" where
  "esp32s31_i2c_init env clear_bus s =
     (case e_assert env of Some e \<Rightarrow> (Some e, s) | None \<Rightarrow>
      case e_deassert env of Some e \<Rightarrow> (Some e, s) | None \<Rightarrow>
        let s = i2c_writel I2C_CTR_MS_MODE I2C_CTR s;
            s = i2c_writel 0x377 I2C_FILTER_CFG s;
            s = esp32s31_i2c_set_timing (e_rate env) (e_bus_freq env) s;
            s = i2c_writel I2C_INT_MASK I2C_INT_CLR s;
            s = i2c_writel 0 I2C_INT_ENA s;
            s = i2c_writel (I2C_CTR_MS_MODE OR I2C_CTR_CONF_UPGATE) I2C_CTR s
        in if \<not> clear_bus then (None, s)
           else let s = i2c_writel 0x13 I2C_SCL_SP_CONF s;
                    s = i2c_writel (I2C_CTR_MS_MODE OR I2C_CTR_CONF_UPGATE) I2C_CTR s
                in (e_clear env, s))"

text \<open>Interrupts until the completion or the timeout.\<close>

fun i2c_wait :: "i2c_env \<Rightarrow> nat \<Rightarrow> i2c \<Rightarrow> i2c" where
  "i2c_wait env 0 s = s"
| "i2c_wait env (Suc k) s =
     (if i_done s then s
      else let (status, d) = e_ctl env k (i_runs s) in i2c_wait env k (esp32s31_i2c_irq status d s))"

definition xfer_start :: "i2c_msg list \<Rightarrow> i2c \<Rightarrow> i2c" where
  "xfer_start msgs s =
     (let s = s\<lparr>i_msgs := msgs, i_msg := 0, i_pos := 0, i_addressed := False, i_err := None, i_done := False, i_runs := []\<rparr>;
          s = esp32s31_i2c_reset_fifos s;
          s = i2c_writel I2C_INT_MASK I2C_INT_CLR s;
          s = esp32s31_i2c_fill s;
          s = i2c_writel I2C_INT_MASK I2C_INT_ENA s
      in esp32s31_i2c_start s)"

definition esp32s31_i2c_xfer :: "i2c_env \<Rightarrow> i2c_msg list \<Rightarrow> i2c \<Rightarrow> (errno + nat) \<times> i2c" where
  "esp32s31_i2c_xfer env msgs s =
     (if \<exists>m \<in> set msgs. m_ten m then (Inl EOPNOTSUPP, s)
      else let s = i2c_wait env (e_irqs env) (xfer_start msgs s);
               s = (if i_done s then s else (i2c_writel 0 I2C_INT_ENA s)\<lparr>i_err := Some ETIMEDOUT\<rparr>);
               s = (if i_err s = Some ENXIO then i2c_writel (i_regs s I2C_CTR OR I2C_CTR_FSM_RST) I2C_CTR s
                    else if i_err s \<noteq> None then snd (esp32s31_i2c_init env True s) else s)
           in (case i_err s of Some e \<Rightarrow> Inl e | None \<Rightarrow> Inr (length msgs), s))"

text \<open>The checks of \<open>probe\<close> on the clocks: \<open>set_rate\<close> is what \<open>clk_set_rate\<close> makes
  of the wanted rate.  The products are 32-bit.\<close>

definition probe_clock :: "(u32 \<Rightarrow> errno + u32) \<Rightarrow> u32 \<Rightarrow> errno + u32" where
  "probe_clock set_rate freq =
     (if freq = 0 \<or> freq > 1000000 then Inl EINVAL
      else case set_rate (freq * 1023) of
             Inl e \<Rightarrow> Inl e
           | Inr rate \<Rightarrow> if rate < freq * 8 \<or> rate > freq * 1023 then Inl EINVAL else Inr rate)"

text \<open>\<open>probe\<close>: the errors of the calls before the clock rate (memory, mapping, interrupt,
  two clocks, reset), the rate, and those of the interrupt and the adapter.\<close>

definition esp32s31_i2c_probe ::
    "i2c_env \<Rightarrow> errno option list \<Rightarrow> (u32 \<Rightarrow> errno + u32) \<Rightarrow> errno option \<Rightarrow> errno option \<Rightarrow> i2c \<Rightarrow> errno option \<times> i2c" where
  "esp32s31_i2c_probe env calls set_rate irq adap s =
     (case first_error calls of
        Some e \<Rightarrow> (Some e, s)
      | None \<Rightarrow>
          (case probe_clock set_rate (e_bus_freq env) of
             Inl e \<Rightarrow> (Some e, s)
           | Inr rate \<Rightarrow>
               (case esp32s31_i2c_init (env\<lparr>e_rate := rate\<rparr>) False s of
                  (Some e, s) \<Rightarrow> (Some e, s)
                | (None, s) \<Rightarrow> (first_error [irq, adap], s))))"

section \<open>What a list makes on the wire\<close>

datatype wire = Wire_start | Wire_byte u8 | Wire_read bool | Wire_stop

definition cmd_op :: "u32 \<Rightarrow> u32" where
  "cmd_op c = drop_bit 11 (c AND 0x3800)"

definition cmd_cnt :: "u32 \<Rightarrow> nat" where
  "cmd_cnt c = unat (c AND 0xff)"

text \<open>\<open>Wire_read True\<close> acknowledges the byte that is read.  END pauses the bus.\<close>

fun list_wire :: "u32 list \<Rightarrow> bytes \<Rightarrow> wire list" where
  "list_wire [] tx = []"
| "list_wire (c # cs) tx =
     (if cmd_op c = I2C_OP_RSTART then Wire_start # list_wire cs tx
      else if cmd_op c = I2C_OP_WRITE then map Wire_byte (take (cmd_cnt c) tx) @ list_wire cs (drop (cmd_cnt c) tx)
      else if cmd_op c = I2C_OP_READ then replicate (cmd_cnt c) (Wire_read (c AND I2C_CMD_ACK_VALUE = 0)) @ list_wire cs tx
      else if cmd_op c = I2C_OP_STOP then [Wire_stop]
      else [])"

text \<open>A command that neither ends the list nor pauses it, and the bytes it needs.\<close>

definition plain_cmd :: "u32 \<Rightarrow> bool" where
  "plain_cmd c \<longleftrightarrow> cmd_op c \<in> {I2C_OP_RSTART, I2C_OP_WRITE, I2C_OP_READ}"

definition cmd_tx :: "u32 \<Rightarrow> nat" where
  "cmd_tx c = (if cmd_op c = I2C_OP_WRITE then cmd_cnt c else 0)"

definition cmd_rx :: "u32 \<Rightarrow> nat" where
  "cmd_rx c = (if cmd_op c = I2C_OP_READ then cmd_cnt c else 0)"

lemma list_wire_append:
  assumes "\<forall>c \<in> set cs. plain_cmd c" and "sum_list (map cmd_tx cs) = length t"
  shows "list_wire (cs @ ds) (t @ u) = list_wire cs t @ list_wire ds u"
  using assms
proof (induction cs arbitrary: t)
  case (Cons c cs)
  show ?case
  proof (cases "cmd_op c = I2C_OP_WRITE")
    case True
    then have "cmd_tx c = cmd_cnt c"
      by (simp add: cmd_tx_def)
    then have n: "cmd_cnt c \<le> length t" "sum_list (map cmd_tx cs) = length (drop (cmd_cnt c) t)"
      using Cons.prems(2) by simp_all
    show ?thesis
      using Cons.IH [OF _ n(2)] Cons.prems(1) n(1) True by simp
  next
    case False
    then have "cmd_tx c = 0"
      by (simp add: cmd_tx_def)
    then have "sum_list (map cmd_tx cs) = length t"
      using Cons.prems(2) by simp
    from Cons.IH [OF _ this] show ?thesis
      using Cons.prems(1) False by (auto simp: plain_cmd_def)
  qed
qed simp

lemma list_wire_reads:
  "\<forall>c \<in> set cs. plain_cmd c \<Longrightarrow> length (filter (\<lambda>w. w = Wire_read True \<or> w = Wire_read False) (list_wire cs t)) = sum_list (map cmd_rx cs)"
  by (induction cs arbitrary: t) (auto simp: plain_cmd_def cmd_rx_def filter_False)

lemma cmd_words:
  "cmd_op (cmd_word I2C_OP_RSTART 0 0) = I2C_OP_RSTART"
  "cmd_op (cmd_word I2C_OP_END 0 0) = I2C_OP_END"
  "cmd_op (cmd_word I2C_OP_STOP 0 0) = I2C_OP_STOP"
  "cmd_op (cmd_word I2C_OP_READ 1 I2C_CMD_ACK_VALUE) = I2C_OP_READ"
  "cmd_cnt (cmd_word I2C_OP_READ 1 I2C_CMD_ACK_VALUE) = 1"
  "cmd_word I2C_OP_READ 1 I2C_CMD_ACK_VALUE AND I2C_CMD_ACK_VALUE \<noteq> 0"
  by (simp_all add: cmd_op_def cmd_word_def cmd_cnt_def)

lemma cmd_words_cnt:
  assumes "n \<le> 32"
  shows "cmd_op (cmd_word I2C_OP_WRITE (of_nat n) I2C_CMD_ACK_CHECK) = I2C_OP_WRITE"
    and "cmd_cnt (cmd_word I2C_OP_WRITE (of_nat n) I2C_CMD_ACK_CHECK) = n"
    and "cmd_op (cmd_word I2C_OP_READ (of_nat n) 0) = I2C_OP_READ"
    and "cmd_cnt (cmd_word I2C_OP_READ (of_nat n) 0) = n"
    and "cmd_word I2C_OP_READ (of_nat n) 0 AND I2C_CMD_ACK_VALUE = 0"
proof -
  have f: "\<forall>n \<in> set [0..<33]. cmd_op (cmd_word I2C_OP_WRITE (of_nat n) I2C_CMD_ACK_CHECK) = I2C_OP_WRITE \<and>
      cmd_cnt (cmd_word I2C_OP_WRITE (of_nat n) I2C_CMD_ACK_CHECK) = n \<and>
      cmd_op (cmd_word I2C_OP_READ (of_nat n) 0) = I2C_OP_READ \<and> cmd_cnt (cmd_word I2C_OP_READ (of_nat n) 0) = n \<and>
      cmd_word I2C_OP_READ (of_nat n) 0 AND I2C_CMD_ACK_VALUE = 0"
    by (simp add: upt_rec [of _ 33] upt_rec cmd_op_def cmd_word_def cmd_cnt_def)
  have "n \<in> set [0..<33]"
    using assms by simp
  from bspec [OF f this] show "cmd_op (cmd_word I2C_OP_WRITE (of_nat n) I2C_CMD_ACK_CHECK) = I2C_OP_WRITE"
    "cmd_cnt (cmd_word I2C_OP_WRITE (of_nat n) I2C_CMD_ACK_CHECK) = n"
    "cmd_op (cmd_word I2C_OP_READ (of_nat n) 0) = I2C_OP_READ"
    "cmd_cnt (cmd_word I2C_OP_READ (of_nat n) 0) = n"
    "cmd_word I2C_OP_READ (of_nat n) 0 AND I2C_CMD_ACK_VALUE = 0"
    by blast+
qed

section \<open>The messages on the wire\<close>

text \<open>What is left of a message from a position on, and of a transfer; the bytes
  that are still to be received, by message and offset.\<close>

definition msg_data :: "i2c_msg \<Rightarrow> nat \<Rightarrow> wire list" where
  "msg_data m pos =
     (if m_rd m then (if pos < length (m_buf m) then replicate (length (m_buf m) - pos - 1) (Wire_read True) @ [Wire_read False] else [])
      else map Wire_byte (drop pos (m_buf m)))"

definition msg_wire :: "i2c_msg \<Rightarrow> wire list" where
  "msg_wire m = [Wire_start, Wire_byte (m_addr8 m)] @ msg_data m 0"

definition msg_slots :: "nat \<Rightarrow> i2c_msg \<Rightarrow> nat \<Rightarrow> (nat \<times> nat) list" where
  "msg_slots i m pos = (if m_rd m then map (Pair i) [pos..<length (m_buf m)] else [])"

definition rest_wire :: "i2c \<Rightarrow> wire list" where
  "rest_wire s =
     (if i_msg s < length (i_msgs s)
      then (if i_addressed s then [] else [Wire_start, Wire_byte (m_addr8 (i_msgs s ! i_msg s))]) @
           msg_data (i_msgs s ! i_msg s) (i_pos s) @ concat (map msg_wire (drop (i_msg s + 1) (i_msgs s)))
      else [])"

definition rest_slots :: "i2c \<Rightarrow> (nat \<times> nat) list" where
  "rest_slots s =
     (if i_msg s < length (i_msgs s)
      then msg_slots (i_msg s) (i_msgs s ! i_msg s) (i_pos s) @
           concat (map (\<lambda>i. msg_slots i (i_msgs s ! i) 0) [i_msg s + 1..<length (i_msgs s)])
      else [])"

definition chunk_slots :: "nat \<times> nat \<times> nat \<Rightarrow> (nat \<times> nat) list" where
  "chunk_slots c = (case c of (i, off, n) \<Rightarrow> map (Pair i) [off..<off + n])"

text \<open>The work that is left: bytes and addresses.\<close>

definition rest_work :: "i2c \<Rightarrow> nat" where
  "rest_work s =
     (if i_msg s < length (i_msgs s)
      then (if i_addressed s then 0 else 1) + (length (m_buf (i_msgs s ! i_msg s)) - i_pos s) +
           sum_list (map (\<lambda>m. length (m_buf m) + 1) (drop (i_msg s + 1) (i_msgs s)))
      else 0)"

definition pos_ok :: "i2c \<Rightarrow> bool" where
  "pos_ok s \<longleftrightarrow> i_msg s < length (i_msgs s) \<longrightarrow>
     (if i_addressed s then i_pos s < length (m_buf (i_msgs s ! i_msg s)) else i_pos s = 0)"

lemma rest_next:
  assumes "i_msg s < length (i_msgs s)" and "i_addressed s" and "i_pos s = length (m_buf (i_msgs s ! i_msg s))"
  shows "rest_wire (esp32s31_i2c_next_msg s) = rest_wire s" "rest_slots (esp32s31_i2c_next_msg s) = rest_slots s"
    "rest_work (esp32s31_i2c_next_msg s) = rest_work s" "pos_ok (esp32s31_i2c_next_msg s)"
proof -
  show "rest_wire (esp32s31_i2c_next_msg s) = rest_wire s"
    using assms Cons_nth_drop_Suc [of "Suc (i_msg s)" "i_msgs s", symmetric]
    by (auto simp: rest_wire_def esp32s31_i2c_next_msg_def msg_data_def msg_wire_def)
  show "rest_slots (esp32s31_i2c_next_msg s) = rest_slots s"
    using assms upt_conv_Cons [of "Suc (i_msg s)" "length (i_msgs s)"]
    by (auto simp: rest_slots_def esp32s31_i2c_next_msg_def msg_slots_def)
  show "rest_work (esp32s31_i2c_next_msg s) = rest_work s"
    using assms Cons_nth_drop_Suc [of "Suc (i_msg s)" "i_msgs s", symmetric]
    by (auto simp: rest_work_def esp32s31_i2c_next_msg_def)
  show "pos_ok (esp32s31_i2c_next_msg s)"
    by (simp add: pos_ok_def esp32s31_i2c_next_msg_def)
qed

section \<open>The loop\<close>

definition cmds :: "i2c \<Rightarrow> nat \<Rightarrow> u32 list" where
  "cmds s n = map (\<lambda>k. i_regs s (I2C_COMD k)) [0..<n]"

text \<open>What queueing appends: the commands \<open>cs\<close>, the TX bytes \<open>t\<close> and the chunks \<open>rx\<close>.\<close>

definition queued :: "esp32s31_i2c_batch \<Rightarrow> i2c \<Rightarrow> esp32s31_i2c_batch \<Rightarrow> i2c \<Rightarrow> u32 list \<Rightarrow> bytes \<Rightarrow> (nat \<times> nat \<times> nat) list \<Rightarrow> bool" where
  "queued b s b' s' cs t rx \<longleftrightarrow>
     b_cmd b' = b_cmd b + length cs \<and> cs \<noteq> [] \<and> b_cmd b' \<le> 7 \<and> cmds s' (b_cmd b') = cmds s (b_cmd b) @ cs \<and>
     i_txq s' = i_txq s @ t \<and> b_tx b' = b_tx b + length t \<and> b_tx b' \<le> 32 \<and>
     i_rx s' = i_rx s @ rx \<and> b_rx b' = b_rx b + length (concat (map chunk_slots rx)) \<and> b_rx b' \<le> 32 \<and>
     (\<forall>c \<in> set cs. plain_cmd c) \<and> sum_list (map cmd_tx cs) = length t \<and>
     sum_list (map cmd_rx cs) = length (concat (map chunk_slots rx)) \<and>
     list_wire cs t @ rest_wire s' = rest_wire s \<and> concat (map chunk_slots rx) @ rest_slots s' = rest_slots s \<and>
     rest_work s' < rest_work s"

text \<open>What queueing leaves alone.\<close>

definition fill_frame :: "i2c \<Rightarrow> i2c \<Rightarrow> bool" where
  "fill_frame s s' \<longleftrightarrow> i_msgs s' = i_msgs s \<and> i_runs s' = i_runs s \<and> i_err s' = i_err s \<and> i_done s' = i_done s \<and>
     (\<forall>r. (\<forall>n < 8. r \<noteq> I2C_COMD n) \<longrightarrow> i_regs s' r = i_regs s r)"

lemma COMD_eq [simp]: "I2C_COMD m = I2C_COMD n \<longleftrightarrow> m = n"
  by (simp add: I2C_COMD_def)

lemma cmds_cmd: "cmds (esp32s31_i2c_cmd n op cnt flags s) n = cmds s n"
  "cmds (esp32s31_i2c_cmd n op cnt flags s) (Suc n) = cmds s n @ [cmd_word op (of_nat cnt) flags]"
  by (simp_all add: cmds_def esp32s31_i2c_cmd_def i2c_writel_def)

lemma cmds_other [simp]:
  "cmds (s\<lparr>i_txq := a\<rparr>) n = cmds s n" "cmds (s\<lparr>i_rx := c\<rparr>) n = cmds s n" "cmds (s\<lparr>i_pos := d\<rparr>) n = cmds s n"
  "cmds (s\<lparr>i_addressed := e\<rparr>) n = cmds s n" "cmds (i2c_data v s) n = cmds s n"
  by (simp_all add: cmds_def i2c_data_def)

lemma cmd_other [simp]:
  "i_txq (esp32s31_i2c_cmd n op cnt flags s) = i_txq s" "i_rx (esp32s31_i2c_cmd n op cnt flags s) = i_rx s"
  "i_msgs (esp32s31_i2c_cmd n op cnt flags s) = i_msgs s" "i_msg (esp32s31_i2c_cmd n op cnt flags s) = i_msg s"
  "i_pos (esp32s31_i2c_cmd n op cnt flags s) = i_pos s" "i_addressed (esp32s31_i2c_cmd n op cnt flags s) = i_addressed s"
  "i_runs (esp32s31_i2c_cmd n op cnt flags s) = i_runs s" "i_err (esp32s31_i2c_cmd n op cnt flags s) = i_err s"
  "i_done (esp32s31_i2c_cmd n op cnt flags s) = i_done s"
  by (simp_all add: esp32s31_i2c_cmd_def i2c_writel_def)

lemma queue_frame:
  assumes "queue_next b s = Some (b', s')"
  shows "fill_frame s s'"
proof -
  have c: "fill_frame s (esp32s31_i2c_cmd n op cnt flags s1)" if "fill_frame s s1" "n < 8" for n op cnt flags s s1
    using that by (auto simp: fill_frame_def esp32s31_i2c_cmd_def i2c_writel_def)
  have o: "fill_frame s (s1\<lparr>i_txq := a\<rparr>)" "fill_frame s (s1\<lparr>i_rx := r\<rparr>)" "fill_frame s (s1\<lparr>i_pos := d\<rparr>)"
    "fill_frame s (s1\<lparr>i_addressed := e\<rparr>)" if "fill_frame s s1" for s s1 a r d e
    using that by (simp_all add: fill_frame_def)
  have r: "fill_frame s s" for s
    by (simp add: fill_frame_def)
  show ?thesis
    using assms
    by (auto simp: queue_next_def esp32s31_i2c_queue_addr_def esp32s31_i2c_queue_read_def esp32s31_i2c_queue_write_def
        i2c_data_def Let_def split: if_splits intro!: o c r)
qed

lemma queued_addr:
  assumes "i_msg s < length (i_msgs s)" and "\<not> i_addressed s" and "pos_ok s" and "b_tx b \<le> 32" and "b_rx b \<le> 32"
    and "esp32s31_i2c_queue_addr (i_msgs s ! i_msg s) b s = Some (b', s')"
  shows "queued b s b' s' [cmd_word I2C_OP_RSTART 0 0, cmd_word I2C_OP_WRITE 1 I2C_CMD_ACK_CHECK] [m_addr8 (i_msgs s ! i_msg s)] []"
proof -
  let ?m = "i_msgs s ! i_msg s" and ?s1 = "esp32s31_i2c_cmd (b_cmd b) I2C_OP_RSTART 0 0 s"
  have g: "\<not> (b_cmd b + 3 > 7 \<or> b_tx b = 32)"
    "b' = b\<lparr>b_cmd := b_cmd b + 2, b_tx := b_tx b + 1\<rparr>"
    "s' = (esp32s31_i2c_cmd (Suc (b_cmd b)) I2C_OP_WRITE 1 I2C_CMD_ACK_CHECK (i2c_data (m_addr8 ?m) ?s1))\<lparr>i_addressed := True\<rparr>"
    using assms(6) by (auto simp: esp32s31_i2c_queue_addr_def Let_def split: if_splits)
  have c: "cmds s' (Suc (Suc (b_cmd b))) = cmds s (b_cmd b) @ [cmd_word I2C_OP_RSTART 0 0, cmd_word I2C_OP_WRITE 1 I2C_CMD_ACK_CHECK]"
    unfolding g(3) using cmds_cmd(2) [of "b_cmd b" I2C_OP_RSTART 0 0 s]
    by (simp add: cmds_cmd)
  have f: "i_txq s' = i_txq s @ [m_addr8 ?m]" "i_rx s' = i_rx s" "i_msgs s' = i_msgs s" "i_msg s' = i_msg s" "i_pos s' = i_pos s" "i_addressed s'"
    unfolding g(3) by (simp_all add: i2c_data_def)
  have "i_pos s = 0"
    using assms(1,2,3) by (simp add: pos_ok_def)
  then show ?thesis
    using assms g(1) c f cmd_words cmd_words_cnt(1,2) [of 1]
    by (simp add: queued_def g(2) plain_cmd_def cmd_tx_def cmd_rx_def rest_wire_def rest_slots_def rest_work_def)
qed

lemma queued_write:
  assumes "i_msg s < length (i_msgs s)" and "i_addressed s" and "pos_ok s" and "b_tx b \<le> 32" and "b_rx b \<le> 32"
    and "\<not> m_rd (i_msgs s ! i_msg s)" and "esp32s31_i2c_queue_write (i_msgs s ! i_msg s) b s = Some (b', s')"
  shows "\<exists>n t. queued b s b' s' [cmd_word I2C_OP_WRITE (of_nat n) I2C_CMD_ACK_CHECK] t []"
proof -
  let ?m = "i_msgs s ! i_msg s"
  define n where "n = min (length (m_buf ?m) - i_pos s) (32 - b_tx b)"
  let ?t = "take n (drop (i_pos s) (m_buf ?m))"
  have g: "\<not> (n = 0 \<or> b_cmd b + 1 > 7)" "b' = b\<lparr>b_cmd := b_cmd b + 1, b_tx := b_tx b + n\<rparr>"
    "s' = (esp32s31_i2c_cmd (b_cmd b) I2C_OP_WRITE n I2C_CMD_ACK_CHECK s)\<lparr>i_txq := i_txq s @ ?t, i_pos := i_pos s + n\<rparr>"
    using assms(7) by (auto simp: esp32s31_i2c_queue_write_def Let_def n_def [symmetric] split: if_splits)
  have t: "length ?t = n" "n \<le> 32" "n \<le> length (m_buf ?m) - i_pos s" "b_tx b + n \<le> 32"
    using assms(4) by (auto simp: n_def)
  have c: "cmds s' (Suc (b_cmd b)) = cmds s (b_cmd b) @ [cmd_word I2C_OP_WRITE (of_nat n) I2C_CMD_ACK_CHECK]"
    unfolding g(3) by (simp add: cmds_cmd)
  have f: "i_txq s' = i_txq s @ ?t" "i_rx s' = i_rx s" "i_msgs s' = i_msgs s" "i_msg s' = i_msg s" "i_pos s' = i_pos s + n" "i_addressed s'"
    unfolding g(3) using assms(2) by simp_all
  have p: "length (m_buf ?m) - (i_pos s + n) < length (m_buf ?m) - i_pos s"
    using g(1) t(3) by linarith
  have w: "map Wire_byte ?t @ msg_data ?m (i_pos s + n) = msg_data ?m (i_pos s)"
    using assms(6) append_take_drop_id [of n "drop (i_pos s) (m_buf ?m)"]
    by (simp add: msg_data_def map_append [symmetric] add.commute del: map_append append_take_drop_id)
  have l: "list_wire [cmd_word I2C_OP_WRITE (of_nat n) I2C_CMD_ACK_CHECK] ?t = map Wire_byte ?t"
    using cmd_words_cnt(1,2) [OF t(2)] t(1) by simp
  have "queued b s b' s' [cmd_word I2C_OP_WRITE (of_nat n) I2C_CMD_ACK_CHECK] ?t []"
    using assms g(1) c f t w p cmd_words_cnt(1,2) [OF t(2)]
    by (simp add: queued_def l g(2) plain_cmd_def cmd_tx_def cmd_rx_def rest_wire_def rest_slots_def rest_work_def msg_slots_def
        del: list_wire.simps)
  then show ?thesis
    by blast
qed

lemma queued_read:
  assumes "i_msg s < length (i_msgs s)" and "i_addressed s" and "pos_ok s" and "b_tx b \<le> 32" and "b_rx b \<le> 32"
    and "m_rd (i_msgs s ! i_msg s)" and "esp32s31_i2c_queue_read (i_msgs s ! i_msg s) b s = Some (b', s')"
  shows "\<exists>cs rx. queued b s b' s' cs [] rx"
proof -
  let ?m = "i_msgs s ! i_msg s"
  define left where "left = length (m_buf ?m) - i_pos s"
  define n where "n = min left (32 - b_rx b)"
  let ?rx = "[(i_msg s, i_pos s, n)]"
  define bulk where "bulk = n - (if n = left then 1 else 0)"
  let ?R = "cmd_word I2C_OP_READ (of_nat bulk) 0" and ?L = "cmd_word I2C_OP_READ 1 I2C_CMD_ACK_VALUE"
  let ?cs = "(if bulk \<noteq> 0 then [?R] else []) @ (if n = left then [?L] else [])"
  have g: "n \<noteq> 0" "b_cmd b + length ?cs \<le> 7" "b' = b\<lparr>b_cmd := b_cmd b + length ?cs, b_rx := b_rx b + n\<rparr>"
    "cmds s' (b_cmd b + length ?cs) = cmds s (b_cmd b) @ ?cs"
    "i_txq s' = i_txq s" "i_rx s' = i_rx s @ ?rx" "i_msgs s' = i_msgs s" "i_msg s' = i_msg s" "i_pos s' = i_pos s + n" "i_addressed s'"
    using assms(2) assms(7) [unfolded esp32s31_i2c_queue_read_def Let_def, folded left_def, folded n_def, folded bulk_def]
    by (auto simp: cmds_cmd split: if_splits)
  have b: "bulk \<le> 32" "n = bulk + (if n = left then 1 else 0)" "n \<le> left" "b_rx b + n \<le> 32"
    using g(1) assms(5) by (auto simp: bulk_def n_def)
  have r: "rest_work s' < rest_work s"
    using g b(3) assms(1,2) by (simp add: rest_work_def left_def [symmetric]) (simp add: left_def)
  have rl: "replicate n x = replicate bulk x @ replicate (n - bulk) x" for x :: wire
    using b(2) by (metis add_diff_cancel_left' replicate_add)
  have w: "list_wire ?cs [] @ msg_data ?m (i_pos s + n) = msg_data ?m (i_pos s)"
  proof (cases "n = left")
    case True
    then show ?thesis
      using cmd_words cmd_words_cnt(3-5) [OF b(1)] b(2) assms(1,2,3,6)
      by (auto simp: msg_data_def pos_ok_def left_def bulk_def)
  next
    case False
    then have l: "n < left" "bulk = n"
      using b(2,3) by simp_all
    then have "left - 1 = n + (left - n - 1)"
      by simp
    then have "replicate (left - 1) (Wire_read True) = replicate n (Wire_read True) @ replicate (left - n - 1) (Wire_read True)"
      by (metis replicate_add)
    moreover have "list_wire ?cs [] = replicate n (Wire_read True)"
      using False l(2) g(1) cmd_words_cnt(3-5) [OF b(1)] by simp
    moreover have "msg_data ?m (i_pos s) = replicate (left - 1) (Wire_read True) @ [Wire_read False]"
      "msg_data ?m (i_pos s + n) = replicate (left - n - 1) (Wire_read True) @ [Wire_read False]"
      using l(1) assms(6) by (simp_all add: msg_data_def left_def)
    ultimately show ?thesis
      by simp
  qed
  have cs: "?cs \<noteq> []" "\<forall>c \<in> set ?cs. plain_cmd c" "sum_list (map cmd_tx ?cs) = 0" "sum_list (map cmd_rx ?cs) = n"
    using g(1) b(2) cmd_words cmd_words_cnt(3-5) [OF b(1)]
    by (auto simp: plain_cmd_def cmd_tx_def cmd_rx_def bulk_def split: if_splits)
  have sl: "map (Pair (i_msg s)) [i_pos s..<i_pos s + n] @ msg_slots (i_msg s) ?m (i_pos s + n) = msg_slots (i_msg s) ?m (i_pos s)"
  proof -
    have "i_pos s + n \<le> length (m_buf ?m)"
      using b(3) assms(1,2,3) by (simp add: left_def pos_ok_def)
    from upt_add_eq_append [of "i_pos s" "i_pos s + n" "length (m_buf ?m) - (i_pos s + n)"] this
    have "[i_pos s..<length (m_buf ?m)] = [i_pos s..<i_pos s + n] @ [i_pos s + n..<length (m_buf ?m)]"
      by simp
    then show ?thesis
      using assms(6) by (simp add: msg_slots_def)
  qed
  have "queued b s b' s' ?cs [] ?rx"
    unfolding queued_def g(3)
    using assms(1,2,4) g(2,4-10) b(4) cs w r sl
    by (simp add: chunk_slots_def rest_wire_def rest_slots_def del: list_wire.simps)
  then show ?thesis
    by blast
qed

definition fill_inv :: "i2c \<Rightarrow> esp32s31_i2c_batch \<Rightarrow> i2c \<Rightarrow> bool" where
  "fill_inv s0 b s \<longleftrightarrow>
     b_cmd b \<le> 7 \<and> b_tx b = length (i_txq s) \<and> b_tx b \<le> 32 \<and>
     b_rx b = length (concat (map chunk_slots (i_rx s))) \<and> b_rx b \<le> 32 \<and>
     (\<forall>c \<in> set (cmds s (b_cmd b)). plain_cmd c) \<and> sum_list (map cmd_tx (cmds s (b_cmd b))) = length (i_txq s) \<and>
     sum_list (map cmd_rx (cmds s (b_cmd b))) = b_rx b \<and>
     list_wire (cmds s (b_cmd b)) (i_txq s) @ rest_wire s = rest_wire s0 \<and>
     concat (map chunk_slots (i_rx s)) @ rest_slots s = rest_slots s0 \<and>
     pos_ok s \<and> fill_frame s0 s \<and> rest_work s + (if b_cmd b = 0 then 0 else 1) \<le> rest_work s0"

lemma queue_queued:
  assumes "i_msg s < length (i_msgs s)" and "pos_ok s" and "b_tx b \<le> 32" and "b_rx b \<le> 32" and "queue_next b s = Some (b', s')"
  shows "\<exists>cs t rx. queued b s b' s' cs t rx"
proof (cases "i_addressed s")
  case False
  then show ?thesis
    using queued_addr [OF assms(1) False assms(2-4)] assms(5) by (auto simp: queue_next_def)
next
  case True
  show ?thesis
  proof (cases "m_rd (i_msgs s ! i_msg s)")
    case rd: True
    then show ?thesis
      using queued_read [OF assms(1) True assms(2-4) rd] assms(5) True by (force simp: queue_next_def)
  next
    case wr: False
    then show ?thesis
      using queued_write [OF assms(1) True assms(2-4) wr] assms(5) True by (force simp: queue_next_def)
  qed
qed

lemma next_msg_same [simp]:
  "cmds (esp32s31_i2c_next_msg s) n = cmds s n" "i_txq (esp32s31_i2c_next_msg s) = i_txq s"
  "i_rx (esp32s31_i2c_next_msg s) = i_rx s" "i_msgs (esp32s31_i2c_next_msg s) = i_msgs s"
  "fill_frame s0 (esp32s31_i2c_next_msg s) = fill_frame s0 s"
  by (simp_all add: esp32s31_i2c_next_msg_def cmds_def fill_frame_def)

lemma fill_step:
  assumes "fill_inv s0 b s" and "i_msg s < length (i_msgs s)" and "queue_next b s = Some (b1, s1)"
  shows "fill_inv s0 b1 (if i_pos s1 = length (m_buf (i_msgs s1 ! i_msg s1)) then esp32s31_i2c_next_msg s1 else s1)"
proof -
  have inv: "pos_ok s" "b_tx b \<le> 32" "b_rx b \<le> 32"
    using assms(1) by (simp_all add: fill_inv_def)
  obtain cs t rx where q: "queued b s b1 s1 cs t rx"
    using queue_queued [OF assms(2) inv assms(3)] by blast
  note same = queue_next_same [OF assms(3)] and frame = queue_frame [OF assms(3)]
  have "fill_frame s0 s1"
    using assms(1) frame by (simp add: fill_inv_def fill_frame_def)
  moreover have "list_wire (cmds s1 (b_cmd b1)) (i_txq s1) @ rest_wire s1 = rest_wire s0"
    using assms(1) q list_wire_append [of "cmds s (b_cmd b)" "i_txq s" cs t] by (auto simp: fill_inv_def queued_def)
  moreover have "concat (map chunk_slots (i_rx s1)) @ rest_slots s1 = rest_slots s0"
    using assms(1) q by (auto simp: fill_inv_def queued_def)
  moreover have "rest_work s1 + 1 \<le> rest_work s0"
    using assms(1) q by (auto simp: fill_inv_def queued_def)
  moreover have "b_cmd b1 \<le> 7 \<and> b_tx b1 = length (i_txq s1) \<and> b_tx b1 \<le> 32 \<and>
      b_rx b1 = length (concat (map chunk_slots (i_rx s1))) \<and> b_rx b1 \<le> 32 \<and>
      (\<forall>c \<in> set (cmds s1 (b_cmd b1)). plain_cmd c) \<and> sum_list (map cmd_tx (cmds s1 (b_cmd b1))) = length (i_txq s1) \<and>
      sum_list (map cmd_rx (cmds s1 (b_cmd b1))) = b_rx b1 \<and> b_cmd b1 \<noteq> 0"
    using assms(1) q by (auto simp: fill_inv_def queued_def)
  moreover have "pos_ok s1" if "i_pos s1 \<noteq> length (m_buf (i_msgs s1 ! i_msg s1))"
    using same that inv(1) assms(2) by (auto simp: pos_ok_def)
  ultimately show ?thesis
    using rest_next [of s1] same assms(2) by (auto simp: fill_inv_def)
qed

lemma fill_loop_inv: "fill_inv s0 b s \<Longrightarrow> fill_loop b s = (b', s') \<Longrightarrow> fill_inv s0 b' s'"
proof (induction b s rule: fill_loop.induct)
  case (1 b s)
  show ?case
  proof (cases "i_msg s < length (i_msgs s)")
    case True
    show ?thesis
    proof (cases "queue_next b s")
      case None
      then show ?thesis
        using 1 True by (simp add: fill_loop.simps [of b s])
    next
      case (Some q)
      obtain b1 s1 where q: "q = (b1, s1)"
        by (cases q)
      have "fill_inv s0 b1 (if i_pos s1 = length (m_buf (i_msgs s1 ! i_msg s1)) then esp32s31_i2c_next_msg s1 else s1)"
        using fill_step [OF 1(2) True] Some q by simp
      moreover have "fill_loop b1 (if i_pos s1 = length (m_buf (i_msgs s1 ! i_msg s1)) then esp32s31_i2c_next_msg s1 else s1) = (b', s')"
        using 1(3) True Some q by (simp add: fill_loop.simps [of b s])
      ultimately show ?thesis
        using 1(1) [OF True Some q [symmetric]] by blast
    qed
  next
    case False
    then show ?thesis
      using 1 by (simp add: fill_loop.simps [of b s])
  qed
qed

text \<open>An empty batch always takes something, so every list makes progress.\<close>

lemma first_queued:
  assumes "i_msg s < length (i_msgs s)" and "pos_ok s"
  shows "queue_next \<lparr>b_cmd = 0, b_tx = 0, b_rx = 0\<rparr> s \<noteq> None"
  using assms by (auto simp: queue_next_def esp32s31_i2c_queue_addr_def esp32s31_i2c_queue_read_def esp32s31_i2c_queue_write_def
      Let_def pos_ok_def split: prod.split)

lemma fill_inv_mono: "fill_inv s0 b s \<Longrightarrow> fill_loop b s = (b', s') \<Longrightarrow> b_cmd b \<le> b_cmd b'"
proof (induction b s rule: fill_loop.induct)
  case (1 b s)
  show ?case
  proof (cases "i_msg s < length (i_msgs s) \<and> queue_next b s \<noteq> None")
    case True
    then obtain b1 s1 where q: "queue_next b s = Some (b1, s1)"
      by auto
    have inv: "pos_ok s" "b_tx b \<le> 32" "b_rx b \<le> 32"
      using 1(2) by (simp_all add: fill_inv_def)
    have "b_cmd b \<le> b_cmd b1"
      using queue_queued [OF _ inv q] True by (auto simp: queued_def)
    moreover have "fill_loop b1 (if i_pos s1 = length (m_buf (i_msgs s1 ! i_msg s1)) then esp32s31_i2c_next_msg s1 else s1) = (b', s')"
      using 1(3) True q by (simp add: fill_loop.simps [of b s])
    ultimately show ?thesis
      using 1(1) [OF _ q refl fill_step [OF 1(2) _ q]] True by force
  next
    case False
    then show ?thesis
      using 1(3) by (auto simp: fill_loop.simps [of b s] split: if_splits option.splits)
  qed
qed

section \<open>Runs\<close>

definition run_wire :: "run \<Rightarrow> wire list" where
  "run_wire r = list_wire (fst r) (snd r)"

definition run_reads :: "run \<Rightarrow> nat" where
  "run_reads r = length (filter (\<lambda>w. w = Wire_read True \<or> w = Wire_read False) (run_wire r))"

text \<open>A run that fits the controller: 8 registers, a FIFO of bytes, and a list that
  ends, needs just these bytes and receives at most a FIFO of them.\<close>

definition run_ok :: "run \<Rightarrow> bool" where
  "run_ok r \<longleftrightarrow> length (fst r) = 8 \<and> length (snd r) \<le> 32 \<and>
     (\<exists>k < 8. (\<forall>c \<in> set (take k (fst r)). plain_cmd c) \<and> cmd_op (fst r ! k) \<in> {I2C_OP_STOP, I2C_OP_END} \<and>
       sum_list (map cmd_tx (take k (fst r))) = length (snd r) \<and> sum_list (map cmd_rx (take k (fst r))) \<le> 32)"

lemma filter_reads_stop: "cmd_op c = I2C_OP_STOP \<or> cmd_op c = I2C_OP_END \<Longrightarrow>
  list_wire (c # cs) [] = (if cmd_op c = I2C_OP_STOP then [Wire_stop] else [])"
  by auto

lemma run_of_fill:
  assumes "\<forall>c \<in> set cs. plain_cmd c" and "sum_list (map cmd_tx cs) = length tx" and "length tx \<le> 32"
    and "sum_list (map cmd_rx cs) \<le> 32" and "length cs \<le> 7" and "cmd_op c = I2C_OP_STOP \<or> cmd_op c = I2C_OP_END"
    and "length (cs @ c # ds) = 8"
  shows "run_ok (cs @ c # ds, tx)" and "run_reads (cs @ c # ds, tx) = sum_list (map cmd_rx cs)"
    and "run_wire (cs @ c # ds, tx) = list_wire cs tx @ (if cmd_op c = I2C_OP_STOP then [Wire_stop] else [])"
proof -
  show w: "run_wire (cs @ c # ds, tx) = list_wire cs tx @ (if cmd_op c = I2C_OP_STOP then [Wire_stop] else [])"
    using list_wire_append [OF assms(1,2), of "c # ds" "[]"] filter_reads_stop [OF assms(6), of ds]
    by (simp add: run_wire_def del: list_wire.simps)
  show "run_reads (cs @ c # ds, tx) = sum_list (map cmd_rx cs)"
    unfolding run_reads_def w using list_wire_reads [OF assms(1), of tx] by auto
  have "\<exists>k < 8. (\<forall>c' \<in> set (take k (cs @ c # ds)). plain_cmd c') \<and> cmd_op ((cs @ c # ds) ! k) \<in> {I2C_OP_STOP, I2C_OP_END} \<and>
       sum_list (map cmd_tx (take k (cs @ c # ds))) = length tx \<and> sum_list (map cmd_rx (take k (cs @ c # ds))) \<le> 32"
    using assms by (intro exI [of _ "length cs"]) auto
  then show "run_ok (cs @ c # ds, tx)"
    using assms(3,7) by (simp add: run_ok_def)
qed

lemma cmds_split:
  assumes "n \<le> 7"
  shows "\<exists>ds. cmds (esp32s31_i2c_cmd n op 0 0 s) 8 = cmds s n @ cmd_word op 0 0 # ds"
    and "length (cmds s 8) = 8"
proof -
  have "[0..<8] = [0..<Suc n] @ [Suc n..<8]"
    using assms upt_add_eq_append [of 0 "Suc n" "7 - n"] by simp
  then have "cmds t 8 = cmds t (Suc n) @ map (\<lambda>k. i_regs t (I2C_COMD k)) [Suc n..<8]" for t
    unfolding cmds_def by (metis map_append)
  from this [of "esp32s31_i2c_cmd n op 0 0 s"] show "\<exists>ds. cmds (esp32s31_i2c_cmd n op 0 0 s) 8 = cmds s n @ cmd_word op 0 0 # ds"
    using cmds_cmd(2) [of n op 0 0 s] by simp
  show "length (cmds s 8) = 8"
    by (simp add: cmds_def)
qed

text \<open>A fill and the start of its list, from a state between two lists.\<close>

lemma fill_start:
  assumes "i_txq s = []" and "pos_ok s"
  defines "s' \<equiv> esp32s31_i2c_start (esp32s31_i2c_fill s)"
  shows "\<exists>r. i_runs s' = i_runs s @ [r] \<and> run_ok r \<and> run_reads r = length (concat (map chunk_slots (i_rx s'))) \<and>
      run_wire r @ rest_wire s' = rest_wire s @ (if i_msg s' < length (i_msgs s') then [] else [Wire_stop])"
    and "concat (map chunk_slots (i_rx s')) @ rest_slots s' = rest_slots s"
    and "i_txq s' = []" "pos_ok s'" "i_msgs s' = i_msgs s" "i_err s' = i_err s" "i_done s' = i_done s"
    and "i_msg s < length (i_msgs s) \<Longrightarrow> rest_work s' < rest_work s"
proof -
  let ?b0 = "\<lparr>b_cmd = 0, b_tx = 0, b_rx = 0\<rparr>" and ?s0 = "s\<lparr>i_rx := []\<rparr>"
  obtain b s1 where l: "fill_loop ?b0 ?s0 = (b, s1)"
    by (metis surj_pair)
  have r0: "rest_wire ?s0 = rest_wire s" "rest_slots ?s0 = rest_slots s" "rest_work ?s0 = rest_work s" "pos_ok ?s0"
    using assms(2) by (simp_all add: rest_wire_def rest_slots_def rest_work_def pos_ok_def)
  have i0: "fill_inv ?s0 ?b0 ?s0"
    using assms(1) r0 by (simp add: fill_inv_def fill_frame_def cmds_def)
  note inv = fill_loop_inv [OF i0 l, unfolded fill_inv_def r0]
  let ?op = "if i_msg s1 < length (i_msgs s1) then I2C_OP_END else I2C_OP_STOP"
  let ?c = "cmd_word ?op 0 0"
  let ?s2 = "esp32s31_i2c_cmd (b_cmd b) ?op 0 0 s1"
  have f: "esp32s31_i2c_fill s = ?s2"
    using l by (simp add: esp32s31_i2c_fill_def)
  have s': "s' = (i2c_writel (i_regs ?s2 I2C_CTR OR I2C_CTR_TRANS_START) I2C_CTR ?s2)
       \<lparr>i_runs := i_runs ?s2 @ [(cmds ?s2 8, i_txq ?s2)], i_txq := []\<rparr>"
    unfolding s'_def f esp32s31_i2c_start_def cmds_def ..
  have same: "i_msg s' = i_msg s1" "i_msgs s' = i_msgs s1" "i_pos s' = i_pos s1" "i_addressed s' = i_addressed s1" "i_rx s' = i_rx s1"
    "i_err s' = i_err s1" "i_done s' = i_done s1" "i_txq s' = []"
    unfolding s' by (simp_all add: i2c_writel_def)
  then have rest: "rest_wire s' = rest_wire s1" "rest_slots s' = rest_slots s1" "rest_work s' = rest_work s1" "pos_ok s' = pos_ok s1"
    by (simp_all add: rest_wire_def rest_slots_def rest_work_def pos_ok_def)
  have fr: "i_msgs s1 = i_msgs s" "i_runs s1 = i_runs s" "i_err s1 = i_err s" "i_done s1 = i_done s"
    using inv by (simp_all add: fill_frame_def)
  show "concat (map chunk_slots (i_rx s')) @ rest_slots s' = rest_slots s" "i_txq s' = []" "pos_ok s'" "i_msgs s' = i_msgs s"
    "i_err s' = i_err s" "i_done s' = i_done s"
    using inv same rest fr by simp_all
  show "rest_work s' < rest_work s" if m: "i_msg s < length (i_msgs s)"
  proof -
    obtain b1 s3 where q: "queue_next ?b0 ?s0 = Some (b1, s3)"
      using first_queued [OF _ r0(4)] m by auto
    let ?s3 = "if i_pos s3 = length (m_buf (i_msgs s3 ! i_msg s3)) then esp32s31_i2c_next_msg s3 else s3"
    have "b_cmd b1 > 0"
      using queue_queued [OF _ r0(4) _ _ q] m by (auto simp: queued_def)
    moreover have "fill_loop b1 ?s3 = (b, s1)"
      using l q m by (simp add: fill_loop.simps [of ?b0])
    ultimately have "b_cmd b > 0"
      using fill_inv_mono [OF fill_step [OF i0 _ q]] m by force
    then show ?thesis
      using inv rest by simp
  qed
  obtain ds where ds: "cmds ?s2 8 = cmds s1 (b_cmd b) @ ?c # ds" "length (cmds ?s2 8) = 8"
    using cmds_split(1) [of "b_cmd b" ?op s1] cmds_split(2) [of 0 ?s2] inv by blast
  have op: "cmd_op ?c = ?op"
    using cmd_words(2,3) by simp
  have lc: "length (cmds s1 (b_cmd b)) \<le> 7"
    using inv by (simp add: cmds_def)
  have "run_ok (cmds ?s2 8, i_txq s1)" "run_reads (cmds ?s2 8, i_txq s1) = b_rx b"
    "run_wire (cmds ?s2 8, i_txq s1) = list_wire (cmds s1 (b_cmd b)) (i_txq s1) @ (if ?op = I2C_OP_STOP then [Wire_stop] else [])"
    using run_of_fill [of "cmds s1 (b_cmd b)" "i_txq s1" ?c ds] inv op lc ds by (auto split: if_splits)
  moreover have "i_runs s' = i_runs s @ [(cmds ?s2 8, i_txq s1)]"
    unfolding s' using fr by simp
  moreover have "rest_wire s1 = []" if "\<not> i_msg s1 < length (i_msgs s1)"
    using that by (simp add: rest_wire_def)
  ultimately show "\<exists>r. i_runs s' = i_runs s @ [r] \<and> run_ok r \<and> run_reads r = length (concat (map chunk_slots (i_rx s'))) \<and>
      run_wire r @ rest_wire s' = rest_wire s @ (if i_msg s' < length (i_msgs s') then [] else [Wire_stop])"
    using inv same rest by (cases "i_msg s1 < length (i_msgs s1)") auto
qed

section \<open>Received bytes\<close>

definition put_rx :: "nat \<times> nat \<Rightarrow> u8 \<Rightarrow> i2c_msg list \<Rightarrow> i2c_msg list" where
  "put_rx p v ms = ms[fst p := (ms ! fst p)\<lparr>m_buf := (m_buf (ms ! fst p))[snd p := v]\<rparr>]"

definition put_all :: "(nat \<Rightarrow> u8) \<Rightarrow> nat \<Rightarrow> (nat \<times> nat) list \<Rightarrow> i2c_msg list \<Rightarrow> i2c_msg list" where
  "put_all d k sl ms = fold (\<lambda>(x, p). put_rx p (d x)) (enumerate k sl) ms"

lemma put_all_append: "put_all d k (xs @ ys) ms = put_all d (k + length xs) ys (put_all d k xs ms)"
  by (simp add: put_all_def enumerate_append_eq)

lemma put_all_Nil [simp]: "put_all d k [] ms = ms"
  by (simp add: put_all_def)

lemma put_all_one [simp]: "put_all d k [p] ms = put_rx p (d k) ms"
  by (simp add: put_all_def)

lemma put_all_cong:
  assumes "\<And>j. j < length sl \<Longrightarrow> d (k + j) = d' (k' + j)"
  shows "put_all d k sl ms = put_all d' k' sl ms"
  using assms
proof (induction sl rule: rev_induct)
  case (snoc p sl)
  then show ?case
    by (simp add: put_all_append)
qed simp

lemma drain_put: "drain_loop d k rx ms = put_all d k (concat (map chunk_slots rx)) ms"
proof (induction rx arbitrary: k ms)
  case (Cons c rx)
  obtain i off n where c: "c = (i, off, n)"
    by (cases c)
  have "fold (\<lambda>j ms. ms[i := (ms ! i)\<lparr>m_buf := (m_buf (ms ! i))[off + j := d (k + j)]\<rparr>]) [0..<n] ms =
      put_all d k (map (Pair i) [off..<off + n]) ms"
    by (induction n) (simp_all add: put_all_append put_rx_def)
  then show ?case
    by (simp add: c Cons put_all_append chunk_slots_def)
qed simp

text \<open>What a transfer must not change of a message.\<close>

definition m_shape :: "i2c_msg \<Rightarrow> u8 \<times> bool \<times> nat \<times> bytes" where
  "m_shape m = (m_addr8 m, m_rd m, length (m_buf m), if m_rd m then [] else m_buf m)"

definition slots_in :: "i2c_msg list \<Rightarrow> (nat \<times> nat) list \<Rightarrow> bool" where
  "slots_in ms sl \<longleftrightarrow> (\<forall>p \<in> set sl. fst p < length ms \<and> m_rd (ms ! fst p) \<and> snd p < length (m_buf (ms ! fst p)))"

lemma shape_map:
  assumes "\<And>m m'. m_shape m = m_shape m' \<Longrightarrow> f m = f m'" and "map m_shape ms = map m_shape ms'"
  shows "map f ms = map f ms'"
  using assms(2)
proof (induction ms arbitrary: ms')
  case (Cons m ms)
  then obtain m' ms2 where "ms' = m' # ms2" "m_shape m = m_shape m'" "map m_shape ms = map m_shape ms2"
    by (cases ms') auto
  then show ?case
    using Cons.IH [of ms2] assms(1) [of m m'] by simp
qed simp

lemma shape_nth:
  assumes "map m_shape ms = map m_shape ms'" and "i < length ms"
  shows "m_shape (ms ! i) = m_shape (ms' ! i)"
proof -
  have "i < length ms'"
    using assms map_eq_imp_length_eq by metis
  then show ?thesis
    using assms by (metis nth_map)
qed

lemma shape_data:
  assumes "m_shape m = m_shape m'"
  shows "msg_data m = msg_data m'" "msg_wire m = msg_wire m'" "msg_slots i m = msg_slots i m'" "length (m_buf m) = length (m_buf m')"
    "m_rd m = m_rd m'" "m_addr8 m = m_addr8 m'"
  using assms by (auto simp: m_shape_def msg_data_def msg_wire_def msg_slots_def fun_eq_iff split: if_splits)

lemma shape_slots_in:
  assumes "map m_shape ms = map m_shape ms'"
  shows "slots_in ms sl = slots_in ms' sl"
proof -
  have "length ms = length ms'"
    using assms map_eq_imp_length_eq by metis
  moreover have "m_rd (ms ! i) = m_rd (ms' ! i)" "length (m_buf (ms ! i)) = length (m_buf (ms' ! i))" if "i < length ms" for i
    using shape_data(4,5) [OF shape_nth [OF assms that]] by simp_all
  ultimately show ?thesis
    by (auto simp: slots_in_def)
qed

lemma put_shape:
  assumes "slots_in ms sl"
  shows "map m_shape (put_all d k sl ms) = map m_shape ms"
  using assms
proof (induction sl rule: rev_induct)
  case (snoc p sl)
  then have "map m_shape (put_all d k sl ms) = map m_shape ms" and "slots_in ms [p]"
    by (auto simp: slots_in_def)
  moreover from this have "slots_in (put_all d k sl ms) [p]"
    using shape_slots_in by blast
  then have "map m_shape (put_rx p v (put_all d k sl ms)) = map m_shape (put_all d k sl ms)" for v
    by (auto simp: put_rx_def slots_in_def map_update m_shape_def list_update_same_conv)
  ultimately show ?case
    by (simp add: put_all_append)
qed simp

lemma rest_shape:
  assumes "map m_shape ms = map m_shape (i_msgs s)"
  shows "rest_wire (s\<lparr>i_msgs := ms\<rparr>) = rest_wire s" "rest_slots (s\<lparr>i_msgs := ms\<rparr>) = rest_slots s"
    "rest_work (s\<lparr>i_msgs := ms\<rparr>) = rest_work s" "pos_ok (s\<lparr>i_msgs := ms\<rparr>) = pos_ok s"
proof -
  have l: "length ms = length (i_msgs s)"
    using assms map_eq_imp_length_eq by metis
  note n = shape_data [OF shape_nth [OF assms]]
  have m: "map msg_wire ms = map msg_wire (i_msgs s)" "map (\<lambda>m. length (m_buf m) + 1) ms = map (\<lambda>m. length (m_buf m) + 1) (i_msgs s)"
    using shape_map [OF _ assms] shape_data by (blast, metis (no_types, lifting))
  show "rest_wire (s\<lparr>i_msgs := ms\<rparr>) = rest_wire s"
    using l n m by (auto simp: rest_wire_def drop_map [symmetric])
  show "rest_slots (s\<lparr>i_msgs := ms\<rparr>) = rest_slots s"
    using l n by (auto simp: rest_slots_def intro!: arg_cong [where f = concat])
  show "rest_work (s\<lparr>i_msgs := ms\<rparr>) = rest_work s"
    using l n m(2) by (auto simp: rest_work_def drop_map [symmetric])
  show "pos_ok (s\<lparr>i_msgs := ms\<rparr>) = pos_ok s"
    using l n by (auto simp: pos_ok_def)
qed

lemma rest_slots_in: "slots_in (i_msgs s) (rest_slots s)"
  by (auto simp: slots_in_def rest_slots_def msg_slots_def split: if_splits)

text \<open>The bytes of the device in the buffers of the messages that read, in order.\<close>

fun received :: "(nat \<Rightarrow> u8) \<Rightarrow> nat \<Rightarrow> i2c_msg list \<Rightarrow> i2c_msg list" where
  "received dev k [] = []"
| "received dev k (m # ms) =
     (if m_rd m then m\<lparr>m_buf := map dev [k..<k + length (m_buf m)]\<rparr> # received dev (k + length (m_buf m)) ms
      else m # received dev k ms)"

lemma put_msg:
  assumes "i < length ms" and "n \<le> length (m_buf (ms ! i))"
  shows "put_all d k (map (Pair i) [0..<n]) ms = ms[i := (ms ! i)\<lparr>m_buf := map d [k..<k + n] @ drop n (m_buf (ms ! i))\<rparr>]"
  using assms(2)
proof (induction n)
  case (Suc n)
  then have "drop n (m_buf (ms ! i)) = m_buf (ms ! i) ! n # drop (Suc n) (m_buf (ms ! i))"
    by (simp add: Cons_nth_drop_Suc)
  then show ?case
    using Suc assms(1) by (simp add: put_all_append put_rx_def list_update_append)
qed (use assms(1) in simp)

lemma put_received:
  "a \<le> length ms \<Longrightarrow>
   put_all d k (concat (map (\<lambda>i. msg_slots i (ms ! i) 0) [a..<length ms])) ms = take a ms @ received d k (drop a ms)"
proof (induction "length ms - a" arbitrary: a k ms)
  case (Suc n)
  then have a: "a < length ms" "[a..<length ms] = a # [Suc a..<length ms]" "drop a ms = ms ! a # drop (Suc a) ms"
    by (simp_all add: upt_conv_Cons Cons_nth_drop_Suc)
  let ?m = "ms ! a"
  show ?case
  proof (cases "m_rd ?m")
    case True
    let ?ms = "ms[a := ?m\<lparr>m_buf := map d [k..<k + length (m_buf ?m)]\<rparr>]"
    have p: "put_all d k (msg_slots a ?m 0) ms = ?ms"
      using put_msg [OF a(1) order_refl, of d k] True by (simp add: msg_slots_def)
    have e: "map (\<lambda>i. msg_slots i (ms ! i) 0) [Suc a..<length ms] = map (\<lambda>i. msg_slots i (?ms ! i) 0) [Suc a..<length ?ms]"
      by simp
    have "put_all d (k + length (m_buf ?m)) (concat (map (\<lambda>i. msg_slots i (ms ! i) 0) [Suc a..<length ms])) ?ms =
        take (Suc a) ?ms @ received d (k + length (m_buf ?m)) (drop (Suc a) ?ms)"
      unfolding e by (rule Suc(1)) (use Suc(2) a(1) in simp_all)
    moreover have "length (msg_slots a ?m 0) = length (m_buf ?m)"
      using True by (simp add: msg_slots_def)
    ultimately show ?thesis
      using True a p by (simp add: put_all_append take_Suc_conv_app_nth)
  next
    case False
    then show ?thesis
      using Suc(1) [of ms "Suc a" k] Suc(2) a by (simp add: msg_slots_def take_Suc_conv_app_nth)
  qed
qed simp

section \<open>A transfer with any controller\<close>

definition xfer_safe :: "i2c_msg list \<Rightarrow> i2c \<Rightarrow> bool" where
  "xfer_safe msgs s \<longleftrightarrow> pos_ok s \<and> i_txq s = [] \<and> map m_shape (i_msgs s) = map m_shape msgs \<and>
     slots_in (i_msgs s) (concat (map chunk_slots (i_rx s))) \<and> (\<forall>r \<in> set (i_runs s). run_ok r) \<and>
     (i_done s \<longrightarrow> i_regs s I2C_INT_ENA = 0) \<and> i_err s \<in> {None, Some ENXIO, Some EAGAIN, Some ETIMEDOUT}"

lemma rest_reg [simp]:
  "rest_wire (i2c_writel v r s) = rest_wire s" "rest_slots (i2c_writel v r s) = rest_slots s"
  "rest_work (i2c_writel v r s) = rest_work s" "pos_ok (i2c_writel v r s) = pos_ok s"
  "i_txq (i2c_writel v r s) = i_txq s" "i_rx (i2c_writel v r s) = i_rx s" "i_msgs (i2c_writel v r s) = i_msgs s"
  "i_runs (i2c_writel v r s) = i_runs s" "i_err (i2c_writel v r s) = i_err s" "i_done (i2c_writel v r s) = i_done s"
  "i_msg (i2c_writel v r s) = i_msg s" "i_regs (i2c_writel v r s) = (i_regs s)(r := v)"
  by (simp_all add: i2c_writel_def rest_wire_def rest_slots_def rest_work_def pos_ok_def)

lemma rest_flag [simp]:
  "rest_wire (s\<lparr>i_err := e\<rparr>) = rest_wire s" "rest_slots (s\<lparr>i_err := e\<rparr>) = rest_slots s" "rest_work (s\<lparr>i_err := e\<rparr>) = rest_work s"
  "pos_ok (s\<lparr>i_err := e\<rparr>) = pos_ok s" "rest_wire (s\<lparr>i_rx := x\<rparr>) = rest_wire s" "rest_slots (s\<lparr>i_rx := x\<rparr>) = rest_slots s"
  "rest_work (s\<lparr>i_rx := x\<rparr>) = rest_work s" "pos_ok (s\<lparr>i_rx := x\<rparr>) = pos_ok s" "pos_ok (s\<lparr>i_done := b\<rparr>) = pos_ok s"
  by (simp_all add: rest_wire_def rest_slots_def rest_work_def pos_ok_def)

lemma drain_eq: "esp32s31_i2c_drain d s = (s\<lparr>i_msgs := put_all d 0 (concat (map chunk_slots (i_rx s))) (i_msgs s)\<rparr>)\<lparr>i_rx := []\<rparr>"
  by (simp add: esp32s31_i2c_drain_def drain_put)

lemma drain_rest:
  assumes "slots_in (i_msgs s) (concat (map chunk_slots (i_rx s)))"
  shows "map m_shape (i_msgs (esp32s31_i2c_drain d s)) = map m_shape (i_msgs s)"
    "rest_wire (esp32s31_i2c_drain d s) = rest_wire s" "rest_slots (esp32s31_i2c_drain d s) = rest_slots s"
    "rest_work (esp32s31_i2c_drain d s) = rest_work s" "pos_ok (esp32s31_i2c_drain d s) = pos_ok s"
  using put_shape [OF assms, of d 0] rest_shape [OF put_shape [OF assms, of d 0]] by (simp_all add: drain_eq)

lemma drain_same [simp]:
  "i_txq (esp32s31_i2c_drain d s) = i_txq s" "i_runs (esp32s31_i2c_drain d s) = i_runs s" "i_rx (esp32s31_i2c_drain d s) = []"
  "i_err (esp32s31_i2c_drain d s) = i_err s" "i_done (esp32s31_i2c_drain d s) = i_done s" "i_regs (esp32s31_i2c_drain d s) = i_regs s"
  "i_msg (esp32s31_i2c_drain d s) = i_msg s"
  by (simp_all add: esp32s31_i2c_drain_def)

lemma start_fill_safe:
  assumes "pos_ok s" and "i_txq s = []" and "map m_shape (i_msgs s) = map m_shape msgs" and "\<forall>r \<in> set (i_runs s). run_ok r"
    and "\<not> i_done s" and "i_err s \<in> {None, Some ENXIO, Some EAGAIN, Some ETIMEDOUT}"
  shows "xfer_safe msgs (esp32s31_i2c_start (esp32s31_i2c_fill s))"
proof -
  note f = fill_start [OF assms(2,1)]
  have "slots_in (i_msgs s) (concat (map chunk_slots (i_rx (esp32s31_i2c_start (esp32s31_i2c_fill s)))))"
    using rest_slots_in [of s] f(2) by (metis slots_in_def UnCI set_append)
  then show ?thesis
    using f assms by (auto simp: xfer_safe_def)
qed

lemma irq_safe:
  assumes "xfer_safe msgs s" and "\<not> i_done s"
  shows "xfer_safe msgs (esp32s31_i2c_irq status d s)"
proof (cases "status = 0")
  case True
  then show ?thesis
    using assms(1) by (simp add: esp32s31_i2c_irq_def)
next
  case False
  let ?s = "(i2c_writel status I2C_INT_CLR s)\<lparr>i_err := irq_error status (i_err s)\<rparr>"
  have e: "irq_error status (i_err s) \<in> {None, Some ENXIO, Some EAGAIN, Some ETIMEDOUT}"
    using assms(1) by (auto simp: irq_error_def xfer_safe_def)
  have sl: "slots_in (i_msgs ?s) (concat (map chunk_slots (i_rx ?s)))"
    using assms(1) by (simp add: xfer_safe_def)
  note dr = drain_rest [OF sl, of d]
  have i: "esp32s31_i2c_irq status d s =
     (if i_err ?s = None \<and> status AND I2C_INT_END_DETECT \<noteq> 0 then esp32s31_i2c_start (esp32s31_i2c_fill (esp32s31_i2c_drain d ?s))
      else if i_err ?s \<noteq> None \<or> status AND I2C_INT_TRANS_COMPLETE \<noteq> 0
      then (i2c_writel 0 I2C_INT_ENA (if i_err ?s = None then esp32s31_i2c_drain d ?s else ?s))\<lparr>i_done := True\<rparr>
      else ?s)"
    using False by (simp add: esp32s31_i2c_irq_def Let_def)
  have "xfer_safe msgs (esp32s31_i2c_start (esp32s31_i2c_fill (esp32s31_i2c_drain d ?s)))"
    using assms dr e by (intro start_fill_safe) (simp_all add: xfer_safe_def)
  moreover have "xfer_safe msgs ((i2c_writel 0 I2C_INT_ENA (if i_err ?s = None then esp32s31_i2c_drain d ?s else ?s))\<lparr>i_done := True\<rparr>)"
    using assms dr e by (auto simp: xfer_safe_def slots_in_def)
  moreover have "xfer_safe msgs ?s"
    using assms e by (auto simp: xfer_safe_def)
  ultimately show ?thesis
    unfolding i by (auto split: if_splits)
qed

lemma wait_safe: "xfer_safe msgs s \<Longrightarrow> xfer_safe msgs (i2c_wait env n s)"
proof (induction n arbitrary: s)
  case (Suc n)
  then show ?case
    by (cases "e_ctl env n (i_runs s)") (simp add: irq_safe)
qed simp

text \<open>The state in which the first list is filled.\<close>

definition xfer_prep :: "i2c_msg list \<Rightarrow> i2c \<Rightarrow> i2c" where
  "xfer_prep msgs s =
     i2c_writel I2C_INT_MASK I2C_INT_CLR (esp32s31_i2c_reset_fifos
       (s\<lparr>i_msgs := msgs, i_msg := 0, i_pos := 0, i_addressed := False, i_err := None, i_done := False, i_runs := []\<rparr>))"

lemma prep:
  "i_msgs (xfer_prep msgs s) = msgs" "i_msg (xfer_prep msgs s) = 0" "\<not> i_addressed (xfer_prep msgs s)" "i_pos (xfer_prep msgs s) = 0"
  "i_err (xfer_prep msgs s) = None" "\<not> i_done (xfer_prep msgs s)" "i_runs (xfer_prep msgs s) = []" "i_txq (xfer_prep msgs s) = []"
  by (simp_all add: xfer_prep_def esp32s31_i2c_reset_fifos_def Let_def i2c_writel_def)

text \<open>Enabling the interrupts before or after the fill makes no difference.\<close>

lemma xfer_start_eq: "\<exists>r. xfer_start msgs s = (esp32s31_i2c_start (esp32s31_i2c_fill (xfer_prep msgs s)))\<lparr>i_regs := r\<rparr>"
proof -
  let ?f = "esp32s31_i2c_fill (xfer_prep msgs s)"
  have c: "map (\<lambda>n. i_regs (i2c_writel I2C_INT_MASK I2C_INT_ENA ?f) (I2C_COMD n)) [0..<8] = map (\<lambda>n. i_regs ?f (I2C_COMD n)) [0..<8]"
    by (simp add: I2C_COMD_def)
  have "xfer_start msgs s = esp32s31_i2c_start (i2c_writel I2C_INT_MASK I2C_INT_ENA ?f)"
    by (simp add: xfer_start_def xfer_prep_def Let_def)
  also have "\<dots> = (esp32s31_i2c_start ?f)\<lparr>i_regs := i_regs (esp32s31_i2c_start (i2c_writel I2C_INT_MASK I2C_INT_ENA ?f))\<rparr>"
    unfolding esp32s31_i2c_start_def c by (simp add: i2c_writel_def)
  finally show ?thesis
    by blast
qed

lemma rest_regs [simp]:
  "rest_wire (s\<lparr>i_regs := e\<rparr>) = rest_wire s" "rest_slots (s\<lparr>i_regs := e\<rparr>) = rest_slots s" "rest_work (s\<lparr>i_regs := e\<rparr>) = rest_work s"
  "pos_ok (s\<lparr>i_regs := e\<rparr>) = pos_ok s"
  by (simp_all add: rest_wire_def rest_slots_def rest_work_def pos_ok_def)

lemma prep_pos: "pos_ok (xfer_prep msgs s)"
  by (simp add: pos_ok_def prep)

lemma start_safe: "xfer_safe msgs (xfer_start msgs s)"
proof -
  obtain r where r: "xfer_start msgs s = (esp32s31_i2c_start (esp32s31_i2c_fill (xfer_prep msgs s)))\<lparr>i_regs := r\<rparr>"
    using xfer_start_eq by blast
  have "xfer_safe msgs (esp32s31_i2c_start (esp32s31_i2c_fill (xfer_prep msgs s)))"
    by (rule start_fill_safe) (simp_all add: prep prep_pos)
  moreover have "\<not> i_done (esp32s31_i2c_start (esp32s31_i2c_fill (xfer_prep msgs s)))"
    using fill_start(7) [OF prep(8) prep_pos] prep(6) by simp
  ultimately show ?thesis
    unfolding r by (auto simp: xfer_safe_def)
qed

lemma set_timing_same:
  "i_msgs (esp32s31_i2c_set_timing rate freq s) = i_msgs s" "i_runs (esp32s31_i2c_set_timing rate freq s) = i_runs s"
  by (simp_all add: esp32s31_i2c_set_timing_def Let_def)

lemma init_same:
  assumes "i_regs s I2C_INT_ENA = 0"
  shows "i_msgs (snd (esp32s31_i2c_init env b s)) = i_msgs s" "i_runs (snd (esp32s31_i2c_init env b s)) = i_runs s"
    "i_regs (snd (esp32s31_i2c_init env b s)) I2C_INT_ENA = 0"
  using assms by (auto simp: esp32s31_i2c_init_def Let_def set_timing_same split: option.split)

lemma xfer_any:
  assumes "\<forall>m \<in> set msgs. \<not> m_ten m" and "esp32s31_i2c_xfer env msgs s = (res, s')"
  shows "(\<forall>r \<in> set (i_runs s'). run_ok r) \<and> map m_shape (i_msgs s') = map m_shape msgs \<and> i_regs s' I2C_INT_ENA = 0 \<and>
    res \<in> {Inr (length msgs), Inl ENXIO, Inl EAGAIN, Inl ETIMEDOUT}"
proof -
  let ?w = "i2c_wait env (e_irqs env) (xfer_start msgs s)"
  define t where "t = (if i_done ?w then ?w else (i2c_writel 0 I2C_INT_ENA ?w)\<lparr>i_err := Some ETIMEDOUT\<rparr>)"
  have "xfer_safe msgs ?w"
    by (rule wait_safe [OF start_safe])
  then have t: "\<forall>r \<in> set (i_runs t). run_ok r" "map m_shape (i_msgs t) = map m_shape msgs" "i_regs t I2C_INT_ENA = 0"
    "i_err t \<in> {None, Some ENXIO, Some EAGAIN, Some ETIMEDOUT}"
    by (auto simp: t_def xfer_safe_def)
  have r: "(res, s') = (case i_err (if i_err t = Some ENXIO then i2c_writel (i_regs t I2C_CTR OR I2C_CTR_FSM_RST) I2C_CTR t
        else if i_err t \<noteq> None then snd (esp32s31_i2c_init env True t) else t) of Some e \<Rightarrow> Inl e | None \<Rightarrow> Inr (length msgs),
      if i_err t = Some ENXIO then i2c_writel (i_regs t I2C_CTR OR I2C_CTR_FSM_RST) I2C_CTR t
        else if i_err t \<noteq> None then snd (esp32s31_i2c_init env True t) else t)"
    using assms unfolding esp32s31_i2c_xfer_def Let_def t_def [symmetric] by auto
  have ei: "i_err (snd (esp32s31_i2c_init env True t)) = i_err t"
    by (auto simp: esp32s31_i2c_init_def esp32s31_i2c_set_timing_def Let_def split: option.split)
  show ?thesis
    using r t ei init_same [OF t(3), of env True] by auto
qed

section \<open>A transfer that the devices answer\<close>

text \<open>The controller completes each list: END pauses it, STOP ends the transfer, and
  its reads give the bytes of the device one after the other.\<close>

definition answers :: "i2c_env \<Rightarrow> (nat \<Rightarrow> u8) \<Rightarrow> bool" where
  "answers env dev \<longleftrightarrow> (\<forall>k rs. rs \<noteq> [] \<longrightarrow>
     fst (e_ctl env k rs) = (if Wire_stop \<in> set (run_wire (last rs)) then I2C_INT_TRANS_COMPLETE else I2C_INT_END_DETECT) \<and>
     (\<forall>j < run_reads (last rs). snd (e_ctl env k rs) j = dev (sum_list (map run_reads (butlast rs)) + j)))"

definition all_slots :: "i2c_msg list \<Rightarrow> (nat \<times> nat) list" where
  "all_slots msgs = concat (map (\<lambda>i. msg_slots i (msgs ! i) 0) [0..<length msgs])"

definition xfer_good :: "i2c_msg list \<Rightarrow> (nat \<Rightarrow> u8) \<Rightarrow> i2c \<Rightarrow> bool" where
  "xfer_good msgs dev s \<longleftrightarrow> pos_ok s \<and> i_txq s = [] \<and> map m_shape (i_msgs s) = map m_shape msgs \<and> \<not> i_done s \<and> i_err s = None \<and>
     i_runs s \<noteq> [] \<and>
     concat (map run_wire (i_runs s)) @ rest_wire s = concat (map msg_wire msgs) @ (if i_msg s < length msgs then [] else [Wire_stop]) \<and>
     (Wire_stop \<in> set (run_wire (last (i_runs s))) \<longleftrightarrow> \<not> i_msg s < length msgs) \<and>
     run_reads (last (i_runs s)) = length (concat (map chunk_slots (i_rx s))) \<and>
     (\<exists>sl. length sl = sum_list (map run_reads (butlast (i_runs s))) \<and>
        sl @ concat (map chunk_slots (i_rx s)) @ rest_slots s = all_slots msgs \<and> i_msgs s = put_all dev 0 sl msgs)"

lemma no_stop: "Wire_stop \<notin> set (rest_wire s)"
  by (auto simp: rest_wire_def msg_wire_def msg_data_def split: if_splits)

lemma shape_length: "map m_shape ms = map m_shape ms' \<Longrightarrow> length ms = length ms'"
  using map_eq_imp_length_eq by metis

text \<open>The next list after everything so far has been received.\<close>

lemma good_start:
  assumes "pos_ok s" and "i_txq s = []" and "map m_shape (i_msgs s) = map m_shape msgs" and "\<not> i_done s" and "i_err s = None"
    and "concat (map run_wire (i_runs s)) @ rest_wire s = concat (map msg_wire msgs)"
    and "length sl = sum_list (map run_reads (i_runs s))" and "sl @ rest_slots s = all_slots msgs" and "i_msgs s = put_all dev 0 sl msgs"
  shows "xfer_good msgs dev (esp32s31_i2c_start (esp32s31_i2c_fill s))"
proof -
  let ?s = "esp32s31_i2c_start (esp32s31_i2c_fill s)"
  note f = fill_start [OF assms(2,1)]
  obtain r where r: "i_runs ?s = i_runs s @ [r]" "run_reads r = length (concat (map chunk_slots (i_rx ?s)))"
    "run_wire r @ rest_wire ?s = rest_wire s @ (if i_msg ?s < length (i_msgs ?s) then [] else [Wire_stop])"
    using f(1) by blast
  have l: "length (i_msgs ?s) = length msgs"
    using shape_length [OF assms(3)] f(5) by simp
  have "Wire_stop \<in> set (run_wire r) \<longleftrightarrow> \<not> i_msg ?s < length msgs"
  proof (cases "i_msg ?s < length msgs")
    case True
    then have "set (run_wire r) \<subseteq> set (rest_wire s)"
      using r(3) l by (metis Un_upper1 append_Nil2 set_append)
    then show ?thesis
      using no_stop True by blast
  next
    case False
    then have "rest_wire ?s = []"
      using l by (simp add: rest_wire_def)
    then show ?thesis
      using r(3) l False by simp
  qed
  moreover have "concat (map run_wire (i_runs ?s)) @ rest_wire ?s =
      concat (map msg_wire msgs) @ (if i_msg ?s < length msgs then [] else [Wire_stop])"
    using r(1,3) l assms(6) by simp
  moreover have "sl @ concat (map chunk_slots (i_rx ?s)) @ rest_slots ?s = all_slots msgs"
    using f(2) assms(8) by simp
  ultimately show ?thesis
    unfolding xfer_good_def using f(3-7) assms r(1,2) by auto
qed

lemma good_drain:
  assumes "xfer_good msgs dev s" and "answers env dev" and "e_ctl env k (i_runs s) = (status, d)"
  shows "put_all d 0 (concat (map chunk_slots (i_rx s))) (i_msgs s) =
      put_all dev (sum_list (map run_reads (butlast (i_runs s)))) (concat (map chunk_slots (i_rx s))) (i_msgs s)"
    and "slots_in (i_msgs s) (concat (map chunk_slots (i_rx s)))"
proof -
  have "i_runs s \<noteq> []" "run_reads (last (i_runs s)) = length (concat (map chunk_slots (i_rx s)))"
    using assms(1) by (simp_all add: xfer_good_def)
  then show "put_all d 0 (concat (map chunk_slots (i_rx s))) (i_msgs s) =
      put_all dev (sum_list (map run_reads (butlast (i_runs s)))) (concat (map chunk_slots (i_rx s))) (i_msgs s)"
    using assms(2,3) unfolding answers_def by (intro put_all_cong) (metis add_0 snd_conv)
  have "slots_in msgs (all_slots msgs)"
    by (auto simp: slots_in_def all_slots_def msg_slots_def split: if_splits)
  then have "slots_in (i_msgs s) (all_slots msgs)"
    using assms(1) shape_slots_in [of "i_msgs s" msgs] by (simp add: xfer_good_def)
  moreover obtain sl where "sl @ concat (map chunk_slots (i_rx s)) @ rest_slots s = all_slots msgs"
    using assms(1) by (auto simp: xfer_good_def)
  ultimately show "slots_in (i_msgs s) (concat (map chunk_slots (i_rx s)))"
    by (metis UnCI set_append slots_in_def)
qed

lemma sum_butlast: "xs \<noteq> [] \<Longrightarrow> sum_list (map f (butlast xs)) + f (last xs) = (sum_list (map f xs) :: nat)"
  by (induction xs rule: rev_induct) auto

lemma good_wait:
  assumes "answers env dev"
  shows "xfer_good msgs dev s \<Longrightarrow> rest_work s < n \<Longrightarrow>
    i_done (i2c_wait env n s) \<and> i_err (i2c_wait env n s) = None \<and> i_msgs (i2c_wait env n s) = put_all dev 0 (all_slots msgs) msgs \<and>
    concat (map run_wire (i_runs (i2c_wait env n s))) = concat (map msg_wire msgs) @ [Wire_stop]"
proof (induction n arbitrary: s)
  case (Suc n)
  obtain status d where c: "e_ctl env n (i_runs s) = (status, d)"
    by (metis surj_pair)
  note g = Suc.prems(1) [unfolded xfer_good_def]
  obtain sl where sl: "length sl = sum_list (map run_reads (butlast (i_runs s)))"
    "sl @ concat (map chunk_slots (i_rx s)) @ rest_slots s = all_slots msgs" "i_msgs s = put_all dev 0 sl msgs"
    using g by blast
  let ?sl = "concat (map chunk_slots (i_rx s))"
  note dr = good_drain [OF Suc.prems(1) assms c]
  have st: "status = (if i_msg s < length msgs then I2C_INT_END_DETECT else I2C_INT_TRANS_COMPLETE)"
    using assms c g unfolding answers_def by (metis fst_conv)
  let ?s = "i2c_writel status I2C_INT_CLR s"
  have dm: "i_msgs (esp32s31_i2c_drain d ?s) = put_all dev 0 (sl @ ?sl) msgs"
    using dr(1) sl(1,3) by (simp add: drain_eq put_all_append)
  have sli: "slots_in (i_msgs ?s) (concat (map chunk_slots (i_rx ?s)))"
    using dr(2) by simp
  note drr = drain_rest [OF sli, of d]
  have len: "length (sl @ ?sl) = sum_list (map run_reads (i_runs s))"
    using sl(1) g sum_butlast [of "i_runs s" run_reads] by simp
  show ?case
  proof (cases "i_msg s < length msgs")
    case True
    let ?d = "esp32s31_i2c_drain d ?s"
    have i: "esp32s31_i2c_irq status d s = esp32s31_i2c_start (esp32s31_i2c_fill ?d)"
      using st True g by (simp add: esp32s31_i2c_irq_def irq_error_def Let_def)
    have "xfer_good msgs dev (esp32s31_i2c_start (esp32s31_i2c_fill ?d))"
      using g True drr sl dm len by (intro good_start [where sl = "sl @ ?sl"]) simp_all
    moreover have "rest_work (esp32s31_i2c_start (esp32s31_i2c_fill ?d)) < rest_work ?d"
      using g True drr shape_length [OF drr(1)] shape_length [of "i_msgs s" msgs] by (intro fill_start(8)) simp_all
    ultimately show ?thesis
      using Suc.IH [of "esp32s31_i2c_start (esp32s31_i2c_fill ?d)"] Suc.prems(2) c i drr g by simp
  next
    case False
    have i: "esp32s31_i2c_irq status d s = (i2c_writel 0 I2C_INT_ENA (esp32s31_i2c_drain d ?s))\<lparr>i_done := True\<rparr>"
      using st False g by (simp add: esp32s31_i2c_irq_def irq_error_def Let_def)
    have "\<not> i_msg s < length (i_msgs s)"
      using False shape_length g by metis
    then have "rest_wire s = []" "rest_slots s = []"
      by (simp_all add: rest_wire_def rest_slots_def)
    moreover have "i2c_wait env n (esp32s31_i2c_irq status d s) = esp32s31_i2c_irq status d s"
      by (cases n) (simp_all add: i)
    ultimately show ?thesis
      using c i dm sl(2) g False by simp
  qed
qed simp

lemma prep_rest: "rest_wire (xfer_prep msgs s) = concat (map msg_wire msgs)" "rest_slots (xfer_prep msgs s) = all_slots msgs"
  "rest_work (xfer_prep msgs s) = sum_list (map (\<lambda>m. length (m_buf m) + 1) msgs)"
proof -
  show "rest_wire (xfer_prep msgs s) = concat (map msg_wire msgs)"
    by (cases msgs) (simp_all add: rest_wire_def prep msg_wire_def)
  show "rest_work (xfer_prep msgs s) = sum_list (map (\<lambda>m. length (m_buf m) + 1) msgs)"
    by (cases msgs) (simp_all add: rest_work_def prep)
  have "[0..<length msgs] = 0 # [1..<length msgs]" if "msgs \<noteq> []"
    using that upt_conv_Cons [of 0 "length msgs"] by simp
  then show "rest_slots (xfer_prep msgs s) = all_slots msgs"
    by (cases "msgs = []") (simp_all add: rest_slots_def all_slots_def prep)
qed

lemma good_first:
  "xfer_good msgs dev (xfer_start msgs s)" "rest_work (xfer_start msgs s) \<le> sum_list (map (\<lambda>m. length (m_buf m) + 1) msgs)"
proof -
  let ?f = "esp32s31_i2c_start (esp32s31_i2c_fill (xfer_prep msgs s))"
  obtain r where r: "xfer_start msgs s = ?f\<lparr>i_regs := r\<rparr>"
    using xfer_start_eq by blast
  have "xfer_good msgs dev ?f"
    by (rule good_start [where sl = "[]"]) (simp_all add: prep prep_pos prep_rest)
  then show "xfer_good msgs dev (xfer_start msgs s)"
    unfolding r by (simp add: xfer_good_def)
  have "rest_work ?f \<le> rest_work (xfer_prep msgs s)"
  proof (cases "msgs = []")
    case True
    then show ?thesis
      using fill_start(5) [OF prep(8) prep_pos, of msgs s] by (simp add: rest_work_def prep)
  next
    case False
    then show ?thesis
      using fill_start(8) [OF prep(8) prep_pos, of msgs s] by (simp add: prep less_imp_le)
  qed
  then show "rest_work (xfer_start msgs s) \<le> sum_list (map (\<lambda>m. length (m_buf m) + 1) msgs)"
    unfolding r by (simp add: prep_rest)
qed

lemma xfer_good_end:
  assumes "\<forall>m \<in> set msgs. \<not> m_ten m" and "answers env dev" and "sum_list (map (\<lambda>m. length (m_buf m) + 1) msgs) < e_irqs env"
    and "esp32s31_i2c_xfer env msgs s = (res, s')"
  shows "res = Inr (length msgs) \<and> concat (map run_wire (i_runs s')) = concat (map msg_wire msgs) @ [Wire_stop] \<and>
    i_msgs s' = received dev 0 msgs"
proof -
  let ?w = "i2c_wait env (e_irqs env) (xfer_start msgs s)"
  have w: "i_done ?w" "i_err ?w = None" "i_msgs ?w = put_all dev 0 (all_slots msgs) msgs"
    "concat (map run_wire (i_runs ?w)) = concat (map msg_wire msgs) @ [Wire_stop]"
    using good_wait [OF assms(2) good_first(1) [of msgs dev s] le_less_trans [OF good_first(2) assms(3)]] by simp_all
  have "esp32s31_i2c_xfer env msgs s = (Inr (length msgs), ?w)"
    using assms(1) w(1,2) by (auto simp: esp32s31_i2c_xfer_def Let_def)
  moreover have "put_all dev 0 (all_slots msgs) msgs = received dev 0 msgs"
    using put_received [of 0 msgs dev 0] by (simp add: all_slots_def)
  ultimately show ?thesis
    using assms(4) w(3,4) by simp
qed

section \<open>The timing\<close>

text \<open>Half an SCL period in source cycles is at most 512, which every field but
  WAIT_HIGH (7 bits) holds.\<close>

lemma scl_half_bounds:
  assumes "probe_clock set_rate freq = Inr rate"
  shows "2 * unat (scl_half rate freq) * unat freq \<ge> unat rate" "(2 * unat (scl_half rate freq) - 2) * unat freq < unat rate"
    "4 \<le> unat (scl_half rate freq)" "unat (scl_half rate freq) \<le> 512"
proof -
  have p: "freq \<noteq> 0" "\<not> freq > 1000000" "\<not> rate < freq * 8" "\<not> rate > freq * 1023"
    using assms by (auto simp: probe_clock_def split: if_splits sum.splits)
  have f: "0 < unat freq" "unat freq \<le> 1000000"
    using p(1,2) by (simp_all add: unat_gt_0 word_less_nat_alt)
  have r: "8 * unat freq \<le> unat rate" "unat rate \<le> 1023 * unat freq"
    using p(3,4) f(2) by (simp_all add: word_less_nat_alt unat_word_ariths(2) mult.commute)
  have h: "unat (scl_half rate freq) = (unat rate + 2 * unat freq - 1) div (2 * unat freq)"
  proof -
    have "1 \<le> rate + 2 * freq"
      using f r by (simp add: word_le_nat_alt unat_word_ariths(1,2))
    then have "unat (rate + 2 * freq - 1) = unat (rate + 2 * freq) - 1"
      by (simp add: unat_sub)
    then show ?thesis
      using f r by (simp add: scl_half_def unat_div unat_word_ariths(1,2))
  qed
  let ?h = "unat (scl_half rate freq)"
  have d: "2 * unat freq * ?h \<le> unat rate + 2 * unat freq - 1" "unat rate + 2 * unat freq - 1 < 2 * unat freq * ?h + 2 * unat freq"
    unfolding h using f(1) mult_div_mod_eq [of "2 * unat freq" "unat rate + 2 * unat freq - 1"]
      mod_less_divisor [of "2 * unat freq" "unat rate + 2 * unat freq - 1"] by linarith+
  show "2 * ?h * unat freq \<ge> unat rate"
    using d(2) by (simp add: mult.commute mult.left_commute)
  show "(2 * ?h - 2) * unat freq < unat rate"
  proof (cases "?h = 0")
    case False
    then have "(2 * ?h - 2) * unat freq + 2 * unat freq = 2 * unat freq * ?h"
      by (cases ?h) (simp_all add: algebra_simps)
    then show ?thesis
      using d(1) f(1) by linarith
  qed (use f r in simp)
  have "(unat rate + 2 * unat freq - 1) div (2 * unat freq) \<ge> (8 * unat freq) div (2 * unat freq)"
    by (rule div_le_mono) (use f r in linarith)
  then show "4 \<le> ?h"
    unfolding h using f(1) by simp
  have "unat rate + 2 * unat freq - 1 < 513 * (2 * unat freq)"
    using f r by linarith
  then have "(unat rate + 2 * unat freq - 1) div (2 * unat freq) < 513"
    by (rule less_mult_imp_div_less)
  then show "?h \<le> 512"
    unfolding h by simp
qed

text \<open>WAIT_HIGH overflows just for the slowest source below 80 kHz and for more than
  518 source cycles per period from 80 kHz on.\<close>

lemma scl_wait_fits:
  assumes "probe_clock set_rate freq = Inr rate"
  shows "unat (scl_wait rate freq) < 128 \<longleftrightarrow> unat (scl_half rate freq) < (if freq \<ge> 80000 then 260 else 512)"
proof -
  note b = scl_half_bounds(3,4) [OF assms]
  have two: "2 \<le> scl_half rate freq div 2"
    using b by (simp add: word_le_nat_alt unat_div)
  show ?thesis
    using b unat_sub_le [OF two] by (auto simp: scl_wait_def Let_def unat_div)
qed

text \<open>40 MHz and a bus of 39.11 kHz: the driver accepts them, but WAIT_HIGH is 0.\<close>

lemma scl_wait_overflow:
  "probe_clock (\<lambda>_. Inr 40000000) 39110 = Inr 40000000" "scl_half 40000000 39110 = 512" "scl_wait 40000000 39110 = 128"
  "push_bit 9 (scl_wait 40000000 39110) AND 0xfe00 = 0"
  by (simp_all add: probe_clock_def scl_half_def scl_wait_def)

section \<open>Properties\<close>

text \<open>C28: no answer of the controller leads the driver astray.  Whatever interrupts
  come with whatever bytes, also after errors and up to the timeout, every list
  that is started has at most 8 commands of which one ends it, its FIFO bytes
  are exactly those its commands send (at most 32), it receives at most 32
  bytes, no message changes its length or address and no written message its
  bytes; and the transfer ends with the interrupts off and with the number of
  messages or one of three errors.\<close>

theorem i2c_any_controller:
  assumes "\<forall>m \<in> set msgs. \<not> m_ten m" and "esp32s31_i2c_xfer env msgs s = (res, s')"
  shows "(\<forall>r \<in> set (i_runs s'). run_ok r) \<and> map m_shape (i_msgs s') = map m_shape msgs \<and> i_regs s' I2C_INT_ENA = 0 \<and>
    res \<in> {Inr (length msgs), Inl ENXIO, Inl EAGAIN, Inl ETIMEDOUT}"
  using xfer_any [OF assms] .

definition demo_i2c :: i2c where
  "demo_i2c = \<lparr>i_regs = (\<lambda>_. 0), i_txq = [], i_msgs = [], i_msg = 0, i_pos = 0, i_addressed = False, i_rx = [], i_err = None,
     i_done = False, i_runs = []\<rparr>"

text \<open>A device at address 0x28: one byte is written, then 40 bytes are read.\<close>

definition demo_msgs :: "i2c_msg list" where
  "demo_msgs = [\<lparr>m_addr8 = 0x50, m_rd = False, m_ten = False, m_buf = [7]\<rparr>,
     \<lparr>m_addr8 = 0x51, m_rd = True, m_ten = False, m_buf = replicate 40 0\<rparr>]"

definition demo_env :: i2c_env where
  "demo_env = \<lparr>e_assert = None, e_deassert = None, e_clear = None, e_rate = 40000000, e_bus_freq = 400000, e_irqs = 50,
     e_ctl = (\<lambda>k rs. (if Wire_stop \<in> set (run_wire (last rs)) then I2C_INT_TRANS_COMPLETE else I2C_INT_END_DETECT,
       \<lambda>j. of_nat (sum_list (map run_reads (butlast rs)) + j)))\<rparr>"

theorem i2c_any_controller_witness:
  "map m_shape (i_msgs (snd (esp32s31_i2c_xfer (demo_env\<lparr>e_irqs := 1\<rparr>) demo_msgs demo_i2c))) = map m_shape demo_msgs"
proof -
  obtain res s' where x: "esp32s31_i2c_xfer (demo_env\<lparr>e_irqs := 1\<rparr>) demo_msgs demo_i2c = (res, s')"
    by (metis surj_pair)
  have "\<forall>m \<in> set demo_msgs. \<not> m_ten m"
    by (simp add: demo_msgs_def)
  from i2c_any_controller [OF this x] show ?thesis
    unfolding x by simp
qed

text \<open>C29: a transfer.  When the controller completes its lists and time allows, the
  transfer succeeds, its lists together make exactly the messages on the wire,
  in order (START, address, then the bytes sent or the reads with a NACK for the
  last, and one STOP at the end), and the buffers of the messages that read hold
  the bytes of the devices in the order of arrival, all other bytes being
  unchanged.  One interrupt for each byte and message, and one more, are enough.\<close>

theorem i2c_transfer:
  assumes "\<forall>m \<in> set msgs. \<not> m_ten m" and "answers env dev" and "sum_list (map (\<lambda>m. length (m_buf m) + 1) msgs) < e_irqs env"
    and "esp32s31_i2c_xfer env msgs s = (res, s')"
  shows "res = Inr (length msgs) \<and> concat (map run_wire (i_runs s')) = concat (map msg_wire msgs) @ [Wire_stop] \<and>
    i_msgs s' = received dev 0 msgs"
  using xfer_good_end [OF assms] .

theorem i2c_transfer_witness:
  "fst (esp32s31_i2c_xfer demo_env demo_msgs demo_i2c) = Inr 2 \<and>
   m_buf (i_msgs (snd (esp32s31_i2c_xfer demo_env demo_msgs demo_i2c)) ! 1) = map of_nat [0..<40]"
proof -
  obtain res s' where x: "esp32s31_i2c_xfer demo_env demo_msgs demo_i2c = (res, s')"
    by (metis surj_pair)
  have "\<forall>m \<in> set demo_msgs. \<not> m_ten m" "answers demo_env of_nat"
    "sum_list (map (\<lambda>m. length (m_buf m) + 1) demo_msgs) < e_irqs demo_env"
    by (simp_all add: demo_msgs_def demo_env_def answers_def)
  from i2c_transfer [OF this x] show ?thesis
    unfolding x by (simp add: demo_msgs_def)
qed

end
