(* ===== verification/Sbi_Platform.thy ===== *)
theory Sbi_Platform
  imports Prelude "HOL-Library.Sublist"
begin

text \<open>
  The M-mode platform (\<open>opensbi/platform/esp32s31/platform.c\<close>) and the kernel's
  cache driver that calls it (\<open>linux/drivers/cache/esp32s31-cache.c\<close>).  An
  operation is the list of its bus accesses in order; what it reads is a
  parameter.

  The lemmas show that no call makes the cache engine drop lines of OpenSBI,
  that a DMA operation of the kernel reaches every line of its range, that the
  engine runs under the lock which the firmware shares, that a new timer event
  passes through no earlier match, and that the 64-bit time is one that the
  counter had.
\<close>

section \<open>Bus accesses\<close>

text \<open>32-bit and 8-bit writes, CSR writes, the exchange that takes the cache lock
  (repeated until it was free), its release, the poll for the end of a cache
  operation, the atomic set of a request bit, and the endless sleep.\<close>

datatype io = Reg u32 u32 | Reg8 u32 u8 | Csr nat u32 | Csr_set nat u32 | Lock_cache | Unlock_cache | Wait_done
  | Set_bit u32 nat | Sleep

section \<open>Protection\<close>

abbreviation (input) FW_BASE :: u32 where "FW_BASE \<equiv> 0x50f00000"
abbreviation (input) FW_SIZE :: u32 where "FW_SIZE \<equiv> 0x30000"
abbreviation (input) HP_APM_BASE :: u32 where "HP_APM_BASE \<equiv> 0x20504400"
abbreviation (input) CPU_APM_BASE :: u32 where "CPU_APM_BASE \<equiv> 0x20504c00"

definition HP_APM_START :: "u32 \<Rightarrow> u32" where "HP_APM_START n = HP_APM_BASE + 0x04 + 0x0c * n"
definition HP_APM_END :: "u32 \<Rightarrow> u32" where "HP_APM_END n = HP_APM_BASE + 0x08 + 0x0c * n"
definition HP_APM_ATTR :: "u32 \<Rightarrow> u32" where "HP_APM_ATTR n = HP_APM_BASE + 0x0c + 0x0c * n"

definition esp32s31_apm_init :: "io list" where
  "esp32s31_apm_init =
     (let fw_end = FW_BASE + FW_SIZE in
      [Reg (HP_APM_START 2) fw_end, Reg (HP_APM_END 2) 0xffffffff, Reg (HP_APM_ATTR 2) (0x7777 OR 0x10000),
       Reg (HP_APM_START 1) FW_BASE, Reg (HP_APM_END 1) (fw_end - 1), Reg (HP_APM_ATTR 1) (0x7000 OR 0x10000),
       Reg HP_APM_BASE 0x7,
       Reg (HP_APM_START 0) 0, Reg (HP_APM_END 0) (FW_BASE - 1), Reg (HP_APM_ATTR 0) (0x7777 OR 0x10000),
       Reg 0x2050480c 0x7777,
       Reg (CPU_APM_BASE + 0x04) 0, Reg (CPU_APM_BASE + 0x08) 0xffffffff, Reg (CPU_APM_BASE + 0x0c) 0x7777,
       Reg CPU_APM_BASE 1, Reg (CPU_APM_BASE + 0xc4) 0x0f])"

definition PMA_NAPOT :: "u32 \<Rightarrow> u32 \<Rightarrow> u32" where
  "PMA_NAPOT base sz = drop_bit 2 (base OR (drop_bit 1 sz - 1))"

text \<open>\<open>fb\<close>: the build option \<open>ESP32S31_FB_UNCACHED\<close>.\<close>

definition esp32s31_pma_init :: "bool \<Rightarrow> io list" where
  "esp32s31_pma_init fb =
     [Csr 0xbd2 (PMA_NAPOT 0x50000000 0x01000000), Csr 0xbc2 0xc000001d] @
     (if fb then [Csr 0xbd0 (PMA_NAPOT 0x50f40000 0x00040000), Csr 0xbc0 0xc8000019,
                  Csr 0xbd1 (PMA_NAPOT 0x50f80000 0x00080000), Csr 0xbc1 0xc8000019] else [])"

section \<open>Console\<close>

text \<open>\<open>st k\<close>: the k-th read of the endpoint's status; the result has the new value of
  the static \<open>host_absent\<close>.\<close>

definition esp32s31_usb_serial_jtag_putc :: "(nat \<Rightarrow> u32) \<Rightarrow> u8 \<Rightarrow> bool \<Rightarrow> io list \<times> bool" where
  "esp32s31_usb_serial_jtag_putc st ch host_absent =
     (case find (\<lambda>k. st k AND 0x2 \<noteq> 0) [0..<if host_absent then 1 else 100000] of
        Some k \<Rightarrow> ([Reg 0x20391000 (ucast ch), Reg 0x20391004 0x1], False)
      | None \<Rightarrow> ([], True))"

text \<open>The wait for the FIFO over the reads of its status: \<open>None\<close> while it is full.\<close>

definition esp32s31_console_putc :: "bool \<Rightarrow> u32 list \<Rightarrow> (nat \<Rightarrow> u32) \<Rightarrow> u8 \<Rightarrow> bool \<Rightarrow> (io list \<times> bool) option" where
  "esp32s31_console_putc usb uart_st usb_st ch host_absent =
     (if \<exists>w \<in> set uart_st. drop_bit 16 w AND 0xff < 120
      then let (l, a) = (if usb then esp32s31_usb_serial_jtag_putc usb_st ch host_absent else ([], host_absent))
           in Some (Reg 0x2038a000 (ucast ch) # l, a)
      else None)"

text \<open>The byte of the FIFO is read only when there is one.\<close>

definition esp32s31_console_getc :: "u32 \<Rightarrow> u32 \<Rightarrow> int" where
  "esp32s31_console_getc status fifo = (if status AND 0xff = 0 then -1 else uint (fifo AND 0xff))"

section \<open>Reset\<close>

datatype reset_type = Reset_shutdown | Reset_cold | Reset_warm | Reset_other

definition esp32s31_system_reset_check :: "reset_type \<Rightarrow> bool" where
  "esp32s31_system_reset_check ty \<longleftrightarrow> ty = Reset_shutdown \<or> ty = Reset_cold \<or> ty = Reset_warm"

definition esp32s31_request_poweroff :: "io list" where
  "esp32s31_request_poweroff = [Set_bit 0x2f050008 1, Reg 0x20586014 1]"

definition esp32s31_system_reset :: "u32 \<Rightarrow> reset_type \<Rightarrow> io list" where
  "esp32s31_system_reset sys_ctrl ty =
     (if ty = Reset_shutdown then esp32s31_request_poweroff else [Reg 0x20700008 (sys_ctrl OR 0x2)]) @ [Csr 0x304 0, Sleep]"

section \<open>Start\<close>

datatype sbi_error = SBI_ENOMEM | SBI_ENOTSUPP | SBI_EINVAL

text \<open>\<open>add_region\<close>: the result of \<open>sbi_domain_root_add_memrange\<close>.\<close>

definition esp32s31_early_init :: "bool \<Rightarrow> bool \<Rightarrow> u32 \<Rightarrow> sbi_error option \<Rightarrow> sbi_error option \<times> io list" where
  "esp32s31_early_init fb cold_boot fw_size add_region =
     (if \<not> cold_boot then None
      else if fw_size > FW_SIZE - 4 then Some SBI_ENOMEM
      else add_region,
      esp32s31_apm_init @ esp32s31_pma_init fb)"

definition esp32s31_final_init :: "bool \<Rightarrow> io list" where
  "esp32s31_final_init cold_boot = (if cold_boot then [Csr_set 0x300 0x20] else [])"

section \<open>Timer and local interrupts\<close>

abbreviation (input) MTIMECMP_LO :: u32 where "MTIMECMP_LO \<equiv> 0x10004000"
abbreviation (input) MTIMECMP_HI :: u32 where "MTIMECMP_HI \<equiv> 0x10004004"
abbreviation (input) CLIC_MTIMER_ID :: u32 where "CLIC_MTIMER_ID \<equiv> 7"
abbreviation (input) CLIC_SSOFT_ID :: u32 where "CLIC_SSOFT_ID \<equiv> 1"
abbreviation (input) CLIC_STIMER_ID :: u32 where "CLIC_STIMER_ID \<equiv> 5"

definition CLIC_IP :: "u32 \<Rightarrow> u32" where "CLIC_IP i = 0x10801000 + 4 * i"
definition CLIC_IE :: "u32 \<Rightarrow> u32" where "CLIC_IE i = 0x10801000 + 4 * i + 1"
definition CLIC_ATTR :: "u32 \<Rightarrow> u32" where "CLIC_ATTR i = 0x10801000 + 4 * i + 2"
definition CLIC_CTL :: "u32 \<Rightarrow> u32" where "CLIC_CTL i = 0x10801000 + 4 * i + 3"

text \<open>\<open>clock k\<close>: the counter at the k-th read of one of its halves; \<open>n\<close> rounds at most.\<close>

fun esp32s31_timer_value :: "(nat \<Rightarrow> u64) \<Rightarrow> nat \<Rightarrow> nat \<Rightarrow> (u64 \<times> nat) option" where
  "esp32s31_timer_value clock k 0 = None"
| "esp32s31_timer_value clock k (Suc n) =
     (let hi = ucast (drop_bit 32 (clock k)) :: u32;
          lo = ucast (clock (k + 1)) :: u32;
          tmp = ucast (drop_bit 32 (clock (k + 2))) :: u32
      in if hi \<noteq> tmp then esp32s31_timer_value clock (k + 3) n
         else Some (push_bit 32 (ucast hi) OR ucast lo, k + 2))"

definition esp32s31_timer_event_start :: "u64 \<Rightarrow> io list" where
  "esp32s31_timer_event_start next_event =
     [Reg8 (CLIC_IP CLIC_MTIMER_ID) 0, Reg MTIMECMP_HI 0xffffffff, Reg MTIMECMP_LO (ucast next_event),
      Reg MTIMECMP_HI (ucast (drop_bit 32 next_event))]"

definition esp32s31_timer_event_stop :: "io list" where
  "esp32s31_timer_event_stop = [Reg MTIMECMP_HI 0xffffffff, Reg MTIMECMP_LO 0xffffffff, Reg8 (CLIC_IP CLIC_MTIMER_ID) 0]"

definition sbi_timer_plat_sirq_set :: "io list" where "sbi_timer_plat_sirq_set = [Reg8 (CLIC_IP CLIC_STIMER_ID) 1]"
definition sbi_timer_plat_sirq_clear :: "io list" where "sbi_timer_plat_sirq_clear = [Reg8 (CLIC_IP CLIC_STIMER_ID) 0]"
definition sbi_ipi_plat_sirq_set :: "io list" where "sbi_ipi_plat_sirq_set = [Reg8 (CLIC_IP CLIC_SSOFT_ID) 1]"
definition sbi_ipi_plat_sirq_clear :: "io list" where "sbi_ipi_plat_sirq_clear = [Reg8 (CLIC_IP CLIC_SSOFT_ID) 0]"

definition esp32s31_clic_setup :: "u32 \<Rightarrow> u8 \<Rightarrow> io list" where
  "esp32s31_clic_setup i attr = [Reg8 (CLIC_IP i) 0, Reg8 (CLIC_ATTR i) attr, Reg8 (CLIC_CTL i) 0xff, Reg8 (CLIC_IE i) 1]"

definition esp32s31_timer_init :: "io list" where
  "esp32s31_timer_init =
     [Reg 0x10800000 0x23, Csr 0x347 0, Csr 0x147 0] @
     concat (map (\<lambda>i. [Reg8 (CLIC_IE (of_nat i)) 0, Reg8 (CLIC_ATTR (of_nat i)) 0x40]) [16..<48]) @
     esp32s31_clic_setup CLIC_MTIMER_ID 0xc2 @ esp32s31_clic_setup CLIC_STIMER_ID 0x42 @ esp32s31_clic_setup CLIC_SSOFT_ID 0x42 @
     [Reg 0x10004010 1] @ esp32s31_timer_event_stop"

section \<open>The cache engine\<close>

abbreviation (input) CACHE_SYNC_CTRL :: u32 where "CACHE_SYNC_CTRL \<equiv> 0x2c00009c"
abbreviation (input) CACHE_SYNC_MAP :: u32 where "CACHE_SYNC_MAP \<equiv> 0x2c0000a0"
abbreviation (input) CACHE_SYNC_ADDR :: u32 where "CACHE_SYNC_ADDR \<equiv> 0x2c0000a4"
abbreviation (input) CACHE_SYNC_SIZE :: u32 where "CACHE_SYNC_SIZE \<equiv> 0x2c0000a8"
abbreviation (input) CACHE_INVALIDATE :: u32 where "CACHE_INVALIDATE \<equiv> 0x1"
abbreviation (input) CACHE_WRITEBACK :: u32 where "CACHE_WRITEBACK \<equiv> 0x4"
abbreviation (input) CACHE_WRITEBACK_INV :: u32 where "CACHE_WRITEBACK_INV \<equiv> 0x8"
abbreviation (input) CACHE_MAP_L1_DCACHE :: u32 where "CACHE_MAP_L1_DCACHE \<equiv> 0x10"
abbreviation (input) SBI_CACHE_WBACK_ALL :: nat where "SBI_CACHE_WBACK_ALL \<equiv> 0"
abbreviation (input) SBI_CACHE_INV :: nat where "SBI_CACHE_INV \<equiv> 1"
abbreviation (input) SBI_CACHE_WBACK :: nat where "SBI_CACHE_WBACK \<equiv> 2"
abbreviation (input) SBI_CACHE_WBACK_INV :: nat where "SBI_CACHE_WBACK_INV \<equiv> 3"
abbreviation (input) SBI_ICACHE_SYNC :: nat where "SBI_ICACHE_SYNC \<equiv> 4"

definition esp32s31_cache_sync :: "u32 \<Rightarrow> u32 \<Rightarrow> u32 \<Rightarrow> u32 \<Rightarrow> io list" where
  "esp32s31_cache_sync mp op addr sz =
     (let passes = (if op = CACHE_INVALIDATE then 1 else 2) in
      [Lock_cache, Reg CACHE_SYNC_MAP mp, Reg CACHE_SYNC_ADDR addr, Reg CACHE_SYNC_SIZE sz] @
      concat (replicate passes [Reg CACHE_SYNC_CTRL op, Wait_done]) @ [Unlock_cache])"

text \<open>The operations by function: for the D-cache, and for the I-cache (0 for none).\<close>

definition esp32s31_cache_ops :: "(u32 \<times> u32) list" where
  "esp32s31_cache_ops = [(CACHE_WRITEBACK, 0), (CACHE_INVALIDATE, 0), (CACHE_WRITEBACK, 0), (CACHE_WRITEBACK_INV, 0),
     (CACHE_WRITEBACK, CACHE_INVALIDATE)]"

definition esp32s31_cache_op_allowed :: "u32 \<Rightarrow> u32 \<Rightarrow> u32 \<Rightarrow> bool" where
  "esp32s31_cache_op_allowed op addr sz =
     (let end = addr + sz in
      if op \<noteq> CACHE_INVALIDATE then True
      else sz \<noteq> 0 \<and> end > addr \<and> (end \<le> FW_BASE \<or> addr \<ge> FW_BASE + FW_SIZE))"

definition esp32s31_vendor_ext :: "nat \<Rightarrow> int \<Rightarrow> u32 \<Rightarrow> u32 \<Rightarrow> sbi_error option \<times> io list" where
  "esp32s31_vendor_ext hart funcid a0 a1 =
     (let all = (funcid = int SBI_CACHE_WBACK_ALL);
          addr = (if all then 0 else a0);
          sz = (if all then 0 else a1)
      in if funcid < 0 \<or> funcid \<ge> int (length esp32s31_cache_ops) then (Some SBI_ENOTSUPP, [])
         else let (dcache_op, icache_op) = esp32s31_cache_ops ! nat funcid
              in if \<not> esp32s31_cache_op_allowed dcache_op addr sz then (Some SBI_EINVAL, [])
                 else (None, esp32s31_cache_sync CACHE_MAP_L1_DCACHE dcache_op addr sz @
                         (if icache_op \<noteq> 0 then esp32s31_cache_sync (push_bit hart 1) icache_op addr sz else [])))"

section \<open>The kernel's cache driver\<close>

abbreviation (input) CACHE_LINE_SIZE :: u32 where "CACHE_LINE_SIZE \<equiv> 64"
abbreviation (input) CACHE_EXTRAM_BASE :: u32 where "CACHE_EXTRAM_BASE \<equiv> 0x50000000"
abbreviation (input) CACHE_EXTRAM_SIZE :: u32 where "CACHE_EXTRAM_SIZE \<equiv> 0x04000000"

text \<open>An ecall of the vendor extension: the function with its two arguments.\<close>

type_synonym ecall = "int \<times> u32 \<times> u32"

definition esp32s31_icache_sync :: "u32 \<Rightarrow> u32 \<Rightarrow> ecall list" where
  "esp32s31_icache_sync paddr sz = [(int SBI_ICACHE_SYNC, paddr, sz)]"

definition kernel_cache_sync :: "u32 \<Rightarrow> u32 \<Rightarrow> nat \<Rightarrow> ecall list" where
  "kernel_cache_sync paddr sz funcid =
     (let end = paddr + sz;
          paddr = paddr AND NOT (CACHE_LINE_SIZE - 1);
          sz = (end - paddr + (CACHE_LINE_SIZE - 1)) AND NOT (CACHE_LINE_SIZE - 1)
      in if sz = 0 \<or> paddr < CACHE_EXTRAM_BASE \<or> paddr + sz > CACHE_EXTRAM_BASE + CACHE_EXTRAM_SIZE then []
         else [(int funcid, paddr, sz)])"

definition esp32s31_cache_wback :: "u32 \<Rightarrow> u32 \<Rightarrow> ecall list" where
  "esp32s31_cache_wback paddr sz = kernel_cache_sync paddr sz SBI_CACHE_WBACK"

definition esp32s31_cache_inv :: "u32 \<Rightarrow> u32 \<Rightarrow> ecall list" where
  "esp32s31_cache_inv paddr sz = kernel_cache_sync paddr sz SBI_CACHE_INV"

definition esp32s31_cache_wback_inv :: "u32 \<Rightarrow> u32 \<Rightarrow> ecall list" where
  "esp32s31_cache_wback_inv paddr sz = kernel_cache_sync paddr sz SBI_CACHE_WBACK_INV"

text \<open>\<open>esp32s31_cache_init\<close>: whether the operations are registered.\<close>

definition esp32s31_cache_init :: "bool \<Rightarrow> int \<Rightarrow> errno option" where
  "esp32s31_cache_init available probe = (if \<not> available then Some ENODEV else if probe \<le> 0 then Some ENODEV else None)"

section \<open>What the engine does\<close>

text \<open>The operations that the accesses start (map, operation, address, size), from the
  values of the three registers.\<close>

type_synonym sync_regs = "u32 \<times> u32 \<times> u32"
type_synonym sync_op = "u32 \<times> u32 \<times> u32 \<times> u32"

fun sync_reg :: "io \<Rightarrow> sync_regs \<Rightarrow> sync_regs" where
  "sync_reg (Reg a v) (m, ad, sz) =
     (if a = CACHE_SYNC_MAP then (v, ad, sz) else if a = CACHE_SYNC_ADDR then (m, v, sz)
      else if a = CACHE_SYNC_SIZE then (m, ad, v) else (m, ad, sz))"
| "sync_reg _ e = e"

fun sync_start :: "io \<Rightarrow> sync_regs \<Rightarrow> sync_op list" where
  "sync_start (Reg a v) (m, ad, sz) = (if a = CACHE_SYNC_CTRL then [(m, v, ad, sz)] else [])"
| "sync_start _ e = []"

fun engine_ops :: "io list \<Rightarrow> sync_regs \<Rightarrow> sync_op list" where
  "engine_ops [] e = []"
| "engine_ops (x # xs) e = sync_start x e @ engine_ops xs (sync_reg x e)"

lemma engine_ops_append: "engine_ops (xs @ ys) e = engine_ops xs e @ engine_ops ys (fold sync_reg xs e)"
  by (induction xs arbitrary: e) simp_all

lemma replicate_two: "replicate 2 x = [x, x]"
  by (simp add: numeral_2_eq_2)

lemma engine_sync: "engine_ops (esp32s31_cache_sync mp op addr sz @ rest) e =
    replicate (if op = CACHE_INVALIDATE then 1 else 2) (mp, op, addr, sz) @ engine_ops rest (mp, addr, sz)"
  by (cases e) (simp add: esp32s31_cache_sync_def replicate_two)

lemma engine_sync_one: "engine_ops (esp32s31_cache_sync mp op addr sz) e =
    replicate (if op = CACHE_INVALIDATE then 1 else 2) (mp, op, addr, sz)"
  using engine_sync [of mp op addr sz "[]" e] by simp

text \<open>The lines of a range, as byte addresses, and the bytes that an operation drops
  from the D-cache without writing them back (size 0 is the whole cache).\<close>

definition lines :: "u32 \<Rightarrow> u32 \<Rightarrow> nat set" where
  "lines addr sz = {b. unat addr div 64 \<le> b div 64 \<and> b div 64 \<le> (unat addr + unat sz - 1) div 64}"

definition dropped :: "sync_op \<Rightarrow> nat set" where
  "dropped x = (case x of (m, op, addr, sz) \<Rightarrow>
     if op = CACHE_INVALIDATE \<and> m AND CACHE_MAP_L1_DCACHE \<noteq> 0 then (if sz = 0 then UNIV else lines addr sz) else {})"

definition firmware_bytes :: "nat set" where
  "firmware_bytes = {unat FW_BASE..<unat (FW_BASE + FW_SIZE)}"

lemma allowed_lines:
  assumes "esp32s31_cache_op_allowed CACHE_INVALIDATE addr sz"
  shows "sz \<noteq> 0" "lines addr sz \<inter> firmware_bytes = {}"
proof -
  have a: "sz \<noteq> 0" "addr + sz > addr" "addr + sz \<le> FW_BASE \<or> addr \<ge> FW_BASE + FW_SIZE"
    using assms by (auto simp: esp32s31_cache_op_allowed_def Let_def)
  then show "sz \<noteq> 0"
    by simp
  have "unat addr + unat sz < 2 ^ 32"
    using a(2) no_olen_add_nat [of addr sz] by (simp add: word_less_nat_alt unat_word_ariths(1) less_imp_le)
  then have "unat (addr + sz) = unat addr + unat sz"
    by (simp add: unat_word_ariths(1))
  then have n: "unat addr + unat sz \<le> unat FW_BASE \<or> unat addr \<ge> unat (FW_BASE + FW_SIZE)"
    using a(3) by (simp add: word_le_nat_alt)
  have z: "0 < unat sz"
    using a(1) by (simp add: unat_gt_0)
  show "lines addr sz \<inter> firmware_bytes = {}"
  proof (rule equals0I)
    fix b
    assume "b \<in> lines addr sz \<inter> firmware_bytes"
    then have b: "unat addr div 64 \<le> b div 64" "b div 64 \<le> (unat addr + unat sz - 1) div 64" "1357905920 \<le> b" "b < 1358102528"
      by (simp_all add: lines_def firmware_bytes_def)
    from n show False
    proof
      assume "unat addr + unat sz \<le> unat FW_BASE"
      then have "(unat addr + unat sz - 1) div 64 < 1357905920 div 64"
        using z by simp
      then show False
        using b(2,3) div_le_mono [OF b(3), of 64] by linarith
    next
      assume "unat addr \<ge> unat (FW_BASE + FW_SIZE)"
      then have "1358102528 \<le> unat addr"
        by simp
      then have "1358102528 div 64 \<le> unat addr div 64"
        by (rule div_le_mono)
      moreover have "b div 64 < 1358102528 div 64"
        using b(4) by simp
      ultimately show False
        using b(1) by linarith
    qed
  qed
qed

lemma vendor_ops:
  assumes "esp32s31_vendor_ext hart funcid a0 a1 = (res, l)" and "hart < 4" and "x \<in> set (engine_ops l e)"
  shows "dropped x \<inter> firmware_bytes = {}"
proof -
  define addr sz where "addr = (if funcid = 0 then 0 else a0)" and "sz = (if funcid = 0 then 0 else a1)"
  have f: "0 \<le> funcid" "funcid < 5"
    using assms(1,3) by (auto simp: esp32s31_vendor_ext_def esp32s31_cache_ops_def Let_def split: if_splits prod.splits)
  then consider "funcid = 0" | "funcid = 1" | "funcid = 2" | "funcid = 3" | "funcid = 4"
    by linarith
  then have "funcid = 1 \<and> esp32s31_cache_op_allowed CACHE_INVALIDATE a0 a1 \<and> x = (CACHE_MAP_L1_DCACHE, CACHE_INVALIDATE, a0, a1) \<or>
      fst (snd x) \<noteq> CACHE_INVALIDATE \<or> x = (push_bit hart 1, CACHE_INVALIDATE, a0, a1)"
    using assms(1,3) by cases (auto simp: esp32s31_vendor_ext_def esp32s31_cache_ops_def Let_def engine_sync engine_sync_one split: if_splits)
  moreover have "push_bit hart 1 AND CACHE_MAP_L1_DCACHE = (0 :: u32)"
  proof -
    have "hart = 0 \<or> hart = 1 \<or> hart = 2 \<or> hart = 3"
      using assms(2) by linarith
    then show ?thesis
      by (elim disjE) simp_all
  qed
  ultimately show ?thesis
    using allowed_lines [of a0 a1] by (auto simp: dropped_def)
qed

section \<open>DMA of the kernel\<close>

lemma line_mask: "(x :: u32) AND NOT (CACHE_LINE_SIZE - 1) = x AND NOT (mask 6)"
  by (simp add: mask_eq_exp_minus_1)

lemma div_round: "0 < x \<Longrightarrow> (x + 63) div 64 = (x - 1) div 64 + (1 :: nat)"
proof -
  assume "0 < x"
  then have "x + 63 = (x - 1) + 1 * 64"
    by simp
  then show ?thesis
    by (metis div_mult_self3 add.commute zero_neq_numeral)
qed

lemma lines_div:
  assumes "unat a = 64 * p" and "unat n = 64 * q" and "0 < q"
  shows "lines a n = {b. p \<le> b div 64 \<and> b div 64 < p + q}"
proof -
  have "64 * p + 64 * q - 1 = 64 * (p + q - 1) + 63"
    using assms(3) by (simp add: algebra_simps)
  then have "(64 * p + 64 * q - 1) div 64 = p + q - 1"
    by simp
  then show ?thesis
    using assms(3) by (auto simp: lines_def assms(1,2))
qed

lemma lines_aligned:
  assumes "unat a = 64 * p" and "unat n = 64 * q" and "0 < q"
  shows "lines a n = {64 * p..<64 * p + 64 * q}"
proof -
  have "p \<le> b div 64 \<longleftrightarrow> 64 * p \<le> b" "b div 64 < p + q \<longleftrightarrow> b < 64 * p + 64 * q" for b
    by (simp_all add: less_eq_div_iff_mult_less_eq div_less_iff_less_mult algebra_simps)
  then show ?thesis
    unfolding lines_div [OF assms] by auto
qed

lemma kernel_call:
  assumes "sz \<noteq> 0" and "unat CACHE_EXTRAM_BASE \<le> unat paddr" and "unat paddr + unat sz \<le> unat (CACHE_EXTRAM_BASE + CACHE_EXTRAM_SIZE)"
  obtains a n p q where "kernel_cache_sync paddr sz f = [(int f, a, n)]" "unat a = 64 * p" "unat n = 64 * q" "0 < q"
    "64 * p + 64 * q \<le> 0x54000000" "lines a n = lines paddr sz"
proof -
  define a where "a = paddr AND NOT (mask 6)"
  define n where "n = (paddr + sz - a + 63) AND NOT (mask 6)"
  let ?P = "unat paddr" and ?Z = "unat sz"
  define p where "p = ?P div 64"
  define q where "q = (?P + ?Z - 64 * p + 63) div 64"
  have z: "0 < ?Z" "0x50000000 \<le> ?P" "?P + ?Z \<le> 0x54000000"
    using assms by (simp_all add: unat_gt_0)
  have a: "unat a = 64 * p"
    by (simp add: a_def p_def unat_and_not_mask)
  have ap: "64 * p \<le> ?P" "?P < 64 * p + 64"
    unfolding p_def by (simp, linarith)
  have e: "unat (paddr + sz) = ?P + ?Z"
    using z by (simp add: unat_word_ariths(1))
  have "a \<le> paddr + sz"
    using ap e a by (simp add: word_le_nat_alt)
  then have d: "unat (paddr + sz - a) = ?P + ?Z - 64 * p"
    by (simp add: unat_sub e a)
  then have n: "unat n = 64 * q"
    using z by (simp add: n_def q_def unat_and_not_mask unat_word_ariths(1))
  have q: "q = (?P + ?Z - 64 * p - 1) div 64 + 1"
    unfolding q_def by (rule div_round) (use z ap in linarith)
  have qt: "p + q - 1 = (?P + ?Z - 1) div 64"
  proof -
    have "?P + ?Z - 1 = (?P + ?Z - 64 * p - 1) + p * 64"
      using z ap by linarith
    then have "(?P + ?Z - 1) div 64 = (?P + ?Z - 64 * p - 1) div 64 + p"
      by (metis add.commute div_mult_self3 zero_neq_numeral)
    then show ?thesis
      using q by linarith
  qed
  have top: "64 * p + 64 * q \<le> 0x54000000"
  proof -
    have "(?P + ?Z - 1) div 64 < 22020096"
      using z by (intro less_mult_imp_div_less) simp
    then show ?thesis
      using qt q by simp
  qed
  have q0: "0 < q"
    using q by simp
  have "c < p + q \<longleftrightarrow> c \<le> (?P + ?Z - 1) div 64" for c
    unfolding qt [symmetric] using q0 by linarith
  then have l: "lines a n = lines paddr sz"
    unfolding lines_div [OF a n q0] by (simp add: lines_def p_def)
  have k: "kernel_cache_sync paddr sz f =
      (if n = 0 \<or> a < CACHE_EXTRAM_BASE \<or> a + n > CACHE_EXTRAM_BASE + CACHE_EXTRAM_SIZE then [] else [(int f, a, n)])"
    unfolding kernel_cache_sync_def Let_def line_mask a_def [symmetric] n_def by simp
  have "n \<noteq> 0"
    using n q by (auto simp: unat_eq_zero)
  moreover have "\<not> a < CACHE_EXTRAM_BASE"
    using a z(2) ap by (simp add: word_less_nat_alt p_def)
  moreover have "\<not> a + n > CACHE_EXTRAM_BASE + CACHE_EXTRAM_SIZE"
    using top a n by (simp add: word_less_nat_alt unat_word_ariths(1))
  ultimately have "kernel_cache_sync paddr sz f = [(int f, a, n)]"
    unfolding k by simp
  then show thesis
    using a n q0 top l by (rule that)
qed

definition dcache_op :: "nat \<Rightarrow> u32" where
  "dcache_op f = fst (esp32s31_cache_ops ! f)"

lemma kernel_dma:
  assumes "sz \<noteq> 0" and "unat CACHE_EXTRAM_BASE \<le> unat paddr" and "unat paddr + unat sz \<le> unat (CACHE_EXTRAM_BASE + CACHE_EXTRAM_SIZE)"
    and "f \<in> {SBI_CACHE_INV, SBI_CACHE_WBACK, SBI_CACHE_WBACK_INV}"
    and "f = SBI_CACHE_INV \<Longrightarrow> lines paddr sz \<inter> firmware_bytes = {}"
  shows "\<exists>a n l. kernel_cache_sync paddr sz f = [(int f, a, n)] \<and> esp32s31_vendor_ext hart (int f) a n = (None, l) \<and>
    lines a n = lines paddr sz \<and> n \<noteq> 0 \<and>
    engine_ops l e = replicate (if f = SBI_CACHE_INV then 1 else 2) (CACHE_MAP_L1_DCACHE, dcache_op f, a, n)"
proof -
  obtain a n p q where k: "kernel_cache_sync paddr sz f = [(int f, a, n)]" "unat a = 64 * p" "unat n = 64 * q" "0 < q"
    "64 * p + 64 * q \<le> 0x54000000" "lines a n = lines paddr sz"
    by (rule kernel_call [OF assms(1-3), of f])
  have n: "n \<noteq> 0"
    using k(3,4) by auto
  have s: "unat (a + n) = 64 * p + 64 * q"
    using k by (simp add: unat_word_ariths(1))
  have "esp32s31_cache_op_allowed (dcache_op f) a n"
  proof (cases "f = SBI_CACHE_INV")
    case True
    have "{64 * p..<64 * p + 64 * q} \<inter> {1357905920..<1358102528} = {}"
      using assms(5) [OF True] lines_aligned [OF k(2-4)] k(6) by (simp add: firmware_bytes_def)
    then have "64 * p + 64 * q \<le> 1357905920 \<or> 1358102528 \<le> 64 * p"
      using k(4) by (auto simp: disjoint_iff dest: spec [of _ "max (64 * p) 1357905920"])
    then show ?thesis
      using k s n by (auto simp: esp32s31_cache_op_allowed_def Let_def word_less_nat_alt word_le_nat_alt)
  next
    case False
    then show ?thesis
      using assms(4) by (auto simp: esp32s31_cache_op_allowed_def dcache_op_def esp32s31_cache_ops_def)
  qed
  then show ?thesis
    using k(1,6) n assms(4)
    by (auto simp: esp32s31_vendor_ext_def esp32s31_cache_ops_def dcache_op_def Let_def engine_sync_one)
qed

section \<open>The timer\<close>

text \<open>The 64-bit compare register after the accesses.\<close>

fun cmp_write :: "io \<Rightarrow> u64 \<Rightarrow> u64" where
  "cmp_write (Reg a v) c =
     (if a = MTIMECMP_LO then push_bit 32 (drop_bit 32 c) OR ucast v
      else if a = MTIMECMP_HI then push_bit 32 (ucast v) OR take_bit 32 c else c)"
| "cmp_write _ c = c"

definition mtimecmp :: "io list \<Rightarrow> u64 \<Rightarrow> u64" where
  "mtimecmp l c = fold cmp_write l c"

lemma unat_wide: "unat (ucast (w :: u32) :: u64) = unat w"
  using unat_below [of w] by (simp add: unsigned_ucast_eq take_bit_nat_eq_self_iff)

lemma u64_halves: "unat (push_bit 32 (ucast (h :: u32)) OR ucast (l :: u32) :: u64) = unat h * 2 ^ 32 + unat l"
proof -
  have "push_bit 32 (ucast h) AND ucast l = (0 :: u64)"
    by (rule bit_word_eqI) (auto simp: bit_simps dest: bit_imp_le_length)
  then have "push_bit 32 (ucast h) OR ucast l = push_bit 32 (ucast h) + (ucast l :: u64)"
    by (simp add: disjunctive_add_eq_or)
  moreover have "unat (push_bit 32 (ucast h) :: u64) = unat h * 2 ^ 32"
    using unat_below [of h] by (simp add: push_bit_eq_mult unat_word_ariths unat_wide)
  ultimately show ?thesis
    using unat_below [of h] unat_below [of l] by (simp add: unat_word_ariths(1) unat_wide)
qed

lemma u64_join: "push_bit 32 (ucast (ucast (drop_bit 32 (x :: u64)) :: u32)) OR ucast (ucast x :: u32) = x"
  by (rule bit_word_eqI) (auto simp: bit_simps)

lemma cmp_steps:
  "mtimecmp (take 2 (esp32s31_timer_event_start t)) c = push_bit 32 (ucast (0xffffffff :: u32)) OR take_bit 32 c"
  "mtimecmp (take 3 (esp32s31_timer_event_start t)) c = push_bit 32 (ucast (0xffffffff :: u32)) OR ucast (ucast t :: u32)"
  "mtimecmp (esp32s31_timer_event_start t) c = t"
proof -
  have d: "drop_bit 32 (push_bit 32 (ucast (h :: u32)) OR take_bit 32 (c :: u64)) = ucast h" for h c
    by (rule bit_word_eqI) (auto simp: bit_simps dest: bit_imp_le_length)
  have k: "take_bit 32 (push_bit 32 (ucast (h :: u32)) OR ucast (l :: u32)) = (ucast l :: u64)" for h l
    by (rule bit_word_eqI) (auto simp: bit_simps dest: bit_imp_le_length)
  show "mtimecmp (take 2 (esp32s31_timer_event_start t)) c = push_bit 32 (ucast (0xffffffff :: u32)) OR take_bit 32 c"
    by (simp add: mtimecmp_def esp32s31_timer_event_start_def)
  show t: "mtimecmp (take 3 (esp32s31_timer_event_start t)) c = push_bit 32 (ucast (0xffffffff :: u32)) OR ucast (ucast t :: u32)"
    using d [of "0xffffffff" c] by (simp add: mtimecmp_def esp32s31_timer_event_start_def)
  show "mtimecmp (esp32s31_timer_event_start t) c = t"
    using d [of "0xffffffff" c] k [of "0xffffffff" "ucast t"] u64_join [of t]
    by (simp add: mtimecmp_def esp32s31_timer_event_start_def)
qed

lemma high_half: "unat (ucast (drop_bit 32 (x :: u64)) :: u32) = unat x div 2 ^ 32"
proof -
  have "unat x div 2 ^ 32 < 2 ^ 32"
    using unat_below [of x] by (intro less_mult_imp_div_less) simp
  moreover have "unat (drop_bit 32 x) = unat x div 2 ^ 32"
    unfolding unsigned_drop_bit_eq using unat_below [of x] by (simp add: take_bit_nat_eq_self drop_bit_eq_div)
  ultimately show ?thesis
    by (simp add: unsigned_ucast_eq take_bit_nat_eq_self_iff)
qed

lemma same_half: "(ucast (drop_bit 32 (x :: u64)) :: u32) = ucast (drop_bit 32 (y :: u64)) \<longleftrightarrow> unat x div 2 ^ 32 = unat y div 2 ^ 32"
  by (subst word_unat_eq_iff) (simp only: high_half)

lemma one_carry:
  fixes a b c d m :: nat
  assumes "a \<le> b" and "b \<le> c" and "c \<le> d" and "d < a + m" and "0 < m"
  shows "a div m = b div m \<or> c div m = d div m"
proof -
  have "d div m \<le> a div m + 1"
    using div_le_mono [of d "a + m" m] div_add_self2 [of m a] assms by simp
  then show ?thesis
    using assms(1-3) [THEN div_le_mono, of m] by linarith
qed

text \<open>The value that is read is one that the counter had, between the first and the
  last read, provided that the counter does not go back.\<close>

lemma timer_value_exact:
  assumes mono: "\<And>i. unat (clock i) \<le> unat (clock (Suc i))"
  shows "esp32s31_timer_value clock k n = Some (v, j) \<Longrightarrow> k + 2 \<le> j \<and> v = clock (j - 1)"
proof (induction n arbitrary: k)
  case (Suc n)
  show ?case
  proof (cases "(ucast (drop_bit 32 (clock k)) :: u32) = ucast (drop_bit 32 (clock (k + 2)))")
    case True
    have "unat (clock k) div 2 ^ 32 \<le> unat (clock (k + 1)) div 2 ^ 32" "unat (clock (k + 1)) div 2 ^ 32 \<le> unat (clock (k + 2)) div 2 ^ 32"
      using mono [of k] mono [of "Suc k"] by (simp_all add: div_le_mono)
    then have "(ucast (drop_bit 32 (clock k)) :: u32) = ucast (drop_bit 32 (clock (k + 1)))"
      using True by (simp add: same_half)
    then show ?thesis
      using Suc.prems True u64_join [of "clock (k + 1)"] by (auto simp: Let_def)
  next
    case False
    then have "esp32s31_timer_value clock (k + 3) n = Some (v, j)"
      using Suc.prems by simp
    from Suc.IH [OF this] show ?thesis
      by simp
  qed
qed simp

text \<open>When the high half changes once during six reads, two rounds are enough.\<close>

lemma timer_value_two_rounds:
  assumes mono: "\<And>i. unat (clock i) \<le> unat (clock (Suc i))" and "unat (clock (k + 5)) - unat (clock k) < 2 ^ 32"
  shows "esp32s31_timer_value clock k (Suc (Suc n)) \<noteq> None"
proof -
  let ?c = "\<lambda>i. unat (clock (k + i))"
  have le: "?c i \<le> ?c j" if "i \<le> j" for i j
    by (rule lift_Suc_mono_le [of ?c]) (use mono that in auto)
  have "?c 0 div 2 ^ 32 = ?c 2 div 2 ^ 32 \<or> ?c 3 div 2 ^ 32 = ?c 5 div 2 ^ 32"
    using le [of 0 2] le [of 2 3] le [of 3 5] assms(2) by (intro one_carry) simp_all
  then show ?thesis
    using same_half [of "clock k" "clock (k + 2)"] same_half [of "clock (k + 3)" "clock (k + 5)"]
    by (auto simp: Let_def add.commute [of k])
qed

section \<open>Two harts and one engine\<close>

text \<open>The firmware's wrapper of the ROM's cache functions (\<open>shm_flash.c\<close>); \<open>op\<close> is the
  accesses of the ROM function, \<open>shared\<close> what \<open>shm_flash_share_cache\<close> sets.\<close>

definition cache_locked :: "bool \<Rightarrow> io list \<Rightarrow> io list" where
  "cache_locked shared op = (if \<not> shared then op else Lock_cache # op @ [Unlock_cache])"

text \<open>The two wrappers, over the ROM's function of the map, the address and the size.\<close>

definition wrap_Cache_Invalidate_Addr :: "(u32 \<Rightarrow> u32 \<Rightarrow> u32 \<Rightarrow> io list) \<Rightarrow> bool \<Rightarrow> u32 \<Rightarrow> u32 \<Rightarrow> u32 \<Rightarrow> io list" where
  "wrap_Cache_Invalidate_Addr rom shared caches addr n = cache_locked shared (rom caches addr n)"

definition wrap_Cache_WriteBack_Addr :: "(u32 \<Rightarrow> u32 \<Rightarrow> u32 \<Rightarrow> io list) \<Rightarrow> bool \<Rightarrow> u32 \<Rightarrow> u32 \<Rightarrow> u32 \<Rightarrow> io list" where
  "wrap_Cache_WriteBack_Addr rom shared caches addr n = cache_locked shared (rom caches addr n)"

text \<open>The agents are hart 0 with the firmware (False) and hart 1 with OpenSBI (True).
  The log has the operations that the engine started, each with the agent.\<close>

record cache_sys =
  c_lock :: bool
  c_regs :: sync_regs
  c_todo :: "bool \<Rightarrow> io list"
  c_log :: "(bool \<times> sync_op) list"

inductive cache_step :: "cache_sys \<Rightarrow> cache_sys \<Rightarrow> bool" where
  take_lock: "c_todo s i = Lock_cache # r \<Longrightarrow> \<not> c_lock s \<Longrightarrow>
    cache_step s (s\<lparr>c_lock := True, c_todo := (c_todo s)(i := r)\<rparr>)"
| free_lock: "c_todo s i = Unlock_cache # r \<Longrightarrow> cache_step s (s\<lparr>c_lock := False, c_todo := (c_todo s)(i := r)\<rparr>)"
| access: "c_todo s i = x # r \<Longrightarrow> x \<noteq> Lock_cache \<Longrightarrow> x \<noteq> Unlock_cache \<Longrightarrow>
    cache_step s (s\<lparr>c_regs := sync_reg x (c_regs s), c_todo := (c_todo s)(i := r),
      c_log := c_log s @ map (Pair i) (sync_start x (c_regs s))\<rparr>)"

text \<open>A body that sets the registers it starts the engine with, under the lock.\<close>

definition own_ops :: "io list \<Rightarrow> sync_op list" where
  "own_ops b = engine_ops b (0, 0, 0)"

definition cache_body :: "io list \<Rightarrow> bool" where
  "cache_body b \<longleftrightarrow> Lock_cache \<notin> set b \<and> Unlock_cache \<notin> set b \<and> (\<forall>m a z. engine_ops b (m, a, z) = own_ops b)"

abbreviation locked_body :: "io list \<Rightarrow> io list" where
  "locked_body \<equiv> cache_locked True"

definition log_of :: "bool \<Rightarrow> (bool \<times> sync_op) list \<Rightarrow> sync_op list" where
  "log_of i l = map snd (filter (\<lambda>p. fst p = i) l)"

lemma log_of_append [simp]: "log_of i (l @ map (Pair j) xs) = log_of i l @ (if i = j then xs else [])"
  by (auto simp: log_of_def filter_map o_def)

text \<open>Agent \<open>i\<close> has the bodies \<open>ss\<close> to do, after the rest \<open>b\<close> of one when it holds the
  lock; with the log this makes its whole program.\<close>

definition agent_ok :: "(bool \<Rightarrow> io list list) \<Rightarrow> cache_sys \<Rightarrow> bool \<Rightarrow> bool \<Rightarrow> bool" where
  "agent_ok prog s h i \<longleftrightarrow> (\<exists>ss b. (\<forall>x \<in> set ss. cache_body x) \<and>
     (if h then Lock_cache \<notin> set b \<and> Unlock_cache \<notin> set b \<and> c_todo s i = b @ Unlock_cache # concat (map locked_body ss) \<and>
         log_of i (c_log s) @ engine_ops b (c_regs s) @ concat (map own_ops ss) = concat (map own_ops (prog i))
      else c_todo s i = concat (map locked_body ss) \<and>
         log_of i (c_log s) @ concat (map own_ops ss) = concat (map own_ops (prog i))))"

definition cache_sys_ok :: "(bool \<Rightarrow> io list list) \<Rightarrow> cache_sys \<Rightarrow> bool" where
  "cache_sys_ok prog s \<longleftrightarrow> (\<exists>h. c_lock s = (h \<noteq> None) \<and> (\<forall>i. agent_ok prog s (h = Some i) i))"

lemma agent_ok_other:
  assumes "agent_ok prog s h i" and "c_todo t i = c_todo s i" and "log_of i (c_log t) = log_of i (c_log s)"
    and "h \<Longrightarrow> c_regs t = c_regs s"
  shows "agent_ok prog t h i"
  using assms unfolding agent_ok_def by (cases h) auto

lemma todo_free:
  assumes "agent_ok prog s False i"
  obtains "c_todo s i = []" | b ss where "c_todo s i = Lock_cache # b @ Unlock_cache # concat (map locked_body ss)"
    "cache_body b" "\<forall>x \<in> set ss. cache_body x"
    "log_of i (c_log s) @ own_ops b @ concat (map own_ops ss) = concat (map own_ops (prog i))"
proof -
  obtain ss where ss: "\<forall>x \<in> set ss. cache_body x" "c_todo s i = concat (map locked_body ss)"
    "log_of i (c_log s) @ concat (map own_ops ss) = concat (map own_ops (prog i))"
    using assms by (auto simp: agent_ok_def)
  show thesis
    using that ss by (cases ss) (auto simp: cache_locked_def)
qed

lemma cache_sys_okI:
  assumes "c_lock t = (h \<noteq> None)" and "agent_ok prog t (h = Some i) i" and "\<And>j. j \<noteq> i \<Longrightarrow> agent_ok prog t (h = Some j) j"
  shows "cache_sys_ok prog t"
proof -
  have "agent_ok prog t (h = Some j) j" for j
    using assms(2,3) by (cases "j = i") simp_all
  then show ?thesis
    using assms(1) unfolding cache_sys_ok_def by blast
qed

lemma cache_step_ok:
  assumes "cache_step s t" and "cache_sys_ok prog s"
  shows "cache_sys_ok prog t"
proof -
  obtain h where h: "c_lock s = (h \<noteq> None)" "\<And>i. agent_ok prog s (h = Some i) i"
    using assms(2) by (auto simp: cache_sys_ok_def)
  show ?thesis
    using assms(1)
  proof cases
    case (take_lock i r)
    then have "h = None"
      using h(1) by simp
    then have a: "agent_ok prog s False j" for j
      using h(2) [of j] by simp
    obtain b ss where b: "r = b @ Unlock_cache # concat (map locked_body ss)" "cache_body b" "\<forall>x \<in> set ss. cache_body x"
      "log_of i (c_log s) @ own_ops b @ concat (map own_ops ss) = concat (map own_ops (prog i))"
      using a [of i] take_lock(2) by (auto elim!: todo_free)
    have "engine_ops b (c_regs s) = own_ops b"
      using b(2) by (cases "c_regs s") (simp add: cache_body_def)
    then have "agent_ok prog t True i"
      unfolding agent_ok_def using b by (intro exI [of _ ss] exI [of _ b]) (auto simp: take_lock(1) cache_body_def)
    moreover have "agent_ok prog t False j" if "j \<noteq> i" for j
      using a [of j] by (rule agent_ok_other) (use that in \<open>simp_all add: take_lock(1)\<close>)
    ultimately show ?thesis
      by (intro cache_sys_okI [of _ "Some i" _ i]) (auto simp: take_lock(1))
  next
    case (free_lock i r)
    have hi: "h = Some i"
    proof (rule ccontr)
      assume "h \<noteq> Some i"
      then have "agent_ok prog s False i"
        using h(2) [of i] by simp
      then show False
        using free_lock(2) by (auto elim!: todo_free)
    qed
    obtain ss b where b: "\<forall>x \<in> set ss. cache_body x" "Unlock_cache \<notin> set b" "c_todo s i = b @ Unlock_cache # concat (map locked_body ss)"
      "log_of i (c_log s) @ engine_ops b (c_regs s) @ concat (map own_ops ss) = concat (map own_ops (prog i))"
      using h(2) [of i] hi by (auto simp: agent_ok_def)
    have "b = []" and "r = concat (map locked_body ss)"
      using b(2,3) free_lock(2) by (cases b; auto)+
    then have "agent_ok prog t False i"
      unfolding agent_ok_def using b by (intro exI [of _ ss]) (auto simp: free_lock(1))
    moreover have "agent_ok prog t False j" if "j \<noteq> i" for j
      by (rule agent_ok_other [of prog s]) (use that h(2) [of j] hi in \<open>simp_all add: free_lock(1)\<close>)
    ultimately show ?thesis
      by (intro cache_sys_okI [of _ None _ i]) (auto simp: free_lock(1))
  next
    case (access i x r)
    have hi: "h = Some i"
    proof (rule ccontr)
      assume "h \<noteq> Some i"
      then have "agent_ok prog s False i"
        using h(2) [of i] by simp
      then show False
        using access(2,3) by (auto elim!: todo_free)
    qed
    obtain ss b where b: "\<forall>x \<in> set ss. cache_body x" "Lock_cache \<notin> set b" "Unlock_cache \<notin> set b"
      "c_todo s i = b @ Unlock_cache # concat (map locked_body ss)"
      "log_of i (c_log s) @ engine_ops b (c_regs s) @ concat (map own_ops ss) = concat (map own_ops (prog i))"
      using h(2) [of i] hi by (auto simp: agent_ok_def)
    obtain b' where "b = x # b'" "r = b' @ Unlock_cache # concat (map locked_body ss)"
      using b(4) access(2,4) by (cases b) auto
    then have "agent_ok prog t True i"
      unfolding agent_ok_def using b by (intro exI [of _ ss] exI [of _ b']) (auto simp: access(1))
    moreover have "agent_ok prog t False j" if "j \<noteq> i" for j
      by (rule agent_ok_other [of prog s]) (use that h(2) [of j] hi in \<open>simp_all add: access(1)\<close>)
    ultimately show ?thesis
      using h(1) hi by (intro cache_sys_okI [of _ "Some i" _ i]) (auto simp: access(1))
  qed
qed


definition cache_start :: "sync_regs \<Rightarrow> (bool \<Rightarrow> io list) \<Rightarrow> cache_sys" where
  "cache_start e todo = \<lparr>c_lock = False, c_regs = e, c_todo = todo, c_log = []\<rparr>"

lemma cache_run_ok:
  assumes "cache_step\<^sup>*\<^sup>* (cache_start e (\<lambda>i. concat (map locked_body (prog i)))) s" and "\<And>i. \<forall>x \<in> set (prog i). cache_body x"
  shows "cache_sys_ok prog s"
  using assms(1)
proof (induction rule: rtranclp_induct)
  case base
  have "agent_ok prog (cache_start e (\<lambda>i. concat (map locked_body (prog i)))) False i" for i
    unfolding agent_ok_def using assms(2) by (intro exI [of _ "prog i"]) (simp add: cache_start_def log_of_def)
  then show ?case
    unfolding cache_sys_ok_def by (intro exI [of _ None]) (simp add: cache_start_def)
next
  case (step s t)
  then show ?case
    by (blast intro: cache_step_ok)
qed

lemma cache_sys_log:
  assumes "cache_sys_ok prog s"
  shows "prefix (log_of i (c_log s)) (concat (map own_ops (prog i)))"
    and "c_todo s i = [] \<Longrightarrow> log_of i (c_log s) = concat (map own_ops (prog i))"
proof -
  obtain h where a: "agent_ok prog s h i"
    using assms by (auto simp: cache_sys_ok_def)
  then show "prefix (log_of i (c_log s)) (concat (map own_ops (prog i)))"
    unfolding agent_ok_def by (cases h) (auto simp: prefix_def dest: sym)
  show "log_of i (c_log s) = concat (map own_ops (prog i))" if "c_todo s i = []"
    using a that unfolding agent_ok_def by (cases h) (auto simp: cache_locked_def concat_eq_Nil_conv)
qed

text \<open>The accesses of OpenSBI are such bodies.\<close>

definition sync_body :: "u32 \<Rightarrow> u32 \<Rightarrow> u32 \<Rightarrow> u32 \<Rightarrow> io list" where
  "sync_body mp op addr sz = [Reg CACHE_SYNC_MAP mp, Reg CACHE_SYNC_ADDR addr, Reg CACHE_SYNC_SIZE sz] @
     concat (replicate (if op = CACHE_INVALIDATE then 1 else 2) [Reg CACHE_SYNC_CTRL op, Wait_done])"

lemma sync_body: "esp32s31_cache_sync mp op addr sz = locked_body (sync_body mp op addr sz)" "cache_body (sync_body mp op addr sz)"
  by (simp_all add: esp32s31_cache_sync_def sync_body_def cache_locked_def cache_body_def own_ops_def replicate_two)

lemma vendor_bodies:
  obtains ss where "snd (esp32s31_vendor_ext hart f a0 a1) = concat (map locked_body ss)" "\<forall>x \<in> set ss. cache_body x"
proof -
  let ?l = "snd (esp32s31_vendor_ext hart f a0 a1)"
  have "?l = [] \<or> (\<exists>m op a z. ?l = esp32s31_cache_sync m op a z) \<or>
      (\<exists>m op a z m' op' a' z'. ?l = esp32s31_cache_sync m op a z @ esp32s31_cache_sync m' op' a' z')"
    unfolding esp32s31_vendor_ext_def Let_def by (simp split: prod.split if_split) blast
  then show thesis
  proof (elim disjE exE)
    assume "?l = []"
    then show thesis
      by (intro that [of "[]"]) simp_all
  next
    fix m op a z
    assume "?l = esp32s31_cache_sync m op a z"
    then show thesis
      by (intro that [of "[sync_body m op a z]"]) (simp_all add: sync_body)
  next
    fix m op a z m' op' a' z'
    assume "?l = esp32s31_cache_sync m op a z @ esp32s31_cache_sync m' op' a' z'"
    then show thesis
      by (intro that [of "[sync_body m op a z, sync_body m' op' a' z']"]) (simp_all add: sync_body)
  qed
qed

lemma bodies_ops: "\<forall>x \<in> set ss. cache_body x \<Longrightarrow> engine_ops (concat (map locked_body ss)) e = concat (map own_ops ss)"
proof (induction ss arbitrary: e)
  case (Cons b ss)
  have "engine_ops b e = own_ops b" for e
    using Cons.prems by (cases e) (simp add: cache_body_def)
  then show ?case
    using Cons by (simp add: cache_locked_def engine_ops_append)
qed simp

lemma calls_bodies:
  "\<exists>ss. concat (map (\<lambda>(f, a0, a1). snd (esp32s31_vendor_ext hart f a0 a1)) calls) = concat (map locked_body ss) \<and> (\<forall>x \<in> set ss. cache_body x)"
proof (induction calls)
  case Nil
  show ?case
    by (rule exI [of _ "[]"]) simp
next
  case (Cons c calls)
  obtain f a0 a1 where c: "c = (f, a0, a1)"
    by (cases c)
  obtain ss where ss: "snd (esp32s31_vendor_ext hart f a0 a1) = concat (map locked_body ss)" "\<forall>x \<in> set ss. cache_body x"
    by (rule vendor_bodies)
  obtain ts where "concat (map (\<lambda>(f, a0, a1). snd (esp32s31_vendor_ext hart f a0 a1)) calls) = concat (map locked_body ts)"
    "\<forall>x \<in> set ts. cache_body x"
    using Cons.IH by blast
  then show ?case
    using ss by (intro exI [of _ "ss @ ts"]) (auto simp: c)
qed

lemma calls_safe:
  assumes "hart < 4" and "x \<in> set (engine_ops (concat (map (\<lambda>(f, a0, a1). snd (esp32s31_vendor_ext hart f a0 a1)) calls)) e)"
  shows "dropped x \<inter> firmware_bytes = {}"
  using assms(2)
proof (induction calls arbitrary: e)
  case (Cons c calls)
  obtain f a0 a1 where c: "c = (f, a0, a1)"
    by (cases c)
  let ?l = "snd (esp32s31_vendor_ext hart f a0 a1)"
  have "x \<in> set (engine_ops ?l e) \<or>
      x \<in> set (engine_ops (concat (map (\<lambda>(f, a0, a1). snd (esp32s31_vendor_ext hart f a0 a1)) calls)) (fold sync_reg ?l e))"
    using Cons.prems by (simp add: c engine_ops_append)
  then show ?case
    using Cons.IH vendor_ops [OF surjective_pairing assms(1)] by blast
qed simp

lemma cache_sys_moves:
  assumes "cache_sys_ok prog s" and "c_todo s i \<noteq> []"
  shows "\<exists>t. cache_step s t"
proof -
  obtain h where h: "c_lock s = (h \<noteq> None)" "\<And>i. agent_ok prog s (h = Some i) i"
    using assms(1) by (auto simp: cache_sys_ok_def)
  show ?thesis
  proof (cases h)
    case None
    then have "agent_ok prog s False i"
      using h(2) [of i] by simp
    then obtain r where "c_todo s i = Lock_cache # r"
      using assms(2) by (auto elim!: todo_free)
    then show ?thesis
      using h(1) None by (blast intro: take_lock)
  next
    case (Some j)
    then have "agent_ok prog s True j"
      using h(2) [of j] by simp
    then obtain b ss where b: "Lock_cache \<notin> set b" "Unlock_cache \<notin> set b" "c_todo s j = b @ Unlock_cache # concat (map locked_body ss)"
      by (auto simp: agent_ok_def)
    show ?thesis
    proof (cases b)
      case Nil
      then show ?thesis
        using b(3) by (auto intro: free_lock)
    next
      case (Cons x b')
      then show ?thesis
        using b by (auto intro!: exI access)
    qed
  qed
qed

section \<open>The properties\<close>

text \<open>The accesses of a list of calls of the vendor extension.\<close>

definition vendor_calls :: "nat \<Rightarrow> ecall list \<Rightarrow> io list" where
  "vendor_calls hart calls = concat (map (\<lambda>(f, a0, a1). snd (esp32s31_vendor_ext hart f a0 a1)) calls)"

text \<open>C30: one cache engine for two harts.  However the accesses of the firmware's
  cache functions and of OpenSBI's vendor calls interleave, each of the two gets
  exactly its own operations with its own addresses, in its order; they never
  block each other for ever; and no operation of a call drops lines of OpenSBI.
  The ROM functions behind the wrapper set all registers before they start.\<close>

theorem cache_two_harts:
  assumes "\<forall>b \<in> set fw. cache_body b" and "hart < 4"
    and "cache_step\<^sup>*\<^sup>* (cache_start e (\<lambda>i. if i then vendor_calls hart calls else concat (map (cache_locked True) fw))) s"
  shows "prefix (log_of True (c_log s)) (engine_ops (vendor_calls hart calls) e) \<and>
    prefix (log_of False (c_log s)) (concat (map own_ops fw)) \<and>
    (\<forall>x \<in> set (log_of True (c_log s)). dropped x \<inter> firmware_bytes = {}) \<and>
    ((\<forall>i. c_todo s i = []) \<longrightarrow> log_of True (c_log s) = engine_ops (vendor_calls hart calls) e \<and>
       log_of False (c_log s) = concat (map own_ops fw)) \<and>
    ((\<exists>i. c_todo s i \<noteq> []) \<longrightarrow> (\<exists>t. cache_step s t))"
proof -
  obtain ss where ss: "vendor_calls hart calls = concat (map locked_body ss)" "\<forall>x \<in> set ss. cache_body x"
    unfolding vendor_calls_def using calls_bodies [of hart calls] by blast
  let ?prog = "\<lambda>i. if i then ss else fw"
  have "(\<lambda>i. if i then vendor_calls hart calls else concat (map (cache_locked True) fw)) = (\<lambda>i. concat (map locked_body (?prog i)))"
    using ss(1) by auto
  then have ok: "cache_sys_ok ?prog s"
    using cache_run_ok [of e ?prog s] assms(1,3) ss(2) by simp
  have l: "engine_ops (vendor_calls hart calls) e = concat (map own_ops ss)"
    using bodies_ops [OF ss(2)] ss(1) by simp
  have p: "prefix (log_of True (c_log s)) (engine_ops (vendor_calls hart calls) e)"
    using cache_sys_log(1) [OF ok, of True] l by simp
  then have "x \<in> set (engine_ops (vendor_calls hart calls) e)" if "x \<in> set (log_of True (c_log s))" for x
    using that set_mono_prefix by blast
  then have "\<forall>x \<in> set (log_of True (c_log s)). dropped x \<inter> firmware_bytes = {}"
    using calls_safe [OF assms(2)] unfolding vendor_calls_def by blast
  then show ?thesis
    using p cache_sys_log [OF ok, of True] cache_sys_log [OF ok, of False] cache_sys_moves [OF ok] l by auto
qed

text \<open>A schedule names the agent of each step; one that waits for the lock does not
  move.\<close>

definition cache_next :: "bool \<Rightarrow> cache_sys \<Rightarrow> cache_sys" where
  "cache_next i s =
     (case c_todo s i of
        [] \<Rightarrow> s
      | x # r \<Rightarrow>
          if x = Lock_cache then (if c_lock s then s else s\<lparr>c_lock := True, c_todo := (c_todo s)(i := r)\<rparr>)
          else if x = Unlock_cache then s\<lparr>c_lock := False, c_todo := (c_todo s)(i := r)\<rparr>
          else s\<lparr>c_regs := sync_reg x (c_regs s), c_todo := (c_todo s)(i := r),
                 c_log := c_log s @ map (Pair i) (sync_start x (c_regs s))\<rparr>)"

lemma cache_next_step: "cache_step\<^sup>*\<^sup>* s (cache_next i s)"
proof (cases "c_todo s i")
  case (Cons x r)
  then show ?thesis
    using take_lock [of s i r] free_lock [of s i r] access [of s i x r]
    by (auto simp: cache_next_def intro!: r_into_rtranclp)
qed (simp add: cache_next_def)

lemma cache_sched_steps: "cache_step\<^sup>*\<^sup>* s (fold cache_next sched s)"
proof (induction sched arbitrary: s)
  case (Cons i sched)
  then show ?case
    using cache_next_step [of s i] by (auto intro: rtranclp_trans)
qed simp

definition demo_fw :: "io list list" where
  "demo_fw = [sync_body CACHE_MAP_L1_DCACHE CACHE_WRITEBACK 0x50c00000 64]"

definition demo_calls :: "ecall list" where
  "demo_calls = [(int SBI_CACHE_INV, 0x50400000, 128), (int SBI_CACHE_INV, 0x50f00000, 64)]"

text \<open>Hart 1 takes the lock first; hart 0 tries all the while.\<close>

definition demo_cache :: cache_sys where
  "demo_cache = fold cache_next (concat (replicate 16 [True, False]))
     (cache_start (0, 0, 0) (\<lambda>i. if i then vendor_calls 1 demo_calls else concat (map (cache_locked True) demo_fw)))"

lemma demo_cache_log: "c_log demo_cache = [(True, CACHE_MAP_L1_DCACHE, CACHE_INVALIDATE, 0x50400000, 128),
    (False, CACHE_MAP_L1_DCACHE, CACHE_WRITEBACK, 0x50c00000, 64), (False, CACHE_MAP_L1_DCACHE, CACHE_WRITEBACK, 0x50c00000, 64)]"
  by code_simp

theorem cache_two_harts_witness:
  "prefix (log_of True (c_log demo_cache)) (engine_ops (vendor_calls 1 demo_calls) (0, 0, 0)) \<and>
   log_of True (c_log demo_cache) = [(CACHE_MAP_L1_DCACHE, CACHE_INVALIDATE, 0x50400000, 128)]"
proof -
  have b: "\<forall>b \<in> set demo_fw. cache_body b"
    by (simp add: demo_fw_def sync_body)
  have "prefix (log_of True (c_log demo_cache)) (engine_ops (vendor_calls 1 demo_calls) (0, 0, 0))"
    by (rule conjunct1 [OF cache_two_harts [OF b]]) (simp, unfold demo_cache_def, rule cache_sched_steps)
  then show ?thesis
    by (simp add: demo_cache_log log_of_def)
qed

text \<open>C31: a DMA range of the kernel.  For every non-empty range of the external RAM
  the cache driver makes one call, with whole lines, of which OpenSBI accepts
  each but an invalidation that touches its own lines; the call makes the engine do the
  requested operation on exactly the lines of the range.\<close>

theorem kernel_dma_lines:
  assumes "sz \<noteq> 0" and "unat CACHE_EXTRAM_BASE \<le> unat paddr" and "unat paddr + unat sz \<le> unat (CACHE_EXTRAM_BASE + CACHE_EXTRAM_SIZE)"
    and "(f, calls) \<in> {(SBI_CACHE_INV, esp32s31_cache_inv paddr sz), (SBI_CACHE_WBACK, esp32s31_cache_wback paddr sz),
      (SBI_CACHE_WBACK_INV, esp32s31_cache_wback_inv paddr sz)}"
    and "f = SBI_CACHE_INV \<Longrightarrow> lines paddr sz \<inter> firmware_bytes = {}"
  shows "\<exists>a n l. calls = [(int f, a, n)] \<and> esp32s31_vendor_ext hart (int f) a n = (None, l) \<and>
    lines a n = lines paddr sz \<and> n \<noteq> 0 \<and>
    engine_ops l e = replicate (if f = SBI_CACHE_INV then 1 else 2) (CACHE_MAP_L1_DCACHE, dcache_op f, a, n)"
proof -
  have "calls = kernel_cache_sync paddr sz f" "f \<in> {SBI_CACHE_INV, SBI_CACHE_WBACK, SBI_CACHE_WBACK_INV}"
    using assms(4) by (auto simp: esp32s31_cache_inv_def esp32s31_cache_wback_def esp32s31_cache_wback_inv_def)
  then show ?thesis
    using kernel_dma [OF assms(1-3) _ assms(5)] by simp
qed

theorem kernel_dma_lines_witness:
  "\<exists>a n l. esp32s31_cache_wback 0x50000010 0x100 = [(2, a, n)] \<and> esp32s31_vendor_ext 1 2 a n = (None, l) \<and>
    lines a n = lines 0x50000010 0x100 \<and> engine_ops l (0, 0, 0) = replicate 2 (CACHE_MAP_L1_DCACHE, CACHE_WRITEBACK, a, n)"
  using kernel_dma_lines [of "0x100" "0x50000010" SBI_CACHE_WBACK "esp32s31_cache_wback 0x50000010 0x100" 1 "(0, 0, 0)"]
  by (auto simp: dcache_op_def esp32s31_cache_ops_def)

text \<open>The timer.  While a new event is set, the 64-bit compare register is the old
  one, or at least \<open>0xffffffff00000000\<close>, or the new one, so that no half-written value
  matches early.  The 64-bit time is read in at most two rounds when the counter
  advances less than \<open>2 ^ 32\<close> during six reads, and is a value the counter had at one of the reads.\<close>

theorem timer_halves:
  assumes "\<And>i. unat (clock i) \<le> unat (clock (Suc i))" and "unat (clock (k + 5)) < unat (clock k) + 2 ^ 32" and "2 \<le> n"
  shows "(\<forall>j. let c' = mtimecmp (take j (esp32s31_timer_event_start t)) c in
      c' = (if j \<le> 1 then c else t) \<or> j \<in> {2, 3} \<and> 0xffffffff00000000 \<le> c') \<and>
    (\<exists>j. k + 2 \<le> j \<and> esp32s31_timer_value clock k n = Some (clock (j - 1), j))"
proof
  have ff: "0xffffffff00000000 \<le> (push_bit 32 (ucast (0xffffffff :: u32)) OR ucast (l :: u32) :: u64)" for l
    using u64_halves [of "0xffffffff" l] by (simp only: word_le_nat_alt) simp
  have "take_bit 32 c = ucast (ucast c :: u32)"
    by (rule bit_word_eqI) (auto simp: bit_simps)
  then have two: "0xffffffff00000000 \<le> mtimecmp (take 2 (esp32s31_timer_event_start t)) c"
    using ff [of "ucast c"] by (simp only: cmp_steps(1))
  have three: "0xffffffff00000000 \<le> mtimecmp (take 3 (esp32s31_timer_event_start t)) c"
    using ff by (simp only: cmp_steps(2))
  have one: "mtimecmp (take j (esp32s31_timer_event_start t)) c = c" if "j \<le> 1" for j
    using that by (cases j) (simp_all add: mtimecmp_def esp32s31_timer_event_start_def)
  have four: "mtimecmp (take j (esp32s31_timer_event_start t)) c = t" if "4 \<le> j" for j
    using that cmp_steps(3) [of t c] by (simp add: esp32s31_timer_event_start_def)
  show "\<forall>j. let c' = mtimecmp (take j (esp32s31_timer_event_start t)) c in
      c' = (if j \<le> 1 then c else t) \<or> j \<in> {2, 3} \<and> 0xffffffff00000000 \<le> c'"
  proof
    fix j :: nat
    consider "j \<le> 1" | "j = 2" | "j = 3" | "4 \<le> j"
      by linarith
    then show "let c' = mtimecmp (take j (esp32s31_timer_event_start t)) c in
      c' = (if j \<le> 1 then c else t) \<or> j \<in> {2, 3} \<and> 0xffffffff00000000 \<le> c'"
      by cases (use one two three four in \<open>simp_all add: Let_def\<close>)
  qed
next
  have d: "unat (clock (k + 5)) - unat (clock k) < 2 ^ 32"
    using assms(2) zero_less_power [of "2 :: nat" 32] by linarith
  have n: "Suc (Suc (n - 2)) = n"
    using assms(3) by simp
  obtain v j where v: "esp32s31_timer_value clock k n = Some (v, j)"
    using timer_value_two_rounds [OF assms(1) d, of "n - 2"] n by auto
  then show "\<exists>j. k + 2 \<le> j \<and> esp32s31_timer_value clock k n = Some (clock (j - 1), j)"
    using timer_value_exact [OF assms(1) v] by auto
qed

definition demo_clock :: "nat \<Rightarrow> u64" where
  "demo_clock i = (if i = 0 then 0xffffffff else 0x100000000)"

theorem timer_halves_witness:
  "mtimecmp (esp32s31_timer_event_start 0x123456789) 0xfffffff0 = 0x123456789 \<and>
   (\<exists>j. 2 \<le> j \<and> esp32s31_timer_value demo_clock 0 2 = Some (demo_clock (j - 1), j))"
proof -
  have mono: "unat (demo_clock i) \<le> unat (demo_clock (Suc i))" for i
    by (simp add: demo_clock_def)
  have span: "unat (demo_clock (0 + 5)) < unat (demo_clock 0) + 2 ^ 32"
    by (simp add: demo_clock_def)
  have "let c' = mtimecmp (take 4 (esp32s31_timer_event_start 0x123456789)) 0xfffffff0 in
      c' = (if (4 :: nat) \<le> 1 then 0xfffffff0 else 0x123456789) \<or> (4 :: nat) \<in> {2, 3} \<and> 0xffffffff00000000 \<le> c'"
    and j: "\<exists>j. 0 + 2 \<le> j \<and> esp32s31_timer_value demo_clock 0 2 = Some (demo_clock (j - 1), j)"
    using timer_halves [OF mono span, of 2 "0x123456789" "0xfffffff0"] by blast+
  then have "mtimecmp (esp32s31_timer_event_start 0x123456789) 0xfffffff0 = 0x123456789"
    by (simp add: Let_def esp32s31_timer_event_start_def)
  then show ?thesis
    using j by (intro conjI) (simp_all only: add_0)
qed

end
