(* ===== verification/Uart_Driver.thy ===== *)
theory Uart_Driver
  imports Prelude "HOL-Library.Sublist"
begin

text \<open>
  The UART driver (\<open>linux/drivers/tty/serial/esp32_uart.c\<close>).  A port has its
  registers, the content of the two FIFOs of the hardware, and what the driver
  gives to the serial core of the kernel.  The functions of the serial core that
  the driver calls are parameters: what \<open>uart_port_tx_limited\<close> sends,
  what \<open>uart_handle_sysrq_char\<close> answers, and the baud rate of a terminal
  (\<open>uart_get_baud_rate\<close>).  Locks are not modelled: every operation is one step.

  The lemmas show that the divider is the nearest one and is accepted exactly when
  the field holds it, that the line settings reach the registers, that the
  transmit FIFO is never written when it is full, and what becomes of received
  bytes.
\<close>

section \<open>Registers\<close>

abbreviation (input) UART_FIFO_REG :: nat where "UART_FIFO_REG \<equiv> 0x00"
abbreviation (input) UART_INT_ST_REG :: nat where "UART_INT_ST_REG \<equiv> 0x08"
abbreviation (input) UART_INT_ENA_REG :: nat where "UART_INT_ENA_REG \<equiv> 0x0c"
abbreviation (input) UART_INT_CLR_REG :: nat where "UART_INT_CLR_REG \<equiv> 0x10"
abbreviation (input) UART_CLKDIV_SYNC_REG :: nat where "UART_CLKDIV_SYNC_REG \<equiv> 0x14"
abbreviation (input) UART_STATUS_REG :: nat where "UART_STATUS_REG \<equiv> 0x1c"
abbreviation (input) UART_CONF0_SYNC_REG :: nat where "UART_CONF0_SYNC_REG \<equiv> 0x20"
abbreviation (input) UART_CONF1_REG :: nat where "UART_CONF1_REG \<equiv> 0x24"
abbreviation (input) UART_HWFC_CONF_SYNC_REG :: nat where "UART_HWFC_CONF_SYNC_REG \<equiv> 0x2c"
abbreviation (input) UART_TOUT_CONF_SYNC_REG :: nat where "UART_TOUT_CONF_SYNC_REG \<equiv> 0x64"
abbreviation (input) UART_CLK_CONF_REG :: nat where "UART_CLK_CONF_REG \<equiv> 0x88"
abbreviation (input) UART_REG_UPDATE_REG :: nat where "UART_REG_UPDATE_REG \<equiv> 0x98"
abbreviation (input) UART_RXFIFO_FULL_INT :: u32 where "UART_RXFIFO_FULL_INT \<equiv> 0x1"
abbreviation (input) UART_TXFIFO_EMPTY_INT :: u32 where "UART_TXFIFO_EMPTY_INT \<equiv> 0x2"
abbreviation (input) UART_BRK_DET_INT :: u32 where "UART_BRK_DET_INT \<equiv> 0x80"
abbreviation (input) UART_RXFIFO_TOUT_INT :: u32 where "UART_RXFIFO_TOUT_INT \<equiv> 0x100"
abbreviation (input) ESP32_UART_RX_INTS :: u32 where "ESP32_UART_RX_INTS \<equiv> 0x181"
abbreviation (input) UART_DSRN :: u32 where "UART_DSRN \<equiv> 0x2000"
abbreviation (input) UART_CTSN :: u32 where "UART_CTSN \<equiv> 0x4000"
abbreviation (input) UART_PARITY :: u32 where "UART_PARITY \<equiv> 0x1"
abbreviation (input) UART_PARITY_EN :: u32 where "UART_PARITY_EN \<equiv> 0x2"
abbreviation (input) UART_BIT_NUM :: u32 where "UART_BIT_NUM \<equiv> 0xc"
abbreviation (input) UART_STOP_BIT_NUM :: u32 where "UART_STOP_BIT_NUM \<equiv> 0x30"
abbreviation (input) UART_LOOPBACK :: u32 where "UART_LOOPBACK \<equiv> 0x1000"
abbreviation (input) UART_TX_FLOW_EN :: u32 where "UART_TX_FLOW_EN \<equiv> 0x2000"
abbreviation (input) UART_SW_RTS :: u32 where "UART_SW_RTS \<equiv> 0x200000"
abbreviation (input) UART_RTS_INV :: u32 where "UART_RTS_INV \<equiv> 0x40000"
abbreviation (input) UART_DTR_INV :: u32 where "UART_DTR_INV \<equiv> 0x80000"
abbreviation (input) UART_SW_DTR :: u32 where "UART_SW_DTR \<equiv> 0x100000"
abbreviation (input) UART_RX_FLOW_EN :: u32 where "UART_RX_FLOW_EN \<equiv> 0x100"
abbreviation (input) ESP32_UART_TX_FIFO_SIZE :: nat where "ESP32_UART_TX_FIFO_SIZE \<equiv> 127"
abbreviation (input) ESP32_UART_RX_FLOW_THRHD :: u32 where "ESP32_UART_RX_FLOW_THRHD \<equiv> 120"
abbreviation (input) ESP32_UART_DIV16_MIN :: u32 where "ESP32_UART_DIV16_MIN \<equiv> 128"
abbreviation (input) ESP32_UART_DIV16_MAX :: u32 where "ESP32_UART_DIV16_MAX \<equiv> 65535"

section \<open>A port\<close>

text \<open>The bytes in the transmit FIFO, the words that reads of the receive FIFO
  return, the characters given to the terminal, and the counters.  The FIFO counts
  of the status register follow the FIFOs.\<close>

record uart_port =
  p_regs :: "nat \<Rightarrow> u32"
  p_uartclk :: u32
  p_tx :: bytes
  p_rx :: "u32 list"
  p_tty :: bytes
  p_brk :: nat
  p_count :: nat
  p_pushed :: bool
  p_clk_on :: nat
  p_irq :: bool

definition esp32_uart_write :: "nat \<Rightarrow> u32 \<Rightarrow> uart_port \<Rightarrow> uart_port" where
  "esp32_uart_write reg v p =
     (if reg = UART_FIFO_REG then p\<lparr>p_tx := p_tx p @ [ucast v]\<rparr>
      else p\<lparr>p_regs := (p_regs p)(reg := v)\<rparr>)"

definition esp32_uart_read :: "nat \<Rightarrow> uart_port \<Rightarrow> u32" where
  "esp32_uart_read reg p =
     (if reg = UART_STATUS_REG
      then (p_regs p reg AND 0xff00ff00) OR push_bit 16 (of_nat (length (p_tx p)) AND 0xff) OR (of_nat (length (p_rx p)) AND 0xff)
      else p_regs p reg)"

text \<open>The poll for the end of the update has no effect: its result is not used.\<close>

definition esp32_uart_update :: "uart_port \<Rightarrow> uart_port" where
  "esp32_uart_update p = esp32_uart_write UART_REG_UPDATE_REG 1 p"

definition esp32_uart_tx_fifo_cnt :: "uart_port \<Rightarrow> u32" where
  "esp32_uart_tx_fifo_cnt p = drop_bit 16 (esp32_uart_read UART_STATUS_REG p) AND 0xff"

definition esp32_uart_rx_fifo_cnt :: "uart_port \<Rightarrow> u32" where
  "esp32_uart_rx_fifo_cnt p = esp32_uart_read UART_STATUS_REG p AND 0xff"

definition esp32_uart_tx_empty :: "uart_port \<Rightarrow> bool" where
  "esp32_uart_tx_empty p \<longleftrightarrow> esp32_uart_tx_fifo_cnt p = 0"

abbreviation (input) TIOCM_DTR :: u32 where "TIOCM_DTR \<equiv> 0x2"
abbreviation (input) TIOCM_RTS :: u32 where "TIOCM_RTS \<equiv> 0x4"
abbreviation (input) TIOCM_CTS :: u32 where "TIOCM_CTS \<equiv> 0x20"
abbreviation (input) TIOCM_CAR :: u32 where "TIOCM_CAR \<equiv> 0x40"
abbreviation (input) TIOCM_DSR :: u32 where "TIOCM_DSR \<equiv> 0x100"
abbreviation (input) TIOCM_LOOP :: u32 where "TIOCM_LOOP \<equiv> 0x8000"

definition esp32_uart_set_mctrl :: "u32 \<Rightarrow> uart_port \<Rightarrow> uart_port" where
  "esp32_uart_set_mctrl mctrl p =
     (let conf0 = esp32_uart_read UART_CONF0_SYNC_REG p AND NOT (UART_LOOPBACK OR UART_SW_RTS);
          conf1 = esp32_uart_read UART_CONF1_REG p AND NOT (UART_SW_DTR OR UART_RTS_INV OR UART_DTR_INV);
          conf0 = (if mctrl AND TIOCM_RTS \<noteq> 0 then conf0 OR UART_SW_RTS else conf0);
          conf1 = (if mctrl AND TIOCM_DTR \<noteq> 0 then conf1 OR UART_SW_DTR else conf1);
          conf0 = (if mctrl AND TIOCM_LOOP \<noteq> 0 then conf0 OR UART_LOOPBACK else conf0)
      in esp32_uart_update (esp32_uart_write UART_CONF1_REG conf1 (esp32_uart_write UART_CONF0_SYNC_REG conf0 p)))"

definition esp32_uart_get_mctrl :: "uart_port \<Rightarrow> u32" where
  "esp32_uart_get_mctrl p =
     (let status = esp32_uart_read UART_STATUS_REG p;
          ret = TIOCM_CAR;
          ret = (if status AND UART_DSRN \<noteq> 0 then ret OR TIOCM_DSR else ret)
      in if status AND UART_CTSN \<noteq> 0 then ret OR TIOCM_CTS else ret)"

definition esp32_uart_stop_tx :: "uart_port \<Rightarrow> uart_port" where
  "esp32_uart_stop_tx p = esp32_uart_write UART_INT_ENA_REG (esp32_uart_read UART_INT_ENA_REG p AND NOT UART_TXFIFO_EMPTY_INT) p"

section \<open>Receiving\<close>

text \<open>\<open>brk i\<close>: whether the i-th read of the interrupt status has the break bit;
  \<open>sysrq i c\<close>: whether the core takes the i-th character.  A read of an empty FIFO
  does not happen: there are at least \<open>n\<close> words.\<close>

definition rx_one :: "bool \<Rightarrow> (u8 \<Rightarrow> bool) \<Rightarrow> uart_port \<Rightarrow> uart_port" where
  "rx_one brk sysrq p =
     (let rx = hd (p_rx p); p = p\<lparr>p_rx := tl (p_rx p)\<rparr>
      in if rx = 0 \<and> brk then (esp32_uart_write UART_INT_CLR_REG UART_BRK_DET_INT p)\<lparr>p_brk := p_brk p + 1\<rparr>
         else if sysrq (ucast rx) then p
         else p\<lparr>p_tty := p_tty p @ [ucast rx], p_count := p_count p + 1\<rparr>)"

fun rx_loop :: "(nat \<Rightarrow> bool) \<Rightarrow> (nat \<Rightarrow> u8 \<Rightarrow> bool) \<Rightarrow> nat \<Rightarrow> nat \<Rightarrow> uart_port \<Rightarrow> uart_port" where
  "rx_loop brk sysrq i 0 p = p"
| "rx_loop brk sysrq i (Suc n) p = rx_loop brk sysrq (i + 1) n (rx_one (brk i) (sysrq i) p)"

definition esp32_uart_rxint :: "(nat \<Rightarrow> bool) \<Rightarrow> (nat \<Rightarrow> u8 \<Rightarrow> bool) \<Rightarrow> uart_port \<Rightarrow> uart_port" where
  "esp32_uart_rxint brk sysrq p =
     (let rx_fifo_cnt = esp32_uart_rx_fifo_cnt p
      in if rx_fifo_cnt = 0 then p else (rx_loop brk sysrq 0 (unat rx_fifo_cnt) p)\<lparr>p_pushed := True\<rparr>)"

section \<open>Sending\<close>

definition esp32_uart_put_char :: "u8 \<Rightarrow> uart_port \<Rightarrow> uart_port" where
  "esp32_uart_put_char c p = esp32_uart_write UART_FIFO_REG (ucast c) p"

text \<open>The wait over what the hardware has sent at each look (\<open>drained\<close>); when the list
  ends the second is over and the character is dropped.\<close>

fun esp32_uart_put_char_sync :: "nat list \<Rightarrow> u8 \<Rightarrow> uart_port \<Rightarrow> bool \<times> uart_port" where
  "esp32_uart_put_char_sync drained c p =
     (if unat (esp32_uart_tx_fifo_cnt p) < ESP32_UART_TX_FIFO_SIZE then (True, esp32_uart_put_char c p)
      else case drained of
        [] \<Rightarrow> (False, p)
      | n # ns \<Rightarrow> esp32_uart_put_char_sync ns c (p\<lparr>p_tx := drop n (p_tx p)\<rparr>))"

text \<open>\<open>limited n\<close>: the characters that \<open>uart_port_tx_limited\<close> sends when it may send n,
  and how many are then pending.\<close>

definition esp32_uart_transmit_buffer :: "(nat \<Rightarrow> bytes \<times> nat) \<Rightarrow> uart_port \<Rightarrow> uart_port" where
  "esp32_uart_transmit_buffer limited p =
     (let tx_fifo_used = unat (esp32_uart_tx_fifo_cnt p)
      in if tx_fifo_used \<ge> ESP32_UART_TX_FIFO_SIZE then p
         else let (chars, pending) = limited (ESP32_UART_TX_FIFO_SIZE - tx_fifo_used);
                  p = fold esp32_uart_put_char chars p
              in if pending \<noteq> 0
                 then esp32_uart_write UART_INT_ENA_REG (esp32_uart_read UART_INT_ENA_REG p OR UART_TXFIFO_EMPTY_INT) p
                 else p)"

text \<open>The interrupt handler; the result tells whether it was an interrupt of the port.\<close>

definition esp32_uart_int :: "(nat \<Rightarrow> bool) \<Rightarrow> (nat \<Rightarrow> u8 \<Rightarrow> bool) \<Rightarrow> (nat \<Rightarrow> bytes \<times> nat) \<Rightarrow> uart_port \<Rightarrow> bool \<times> uart_port" where
  "esp32_uart_int brk sysrq limited p =
     (let status = esp32_uart_read UART_INT_ST_REG p;
          p = (if status AND ESP32_UART_RX_INTS \<noteq> 0 then esp32_uart_rxint brk sysrq p else p);
          p = (if status AND UART_TXFIFO_EMPTY_INT \<noteq> 0 then esp32_uart_transmit_buffer limited p else p)
      in (status \<noteq> 0, esp32_uart_write UART_INT_CLR_REG status p))"

section \<open>Start and stop\<close>

definition esp32_uart_stop_rx :: "uart_port \<Rightarrow> uart_port" where
  "esp32_uart_stop_rx p =
     esp32_uart_write UART_INT_ENA_REG (esp32_uart_read UART_INT_ENA_REG p AND NOT (UART_RXFIFO_FULL_INT OR UART_RXFIFO_TOUT_INT)) p"

text \<open>\<open>clk\<close> and \<open>irq\<close>: the results of enabling the clock and requesting the interrupt.\<close>

definition uart_clk_enable :: "errno option \<Rightarrow> uart_port \<Rightarrow> uart_port" where
  "uart_clk_enable clk p = (if clk = None then p\<lparr>p_clk_on := p_clk_on p + 1\<rparr> else p)"

definition esp32_uart_startup :: "errno option \<Rightarrow> errno option \<Rightarrow> uart_port \<Rightarrow> errno option \<times> uart_port" where
  "esp32_uart_startup clk irq p =
     (let p = uart_clk_enable clk p in
      if clk \<noteq> None then (clk, p)
      else if irq \<noteq> None then (irq, p\<lparr>p_clk_on := p_clk_on p - 1\<rparr>)
      else let p = p\<lparr>p_irq := True\<rparr>;
               p = esp32_uart_write UART_CLK_CONF_REG (esp32_uart_read UART_CLK_CONF_REG p OR 0x1000000 OR 0x2000000) p;
               conf1 = (esp32_uart_read UART_CONF1_REG p AND NOT (0xff OR 0xff00)) OR 64 OR push_bit 8 1;
               p = esp32_uart_write UART_CONF1_REG conf1 p;
               p = esp32_uart_write UART_TOUT_CONF_SYNC_REG (push_bit 2 10 OR 0x1) p;
               p = esp32_uart_update p;
               p = esp32_uart_write UART_INT_CLR_REG ESP32_UART_RX_INTS p
           in (None, esp32_uart_write UART_INT_ENA_REG ESP32_UART_RX_INTS p))"

definition esp32_uart_shutdown :: "uart_port \<Rightarrow> uart_port" where
  "esp32_uart_shutdown p = (esp32_uart_write UART_INT_ENA_REG 0 p)\<lparr>p_irq := False, p_clk_on := p_clk_on p - 1\<rparr>"

section \<open>Line settings\<close>

definition div16 :: "u32 \<Rightarrow> u32 \<Rightarrow> u32" where
  "div16 uartclk baud = (uartclk * 16 + baud div 2) div baud"

definition esp32_uart_set_baud :: "u32 \<Rightarrow> uart_port \<Rightarrow> bool \<times> uart_port" where
  "esp32_uart_set_baud baud p =
     (if baud = 0 then (False, p)
      else let d = div16 (p_uartclk p) baud
           in if d < ESP32_UART_DIV16_MIN \<or> d > ESP32_UART_DIV16_MAX then (False, p)
              else (True, esp32_uart_write UART_CLKDIV_SYNC_REG ((drop_bit 4 d AND 0xfff) OR push_bit 20 (d AND 15 AND 0xf)) p))"

datatype csize = CS5 | CS6 | CS7 | CS8

text \<open>The flags of a terminal that the driver looks at; \<open>t_baud\<close>: its baud rate.\<close>

record termios =
  t_csize :: csize
  t_cstopb :: bool
  t_parenb :: bool
  t_parodd :: bool
  t_crtscts :: bool
  t_cmspar :: bool
  t_baud :: u32

definition bit_num :: "csize \<Rightarrow> u32" where
  "bit_num c = (case c of CS5 \<Rightarrow> 0 | CS6 \<Rightarrow> 1 | CS7 \<Rightarrow> 2 | CS8 \<Rightarrow> 3)"

text \<open>The lowest and the highest baud rate for \<open>uart_get_baud_rate\<close>, which may change
  the rate in the termios.  The result has the rate that the timeout is computed for.\<close>

definition baud_min :: "u32 \<Rightarrow> u32" where
  "baud_min uartclk = (uartclk * 16 + ESP32_UART_DIV16_MAX - 1) div ESP32_UART_DIV16_MAX"

definition baud_max :: "u32 \<Rightarrow> u32" where
  "baud_max uartclk = uartclk * 16 div ESP32_UART_DIV16_MIN"

definition conf0_of :: "termios \<Rightarrow> u32 \<Rightarrow> u32" where
  "conf0_of t conf0 =
     (let conf0 = conf0 AND NOT (UART_PARITY_EN OR UART_PARITY OR UART_BIT_NUM OR UART_STOP_BIT_NUM OR UART_TX_FLOW_EN);
          conf0 = (if t_parenb t then let conf0 = conf0 OR UART_PARITY_EN in if t_parodd t then conf0 OR UART_PARITY else conf0 else conf0);
          conf0 = conf0 OR push_bit 2 (bit_num (t_csize t));
          conf0 = conf0 OR push_bit 4 (if t_cstopb t then 3 else 1)
      in if t_crtscts t then conf0 OR UART_TX_FLOW_EN else conf0)"

definition esp32_uart_set_termios :: "(termios \<Rightarrow> u32 \<Rightarrow> u32 \<Rightarrow> termios \<times> u32) \<Rightarrow> termios \<Rightarrow> uart_port \<Rightarrow> termios \<times> u32 option \<times> uart_port" where
  "esp32_uart_set_termios get_baud t p =
     (let t = t\<lparr>t_cmspar := False\<rparr>;
          (t, baud) = get_baud t (baud_min (p_uartclk p)) (baud_max (p_uartclk p));
          hwfc = (if t_crtscts t then ESP32_UART_RX_FLOW_THRHD OR UART_RX_FLOW_EN else 0);
          p = esp32_uart_write UART_CONF0_SYNC_REG (conf0_of t (esp32_uart_read UART_CONF0_SYNC_REG p)) p;
          p = esp32_uart_write UART_HWFC_CONF_SYNC_REG hwfc p;
          (ok, p) = esp32_uart_set_baud baud p;
          (fallback, p) = (if ok then (False, p) else esp32_uart_set_baud 115200 p);
          (baud, t) = (if fallback then (115200, t\<lparr>t_baud := 115200\<rparr>) else (baud, t))
      in (t, if baud \<noteq> 0 then Some baud else None, esp32_uart_update p))"

section \<open>Consoles\<close>

definition esp32_uart_poll_init :: "errno option \<Rightarrow> uart_port \<Rightarrow> errno option \<times> uart_port" where
  "esp32_uart_poll_init clk p = (clk, uart_clk_enable clk p)"

definition esp32_uart_poll_get_char :: "uart_port \<Rightarrow> u32 option \<times> uart_port" where
  "esp32_uart_poll_get_char p =
     (if esp32_uart_rx_fifo_cnt p \<noteq> 0 then (Some (hd (p_rx p)), p\<lparr>p_rx := tl (p_rx p)\<rparr>) else (None, p))"

text \<open>The characters that the serial core makes of a write, each with the waits of its \<open>put_char_sync\<close>.\<close>

definition esp32_uart_console_write :: "(nat list \<times> u8) list \<Rightarrow> uart_port \<Rightarrow> uart_port" where
  "esp32_uart_console_write cs p = fold (\<lambda>(drained, c) p. snd (esp32_uart_put_char_sync drained c p)) cs p"

definition esp32_uart_console_exit :: "uart_port \<Rightarrow> uart_port" where
  "esp32_uart_console_exit p = p\<lparr>p_clk_on := p_clk_on p - 1\<rparr>"

definition esp32_uart_earlycon_write :: "(nat list \<times> u8) list \<Rightarrow> uart_port \<Rightarrow> uart_port" where
  "esp32_uart_earlycon_write cs p = fold (\<lambda>(drained, c) p. snd (esp32_uart_put_char_sync drained c p)) cs p"

fun esp32_uart_earlycon_read :: "nat \<Rightarrow> uart_port \<Rightarrow> bytes \<times> uart_port" where
  "esp32_uart_earlycon_read 0 p = ([], p)"
| "esp32_uart_earlycon_read (Suc n) p =
     (case esp32_uart_poll_get_char p of
        (None, p) \<Rightarrow> ([], p)
      | (Some c, p) \<Rightarrow> let (cs, p) = esp32_uart_earlycon_read n p in (ucast c # cs, p))"

definition esp32s3_uart_early_console_setup :: "bool \<Rightarrow> u32 \<Rightarrow> uart_port \<Rightarrow> errno option \<times> uart_port" where
  "esp32s3_uart_early_console_setup membase baud p =
     (if \<not> membase then (Some ENODEV, p)
      else (None, if p_uartclk p \<noteq> 0 \<and> baud \<noteq> 0
                  then let (ok, p) = esp32_uart_set_baud baud p in if ok then esp32_uart_update p else p
                  else p))"

text \<open>\<open>port\<close>: the ports by number; \<open>set_options\<close>: the result of the serial core.  The
  comparison with the number of ports is unsigned.  The result is the error, and
  the index which the console has then.\<close>

definition esp32_uart_console_setup :: "(nat \<Rightarrow> bool) \<Rightarrow> int \<Rightarrow> errno option \<Rightarrow> errno option \<Rightarrow> errno option \<times> int" where
  "esp32_uart_console_setup port index clk set_options =
     (let index = (if index < 0 \<or> index \<ge> 3 then 0 else index)
      in (if \<not> port (nat index) then Some ENODEV else if clk \<noteq> None then clk else set_options, index))"

text \<open>The line number of a new port, from its alias.\<close>

definition probe_line :: "errno + nat \<Rightarrow> errno + nat" where
  "probe_line alias =
     (case alias of Inl e \<Rightarrow> Inl e | Inr n \<Rightarrow> if n \<ge> 3 then Inl ENOMEM else Inr n)"

text \<open>The results of the calls of a probe, and the ports by number, each with the rate of
  its clock.\<close>

record uart_probe_env =
  pr_alloc :: bool
  pr_alias :: "errno + nat"
  pr_res :: bool
  pr_map :: "errno option"
  pr_clk :: "errno + u32"
  pr_irq :: "errno option"
  pr_add :: "errno option"

definition esp32_uart_probe :: "uart_probe_env \<Rightarrow> (nat \<Rightarrow> u32 option) \<Rightarrow> errno option \<times> (nat \<Rightarrow> u32 option)" where
  "esp32_uart_probe e ports =
     (if \<not> pr_alloc e then (Some ENOMEM, ports)
      else case probe_line (pr_alias e) of
        Inl r \<Rightarrow> (Some r, ports)
      | Inr n \<Rightarrow>
          if \<not> pr_res e then (Some ENODEV, ports)
          else if pr_map e \<noteq> None then (pr_map e, ports)
          else case pr_clk e of
            Inl r \<Rightarrow> (Some r, ports)
          | Inr rate \<Rightarrow> if pr_irq e \<noteq> None then (pr_irq e, ports) else (pr_add e, ports(n \<mapsto> rate)))"

text \<open>Registering the driver: the calls that succeeded and were not undone, when both
  results are given.\<close>

definition esp32_uart_init :: "errno option \<Rightarrow> errno option \<Rightarrow> errno option \<times> bool \<times> bool" where
  "esp32_uart_init uart platform =
     (if uart \<noteq> None then (uart, False, False) else if platform \<noteq> None then (platform, False, False) else (None, True, True))"

definition esp32_uart_exit :: "bool \<times> bool \<Rightarrow> bool \<times> bool" where
  "esp32_uart_exit = (\<lambda>(uart, platform). (False, False))"

text \<open>The type that the autoconfiguration sets: \<open>PORT_GENERIC\<close>, when it is asked for one.\<close>

definition esp32_uart_config_port :: "bool \<Rightarrow> 't \<Rightarrow> 't \<Rightarrow> 't" where
  "esp32_uart_config_port config_type port_generic type = (if config_type then port_generic else type)"

text \<open>Removal takes the port from the serial core; the array of the ports keeps it.\<close>

definition esp32_uart_remove :: "nat \<Rightarrow> nat set \<times> (nat \<Rightarrow> u32 option) \<Rightarrow> nat set \<times> (nat \<Rightarrow> u32 option)" where
  "esp32_uart_remove line = (\<lambda>(added, ports). (added - {line}, ports))"

section \<open>The divider\<close>

text \<open>A probe that fails before it registers the port leaves the ports as they were.\<close>

lemma probe_ports:
  "\<exists>n rate. esp32_uart_probe e ports = (pr_add e, ports(n \<mapsto> rate)) \<and> n < 3 \<or> (\<exists>r. esp32_uart_probe e ports = (Some r, ports))"
  by (auto simp: esp32_uart_probe_def probe_line_def split: sum.splits)

lemma nearest:
  fixes n d :: nat
  assumes "0 < d"
  shows "(n + d div 2) div d * d \<le> n + d div 2" "n < (n + d div 2) div d * d + (d + 1) div 2"
proof -
  show "(n + d div 2) div d * d \<le> n + d div 2"
    by simp
  have "n + d div 2 < ((n + d div 2) div d + 1) * d"
    using assms by (simp add: dividend_less_div_times)
  then show "n < (n + d div 2) div d * d + (d + 1) div 2"
    by simp
qed

lemma div16_nat:
  assumes "unat clk * 17 < 2 ^ 32" and "unat baud \<le> unat clk"
  shows "unat (div16 clk baud) = (unat clk * 16 + unat baud div 2) div unat baud"
  using assms by (simp add: div16_def unat_div unat_word_ariths)

lemma baud_range:
  assumes "unat clk * 17 < 2 ^ 32"
  shows "unat (baud_max clk) = unat clk * 16 div 128" "unat (baud_min clk) = (unat clk * 16 + 65534) div 65535"
proof -
  have "unat clk * 16 + 65534 < 2 ^ 32"
    using assms by simp
  then show "unat (baud_max clk) = unat clk * 16 div 128" "unat (baud_min clk) = (unat clk * 16 + 65534) div 65535"
    by (simp_all add: baud_max_def baud_min_def unat_div unat_word_ariths)
qed

text \<open>A rate between the two bounds has a divider which the register can hold.\<close>

lemma div16_fits:
  assumes "unat clk * 17 < 2 ^ 32" and "baud_min clk \<le> baud" and "baud \<le> baud_max clk" and "0 < clk"
  shows "128 \<le> unat (div16 clk baud)" "unat (div16 clk baud) \<le> 65535" "0 < baud" "unat baud \<le> unat clk"
proof -
  let ?c = "unat clk * 16" and ?b = "unat baud"
  have b: "(?c + 65534) div 65535 \<le> ?b" "?b \<le> ?c div 128"
    using assms(2,3) baud_range [OF assms(1)] by (simp_all add: word_le_nat_alt)
  have c: "16 \<le> ?c"
    using assms(4) by (simp add: word_less_nat_alt)
  have "1 \<le> (?c + 65534) div 65535"
    using c by (simp add: less_eq_div_iff_mult_less_eq)
  then have z: "0 < ?b"
    using b(1) by linarith
  then show "0 < baud"
    by (simp add: word_less_nat_alt)
  show le: "?b \<le> unat clk"
    using b(2) by linarith
  have hi: "?b * 128 \<le> ?c"
    using b(2) by (simp add: less_eq_div_iff_mult_less_eq)
  have lo: "?c \<le> ?b * 65535"
    using b(1) by linarith
  show "128 \<le> unat (div16 clk baud)" "unat (div16 clk baud) \<le> 65535"
    unfolding div16_nat [OF assms(1) le]
  proof -
    show "128 \<le> (?c + ?b div 2) div ?b"
      using hi z by (simp add: less_eq_div_iff_mult_less_eq mult.commute)
    have "?c + ?b div 2 < 65536 * ?b"
      using lo z by linarith
    then show "(?c + ?b div 2) div ?b \<le> 65535"
      using z by (simp add: div_less_iff_less_mult flip: less_Suc_eq_le)
  qed
qed

text \<open>The divider that the register holds, in 1/16 steps.\<close>

definition clkdiv16 :: "u32 \<Rightarrow> nat" where
  "clkdiv16 w = unat (w AND 0xfff) * 16 + unat (drop_bit 20 w AND 0xf)"

lemma clkdiv16_of:
  assumes "unat d \<le> 65535"
  shows "clkdiv16 ((drop_bit 4 d AND 0xfff) OR push_bit 20 (d AND 15 AND 0xf)) = unat d"
proof -
  have m: "(0xfff :: u32) = mask 12" "(15 :: u32) = mask 4"
    by (simp_all add: mask_eq_exp_minus_1)
  have "((drop_bit 4 d AND mask 12) OR push_bit 20 (d AND mask 4 AND mask 4)) AND mask 12 = drop_bit 4 d AND mask 12"
    by (rule bit_word_eqI) (auto simp: bit_simps)
  moreover have "drop_bit 20 ((drop_bit 4 d AND mask 12) OR push_bit 20 (d AND mask 4 AND mask 4)) AND mask 4 = d AND mask 4"
    by (rule bit_word_eqI) (auto simp: bit_simps)
  moreover have "unat (drop_bit 4 d) = unat d div 16"
    by (simp add: unat_drop)
  moreover have "unat d div 16 < 4096"
    using assms by (intro less_mult_imp_div_less) simp
  ultimately show ?thesis
    unfolding clkdiv16_def m by (simp add: unat_and_mask)
qed

text \<open>The settings as a register word holds them.\<close>

lemma conf0_fields:
  "conf0_of t c AND UART_BIT_NUM = push_bit 2 (bit_num (t_csize t))"
  "conf0_of t c AND UART_STOP_BIT_NUM = (if t_cstopb t then 0x30 else 0x10)"
  "conf0_of t c AND UART_PARITY_EN = (if t_parenb t then UART_PARITY_EN else 0)"
  "conf0_of t c AND UART_PARITY = (if t_parenb t \<and> t_parodd t then UART_PARITY else 0)"
  "conf0_of t c AND UART_TX_FLOW_EN = (if t_crtscts t then UART_TX_FLOW_EN else 0)"
  "conf0_of t c AND NOT 0x203f = c AND NOT 0x203f"
proof -
  let ?k = "UART_PARITY_EN OR UART_PARITY OR UART_BIT_NUM OR UART_STOP_BIT_NUM OR UART_TX_FLOW_EN"
  let ?b = "(if t_parenb t then UART_PARITY_EN OR (if t_parodd t then UART_PARITY else 0) else 0) OR
      (push_bit 2 (bit_num (t_csize t)) OR (push_bit 4 (if t_cstopb t then 3 else 1) OR (if t_crtscts t then UART_TX_FLOW_EN else 0))) :: u32"
  have c: "conf0_of t c = (c AND NOT ?k) OR ?b"
  proof -
    have "2 OR (1 OR x) = (3 :: u32) OR x" for x
      by (simp flip: or.assoc)
    then show ?thesis
      by (auto simp: conf0_of_def or.assoc)
  qed
  have s: "conf0_of t c AND m = ?b AND m" if "m AND ?k = m" for m
    unfolding c by (rule field_sub [OF that])
  show "conf0_of t c AND UART_BIT_NUM = push_bit 2 (bit_num (t_csize t))"
    by (subst s) (simp_all add: bit_num_def split: csize.split)
  show "conf0_of t c AND UART_STOP_BIT_NUM = (if t_cstopb t then 0x30 else 0x10)"
    by (subst s) (simp_all add: bit_num_def split: csize.split)
  show "conf0_of t c AND UART_PARITY_EN = (if t_parenb t then UART_PARITY_EN else 0)"
    by (subst s) (simp_all add: bit_num_def split: csize.split)
  show "conf0_of t c AND UART_PARITY = (if t_parenb t \<and> t_parodd t then UART_PARITY else 0)"
    by (subst s) (simp_all add: bit_num_def split: csize.split)
  show "conf0_of t c AND UART_TX_FLOW_EN = (if t_crtscts t then UART_TX_FLOW_EN else 0)"
    by (subst s) (simp_all add: bit_num_def split: csize.split)
  have "?b AND NOT 0x203f = 0"
    by (simp add: bit_num_def split: csize.split)
  then show "conf0_of t c AND NOT 0x203f = c AND NOT 0x203f"
    unfolding c by (subst field_other) (simp_all)
qed

section \<open>Settings of a terminal\<close>

lemma write_regs [simp]:
  "reg \<noteq> UART_FIFO_REG \<Longrightarrow> p_regs (esp32_uart_write reg v p) = (p_regs p)(reg := v)"
  "reg \<noteq> UART_FIFO_REG \<Longrightarrow> p_tx (esp32_uart_write reg v p) = p_tx p"
  "p_uartclk (esp32_uart_write reg v p) = p_uartclk p"
  "p_rx (esp32_uart_write reg v p) = p_rx p"
  "p_tty (esp32_uart_write reg v p) = p_tty p"
  "p_brk (esp32_uart_write reg v p) = p_brk p"
  "p_count (esp32_uart_write reg v p) = p_count p"
  by (simp_all add: esp32_uart_write_def)

lemma read_regs [simp]: "reg \<noteq> UART_STATUS_REG \<Longrightarrow> esp32_uart_read reg p = p_regs p reg"
  by (simp add: esp32_uart_read_def)

text \<open>A rate is accepted exactly when its nearest divider fits; then the register holds it.\<close>

lemma set_baud_ok:
  assumes "esp32_uart_set_baud baud p = (ok, p')"
  shows "ok \<longleftrightarrow> baud \<noteq> 0 \<and> 128 \<le> unat (div16 (p_uartclk p) baud) \<and> unat (div16 (p_uartclk p) baud) \<le> 65535"
    and "\<not> ok \<Longrightarrow> p' = p"
    and "ok \<Longrightarrow> \<exists>w. p' = esp32_uart_write UART_CLKDIV_SYNC_REG w p \<and> clkdiv16 w = unat (div16 (p_uartclk p) baud)"
proof -
  let ?d = "div16 (p_uartclk p) baud"
  have d: "?d < ESP32_UART_DIV16_MIN \<longleftrightarrow> \<not> 128 \<le> unat ?d" "?d > ESP32_UART_DIV16_MAX \<longleftrightarrow> \<not> unat ?d \<le> 65535"
    by (auto simp: word_less_nat_alt)
  show ok: "ok \<longleftrightarrow> baud \<noteq> 0 \<and> 128 \<le> unat ?d \<and> unat ?d \<le> 65535"
    using assms unfolding esp32_uart_set_baud_def Let_def d by (auto split: if_splits)
  show "\<not> ok \<Longrightarrow> p' = p"
    using assms by (auto simp: esp32_uart_set_baud_def Let_def split: if_splits)
  assume "ok"
  then have "p' = esp32_uart_write UART_CLKDIV_SYNC_REG ((drop_bit 4 ?d AND 0xfff) OR push_bit 20 (?d AND 15 AND 0xf)) p"
    using assms by (auto simp: esp32_uart_set_baud_def Let_def split: if_splits)
  then show "\<exists>w. p' = esp32_uart_write UART_CLKDIV_SYNC_REG w p \<and> clkdiv16 w = unat ?d"
    using clkdiv16_of [of ?d] ok \<open>ok\<close> by blast
qed

text \<open>The divider nearest to a rate in 1/16 steps, without wrap-around, and whether the register
  can hold it.\<close>

definition near_div :: "u32 \<Rightarrow> u32 \<Rightarrow> nat" where
  "near_div clk baud = (unat clk * 16 + unat baud div 2) div unat baud"

definition baud_fits :: "u32 \<Rightarrow> u32 \<Rightarrow> bool" where
  "baud_fits clk baud \<longleftrightarrow> baud \<noteq> 0 \<and> 128 \<le> near_div clk baud \<and> near_div clk baud \<le> 65535"

lemma div16_near:
  assumes "unat clk < 2 ^ 27"
  shows "unat (div16 clk baud) = near_div clk baud"
proof -
  have "unat baud < 2 ^ 32"
    using unsigned_less [of baud] by simp
  then show ?thesis
    using assms by (simp add: div16_def near_div_def unat_div unat_word_ariths)
qed

lemma set_baud_fits:
  assumes "unat (p_uartclk p) < 2 ^ 27" and "esp32_uart_set_baud baud p = (ok, p')"
  shows "ok = baud_fits (p_uartclk p) baud" and "\<not> ok \<Longrightarrow> p' = p"
    and "ok \<Longrightarrow> \<exists>w. p' = esp32_uart_write UART_CLKDIV_SYNC_REG w p \<and> clkdiv16 w = near_div (p_uartclk p) baud"
  using set_baud_ok [OF assms(2)] div16_near [OF assms(1), of baud] unfolding baud_fits_def by auto

lemma range_fits:
  assumes "unat clk < 2 ^ 27" and "0 < clk" and "baud_min clk \<le> baud" and "baud \<le> baud_max clk"
  shows "baud_fits clk baud"
  using div16_fits [OF _ assms(3,4,2)] assms(1) div16_near [OF assms(1), of baud] by (auto simp: baud_fits_def)

text \<open>What a change of the settings does: the registers it writes, and the rate.\<close>

lemma set_termios_regs:
  assumes "unat (p_uartclk p) < 2 ^ 27"
    and "get_baud (t\<lparr>t_cmspar := False\<rparr>) (baud_min (p_uartclk p)) (baud_max (p_uartclk p)) = (t1, baud)"
    and "esp32_uart_set_termios get_baud t p = (t', timeout, p')"
  shows "\<exists>w. p' = p\<lparr>p_regs := (p_regs p)(UART_CONF0_SYNC_REG := conf0_of t1 (p_regs p UART_CONF0_SYNC_REG),
        UART_HWFC_CONF_SYNC_REG := if t_crtscts t1 then 0x178 else 0, UART_CLKDIV_SYNC_REG := w, UART_REG_UPDATE_REG := 1)\<rparr> \<and>
      (if baud_fits (p_uartclk p) baud then t' = t1 \<and> timeout = Some baud \<and> clkdiv16 w = near_div (p_uartclk p) baud
       else if baud_fits (p_uartclk p) 115200
       then t' = t1\<lparr>t_baud := 115200\<rparr> \<and> timeout = Some 115200 \<and> clkdiv16 w = near_div (p_uartclk p) 115200
       else t' = t1 \<and> timeout = (if baud \<noteq> 0 then Some baud else None) \<and> w = p_regs p UART_CLKDIV_SYNC_REG)"
proof -
  define q where "q = esp32_uart_write UART_HWFC_CONF_SYNC_REG (if t_crtscts t1 then 0x178 else 0)
      (esp32_uart_write UART_CONF0_SYNC_REG (conf0_of t1 (p_regs p UART_CONF0_SYNC_REG)) p)"
  have q: "q = p\<lparr>p_regs := (p_regs p)(UART_CONF0_SYNC_REG := conf0_of t1 (p_regs p UART_CONF0_SYNC_REG),
        UART_HWFC_CONF_SYNC_REG := if t_crtscts t1 then 0x178 else 0)\<rparr>" and clk: "p_uartclk q = p_uartclk p"
    by (simp_all add: q_def esp32_uart_write_def)
  obtain ok r where r: "esp32_uart_set_baud baud q = (ok, r)"
    by fastforce
  obtain ok2 r2 where r2: "esp32_uart_set_baud 115200 q = (ok2, r2)"
    by fastforce
  note f = set_baud_fits [of q, unfolded clk, OF assms(1) r] and f2 = set_baud_fits [of q, unfolded clk, OF assms(1) r2]
  have s: "(t', timeout, p') = (let (ok, p) = esp32_uart_set_baud baud q;
          (fallback, p) = (if ok then (False, p) else esp32_uart_set_baud 115200 p);
          (baud, t) = (if fallback then (115200, t1\<lparr>t_baud := 115200\<rparr>) else (baud, t1))
      in (t, if baud \<noteq> 0 then Some baud else None, esp32_uart_update p))"
    unfolding assms(3) [symmetric] esp32_uart_set_termios_def q_def by (simp add: Let_def assms(2))
  have t: "(t', timeout, p') = (if ok then (t1, if baud \<noteq> 0 then Some baud else None, esp32_uart_update r)
      else if ok2 then (t1\<lparr>t_baud := 115200\<rparr>, Some 115200, esp32_uart_update r2)
      else (t1, if baud \<noteq> 0 then Some baud else None, esp32_uart_update q))"
  proof (cases ok)
    case False
    then show ?thesis
      using f2(2) unfolding s r Let_def prod.case f(2) [OF False] by (simp add: r2)
  qed (simp add: s r)
  have u: "esp32_uart_update (esp32_uart_write UART_CLKDIV_SYNC_REG w q) = q\<lparr>p_regs := (p_regs q)(UART_CLKDIV_SYNC_REG := w, UART_REG_UPDATE_REG := 1)\<rparr>"
    "esp32_uart_update q = q\<lparr>p_regs := (p_regs q)(UART_CLKDIV_SYNC_REG := p_regs q UART_CLKDIV_SYNC_REG, UART_REG_UPDATE_REG := 1)\<rparr>" for w
    by (simp_all add: esp32_uart_update_def esp32_uart_write_def fun_eq_iff)
  consider (yes) "ok" | (fall) "\<not> ok" "ok2" | (keep) "\<not> ok" "\<not> ok2"
    by blast
  then show ?thesis
  proof cases
    case yes
    then have "baud \<noteq> 0"
      using f(1) by (simp add: baud_fits_def)
    then show ?thesis
      using yes f(1) f(3) [OF yes] t u(1) q by auto
  next
    case fall
    then show ?thesis
      using f(1) f2(1) f2(3) [OF fall(2)] t u(1) q by auto
  next
    case keep
    then show ?thesis
      using f(1) f2(1) t u(2) q by auto
  qed
qed

text \<open>C32: the settings of a terminal, for a clock below 134 MHz and any rate that the
  serial core gives.  The rate is accepted exactly when the nearest divider
  in 1/16 steps lies between 8 and 4095 15/16, and the register gets this divider; else 115200
  is tried in the same way and then also set in the terminal; else the divider stays.  The rates of the range which the
  driver gives to the serial core are all accepted (at 40 MHz the lowest is 9766; the
  comment at the limits of the divider says 9767).  Data bits, stop bits, parity
  and flow control reach their fields, all other bits of the register stay, and
  the values are latched.  No other register, and nothing else of the port, changes.\<close>

theorem uart_line_settings:
  assumes "unat (p_uartclk p) < 2 ^ 27"
    and "get_baud (t\<lparr>t_cmspar := False\<rparr>) (baud_min (p_uartclk p)) (baud_max (p_uartclk p)) = (t1, baud)"
    and "esp32_uart_set_termios get_baud t p = (t', timeout, p')"
  shows "(let d = clkdiv16 (p_regs p' UART_CLKDIV_SYNC_REG); near = near_div (p_uartclk p); n = unat (p_uartclk p) * 16; b = unat baud in
      (if baud_fits (p_uartclk p) baud then t' = t1 \<and> timeout = Some baud \<and> d = near baud \<and>
         d * b \<le> n + b div 2 \<and> n < d * b + (b + 1) div 2
       else if baud_fits (p_uartclk p) 115200 then t' = t1\<lparr>t_baud := 115200\<rparr> \<and> timeout = Some 115200 \<and> d = near 115200
       else t' = t1 \<and> timeout = (if baud \<noteq> 0 then Some baud else None) \<and>
         p_regs p' UART_CLKDIV_SYNC_REG = p_regs p UART_CLKDIV_SYNC_REG)) \<and>
    (0 < p_uartclk p \<and> baud_min (p_uartclk p) \<le> baud \<and> baud \<le> baud_max (p_uartclk p) \<longrightarrow> baud_fits (p_uartclk p) baud) \<and>
    (let c = p_regs p' UART_CONF0_SYNC_REG in
      c AND UART_BIT_NUM = push_bit 2 (bit_num (t_csize t1)) \<and>
      c AND UART_STOP_BIT_NUM = (if t_cstopb t1 then 0x30 else 0x10) \<and>
      c AND UART_PARITY_EN = (if t_parenb t1 then UART_PARITY_EN else 0) \<and>
      c AND UART_PARITY = (if t_parenb t1 \<and> t_parodd t1 then UART_PARITY else 0) \<and>
      c AND UART_TX_FLOW_EN = (if t_crtscts t1 then UART_TX_FLOW_EN else 0) \<and>
      c AND NOT 0x203f = p_regs p UART_CONF0_SYNC_REG AND NOT 0x203f) \<and>
    p_regs p' UART_HWFC_CONF_SYNC_REG = (if t_crtscts t1 then 0x178 else 0) \<and>
    p_regs p' UART_REG_UPDATE_REG = 1 \<and>
    (\<forall>reg. reg \<notin> {UART_CLKDIV_SYNC_REG, UART_CONF0_SYNC_REG, UART_HWFC_CONF_SYNC_REG, UART_REG_UPDATE_REG} \<longrightarrow>
      p_regs p' reg = p_regs p reg) \<and>
    p' = p\<lparr>p_regs := p_regs p'\<rparr>"
proof -
  obtain w where p': "p' = p\<lparr>p_regs := (p_regs p)(UART_CONF0_SYNC_REG := conf0_of t1 (p_regs p UART_CONF0_SYNC_REG),
        UART_HWFC_CONF_SYNC_REG := if t_crtscts t1 then 0x178 else 0, UART_CLKDIV_SYNC_REG := w, UART_REG_UPDATE_REG := 1)\<rparr>"
    and w: "if baud_fits (p_uartclk p) baud then t' = t1 \<and> timeout = Some baud \<and> clkdiv16 w = near_div (p_uartclk p) baud
       else if baud_fits (p_uartclk p) 115200
       then t' = t1\<lparr>t_baud := 115200\<rparr> \<and> timeout = Some 115200 \<and> clkdiv16 w = near_div (p_uartclk p) 115200
       else t' = t1 \<and> timeout = (if baud \<noteq> 0 then Some baud else None) \<and> w = p_regs p UART_CLKDIV_SYNC_REG"
    using set_termios_regs [OF assms] by blast
  have regs: "p_regs p' UART_CLKDIV_SYNC_REG = w" "p_regs p' UART_CONF0_SYNC_REG = conf0_of t1 (p_regs p UART_CONF0_SYNC_REG)"
    "p_regs p' UART_HWFC_CONF_SYNC_REG = (if t_crtscts t1 then 0x178 else 0)" "p_regs p' UART_REG_UPDATE_REG = 1" "p' = p\<lparr>p_regs := p_regs p'\<rparr>"
    and other: "\<forall>reg. reg \<notin> {UART_CLKDIV_SYNC_REG, UART_CONF0_SYNC_REG, UART_HWFC_CONF_SYNC_REG, UART_REG_UPDATE_REG} \<longrightarrow>
      p_regs p' reg = p_regs p reg"
    by (simp_all add: p')
  have near: "near_div (p_uartclk p) baud * unat baud \<le> unat (p_uartclk p) * 16 + unat baud div 2 \<and>
      unat (p_uartclk p) * 16 < near_div (p_uartclk p) baud * unat baud + (unat baud + 1) div 2" if "baud_fits (p_uartclk p) baud"
    using nearest [of "unat baud" "unat (p_uartclk p) * 16"] that
    unfolding near_div_def baud_fits_def by (simp add: unat_gt_0)
  have "0 < p_uartclk p \<and> baud_min (p_uartclk p) \<le> baud \<and> baud \<le> baud_max (p_uartclk p) \<longrightarrow> baud_fits (p_uartclk p) baud"
    using range_fits [OF assms(1)] by blast
  then show ?thesis
    unfolding Let_def regs(1-4) conf0_fields using w near regs(5) other by (auto split: if_splits)
qed

definition demo_port :: uart_port where
  "demo_port = \<lparr>p_regs = (\<lambda>_. 0x1000), p_uartclk = 40000000, p_tx = [], p_rx = [], p_tty = [], p_brk = 0, p_count = 0,
     p_pushed = False, p_clk_on = 1, p_irq = True\<rparr>"

definition demo_termios :: termios where
  "demo_termios = \<lparr>t_csize = CS8, t_cstopb = False, t_parenb = True, t_parodd = False, t_crtscts = True, t_cmspar = True, t_baud = 115200\<rparr>"

definition demo_set :: "termios \<times> u32 option \<times> uart_port" where
  "demo_set = esp32_uart_set_termios (\<lambda>t lo hi. (t, 115200)) demo_termios demo_port"

theorem uart_line_settings_witness:
  "fst (snd demo_set) = Some 115200 \<and> t_baud (fst demo_set) = 115200 \<and>
   clkdiv16 (p_regs (snd (snd demo_set)) UART_CLKDIV_SYNC_REG) = 5556 \<and>
   p_regs (snd (snd demo_set)) UART_CONF0_SYNC_REG AND NOT 0x203f = 0x1000"
proof -
  obtain t' timeout p' where s: "demo_set = (t', timeout, p')"
    by (rule prod_cases3)
  have "baud_fits (p_uartclk demo_port) 115200" "near_div (p_uartclk demo_port) 115200 = 5556"
    by (simp_all add: baud_fits_def near_div_def demo_port_def)
  then have "t' = demo_termios\<lparr>t_cmspar := False\<rparr> \<and> timeout = Some 115200 \<and> clkdiv16 (p_regs p' UART_CLKDIV_SYNC_REG) = 5556 \<and>
    p_regs p' UART_CONF0_SYNC_REG AND NOT 0x203f = p_regs demo_port UART_CONF0_SYNC_REG AND NOT 0x203f"
    using uart_line_settings [of demo_port "\<lambda>t lo hi. (t, 115200)" demo_termios "demo_termios\<lparr>t_cmspar := False\<rparr>" 115200 t' timeout p'] s
    unfolding demo_set_def Let_def by (simp add: demo_port_def)
  then show ?thesis
    by (simp add: s demo_termios_def demo_port_def)
qed

section \<open>The FIFOs\<close>

lemma tx_cnt:
  assumes "length (p_tx p) < 256"
  shows "unat (esp32_uart_tx_fifo_cnt p) = length (p_tx p)"
proof -
  have m: "(0xff :: u32) = mask 8" "(0xff00ff00 :: u32) = push_bit 8 (mask 8) OR push_bit 24 (mask 8)"
    by (simp_all add: mask_eq_exp_minus_1)
  have "esp32_uart_tx_fifo_cnt p = of_nat (length (p_tx p)) AND mask 8"
    unfolding esp32_uart_tx_fifo_cnt_def esp32_uart_read_def m
    by (simp only: refl if_True, rule bit_word_eqI) (auto simp: bit_simps)
  then show ?thesis
    using assms by (simp add: unat_and_mask unsigned_of_nat take_bit_nat_eq_self)
qed

lemma rx_cnt:
  assumes "length (p_rx p) < 256"
  shows "unat (esp32_uart_rx_fifo_cnt p) = length (p_rx p)"
proof -
  have m: "(0xff :: u32) = mask 8" "(0xff00ff00 :: u32) = push_bit 8 (mask 8) OR push_bit 24 (mask 8)"
    by (simp_all add: mask_eq_exp_minus_1)
  have "esp32_uart_rx_fifo_cnt p = of_nat (length (p_rx p)) AND mask 8"
    unfolding esp32_uart_rx_fifo_cnt_def esp32_uart_read_def m
    by (simp only: refl if_True, rule bit_word_eqI) (auto simp: bit_simps)
  then show ?thesis
    using assms by (simp add: unat_and_mask unsigned_of_nat take_bit_nat_eq_self)
qed

lemma put_char_tx: "esp32_uart_put_char c p = p\<lparr>p_tx := p_tx p @ [c]\<rparr>"
proof -
  have "ucast (ucast c :: u32) = c"
    by (rule bit_word_eqI) (auto simp: bit_simps)
  then show ?thesis
    by (simp add: esp32_uart_put_char_def esp32_uart_write_def)
qed

lemma put_chars: "fold esp32_uart_put_char cs p = p\<lparr>p_tx := p_tx p @ cs\<rparr>"
  by (induction cs arbitrary: p) (simp_all add: put_char_tx)

text \<open>How a word was read from the receive FIFO: by the poll of a debugger or of the early console,
  or by the interrupt, with the break bit of the interrupt status that was read for it and with whether the core took the
  character.  What became of the word follows.\<close>

datatype rx_read = Polled | Interrupt bool bool

datatype fate = Terminal | Break | Request | To_poller

fun word_fate :: "u32 \<times> rx_read \<Rightarrow> fate" where
  "word_fate (w, Polled) = To_poller"
| "word_fate (w, Interrupt brk sysrq) = (if w = 0 \<and> brk then Break else if sysrq then Request else Terminal)"

definition words_of :: "fate \<Rightarrow> (u32 \<times> rx_read) list \<Rightarrow> u32 list" where
  "words_of f reads = map fst (filter (\<lambda>x. word_fate x = f) reads)"

fun int_reads :: "(nat \<Rightarrow> bool) \<Rightarrow> (nat \<Rightarrow> u8 \<Rightarrow> bool) \<Rightarrow> nat \<Rightarrow> u32 list \<Rightarrow> (u32 \<times> rx_read) list" where
  "int_reads brk sysrq i [] = []"
| "int_reads brk sysrq i (w # ws) = (w, Interrupt (brk i) (sysrq i (ucast w))) # int_reads brk sysrq (i + 1) ws"

lemma words_of_append [simp]: "words_of f (xs @ ys) = words_of f xs @ words_of f ys"
  by (simp add: words_of_def)

lemma words_of_nil [simp]: "words_of f [] = []"
  by (simp add: words_of_def)

lemma int_reads_words [simp]: "map fst (int_reads brk sysrq i ws) = ws" "words_of To_poller (int_reads brk sysrq i ws) = []"
  by (induction ws arbitrary: i) (simp_all add: words_of_def)

lemma rx_loop_spec:
  assumes "n \<le> length (p_rx p)" and "rx_loop brk sysrq i n p = p'"
  defines "new \<equiv> int_reads brk sysrq i (take n (p_rx p))"
  shows "p_rx p' = drop n (p_rx p) \<and> p_tx p' = p_tx p \<and> p_tty p' = p_tty p @ map ucast (words_of Terminal new) \<and>
    p_brk p' = p_brk p + length (words_of Break new) \<and> p_count p' = p_count p + length (words_of Terminal new)"
  using assms(1,2) unfolding new_def
proof (induction n arbitrary: i p)
  case (Suc n)
  obtain w ws where w: "p_rx p = w # ws"
    using Suc.prems(1) by (cases "p_rx p") auto
  let ?q = "rx_one (brk i) (sysrq i) p"
  have q: "p_rx ?q = ws" "p_tx ?q = p_tx p"
    by (simp_all add: rx_one_def Let_def w)
  have n: "n \<le> length (p_rx ?q)"
    using Suc.prems(1) w unfolding q by simp
  have run: "rx_loop brk sysrq (i + 1) n ?q = p'"
    using Suc.prems(2) by simp
  have "p_tty ?q = p_tty p @ map ucast (words_of Terminal [(w, Interrupt (brk i) (sysrq i (ucast w)))])"
    "p_brk ?q = p_brk p + length (words_of Break [(w, Interrupt (brk i) (sysrq i (ucast w)))])"
    "p_count ?q = p_count p + length (words_of Terminal [(w, Interrupt (brk i) (sysrq i (ucast w)))])"
    by (auto simp: rx_one_def Let_def w words_of_def)
  then show ?case
    using Suc.IH [OF n run] words_of_append [of _ "[(w, Interrupt (brk i) (sysrq i (ucast w)))]" "int_reads brk sysrq (i + 1) (take n ws)"]
    unfolding q w by simp
qed simp

section \<open>A port at work\<close>

text \<open>The port, the bytes on the wire, the bytes that the serial core gave, the
  words that arrived, and the words that were read, each with how.\<close>

record uart_sys =
  s_port :: uart_port
  s_wire :: bytes
  s_given :: bytes
  s_arrived :: "u32 list"
  s_reads :: "(u32 \<times> rx_read) list"

definition tx_limit_ok :: "(nat \<Rightarrow> bytes \<times> nat) \<Rightarrow> bool" where
  "tx_limit_ok limited \<longleftrightarrow> (\<forall>n. length (fst (limited n)) \<le> n)"

text \<open>The characters that \<open>esp32_uart_transmit_buffer\<close> takes.\<close>

definition taken :: "(nat \<Rightarrow> bytes \<times> nat) \<Rightarrow> uart_port \<Rightarrow> bytes" where
  "taken limited p =
     (if length (p_tx p) \<ge> ESP32_UART_TX_FIFO_SIZE then [] else fst (limited (ESP32_UART_TX_FIFO_SIZE - length (p_tx p))))"

text \<open>The hardware sends a byte, receives a word into a FIFO of 128, and changes its
  interrupt status; the driver handles an interrupt, starts sending, writes a character for the
  console, polls a character, and changes settings.\<close>

inductive uart_step :: "uart_sys \<Rightarrow> uart_sys \<Rightarrow> bool" where
  hw_send: "p_tx (s_port s) = c # r \<Longrightarrow>
    uart_step s (s\<lparr>s_port := (s_port s)\<lparr>p_tx := r\<rparr>, s_wire := s_wire s @ [c]\<rparr>)"
| hw_receive: "length (p_rx (s_port s)) < 128 \<Longrightarrow>
    uart_step s (s\<lparr>s_port := (s_port s)\<lparr>p_rx := p_rx (s_port s) @ [w]\<rparr>, s_arrived := s_arrived s @ [w]\<rparr>)"
| hw_status: "uart_step s (s\<lparr>s_port := (s_port s)\<lparr>p_regs := (p_regs (s_port s))(UART_INT_ST_REG := v)\<rparr>\<rparr>)"
| irq: "tx_limit_ok limited \<Longrightarrow> esp32_uart_int brk sysrq limited (s_port s) = (handled, p') \<Longrightarrow>
    uart_step s (s\<lparr>s_port := p', s_given := s_given s @
        (if esp32_uart_read UART_INT_ST_REG (s_port s) AND UART_TXFIFO_EMPTY_INT \<noteq> 0 then taken limited (s_port s) else []),
      s_reads := s_reads s @
        (if esp32_uart_read UART_INT_ST_REG (s_port s) AND ESP32_UART_RX_INTS \<noteq> 0 then int_reads brk sysrq 0 (p_rx (s_port s)) else [])\<rparr>)"
| poll: "esp32_uart_poll_get_char (s_port s) = (c, p') \<Longrightarrow>
    uart_step s (s\<lparr>s_port := p', s_reads := s_reads s @ (case c of None \<Rightarrow> [] | Some w \<Rightarrow> [(w, Polled)])\<rparr>)"
| start_tx: "tx_limit_ok limited \<Longrightarrow>
    uart_step s (s\<lparr>s_port := esp32_uart_transmit_buffer limited (s_port s), s_given := s_given s @ taken limited (s_port s)\<rparr>)"
| put_char: "esp32_uart_put_char_sync [] c (s_port s) = (ok, p') \<Longrightarrow>
    uart_step s (s\<lparr>s_port := p', s_given := s_given s @ (if ok then [c] else [])\<rparr>)"
| settings: "uart_step s (s\<lparr>s_port := snd (snd (esp32_uart_set_termios get_baud t (s_port s)))\<rparr>)"
| mctrl: "uart_step s (s\<lparr>s_port := esp32_uart_set_mctrl v (s_port s)\<rparr>)"
| stop: "p' \<in> {esp32_uart_stop_tx (s_port s), esp32_uart_stop_rx (s_port s), esp32_uart_shutdown (s_port s),
      snd (esp32_uart_startup clk irq (s_port s)), snd (esp32_uart_poll_init clk (s_port s)), esp32_uart_console_exit (s_port s),
      snd (esp32s3_uart_early_console_setup membase baud (s_port s))} \<Longrightarrow>
    uart_step s (s\<lparr>s_port := p'\<rparr>)"

definition rx_inv :: "uart_port \<Rightarrow> u32 list \<Rightarrow> (u32 \<times> rx_read) list \<Rightarrow> bool" where
  "rx_inv p arrived reads \<longleftrightarrow> length (p_rx p) \<le> 128 \<and> arrived = map fst reads @ p_rx p \<and>
     p_tty p = map ucast (words_of Terminal reads) \<and> p_brk p = length (words_of Break reads) \<and>
     p_count p = length (words_of Terminal reads)"

definition uart_inv :: "uart_sys \<Rightarrow> bool" where
  "uart_inv s \<longleftrightarrow> length (p_tx (s_port s)) \<le> 127 \<and> s_wire s @ p_tx (s_port s) = s_given s \<and>
     rx_inv (s_port s) (s_arrived s) (s_reads s)"

text \<open>What the receive side of a port is.\<close>

definition rx_side :: "uart_port \<Rightarrow> u32 list \<times> bytes \<times> nat \<times> nat" where
  "rx_side p = (p_rx p, p_tty p, p_brk p, p_count p)"

lemma rx_inv_side: "rx_side p' = rx_side p \<Longrightarrow> rx_inv p' a r = rx_inv p a r"
  by (simp add: rx_inv_def rx_side_def)

lemma transmit_spec:
  assumes "tx_limit_ok limited" and "length (p_tx p) \<le> 127"
  shows "p_tx (esp32_uart_transmit_buffer limited p) = p_tx p @ taken limited p"
    and "length (p_tx p @ taken limited p) \<le> 127"
    and "rx_side (esp32_uart_transmit_buffer limited p) = rx_side p"
proof -
  have n: "unat (esp32_uart_tx_fifo_cnt p) = length (p_tx p)"
    using assms(2) by (intro tx_cnt) simp
  show "p_tx (esp32_uart_transmit_buffer limited p) = p_tx p @ taken limited p"
    "rx_side (esp32_uart_transmit_buffer limited p) = rx_side p"
    by (simp_all add: esp32_uart_transmit_buffer_def rx_side_def Let_def n taken_def put_chars split: prod.split)
  have "length (fst (limited (127 - length (p_tx p)))) \<le> 127 - length (p_tx p)"
    using assms(1) by (simp add: tx_limit_ok_def)
  then show "length (p_tx p @ taken limited p) \<le> 127"
    using assms(2) by (auto simp: taken_def)
qed

lemma rxint_spec:
  assumes "rx_inv p arrived reads" and "esp32_uart_rxint brk sysrq p = p'"
  shows "p_tx p' = p_tx p" and "rx_inv p' arrived (reads @ int_reads brk sysrq 0 (p_rx p))"
proof -
  have "length (p_rx p) < 256"
    using assms(1) by (simp add: rx_inv_def)
  note n = rx_cnt [OF this]
  have "p_tx p' = p_tx p \<and> rx_inv p' arrived (reads @ int_reads brk sysrq 0 (p_rx p))"
  proof (cases "esp32_uart_rx_fifo_cnt p = 0")
    case True
    then have "p_rx p = []"
      using n by simp
    then show ?thesis
      using True assms by (auto simp: esp32_uart_rxint_def)
  next
    case False
    then have "p' = (rx_loop brk sysrq 0 (length (p_rx p)) p)\<lparr>p_pushed := True\<rparr>"
      using assms(2) n by (simp add: esp32_uart_rxint_def)
    then show ?thesis
      using rx_loop_spec [OF order_refl refl, where p = p and brk = brk and sysrq = sysrq and i = 0] assms(1)
      by (simp add: rx_inv_def)
  qed
  then show "p_tx p' = p_tx p" "rx_inv p' arrived (reads @ int_reads brk sysrq 0 (p_rx p))"
    by blast+
qed

lemma poll_spec:
  assumes "rx_inv p arrived reads" and "esp32_uart_poll_get_char p = (c, p')"
  shows "p_tx p' = p_tx p" and "rx_inv p' arrived (reads @ (case c of None \<Rightarrow> [] | Some w \<Rightarrow> [(w, Polled)]))"
proof -
  have "length (p_rx p) < 256"
    using assms(1) by (simp add: rx_inv_def)
  from rx_cnt [OF this] have "esp32_uart_rx_fifo_cnt p \<noteq> 0 \<longleftrightarrow> p_rx p \<noteq> []"
    by (auto simp: unat_eq_0)
  then show "p_tx p' = p_tx p" "rx_inv p' arrived (reads @ (case c of None \<Rightarrow> [] | Some w \<Rightarrow> [(w, Polled)]))"
    using assms by (auto simp: esp32_uart_poll_get_char_def rx_inv_def words_of_def split: if_splits)
qed

lemma uart_inv_tx:
  assumes "uart_inv s" and "p_tx p' = p_tx (s_port s) @ cs" and "length (p_tx p') \<le> 127" and "rx_side p' = rx_side (s_port s)"
  shows "uart_inv (s\<lparr>s_port := p', s_given := s_given s @ cs\<rparr>)"
  using assms rx_inv_side [OF assms(4)] by (auto simp: uart_inv_def)

lemma uart_inv_same:
  assumes "uart_inv s" and "p_tx p' = p_tx (s_port s)" and "rx_side p' = rx_side (s_port s)"
  shows "uart_inv (s\<lparr>s_port := p'\<rparr>)"
  using assms rx_inv_side [OF assms(3)] by (auto simp: uart_inv_def)

lemma set_baud_same:
  assumes "esp32_uart_set_baud b p = (ok, p')"
  shows "p_tx p' = p_tx p" "p_rx p' = p_rx p" "p_tty p' = p_tty p" "p_brk p' = p_brk p" "p_count p' = p_count p"
  using assms by (auto simp: esp32_uart_set_baud_def Let_def split: if_splits)

lemma termios_same:
  "p_tx (snd (snd (esp32_uart_set_termios g t p))) = p_tx p"
  "rx_side (snd (snd (esp32_uart_set_termios g t p))) = rx_side p"
  by (auto simp: esp32_uart_set_termios_def esp32_uart_update_def rx_side_def Let_def set_baud_same split: prod.split if_splits)

lemma mctrl_same:
  "p_tx (esp32_uart_set_mctrl v p) = p_tx p" "rx_side (esp32_uart_set_mctrl v p) = rx_side p"
  by (simp_all add: esp32_uart_set_mctrl_def esp32_uart_update_def rx_side_def Let_def)

lemma stop_same:
  assumes "p' \<in> {esp32_uart_stop_tx p, esp32_uart_stop_rx p, esp32_uart_shutdown p, snd (esp32_uart_startup clk irq p),
      snd (esp32_uart_poll_init clk p), esp32_uart_console_exit p, snd (esp32s3_uart_early_console_setup membase baud p)}"
  shows "p_tx p' = p_tx p" "rx_side p' = rx_side p"
  using assms
  by (auto simp: esp32_uart_stop_tx_def esp32_uart_stop_rx_def esp32_uart_shutdown_def esp32_uart_startup_def esp32_uart_poll_init_def
      esp32_uart_console_exit_def esp32s3_uart_early_console_setup_def set_baud_same esp32_uart_update_def uart_clk_enable_def
      rx_side_def Let_def split: prod.split)

lemma write_side: "reg \<noteq> UART_FIFO_REG \<Longrightarrow> rx_side (esp32_uart_write reg v p) = rx_side p"
  by (simp add: rx_side_def)

text \<open>The two parts of an interrupt.\<close>

lemma int_inv:
  assumes inv: "uart_inv s" and lim: "tx_limit_ok limited" and int: "esp32_uart_int brk sysrq limited (s_port s) = (handled, p')"
  shows "uart_inv (s\<lparr>s_port := p', s_given := s_given s @
      (if esp32_uart_read UART_INT_ST_REG (s_port s) AND UART_TXFIFO_EMPTY_INT \<noteq> 0 then taken limited (s_port s) else []),
    s_reads := s_reads s @
      (if esp32_uart_read UART_INT_ST_REG (s_port s) AND ESP32_UART_RX_INTS \<noteq> 0 then int_reads brk sysrq 0 (p_rx (s_port s)) else [])\<rparr>)"
    (is "uart_inv (s\<lparr>s_port := p', s_given := s_given s @ (if ?tx then ?cs else []), s_reads := s_reads s @ (if ?rx then ?new else [])\<rparr>)")
proof -
  let ?p = "s_port s"
  define q where "q = (if ?rx then esp32_uart_rxint brk sysrq ?p else ?p)"
  define u where "u = (if ?tx then esp32_uart_transmit_buffer limited q else q)"
  have p': "p' = esp32_uart_write UART_INT_CLR_REG (esp32_uart_read UART_INT_ST_REG ?p) u"
    using int unfolding esp32_uart_int_def Let_def u_def q_def prod.inject by (elim conjE) (rule sym)
  have r: "rx_inv ?p (s_arrived s) (s_reads s)" and l: "length (p_tx ?p) \<le> 127" and wire: "s_wire s @ p_tx ?p = s_given s"
    using inv by (simp_all add: uart_inv_def)
  have q: "p_tx q = p_tx ?p" "rx_inv q (s_arrived s) (s_reads s @ (if ?rx then ?new else []))"
    using rxint_spec [OF r, of brk sysrq] r by (simp_all add: q_def)
  have lq: "length (p_tx q) \<le> 127" and "taken limited q = ?cs"
    using q(1) l by (simp_all add: taken_def)
  then have u: "p_tx u = p_tx ?p @ (if ?tx then ?cs else [])" "length (p_tx u) \<le> 127" "rx_side u = rx_side q"
    using transmit_spec [OF lim lq] q(1) by (simp_all add: u_def)
  have tx: "p_tx p' = p_tx u" and "rx_side p' = rx_side q"
    using u(3) by (simp_all add: p' write_side)
  from rx_inv_side [OF this(2)] have rx: "rx_inv p' (s_arrived s) (s_reads s @ (if ?rx then ?new else []))"
    using q(2) by blast
  define cs where "cs = (if ?tx then ?cs else [])"
  define new where "new = (if ?rx then ?new else [])"
  have "uart_inv (s\<lparr>s_port := p', s_given := s_given s @ cs, s_reads := s_reads s @ new\<rparr>)"
    using u(1,2) tx rx wire unfolding cs_def [symmetric] new_def [symmetric] by (simp add: uart_inv_def)
  then show ?thesis
    unfolding cs_def new_def .
qed

lemma uart_step_inv:
  assumes "uart_step s t" and inv: "uart_inv s"
  shows "uart_inv t"
  using assms(1)
proof cases
  case (irq limited brk sysrq handled p')
  then show ?thesis
    using int_inv [OF inv irq(2,3)] by simp
next
  case (poll c p')
  have "rx_inv (s_port s) (s_arrived s) (s_reads s)"
    using inv by (simp add: uart_inv_def)
  from poll_spec [OF this poll(2)] show ?thesis
    using inv unfolding poll(1) by (simp add: uart_inv_def)
next
  case (start_tx limited)
  have "length (p_tx (s_port s)) \<le> 127"
    using inv by (simp add: uart_inv_def)
  from transmit_spec [OF start_tx(2) this] show ?thesis
    unfolding start_tx(1) by (intro uart_inv_tx [OF inv]) simp_all
next
  case (put_char c ok p')
  have "unat (esp32_uart_tx_fifo_cnt (s_port s)) = length (p_tx (s_port s))"
    using inv by (intro tx_cnt) (simp add: uart_inv_def)
  then have "p_tx p' = p_tx (s_port s) @ (if ok then [c] else [])" "length (p_tx p') \<le> 127" "rx_side p' = rx_side (s_port s)"
    using put_char(2) inv by (auto simp: put_char_tx uart_inv_def rx_side_def split: if_splits)
  then show ?thesis
    unfolding put_char(1) by (intro uart_inv_tx [OF inv]) simp_all
next
  case (settings get_baud t)
  then show ?thesis
    by (simp add: uart_inv_same [OF inv] termios_same)
next
  case (mctrl v)
  then show ?thesis
    by (simp add: uart_inv_same [OF inv] mctrl_same)
next
  case (stop p' clk irq membase baud)
  show ?thesis
    unfolding stop(1) by (intro uart_inv_same [OF inv] stop_same [OF stop(2)])
qed (use inv in \<open>auto simp: uart_inv_def rx_inv_def\<close>)

text \<open>A console character with its waits is a sequence of these steps: the hardware
  sends in between, and the character is written or dropped at the end.\<close>

lemma hw_sends:
  "uart_step\<^sup>*\<^sup>* s (s\<lparr>s_port := (s_port s)\<lparr>p_tx := drop n (p_tx (s_port s))\<rparr>, s_wire := s_wire s @ take n (p_tx (s_port s))\<rparr>)"
proof (induction n arbitrary: s)
  case (Suc n)
  show ?case
  proof (cases "p_tx (s_port s)")
    case (Cons c r)
    let ?t = "s\<lparr>s_port := (s_port s)\<lparr>p_tx := r\<rparr>, s_wire := s_wire s @ [c]\<rparr>"
    have "uart_step\<^sup>*\<^sup>* s (?t\<lparr>s_port := (s_port ?t)\<lparr>p_tx := drop n (p_tx (s_port ?t))\<rparr>, s_wire := s_wire ?t @ take n (p_tx (s_port ?t))\<rparr>)"
      using hw_send [OF Cons] Suc [of ?t] by (rule converse_rtranclp_into_rtranclp)
    then show ?thesis
      by (simp add: Cons)
  next
    case Nil
    then have "s\<lparr>s_port := (s_port s)\<lparr>p_tx := drop n (p_tx (s_port s))\<rparr>, s_wire := s_wire s @ take n (p_tx (s_port s))\<rparr> = s" for n
      by (cases s; cases "s_port s") simp
    then show ?thesis
      by (simp only: rtranclp.rtrancl_refl)
  qed
qed simp

text \<open>A read of the early console is a sequence of polls.\<close>

lemma earlycon_read_steps:
  assumes "esp32_uart_earlycon_read n (s_port s) = (cs, p')"
  shows "\<exists>t. uart_step\<^sup>*\<^sup>* s t \<and> s_port t = p' \<and> (\<exists>ws. s_reads t = s_reads s @ map (\<lambda>w. (w, Polled)) ws \<and> cs = map ucast ws)"
  using assms
proof (induction n arbitrary: s cs)
  case (Suc n)
  obtain c q where c: "esp32_uart_poll_get_char (s_port s) = (c, q)"
    by fastforce
  let ?t = "s\<lparr>s_port := q, s_reads := s_reads s @ (case c of None \<Rightarrow> [] | Some w \<Rightarrow> [(w, Polled)])\<rparr>"
  have step: "uart_step s ?t"
    using c by (rule poll)
  show ?case
  proof (cases c)
    case None
    then show ?thesis
      using step Suc.prems c by (intro exI [of _ ?t]) auto
  next
    case (Some w)
    obtain ds where d: "esp32_uart_earlycon_read n (s_port ?t) = (ds, p')" "cs = ucast w # ds"
      using Suc.prems c Some by (auto split: prod.splits)
    obtain u ws where "uart_step\<^sup>*\<^sup>* ?t u" "s_port u = p'" "s_reads u = s_reads ?t @ map (\<lambda>w. (w, Polled)) ws" "ds = map ucast ws"
      using Suc.IH [OF d(1)] by blast
    then show ?thesis
      using step d(2) Some by (intro exI [of _ u] conjI exI [of _ "w # ws"]) (auto intro: converse_rtranclp_into_rtranclp)
  qed
qed auto

lemma put_sync_steps:
  assumes "esp32_uart_put_char_sync drained c (s_port s) = (ok, p')"
  shows "\<exists>t. uart_step\<^sup>*\<^sup>* s t \<and> s_port t = p' \<and> s_given t = s_given s @ (if ok then [c] else [])"
  using assms
proof (induction drained arbitrary: s)
  case Nil
  from put_char [OF Nil.prems] show ?case
    by (intro exI conjI, rule r_into_rtranclp) simp_all
next
  case (Cons n ns)
  show ?case
  proof (cases "unat (esp32_uart_tx_fifo_cnt (s_port s)) < ESP32_UART_TX_FIFO_SIZE")
    case True
    then have "esp32_uart_put_char_sync [] c (s_port s) = (ok, p')"
      using Cons.prems by simp
    from put_char [OF this] show ?thesis
      by (intro exI conjI, rule r_into_rtranclp) simp_all
  next
    case False
    let ?t = "s\<lparr>s_port := (s_port s)\<lparr>p_tx := drop n (p_tx (s_port s))\<rparr>, s_wire := s_wire s @ take n (p_tx (s_port s))\<rparr>"
    have "esp32_uart_put_char_sync ns c (s_port ?t) = (ok, p')"
      using Cons.prems False by simp
    from Cons.IH [OF this] obtain u where "uart_step\<^sup>*\<^sup>* ?t u" "s_port u = p'" "s_given u = s_given s @ (if ok then [c] else [])"
      by auto
    then show ?thesis
      by (intro exI [of _ u] conjI rtranclp_trans [OF hw_sends [of s n]])
  qed
qed

lemma words_fates:
  "set (words_of Break reads) \<subseteq> {0}"
  "length reads = length (words_of Terminal reads) + length (words_of Break reads) + length (words_of Request reads) +
    length (words_of To_poller reads)"
proof -
  have "w = 0" if "word_fate (w, r) = Break" for w r
    using that by (cases r) (auto split: if_splits)
  then show "set (words_of Break reads) \<subseteq> {0}"
    by (auto simp: words_of_def)
  show "length reads = length (words_of Terminal reads) + length (words_of Break reads) + length (words_of Request reads) +
    length (words_of To_poller reads)"
  proof (induction reads)
    case (Cons x reads)
    then show ?case
      by (cases "word_fate x") (simp_all add: words_of_def)
  qed simp
qed

text \<open>C33: the FIFOs.  Whatever the hardware, the serial core, the pollers and the driver do in
  whatever order, at most 127 bytes are in the transmit FIFO, and the wire gets exactly the bytes
  that the serial core gave, in order.  The words that arrived are those that were read, in order, and
  those in the receive FIFO.  Each word that was read has exactly one fate: the terminal gets exactly
  the characters of those read by the interrupt, in order, but for the breaks, which are the zero words
  read with the break bit in the interrupt status, and for the requests that the core takes for itself; breaks and characters are counted; and the
  words that were polled went to the poller.
  The serial core sends at most the number of characters which it is asked for.\<close>

theorem uart_fifos:
  assumes "uart_step\<^sup>*\<^sup>* \<lparr>s_port = p, s_wire = [], s_given = [], s_arrived = [], s_reads = []\<rparr> s"
    and "p_tx p = [] \<and> p_rx p = [] \<and> p_tty p = [] \<and> p_brk p = 0 \<and> p_count p = 0"
  shows "length (p_tx (s_port s)) \<le> ESP32_UART_TX_FIFO_SIZE \<and> s_wire s @ p_tx (s_port s) = s_given s \<and>
    s_arrived s = map fst (s_reads s) @ p_rx (s_port s) \<and>
    p_tty (s_port s) = map ucast (words_of Terminal (s_reads s)) \<and>
    p_brk (s_port s) = length (words_of Break (s_reads s)) \<and> set (words_of Break (s_reads s)) \<subseteq> {0} \<and>
    p_count (s_port s) = length (p_tty (s_port s)) \<and>
    length (s_reads s) = length (p_tty (s_port s)) + p_brk (s_port s) +
      length (words_of Request (s_reads s)) + length (words_of To_poller (s_reads s))"
proof -
  have "uart_inv s"
    using assms(1)
  proof (induction rule: rtranclp_induct)
    case base
    show ?case
      using assms(2) by (simp add: uart_inv_def rx_inv_def)
  next
    case (step t u)
    then show ?case
      by (blast intro: uart_step_inv)
  qed
  then show ?thesis
    using words_fates [of "s_reads s"] by (simp add: uart_inv_def rx_inv_def)
qed

definition demo_limited :: "nat \<Rightarrow> bytes \<times> nat" where
  "demo_limited n = (take n [0x41, 0x42], 2 - n)"

definition demo_uart :: uart_sys where
  "demo_uart = \<lparr>s_port = demo_port, s_wire = [], s_given = [], s_arrived = [], s_reads = []\<rparr>"

text \<open>Two characters are given and one is sent; one arrives and is polled.\<close>

lemma four_steps: "R a b \<Longrightarrow> R b c \<Longrightarrow> R c d \<Longrightarrow> R d e \<Longrightarrow> R\<^sup>*\<^sup>* a e"
  by (blast intro: converse_rtranclp_into_rtranclp)

theorem uart_fifos_witness:
  "\<exists>s. uart_step\<^sup>*\<^sup>* demo_uart s \<and> s_wire s = [0x41] \<and> p_tx (s_port s) = [0x42] \<and> s_wire s @ p_tx (s_port s) = s_given s \<and>
     s_arrived s = [0x43] \<and> s_reads s = [(0x43, Polled)] \<and> p_tty (s_port s) = []"
proof -
  have ok: "tx_limit_ok demo_limited"
    by (simp add: tx_limit_ok_def demo_limited_def)
  define s1 where "s1 = demo_uart\<lparr>s_port := esp32_uart_transmit_buffer demo_limited (s_port demo_uart),
      s_given := s_given demo_uart @ taken demo_limited (s_port demo_uart)\<rparr>"
  have 1: "uart_step demo_uart s1"
    unfolding s1_def by (rule start_tx [OF ok])
  have s1: "rx_side (s_port s1) = ([], [], 0, 0)" "p_tx (s_port s1) = [0x41, 0x42]" "s_wire s1 = []" "s_arrived s1 = []" "s_reads s1 = []"
    using transmit_spec(1,3) [OF ok, of demo_port]
    by (simp_all add: s1_def demo_uart_def demo_port_def rx_side_def taken_def demo_limited_def)
  define s2 where "s2 = s1\<lparr>s_port := (s_port s1)\<lparr>p_tx := [0x42]\<rparr>, s_wire := s_wire s1 @ [0x41]\<rparr>"
  have 2: "uart_step s1 s2"
    unfolding s2_def by (rule hw_send [OF s1(2)])
  define s3 where "s3 = s2\<lparr>s_port := (s_port s2)\<lparr>p_rx := p_rx (s_port s2) @ [0x43]\<rparr>, s_arrived := s_arrived s2 @ [0x43]\<rparr>"
  have 3: "uart_step s2 s3"
    unfolding s3_def by (rule hw_receive) (use s1(1) in \<open>simp add: s2_def rx_side_def\<close>)
  have s3: "p_rx (s_port s3) = [0x43]" "p_tx (s_port s3) = [0x42]" "p_tty (s_port s3) = []" "s_wire s3 = [0x41]" "s_arrived s3 = [0x43]" "s_reads s3 = []"
    using s1 by (simp_all add: s3_def s2_def rx_side_def)
  obtain c p' where g: "esp32_uart_poll_get_char (s_port s3) = (c, p')"
    by fastforce
  have "unat (esp32_uart_rx_fifo_cnt (s_port s3)) = 1"
    using rx_cnt [of "s_port s3"] s3(1) by simp
  then have "esp32_uart_rx_fifo_cnt (s_port s3) \<noteq> 0"
    by auto
  then have c: "c = Some 0x43" "p_tx p' = [0x42]" "p_tty p' = []"
    using g s3 by (auto simp: esp32_uart_poll_get_char_def)
  define s4 where "s4 = s3\<lparr>s_port := p', s_reads := s_reads s3 @ (case c of None \<Rightarrow> [] | Some w \<Rightarrow> [(w, Polled)])\<rparr>"
  have 4: "uart_step s3 s4"
    unfolding s4_def by (rule poll [OF g])
  have run: "uart_step\<^sup>*\<^sup>* demo_uart s4"
    by (rule four_steps [of uart_step, OF 1 2 3 4])
  have p: "p_tx demo_port = [] \<and> p_rx demo_port = [] \<and> p_tty demo_port = [] \<and> p_brk demo_port = 0 \<and> p_count demo_port = 0"
    by (simp add: demo_port_def)
  from uart_fifos [OF run [unfolded demo_uart_def] p] have "s_wire s4 @ p_tx (s_port s4) = s_given s4"
    by blast
  moreover have "s_wire s4 = [0x41]" "p_tx (s_port s4) = [0x42]" "s_arrived s4 = [0x43]" "s_reads s4 = [(0x43, Polled)]" "p_tty (s_port s4) = []"
    using c s3 by (simp_all add: s4_def)
  ultimately show ?thesis
    using run by blast
qed

end
