(* ===== verification/Boot_Loader.thy ===== *)
theory Boot_Loader
  imports Prelude
begin

text \<open>
  The boot loader on hart 0 (\<open>bootloader/main\<close>: \<open>main.c\<close>, \<open>display.c\<close>,
  \<open>radio_coex.c\<close>).  The flash partitions, the CRC of the ROM, the PSRAM size
  and the results of ESP-IDF are parameters.  Hardware accesses are a list of
  actions in order; the registers of ESP-IDF, whose addresses are not part of this
  repository, have the constructors of \<open>boot_reg\<close> as names.

  The lemmas show which kernel images are accepted and what the memory holds then,
  that hart 1 starts only after both images are in place and the cache lock is
  shared, which memory hart 0 is locked out of, and that the display ring covers the frame
  buffer exactly.
\<close>

section \<open>Addresses\<close>

abbreviation (input) PSRAM_BASE :: u32 where "PSRAM_BASE \<equiv> 0x50000000"
abbreviation (input) OPENSBI_LOAD_ADDR :: u32 where "OPENSBI_LOAD_ADDR \<equiv> 0x50F00000"
abbreviation (input) OPENSBI_LOAD_SIZE :: u32 where "OPENSBI_LOAD_SIZE \<equiv> 0x00030000"
abbreviation (input) KERNEL_LOAD_ADDR :: u32 where "KERNEL_LOAD_ADDR \<equiv> 0x50000000"
abbreviation (input) KERNEL_IMAGE_SIZE_OFFSET :: u32 where "KERNEL_IMAGE_SIZE_OFFSET \<equiv> 0x10"
abbreviation (input) KERNEL_MAGIC2_OFFSET :: u32 where "KERNEL_MAGIC2_OFFSET \<equiv> 0x38"
abbreviation (input) KERNEL_MAGIC2 :: u32 where "KERNEL_MAGIC2 \<equiv> 0x05435352"
abbreviation (input) KERNEL_SIZE_MAGIC :: u32 where "KERNEL_SIZE_MAGIC \<equiv> 0x455A4953"
abbreviation (input) PSRAM_PMA_SIZE :: u32 where "PSRAM_PMA_SIZE \<equiv> 0x01000000"
abbreviation (input) FW_PSRAM_HEAP_ADDR :: u32 where "FW_PSRAM_HEAP_ADDR \<equiv> 0x50E80000"

section \<open>Partitions\<close>

text \<open>A partition: its size, and what a read of \<open>n\<close> bytes at an offset returns, which
  is the success and the bytes that it wrote, also when it failed.\<close>

record partition =
  part_size :: u32
  part_read :: "nat \<Rightarrow> nat \<Rightarrow> bool \<times> bytes"

record kernel_size_manifest =
  mf_magic :: u32
  mf_image_size :: u32
  mf_image_crc32 :: u32

definition manifest_of :: "bytes \<Rightarrow> kernel_size_manifest" where
  "manifest_of bs = \<lparr>mf_magic = get_le32 bs, mf_image_size = get_le32 (drop 4 bs), mf_image_crc32 = get_le32 (drop 8 bs)\<rparr>"

definition read_partition :: "partition \<Rightarrow> u32 \<Rightarrow> u32 \<Rightarrow> mem \<Rightarrow> bool \<times> mem" where
  "read_partition part addr sz m = (let (ok, bs) = part_read part 0 (unat sz) in (ok, store_bytes m (unat addr) bs))"

definition get_le64 :: "bytes \<Rightarrow> u64" where
  "get_le64 bs = ucast (get_le32 bs) OR push_bit 32 (ucast (get_le32 (drop 4 bs)))"

text \<open>\<open>size_t\<close> and the addresses have 32 bits and wrap; the last comparison has 64 bits.\<close>

definition load_kernel_partition :: "(bytes \<Rightarrow> u32) \<Rightarrow> u32 \<Rightarrow> partition option \<Rightarrow> mem \<Rightarrow> bool \<times> mem" where
  "load_kernel_partition crc32_le psram_size linux m =
     (case linux of
        None \<Rightarrow> (False, m)
      | Some part \<Rightarrow>
          let (ok, bs) = part_read part (unat (part_size part - 12)) 12;
              manifest = manifest_of bs
          in if \<not> ok \<or> mf_magic manifest \<noteq> KERNEL_SIZE_MAGIC \<or> mf_image_size manifest < KERNEL_MAGIC2_OFFSET + 4 \<or>
                mf_image_size manifest > part_size part - 12
             then (False, m)
             else let image_size = mf_image_size manifest in
               if KERNEL_LOAD_ADDR + image_size > PSRAM_BASE + psram_size then (False, m)
               else let (ok, m) = read_partition part KERNEL_LOAD_ADDR image_size m in
                 if \<not> ok then (False, m)
                 else if crc32_le (load_bytes m (unat KERNEL_LOAD_ADDR) (unat image_size)) \<noteq> mf_image_crc32 manifest then (False, m)
                 else if load32 m (unat (KERNEL_LOAD_ADDR + KERNEL_MAGIC2_OFFSET)) \<noteq> KERNEL_MAGIC2 then (False, m)
                 else let memory_size = get_le64 (load_bytes m (unat (KERNEL_LOAD_ADDR + KERNEL_IMAGE_SIZE_OFFSET)) 8) in
                   if memory_size < ucast image_size \<or> ucast KERNEL_LOAD_ADDR + memory_size > (ucast FW_PSRAM_HEAP_ADDR :: u64)
                   then (False, m) else (True, m))"


section \<open>Protection\<close>

datatype apm = CPU_APM | HP_APM | HP_MEM_APM

datatype boot_reg = Region0_start apm | Region0_end apm | Region0_attr apm | Region_filter_en apm | Func_ctrl apm
  | Fmem_pms_attr bool nat | Smem_pms_attr bool nat | Status_clr apm nat

text \<open>An entry of the PMP: the address as the end of a range, or a naturally aligned range.\<close>

datatype pmp_addr = Tor u32 | Napot u32 u32

datatype boot_act =
    Reg_write boot_reg u32
  | Disable_watchdog nat
  | Random_enable
  | Add_heap u32 u32
  | Display_start
  | Hosted_start
  | Radio_start
  | Coex_enable
  | Coex_disable
  | Stack_protector_off nat
  | Cache_writeback_all
  | Cache_invalidate_all
  | Fence_i
  | Share_cache
  | Start_hart nat
  | Pmp_set nat pmp_addr "bool option"
  | Log_errors_only
  | Restart












section \<open>Coexistence of the radios\<close>

text \<open>The static \<open>s_rx_on\<close>, and the calls of the wrapped functions of OpenThread.\<close>

definition set_rx :: "bool \<Rightarrow> bool \<Rightarrow> boot_act list \<times> bool" where
  "set_rx on rx_on = (if rx_on = on then ([], rx_on) else ([if on then Coex_enable else Coex_disable], on))"

datatype radio_call = Radio_receive | Radio_sleep | Radio_disable

definition wrap_radio :: "radio_call \<Rightarrow> bool \<Rightarrow> boot_act list \<times> bool" where
  "wrap_radio c rx_on = (case c of Radio_receive \<Rightarrow> set_rx True rx_on | _ \<Rightarrow> set_rx False rx_on)"

section \<open>Display\<close>

abbreviation (input) LCD_FB_ADDR :: u32 where "LCD_FB_ADDR \<equiv> 0x50F40000"
abbreviation (input) LCD_H_RES :: nat where "LCD_H_RES \<equiv> 800"
abbreviation (input) LCD_V_RES :: nat where "LCD_V_RES \<equiv> 480"
abbreviation (input) LCD_FB_SIZE :: nat where "LCD_FB_SIZE \<equiv> 768000"

definition colors :: "u16 list" where
  "colors = [0xFFFF, 0xFFE0, 0x07FF, 0x07E0, 0xF81F, 0xF800, 0x001F, 0x0000]"

text \<open>The frame buffer as 16-bit pixels.\<close>

definition color_row :: "nat \<Rightarrow> (nat \<Rightarrow> u16) \<Rightarrow> nat \<Rightarrow> u16" where
  "color_row y fb = fold (\<lambda>x fb. fb(y * LCD_H_RES + x := colors ! (x * 8 div LCD_H_RES))) [0..<LCD_H_RES] fb"

definition fill_color_bars :: "(nat \<Rightarrow> u16) \<Rightarrow> nat \<Rightarrow> u16" where
  "fill_color_bars fb = fold color_row [0..<LCD_V_RES] fb"

text \<open>\<open>chunk_size\<close>: the most that a descriptor of ESP-IDF takes.\<close>

record dma_descriptor =
  dd_size :: nat
  dd_length :: nat
  dd_eof :: bool
  dd_buffer :: nat
  dd_next :: nat

definition LCD_DMA_NODE_COUNT :: "nat \<Rightarrow> nat" where
  "LCD_DMA_NODE_COUNT chunk_size = (LCD_FB_SIZE + chunk_size - 1) div chunk_size"

fun dma_link_loop :: "nat \<Rightarrow> nat \<Rightarrow> nat \<Rightarrow> nat \<Rightarrow> dma_descriptor list" where
  "dma_link_loop chunk_size i 0 offset = []"
| "dma_link_loop chunk_size i (Suc n) offset =
     (let chunk = LCD_FB_SIZE - offset;
          chunk = (if chunk > chunk_size then chunk_size else chunk);
          count = LCD_DMA_NODE_COUNT chunk_size
      in \<lparr>dd_size = chunk, dd_length = chunk, dd_eof = (i = count - 1), dd_buffer = unat LCD_FB_ADDR + offset, dd_next = (i + 1) mod count\<rparr>
         # dma_link_loop chunk_size (i + 1) n (offset + chunk))"

definition build_dma_link :: "nat \<Rightarrow> dma_descriptor list" where
  "build_dma_link chunk_size = dma_link_loop chunk_size 0 (LCD_DMA_NODE_COUNT chunk_size) 0"

text \<open>\<open>sel i\<close>: the peripheral of the i-th of \<open>n\<close> channels.\<close>

definition find_lcd_dma_channel :: "nat \<Rightarrow> (nat \<Rightarrow> nat) \<Rightarrow> nat \<Rightarrow> int" where
  "find_lcd_dma_channel lcd sel n = (case find (\<lambda>channel. sel channel = lcd) [0..<n] of None \<Rightarrow> -1 | Some channel \<Rightarrow> int channel)"

text \<open>The driver of the panel: what it creates, what it leaves, and the start of the ring.\<close>

datatype lcd_act = New_panel | Init_panel | Delete_panel | Write_link "dma_descriptor list" | Silence_interrupts int | Start_link int

definition display_init :: "bool \<Rightarrow> bool \<Rightarrow> nat \<Rightarrow> nat \<Rightarrow> (nat \<Rightarrow> nat) \<Rightarrow> nat \<Rightarrow> (nat \<Rightarrow> u16) \<Rightarrow> bool \<times> lcd_act list \<times> (nat \<Rightarrow> u16)" where
  "display_init new_ok init_ok chunk_size lcd sel n fb =
     (let fb = fill_color_bars fb
      in if \<not> new_ok then (False, [New_panel], fb)
         else if \<not> init_ok then (False, [New_panel, Init_panel, Delete_panel], fb)
         else let channel = find_lcd_dma_channel lcd sel n
         in if channel < 0 then (False, [New_panel, Init_panel, Delete_panel], fb)
            else (True, [New_panel, Init_panel, Write_link (build_dma_link chunk_size), Silence_interrupts channel, Start_link channel], fb))"

text \<open>The calls on the registers of the LCD and its DMA channel.\<close>

datatype lcd_call =
    Lcd_interrupts bool
  | Lcd_clear_interrupts u32
  | Dma_interrupts int u32 bool
  | Dma_clear_interrupts int u32
  | Lcd_auto_next_frame bool
  | Lcd_reset
  | Lcd_fifo_reset
  | Dma_reset int
  | Dma_desc_addr int u32
  | Dma_start int
  | Delay_us nat
  | Lcd_start

abbreviation (input) LCD_DMA_LINK_ADDR :: u32 where "LCD_DMA_LINK_ADDR \<equiv> 0x2F079000"

definition silence_lcd_interrupts :: "int \<Rightarrow> lcd_call list" where
  "silence_lcd_interrupts channel =
     [Lcd_interrupts False, Lcd_clear_interrupts 0xFFFFFFFF, Dma_interrupts channel 0xFFFFFFFF False, Dma_clear_interrupts channel 0xFFFFFFFF]"

definition start_dma_link :: "int \<Rightarrow> lcd_call list" where
  "start_dma_link channel =
     [Lcd_auto_next_frame True, Lcd_reset, Lcd_fifo_reset, Dma_reset channel, Dma_desc_addr channel LCD_DMA_LINK_ADDR,
      Dma_start channel, Delay_us 1, Lcd_start]"

fun lcd_calls :: "lcd_act \<Rightarrow> lcd_call list" where
  "lcd_calls (Silence_interrupts channel) = silence_lcd_interrupts channel"
| "lcd_calls (Start_link channel) = start_dma_link channel"
| "lcd_calls _ = []"

text \<open>A display that starts has one channel below the number of channels, its ring is written
  before the first call, its interrupts are off before the channel runs, and the channel runs
  before the LCD.\<close>

lemma display_starts:
  assumes "display_init new_ok init_ok chunk lcd sel n fb = (True, acts, fb')"
  shows "\<exists>ch < n. sel ch = lcd \<and> acts = [New_panel, Init_panel, Write_link (build_dma_link chunk), Silence_interrupts (int ch), Start_link (int ch)] \<and>
     concat (map lcd_calls acts) = silence_lcd_interrupts (int ch) @ start_dma_link (int ch)"
  using assms
  by (auto simp: display_init_def find_lcd_dma_channel_def find_Some_iff Let_def split: if_splits option.splits)

text \<open>\<open>board_start_display\<close> of the two boards: on the Korvo-1 the pins of the USB console
  (\<open>usb\<close>) are also pins of the panel, and a display that fails does not stop the start.\<close>

definition korvo1_start_display :: "bool \<Rightarrow> bool \<Rightarrow> bool \<Rightarrow> nat \<Rightarrow> nat \<Rightarrow> (nat \<Rightarrow> nat) \<Rightarrow> nat \<Rightarrow> (nat \<Rightarrow> u16) \<Rightarrow> lcd_act list \<times> (nat \<Rightarrow> u16)" where
  "korvo1_start_display usb new_ok init_ok chunk_size lcd sel n fb =
     (if usb then ([], fb) else snd (display_init new_ok init_ok chunk_size lcd sel n fb))"

definition esp32s31_start_display :: "(nat \<Rightarrow> u16) \<Rightarrow> lcd_act list \<times> (nat \<Rightarrow> u16)" where
  "esp32s31_start_display fb = ([], fb)"

section \<open>The entry of hart 1\<close>

text \<open>The entry 2 of its PMA (base, size), the registers \<open>a0\<close> and \<open>a1\<close>, and where it jumps.\<close>

record hart_entry =
  he_pma :: "nat \<times> u32 \<times> u32"
  he_a0 :: u32
  he_a1 :: u32
  he_pc :: u32

definition linux_hart_entry :: hart_entry where
  "linux_hart_entry = \<lparr>he_pma = (2, PSRAM_BASE, PSRAM_PMA_SIZE), he_a0 = 1, he_a1 = 0, he_pc = OPENSBI_LOAD_ADDR\<rparr>"

text \<open>\<open>start_linux_hart\<close>: its calls, the last with the code that the hart then runs.\<close>

datatype hart_call = Cpu_unstall nat | App_cpu_clock_and_reset | App_cpu_boot_addr hart_entry

definition start_linux_hart :: "hart_call list" where
  "start_linux_hart = [Cpu_unstall 1, App_cpu_clock_and_reset, App_cpu_boot_addr linux_hart_entry]"

section \<open>Which kernels are accepted\<close>

text \<open>A partition with the content \<open>flash\<close>: reads may fail, but one that succeeds
  returns the content, none writes more than was asked for, and one outside the partition fails.\<close>

definition holds :: "partition \<Rightarrow> mem \<Rightarrow> bool" where
  "holds part flash \<longleftrightarrow>
     (\<forall>off n. case part_read part off n of (ok, bs) \<Rightarrow>
        length bs \<le> n \<and> (ok \<longrightarrow> off + n \<le> unat (part_size part) \<and> bs = load_bytes flash off n))"

definition kernel_size :: "partition \<Rightarrow> mem \<Rightarrow> nat" where
  "kernel_size part flash = unat (load32 flash (unat (part_size part) - 8))"

text \<open>The image in the flash, in plain arithmetic.\<close>

definition kernel_valid :: "(bytes \<Rightarrow> u32) \<Rightarrow> u32 \<Rightarrow> partition \<Rightarrow> mem \<Rightarrow> bool" where
  "kernel_valid crc psram_size part flash \<longleftrightarrow>
     (let end = unat (part_size part); n = kernel_size part flash; mem_size = unat (get_le64 (load_bytes flash 0x10 8)) in
      12 \<le> end \<and> load32 flash (end - 12) = KERNEL_SIZE_MAGIC \<and> 60 \<le> n \<and> n \<le> end - 12 \<and> n \<le> unat psram_size \<and>
      crc (load_bytes flash 0 n) = load32 flash (end - 4) \<and> load32 flash 0x38 = KERNEL_MAGIC2 \<and>
      n \<le> mem_size \<and> (mem_size \<le> 0xE80000 \<or> 2 ^ 64 - 0x50000000 \<le> mem_size))"

definition kernel_reads :: "partition \<Rightarrow> mem \<Rightarrow> bool" where
  "kernel_reads part flash \<longleftrightarrow> fst (part_read part (unat (part_size part) - 12) 12) \<and> fst (part_read part 0 (kernel_size part flash))"

text \<open>The entry is the start of the loaded window, and the memory that hart 1 may
  write holds the window and everything up to the heap of hart 0.\<close>

lemma hart_entry_window:
  "he_pc linux_hart_entry = OPENSBI_LOAD_ADDR"
  "case he_pma linux_hart_entry of (_, base, len) \<Rightarrow>
     unat base \<le> unat KERNEL_LOAD_ADDR \<and> unat FW_PSRAM_HEAP_ADDR \<le> unat base + unat len \<and>
     unat base \<le> unat OPENSBI_LOAD_ADDR \<and> unat OPENSBI_LOAD_ADDR + unat OPENSBI_LOAD_SIZE \<le> unat base + unat len"
  by (simp_all add: linux_hart_entry_def)

lemma display_failed: "display_init a b chunk lcd sel n fb = (False, acts, fb') \<Longrightarrow> Delete_panel \<in> set acts \<longleftrightarrow> a"
  by (auto simp: display_init_def Let_def split: if_splits)

lemma load_sub: "k + n \<le> len \<Longrightarrow> take n (drop k (load_bytes m a len)) = load_bytes m (a + k) n"
  by (rule nth_equalityI) (simp_all add: nth_load_bytes ac_simps)

lemma get_le32_take: "get_le32 (take (Suc (Suc (Suc (Suc n)))) bs) = get_le32 bs"
  by (cases bs rule: get_le32.cases) simp_all

lemma get_le32_load: "4 + k \<le> n \<Longrightarrow> get_le32 (drop k (load_bytes m a n)) = load32 m (a + k)"
  using load_sub [of k 4 n m a] get_le32_take [of 0 "drop k (load_bytes m a n)"]
  by (simp add: load32_def numeral_eq_Suc)

lemma load32_copy:
  assumes "load_bytes m a n = load_bytes f b n" and "k + 4 \<le> n"
  shows "load32 m (a + k) = load32 f (b + k)"
  using assms get_le32_load [of k n m a] get_le32_load [of k n f b] by simp

lemma load_bytes_copy:
  assumes "load_bytes m a n = load_bytes f b n" and "k + j \<le> n"
  shows "load_bytes m (a + k) j = load_bytes f (b + k) j"
  using assms load_sub [of k j n m a] load_sub [of k j n f b] by simp

lemma mem_size_check:
  "(ucast KERNEL_LOAD_ADDR + (v :: u64) > ucast FW_PSRAM_HEAP_ADDR) \<longleftrightarrow> \<not> (unat v \<le> 0xE80000 \<or> 2 ^ 64 - 0x50000000 \<le> unat v)"
proof -
  have v: "unat v < 2 ^ 64"
    using unat_below [of v] by simp
  show ?thesis
  proof (cases "unat v < 2 ^ 64 - 0x50000000")
    case True
    then have "unat (0x50000000 + v) = 0x50000000 + unat v"
      by (simp add: unat_word_ariths)
    then show ?thesis
      using True by (auto simp: word_less_nat_alt)
  next
    case False
    then have "unat (0x50000000 + v) = 0x50000000 + unat v - 2 ^ 64"
      using v by (simp add: unat_word_ariths mod_if)
    then show ?thesis
      using False v by (auto simp: word_less_nat_alt)
  qed
qed

lemma image_size_check:
  assumes "unat psram_size \<le> 2 ^ 28" and "unat n \<le> 2 ^ 28"
  shows "KERNEL_LOAD_ADDR + n > PSRAM_BASE + psram_size \<longleftrightarrow> \<not> unat n \<le> unat psram_size"
  using assms by (simp add: word_less_nat_alt unat_word_ariths not_le)

lemma get_le64_eq: "get_le64 (load_bytes m a 8) = ucast (load32 m a) OR push_bit 32 (ucast (load32 m (a + 4)))"
  using get_le32_load [of 0 8 m a] get_le32_load [of 4 8 m a] by (simp add: get_le64_def)

lemma manifest_load:
  "manifest_of (load_bytes flash a 12) =
    \<lparr>mf_magic = load32 flash a, mf_image_size = load32 flash (a + 4), mf_image_crc32 = load32 flash (a + 8)\<rparr>"
  using get_le32_load [of 0 12 flash a] get_le32_load [of 4 12 flash a] get_le32_load [of 8 12 flash a] by (simp add: manifest_of_def)

text \<open>The part after the checks of the manifest.\<close>

definition kernel_copy :: "(bytes \<Rightarrow> u32) \<Rightarrow> u32 \<Rightarrow> partition \<Rightarrow> u32 \<Rightarrow> u32 \<Rightarrow> mem \<Rightarrow> bool \<times> mem" where
  "kernel_copy crc psram_size part n c m =
     (if KERNEL_LOAD_ADDR + n > PSRAM_BASE + psram_size then (False, m)
      else let (ok, m) = read_partition part KERNEL_LOAD_ADDR n m in
        if \<not> ok then (False, m)
        else if crc (load_bytes m (unat KERNEL_LOAD_ADDR) (unat n)) \<noteq> c then (False, m)
        else if load32 m (unat (KERNEL_LOAD_ADDR + KERNEL_MAGIC2_OFFSET)) \<noteq> KERNEL_MAGIC2 then (False, m)
        else let memory_size = get_le64 (load_bytes m (unat (KERNEL_LOAD_ADDR + KERNEL_IMAGE_SIZE_OFFSET)) 8) in
          if memory_size < ucast n \<or> ucast KERNEL_LOAD_ADDR + memory_size > (ucast FW_PSRAM_HEAP_ADDR :: u64)
          then (False, m) else (True, m))"

lemma kernel_copy_spec:
  assumes h: "holds part flash" and sz: "unat psram_size \<le> 2 ^ 28" "unat n \<le> 2 ^ 28" "60 \<le> unat n"
    and l: "kernel_copy crc psram_size part n c m = (ok, m')"
  shows "ok \<longleftrightarrow> fst (part_read part 0 (unat n)) \<and> unat n \<le> unat psram_size \<and> crc (load_bytes flash 0 (unat n)) = c \<and>
      load32 flash 0x38 = KERNEL_MAGIC2 \<and> unat n \<le> unat (get_le64 (load_bytes flash 0x10 8)) \<and>
      (unat (get_le64 (load_bytes flash 0x10 8)) \<le> 0xE80000 \<or> 2 ^ 64 - 0x50000000 \<le> unat (get_le64 (load_bytes flash 0x10 8)))"
    and "ok \<Longrightarrow> load_bytes m' 0x50000000 (unat n) = load_bytes flash 0 (unat n)"
    and "i < 0x50000000 \<or> 0x50000000 + min (unat n) (unat psram_size) \<le> i \<Longrightarrow> m' i = m i"
proof -
  obtain ok2 bs where r: "part_read part 0 (unat n) = (ok2, bs)"
    by fastforce
  have bs: "length bs \<le> unat n" "ok2 \<Longrightarrow> bs = load_bytes flash 0 (unat n)"
    using h r by (auto simp: holds_def split: prod.splits dest!: spec [of _ "0 :: nat"] spec [of _ "unat n"])
  define m2 where "m2 = store_bytes m 0x50000000 bs"
  have out: "m2 i = m i" if "i < 0x50000000 \<or> 0x50000000 + min (unat n) (unat psram_size) \<le> i" "unat n \<le> unat psram_size" for i
    unfolding m2_def using that bs(1) by (intro store_bytes_out) auto
  have same: "load_bytes m2 0x50000000 (unat n) = load_bytes flash 0 (unat n)" if ok2
    using load_store_same [of m "0x50000000" bs] bs(2) [OF that] by (simp add: m2_def)
  have magic: "load32 m2 0x50000038 = load32 flash 0x38" and mems: "load_bytes m2 0x50000010 8 = load_bytes flash 0x10 8" if ok2
    using load32_copy [OF same [OF that], of "0x38"] load_bytes_copy [OF same [OF that], of "0x10" 8] sz(3) by simp_all
  have cmp: "v < ucast n \<longleftrightarrow> \<not> unat n \<le> unat v" for v :: u64
    by (simp add: word_less_nat_alt unat_ucast_up not_le)
  have adr: "unat KERNEL_LOAD_ADDR = 0x50000000" "unat (KERNEL_LOAD_ADDR + KERNEL_MAGIC2_OFFSET) = 0x50000038"
      "unat (KERNEL_LOAD_ADDR + KERNEL_IMAGE_SIZE_OFFSET) = 0x50000010"
    by simp_all
  let ?ms = "unat (get_le64 (load_bytes m2 0x50000010 8))"
  have "(ok, m') = (if \<not> unat n \<le> unat psram_size then (False, m)
      else if \<not> ok2 then (False, m2)
      else if crc (load_bytes m2 0x50000000 (unat n)) \<noteq> c then (False, m2)
      else if load32 m2 0x50000038 \<noteq> KERNEL_MAGIC2 then (False, m2)
      else if \<not> unat n \<le> ?ms \<or> \<not> (?ms \<le> 0xE80000 \<or> 2 ^ 64 - 0x50000000 \<le> ?ms) then (False, m2) else (True, m2))"
    unfolding l [symmetric] kernel_copy_def image_size_check [OF sz(1,2)] read_partition_def r Let_def prod.case adr cmp mem_size_check
      m2_def [symmetric] by (rule refl)
  then show "ok \<longleftrightarrow> fst (part_read part 0 (unat n)) \<and> unat n \<le> unat psram_size \<and> crc (load_bytes flash 0 (unat n)) = c \<and>
      load32 flash 0x38 = KERNEL_MAGIC2 \<and> unat n \<le> unat (get_le64 (load_bytes flash 0x10 8)) \<and>
      (unat (get_le64 (load_bytes flash 0x10 8)) \<le> 0xE80000 \<or> 2 ^ 64 - 0x50000000 \<le> unat (get_le64 (load_bytes flash 0x10 8)))"
    and "ok \<Longrightarrow> load_bytes m' 0x50000000 (unat n) = load_bytes flash 0 (unat n)"
    and "i < 0x50000000 \<or> 0x50000000 + min (unat n) (unat psram_size) \<le> i \<Longrightarrow> m' i = m i"
    using same magic mems out [of i] by (simp_all add: r split: if_splits)
qed

lemma kernel_load:
  assumes h: "holds part flash" and sz: "unat (part_size part) \<le> 2 ^ 28" "unat psram_size \<le> 2 ^ 28"
    and l: "load_kernel_partition crc psram_size (Some part) m = (ok, m')"
  shows "ok \<longleftrightarrow> kernel_reads part flash \<and> kernel_valid crc psram_size part flash"
    and "ok \<Longrightarrow> load_bytes m' 0x50000000 (kernel_size part flash) = load_bytes flash 0 (kernel_size part flash)"
    and "i < 0x50000000 \<or> 0x50000000 + min (kernel_size part flash) (unat psram_size) \<le> i \<Longrightarrow> m' i = m i"
proof -
  let ?s = "unat (part_size part)" and ?nw = "load32 flash (unat (part_size part) - 8)"
  let ?valid = "kernel_reads part flash \<and> kernel_valid crc psram_size part flash"
  obtain ok1 bs1 where r1: "part_read part (unat (part_size part - 12)) 12 = (ok1, bs1)"
    by fastforce
  have h1: "12 \<le> ?s \<and> unat (part_size part - 12) = ?s - 12 \<and> bs1 = load_bytes flash (?s - 12) 12" if ok1
  proof -
    have b: "unat (part_size part - 12) + 12 \<le> ?s" "bs1 = load_bytes flash (unat (part_size part - 12)) 12"
      using h r1 that by (auto simp: holds_def split: prod.splits dest!: spec [of _ "unat (part_size part - 12)"] spec [of _ "12 :: nat"])
    then have "12 \<le> part_size part"
      by (simp add: word_le_nat_alt)
    then show ?thesis
      using b by (simp add: unat_sub word_le_nat_alt)
  qed
  have fail: "\<not> ok \<and> m' = m \<and> \<not> ?valid \<or> (12 \<le> ?s \<and> ok1 \<and> unat (part_size part - 12) = ?s - 12 \<and>
      load32 flash (?s - 12) = KERNEL_SIZE_MAGIC \<and> 60 \<le> unat ?nw \<and> unat ?nw \<le> ?s - 12 \<and>
      kernel_copy crc psram_size part ?nw (load32 flash (?s - 4)) m = (ok, m'))"
  proof (cases ok1)
    case False
    then have "\<not> ok \<and> m' = m"
      using l by (simp add: load_kernel_partition_def r1)
    moreover have "\<not> ?valid"
    proof
      assume v: ?valid
      then have "12 \<le> ?s"
        by (simp add: kernel_valid_def Let_def)
      then have "unat (part_size part - 12) = ?s - 12"
        by (simp add: unat_sub word_le_nat_alt)
      then show False
        using v r1 False by (simp add: kernel_reads_def)
    qed
    ultimately show ?thesis
      by simp
  next
    case True
    have s: "12 \<le> ?s" "unat (part_size part - 12) = ?s - 12"
      using h1 [OF True] by simp_all
    have mf: "manifest_of bs1 = \<lparr>mf_magic = load32 flash (?s - 12), mf_image_size = ?nw, mf_image_crc32 = load32 flash (?s - 4)\<rparr>"
      using h1 [OF True] manifest_load [of flash "?s - 12"] s(1) by simp
    have cmp: "?nw < KERNEL_MAGIC2_OFFSET + 4 \<longleftrightarrow> \<not> 60 \<le> unat ?nw" "?nw > part_size part - 12 \<longleftrightarrow> \<not> unat ?nw \<le> ?s - 12"
      using s(2) by (simp_all add: word_less_nat_alt not_le)
    have "(ok, m') = (if load32 flash (?s - 12) \<noteq> KERNEL_SIZE_MAGIC \<or> \<not> 60 \<le> unat ?nw \<or> \<not> unat ?nw \<le> ?s - 12 then (False, m)
        else kernel_copy crc psram_size part ?nw (load32 flash (?s - 4)) m)"
      unfolding l [symmetric] load_kernel_partition_def option.case r1 Let_def prod.case mf kernel_size_manifest.simps cmp kernel_copy_def
      using True by (simp only: not_True_eq_False simp_thms)
    then show ?thesis
      using True s by (auto simp: kernel_valid_def kernel_size_def Let_def split: if_splits)
  qed
  have "(ok \<longleftrightarrow> ?valid) \<and>
      (ok \<longrightarrow> load_bytes m' 0x50000000 (kernel_size part flash) = load_bytes flash 0 (kernel_size part flash)) \<and>
      (\<forall>i. i < 0x50000000 \<or> 0x50000000 + min (kernel_size part flash) (unat psram_size) \<le> i \<longrightarrow> m' i = m i)"
    using fail
  proof
    assume go: "12 \<le> ?s \<and> ok1 \<and> unat (part_size part - 12) = ?s - 12 \<and>
      load32 flash (?s - 12) = KERNEL_SIZE_MAGIC \<and> 60 \<le> unat ?nw \<and> unat ?nw \<le> ?s - 12 \<and>
      kernel_copy crc psram_size part ?nw (load32 flash (?s - 4)) m = (ok, m')"
    have "unat ?nw \<le> 2 ^ 28"
      using go sz(1) by linarith
    note c = kernel_copy_spec [OF h sz(2) this]
    have "fst (part_read part (?s - 12) 12)"
      using go r1 by simp
    then have "ok \<longleftrightarrow> ?valid"
      using go c(1) unfolding kernel_reads_def kernel_valid_def kernel_size_def Let_def by blast
    then show ?thesis
      using go c(2,3) unfolding kernel_size_def by blast
  qed simp
  then show "ok \<longleftrightarrow> ?valid"
    and "ok \<Longrightarrow> load_bytes m' 0x50000000 (kernel_size part flash) = load_bytes flash 0 (kernel_size part flash)"
    and "i < 0x50000000 \<or> 0x50000000 + min (kernel_size part flash) (unat psram_size) \<le> i \<Longrightarrow> m' i = m i"
    by blast+
qed

section \<open>Protection\<close>



section \<open>Display\<close>

lemma upt_join: "i \<le> j \<Longrightarrow> j \<le> k \<Longrightarrow> [i..<j] @ [j..<k] = [i..<k]"
  using upt_add_eq_append [of i j "k - j"] by simp

lemma dma_loop:
  assumes "0 < c"
  shows "offset \<le> LCD_FB_SIZE \<Longrightarrow> LCD_FB_SIZE \<le> offset + n * c \<Longrightarrow>
    (\<forall>d \<in> set (dma_link_loop c i n offset). dd_size d \<le> c \<and> dd_length d = dd_size d) \<and>
    concat (map (\<lambda>d. [dd_buffer d..<dd_buffer d + dd_size d]) (dma_link_loop c i n offset)) = [0x50F40000 + offset..<0x50F40000 + LCD_FB_SIZE]"
proof (induction n arbitrary: i offset)
  case (Suc n)
  let ?k = "min (LCD_FB_SIZE - offset) c"
  have k: "(let chunk = LCD_FB_SIZE - offset in if chunk > c then c else chunk) = ?k"
    by (simp add: min_def Let_def)
  have "offset + ?k \<le> LCD_FB_SIZE" "LCD_FB_SIZE \<le> offset + ?k + n * c"
    using Suc.prems by (auto simp: min_def)
  note ih = Suc.IH [OF this, of "i + 1"]
  have "[0x50F40000 + offset..<0x50F40000 + offset + ?k] @ [0x50F40000 + (offset + ?k)..<0x50F40000 + LCD_FB_SIZE] =
      [0x50F40000 + offset..<0x50F40000 + LCD_FB_SIZE]"
    unfolding add.assoc by (rule upt_join) (use \<open>offset + ?k \<le> LCD_FB_SIZE\<close> in simp_all)
  then show ?case
    using ih k by (auto simp: Let_def)
qed simp

lemma dma_loop_nth:
  "j < n \<Longrightarrow> length (dma_link_loop c i n offset) = n \<and>
    dd_next (dma_link_loop c i n offset ! j) = (i + j + 1) mod LCD_DMA_NODE_COUNT c \<and>
    dd_eof (dma_link_loop c i n offset ! j) = (i + j = LCD_DMA_NODE_COUNT c - 1)"
proof (induction n arbitrary: i offset j)
  case (Suc n)
  show ?case
  proof (cases n)
    case 0
    then show ?thesis
      using Suc.prems by (simp add: Let_def)
  next
    case (Suc k)
    then show ?thesis
      using Suc.prems Suc.IH [of "j - 1"] Suc.IH [of 0] by (cases j) (simp_all add: Let_def)
  qed
qed simp

text \<open>The ring: its buffers make up the frame buffer in order, each within the limit of
  a descriptor; each points to the next, the last to the first; only the last
  ends a frame.\<close>

lemma display_ring:
  assumes "0 < c"
  shows "concat (map (\<lambda>d. [dd_buffer d..<dd_buffer d + dd_size d]) (build_dma_link c)) = [unat LCD_FB_ADDR..<unat LCD_FB_ADDR + LCD_FB_SIZE]"
    and "\<forall>d \<in> set (build_dma_link c). dd_size d \<le> c \<and> dd_length d = dd_size d"
    and "j < length (build_dma_link c) \<Longrightarrow> dd_next (build_dma_link c ! j) = (j + 1) mod length (build_dma_link c) \<and>
      dd_eof (build_dma_link c ! j) = (j = length (build_dma_link c) - 1)"
proof -
  let ?n = "LCD_DMA_NODE_COUNT c"
  have fb: "unat LCD_FB_ADDR = 0x50F40000 + 0"
    by simp
  have "LCD_FB_SIZE + c - 1 < c + (LCD_FB_SIZE + c - 1) div c * c"
    using assms by (rule dividend_less_div_times)
  then have n: "LCD_FB_SIZE \<le> 0 + ?n * c"
    unfolding LCD_DMA_NODE_COUNT_def by linarith
  note l = dma_loop [OF assms le0 n, of 0]
  show "concat (map (\<lambda>d. [dd_buffer d..<dd_buffer d + dd_size d]) (build_dma_link c)) = [unat LCD_FB_ADDR..<unat LCD_FB_ADDR + LCD_FB_SIZE]"
    using conjunct2 [OF l] unfolding build_dma_link_def fb by (simp only: add_0_right)
  show "\<forall>d \<in> set (build_dma_link c). dd_size d \<le> c \<and> dd_length d = dd_size d"
    using conjunct1 [OF l] unfolding build_dma_link_def .
  have "length (build_dma_link c) = ?n"
    using dma_loop_nth [of 0 ?n c 0 0] by (cases "?n = 0") (simp_all add: build_dma_link_def)
  then show "j < length (build_dma_link c) \<Longrightarrow> dd_next (build_dma_link c ! j) = (j + 1) mod length (build_dma_link c) \<and>
      dd_eof (build_dma_link c ! j) = (j = length (build_dma_link c) - 1)"
    using dma_loop_nth [of j ?n c 0 0] by (simp add: build_dma_link_def)
qed

lemma fill_row:
  "n \<le> LCD_H_RES \<Longrightarrow> fold (\<lambda>x fb. fb(y * LCD_H_RES + x := colors ! (x * 8 div LCD_H_RES))) [0..<n] fb i =
    (if y * LCD_H_RES \<le> i \<and> i < y * LCD_H_RES + n then colors ! ((i mod LCD_H_RES) * 8 div LCD_H_RES) else fb i)"
proof (induction n)
  case (Suc n)
  have "(y * LCD_H_RES + n) mod LCD_H_RES = n"
    using Suc.prems by simp
  then show ?case
    using Suc by auto
qed auto

lemma color_row: "color_row y fb i =
    (if y * LCD_H_RES \<le> i \<and> i < y * LCD_H_RES + LCD_H_RES then colors ! ((i mod LCD_H_RES) * 8 div LCD_H_RES) else fb i)"
  unfolding color_row_def by (rule fill_row) (rule order_refl)

text \<open>Every pixel of the frame buffer gets the color of its column, nothing else is written.\<close>

lemma color_bars: "fold color_row [0..<n] fb i =
    (if i < n * LCD_H_RES then colors ! ((i mod LCD_H_RES) * 8 div LCD_H_RES) else fb i)"
  by (induction n) (auto simp: color_row)

section \<open>Radios\<close>

text \<open>The state of the coexistence scheme after some actions, and a run of calls.\<close>

fun coex_after :: "boot_act list \<Rightarrow> bool \<Rightarrow> bool" where
  "coex_after [] on = on"
| "coex_after (Coex_enable # xs) on = coex_after xs True"
| "coex_after (Coex_disable # xs) on = coex_after xs False"
| "coex_after (_ # xs) on = coex_after xs on"

fun run_radio :: "radio_call list \<Rightarrow> bool \<Rightarrow> boot_act list \<times> bool" where
  "run_radio [] on = ([], on)"
| "run_radio (c # cs) on =
     (let (acts, on) = wrap_radio c on; (acts', on) = run_radio cs on in (acts @ acts', on))"

text \<open>From the state that the loader leaves (off), the scheme is on exactly when the
  last call was a receive, and each of its actions changes it.\<close>

lemma radio_coex:
  assumes "run_radio cs on = (acts, on')"
  shows "coex_after acts on = on'" and "cs \<noteq> [] \<Longrightarrow> on' = (last cs = Radio_receive)"
    and "set acts \<subseteq> {Coex_enable, Coex_disable}" and "distinct_adj acts" and "acts \<noteq> [] \<Longrightarrow> hd acts = (if on then Coex_disable else Coex_enable)"
proof -
  have "coex_after acts on = on' \<and> (cs \<noteq> [] \<longrightarrow> on' = (last cs = Radio_receive)) \<and> set acts \<subseteq> {Coex_enable, Coex_disable} \<and>
      distinct_adj acts \<and> (acts \<noteq> [] \<longrightarrow> hd acts = (if on then Coex_disable else Coex_enable))"
    using assms
  proof (induction cs arbitrary: on acts)
    case (Cons c cs)
    obtain acts1 on1 where w: "wrap_radio c on = (acts1, on1)"
      by fastforce
    obtain acts2 where r: "run_radio cs on1 = (acts2, on')" "acts = acts1 @ acts2"
      using Cons.prems w by (auto split: prod.splits)
    have on1: "on1 = (c = Radio_receive)" "acts1 = (if on1 = on then [] else [if on1 then Coex_enable else Coex_disable])"
      using w by (auto simp: wrap_radio_def set_rx_def split: radio_call.splits if_splits)
    have "coex_after acts on = coex_after acts2 on1"
      using on1(2) r(2) by (cases on; cases on1) simp_all
    moreover have "on' = on1" if "cs = []"
      using r(1) that by simp
    moreover have "distinct_adj acts \<and> (acts \<noteq> [] \<longrightarrow> hd acts = (if on then Coex_disable else Coex_enable))"
      using Cons.IH [OF r(1)] on1(2) r(2) by (cases acts2; cases on; cases on1) auto
    ultimately show ?case
      using Cons.IH [OF r(1)] on1 r(2) by auto
  qed simp
  then show "coex_after acts on = on'" and "cs \<noteq> [] \<Longrightarrow> on' = (last cs = Radio_receive)"
    and "set acts \<subseteq> {Coex_enable, Coex_disable}" and "distinct_adj acts" and "acts \<noteq> [] \<Longrightarrow> hd acts = (if on then Coex_disable else Coex_enable)"
    by blast+
qed

text \<open>A memory size close to \<open>2 ^ 64\<close> passes the check of the loader.\<close>

lemma memory_size_wraps: "\<not> ucast KERNEL_LOAD_ADDR + (0xffffffffffffffff :: u64) > ucast FW_PSRAM_HEAP_ADDR"
  by simp

section \<open>The handoff\<close>









text \<open>C34: the kernel image.  From a flash partition with any content, of at most
  256 MiB, the loader accepts exactly a readable image that the manifest at the end of the
  partition describes: magic numbers, a size which fits the partition and the
  PSRAM, the CRC, and a memory size between the image size and the heap of the
  firmware, or so large that the sum with the load address wraps at \<open>2 ^ 64\<close>.  An
  accepted image lies in the memory as in the flash, and memory outside of the
  image and of the PSRAM does not change in any case.\<close>

theorem kernel_image:
  assumes "holds part flash" and "unat (part_size part) \<le> 2 ^ 28" and "unat psram_size \<le> 2 ^ 28"
    and "load_kernel_partition crc psram_size (Some part) m = (ok, m')"
  shows "(ok \<longleftrightarrow> kernel_reads part flash \<and> kernel_valid crc psram_size part flash) \<and>
    (ok \<longrightarrow> load_bytes m' 0x50000000 (kernel_size part flash) = load_bytes flash 0 (kernel_size part flash)) \<and>
    (\<forall>i. i < 0x50000000 \<or> 0x50000000 + min (kernel_size part flash) (unat psram_size) \<le> i \<longrightarrow> m' i = m i)"
  using kernel_load [OF assms] by blast










definition demo_flash :: mem where
  "demo_flash = store32 (store32 (store32 (store32 (store32 (\<lambda>_. 0) 0x10 0x40) 0x38 KERNEL_MAGIC2) 0x74 KERNEL_SIZE_MAGIC) 0x78 60) 0x7c 60"

definition demo_part :: partition where
  "demo_part = \<lparr>part_size = 0x80, part_read = (\<lambda>off n. if off + n \<le> 0x80 then (True, load_bytes demo_flash off n) else (False, []))\<rparr>"

definition demo_osbi :: partition where
  "demo_osbi = \<lparr>part_size = 0x30000, part_read = (\<lambda>off n. if off + n \<le> 0x30000 then (True, load_bytes (\<lambda>_. 0x13) off n) else (False, []))\<rparr>"

definition demo_crc :: "bytes \<Rightarrow> u32" where "demo_crc bs = of_nat (length bs)"

lemma demo_holds: "holds demo_part demo_flash" "holds demo_osbi (\<lambda>_. 0x13)"
  by (simp_all add: holds_def demo_part_def demo_osbi_def)

lemma demo_words:
  "load32 demo_flash 0x74 = KERNEL_SIZE_MAGIC" "load32 demo_flash 0x78 = 60" "load32 demo_flash 0x7c = 60"
  "load32 demo_flash 0x38 = KERNEL_MAGIC2" "load32 demo_flash 0x10 = 0x40" "load32 demo_flash 0x14 = 0"
proof -
  have "load32 (\<lambda>_. 0) 0x14 = 0"
    by (simp add: load32_def load_bytes_def upt_rec_numeral)
  then show "load32 demo_flash 0x74 = KERNEL_SIZE_MAGIC" "load32 demo_flash 0x78 = 60" "load32 demo_flash 0x7c = 60"
    "load32 demo_flash 0x38 = KERNEL_MAGIC2" "load32 demo_flash 0x10 = 0x40" "load32 demo_flash 0x14 = 0"
    by (simp_all add: demo_flash_def load32_store32_other)
qed

lemma demo_valid:
  "kernel_valid demo_crc 0x1000000 demo_part demo_flash" "kernel_reads demo_part demo_flash" "kernel_size demo_part demo_flash = 60"
proof -
  have e: "unat (part_size demo_part) = 0x80"
    by (simp add: demo_part_def)
  have ms: "unat (get_le64 (load_bytes demo_flash 0x10 8)) = 0x40"
    using demo_words(5,6) by (simp add: get_le64_eq)
  show n: "kernel_size demo_part demo_flash = 60"
    using demo_words(2) by (simp add: kernel_size_def e)
  show "kernel_valid demo_crc 0x1000000 demo_part demo_flash"
    unfolding kernel_valid_def Let_def e n ms using demo_words by (simp add: demo_crc_def)
  show "kernel_reads demo_part demo_flash"
    unfolding kernel_reads_def e n by (simp add: demo_part_def)
qed

theorem kernel_image_witness:
  "fst (load_kernel_partition demo_crc 0x1000000 (Some demo_part) (\<lambda>_. 0)) \<and>
   load_bytes (snd (load_kernel_partition demo_crc 0x1000000 (Some demo_part) (\<lambda>_. 0))) 0x50000000 60 = load_bytes demo_flash 0 60"
proof -
  obtain ok m' where l: "load_kernel_partition demo_crc 0x1000000 (Some demo_part) (\<lambda>_. 0) = (ok, m')"
    by fastforce
  have sz: "unat (part_size demo_part) \<le> 2 ^ 28" "unat (0x1000000 :: u32) \<le> 2 ^ 28"
    by (simp_all add: demo_part_def)
  show ?thesis
    using kernel_image [OF demo_holds(1) sz l] demo_valid l by auto
qed



end
