(* ===== verification/Clk_Driver.thy ===== *)
theory Clk_Driver
  imports Prelude
begin

text \<open>
  The clock and reset driver (\<open>linux/drivers/clk/clk-esp32s31.c\<close>).  A block of
  registers is a map from offsets to words; the result of each registration with
  the clock framework is a parameter.  Clocks of the framework (gates, dividers,
  multiplexers) are descriptions of the register fields which they own.

  The lemmas show the rates of the SD host divider, that no two clocks or resets
  own the same bit, that probing succeeds exactly when every registration
  does, and that a reset changes its own bit only.
\<close>

type_synonym clk_regs = "nat \<Rightarrow> u32"

section \<open>Registers\<close>

abbreviation (input) LP_MSPI_DIV :: nat where "LP_MSPI_DIV \<equiv> 0x54"
abbreviation (input) HP_SOC_CLK_SEL :: nat where "HP_SOC_CLK_SEL \<equiv> 0x00"
abbreviation (input) HP_CPU_FREQ_CTRL0 :: nat where "HP_CPU_FREQ_CTRL0 \<equiv> 0x04"
abbreviation (input) HP_SYS_FREQ_CTRL0 :: nat where "HP_SYS_FREQ_CTRL0 \<equiv> 0x0c"
abbreviation (input) HP_APB_FREQ_CTRL0 :: nat where "HP_APB_FREQ_CTRL0 \<equiv> 0x10"
abbreviation (input) HP_RMT_CTRL0 :: nat where "HP_RMT_CTRL0 \<equiv> 0xbc"
abbreviation (input) HP_SDIO_HOST_CTRL0 :: nat where "HP_SDIO_HOST_CTRL0 \<equiv> 0xc0"
abbreviation (input) HP_SDIO_LS_CLK_EN :: nat where "HP_SDIO_LS_CLK_EN \<equiv> 3"
abbreviation (input) HP_SDIO_HOST_FUNC_CTRL0 :: nat where "HP_SDIO_HOST_FUNC_CTRL0 \<equiv> 0xc4"
abbreviation (input) HP_SDIO_DIV_MAX :: u32 where "HP_SDIO_DIV_MAX \<equiv> 16"
abbreviation (input) HP_EMAC_CTRL0 :: nat where "HP_EMAC_CTRL0 \<equiv> 0xc8"
abbreviation (input) HP_PERIPH_BUS_CLK_EN :: nat where "HP_PERIPH_BUS_CLK_EN \<equiv> 0"
abbreviation (input) HP_PERIPH_RST_EN :: u32 where "HP_PERIPH_RST_EN \<equiv> 0x2"
abbreviation (input) CNNT_SDMMC_CTRL :: nat where "CNNT_SDMMC_CTRL \<equiv> 0x38"
abbreviation (input) CNNT_SDMMC_RST_EN :: u32 where "CNNT_SDMMC_RST_EN \<equiv> 0x40000000"
abbreviation (input) CNNT_EMAC_CTRL :: nat where "CNNT_EMAC_CTRL \<equiv> 0x3c"
abbreviation (input) CNNT_EMAC_RST_EN :: u32 where "CNNT_EMAC_RST_EN \<equiv> 0x2"
abbreviation (input) CNNT_EMAC_REF_CTRL :: nat where "CNNT_EMAC_REF_CTRL \<equiv> 0x40"

definition HP_I2C_CTRL0 :: "nat \<Rightarrow> nat" where "HP_I2C_CTRL0 n = 0xdc + n * 4"

text \<open>A field of \<open>n\<close> bits from bit \<open>s\<close>: read and prepared.\<close>

definition field_get :: "nat \<Rightarrow> nat \<Rightarrow> u32 \<Rightarrow> u32" where
  "field_get s n v = drop_bit s v AND mask n"

definition field_prep :: "nat \<Rightarrow> nat \<Rightarrow> u32 \<Rightarrow> u32" where
  "field_prep s n v = push_bit s (v AND mask n)"

section \<open>Rates\<close>

definition esp32s31_mpll_recalc_rate :: "u32 \<Rightarrow> u32 \<Rightarrow> u32" where
  "esp32s31_mpll_recalc_rate val parent_rate = parent_rate * (field_get 3 5 val + 1) div (field_get 0 3 val + 1)"

text \<open>\<open>mult_frac\<close> of the kernel.\<close>

definition mult_frac :: "u32 \<Rightarrow> u32 \<Rightarrow> u32 \<Rightarrow> u32" where
  "mult_frac x n d = x div d * n + x mod d * n div d"

definition esp32s31_frac_recalc_rate :: "u32 \<Rightarrow> u32 \<Rightarrow> u32" where
  "esp32s31_frac_recalc_rate val parent_rate =
     (let d = field_get 0 8 val + 1; num = field_get 8 3 val; den = field_get 11 3 val
      in if den = 0 then parent_rate div d else mult_frac parent_rate den (d * den + num))"

definition esp32s31_sdio_div :: "u32 \<Rightarrow> u32 \<Rightarrow> u32" where
  "esp32s31_sdio_div rate parent_rate =
     (if rate = 0 then HP_SDIO_DIV_MAX
      else let d = (parent_rate + rate - 1) div rate in if d < 2 then 2 else if d > HP_SDIO_DIV_MAX then HP_SDIO_DIV_MAX else d)"

definition esp32s31_sdio_recalc_rate :: "u32 \<Rightarrow> u32 \<Rightarrow> u32" where
  "esp32s31_sdio_recalc_rate val parent_rate = parent_rate div (field_get 9 4 val + 1)"

definition esp32s31_sdio_determine_rate :: "u32 \<Rightarrow> u32 \<Rightarrow> u32" where
  "esp32s31_sdio_determine_rate rate best_parent_rate = best_parent_rate div esp32s31_sdio_div rate best_parent_rate"

text \<open>The two writes of the register, in order.\<close>

definition esp32s31_sdio_set_rate :: "u32 \<Rightarrow> u32 \<Rightarrow> u32 list" where
  "esp32s31_sdio_set_rate rate parent_rate =
     (let d = esp32s31_sdio_div rate parent_rate;
          val = field_prep 1 4 (d - 1) OR field_prep 5 4 (d div 2 - 1) OR field_prep 9 4 (d - 1) OR field_prep 16 3 1 OR 0x1c00000
      in [val OR 0x1, val])"

section \<open>Registration\<close>

text \<open>What owns which bits: a gate one, a multiplexer and a divider a field; the
  clocks of this driver read their register, the SD host divider writes all of its.\<close>

datatype clk_kind = Gate nat | Mux nat nat bool | Divider nat nat | Mpll | Frac | Sdio

record clk_desc =
  d_name :: string
  d_parents :: "string list"
  d_off :: nat
  d_kind :: clk_kind

type_synonym hw = "errno + string"

record clk_prov =
  k_hws :: "nat \<Rightarrow> hw option"
  k_tab :: "clk_desc list"

text \<open>\<open>reg name\<close>: the error of a registration.\<close>

definition clk_register :: "(string \<Rightarrow> errno option) \<Rightarrow> clk_desc \<Rightarrow> clk_prov \<Rightarrow> hw \<times> clk_prov" where
  "clk_register reg d k =
     (case reg (d_name d) of Some e \<Rightarrow> (Inl e, k) | None \<Rightarrow> (Inr (d_name d), k\<lparr>k_tab := k_tab k @ [d]\<rparr>))"

definition set_hw :: "nat \<Rightarrow> hw \<times> clk_prov \<Rightarrow> clk_prov" where
  "set_hw i = (\<lambda>(hw, k). k\<lparr>k_hws := (k_hws k)(i \<mapsto> hw)\<rparr>)"

definition hw_name :: "hw option \<Rightarrow> string" where
  "hw_name h = (case h of Some (Inr n) \<Rightarrow> n | _ \<Rightarrow> [])"

definition esp32s31_reg_register :: "(string \<Rightarrow> errno option) \<Rightarrow> string \<Rightarrow> string \<Rightarrow> clk_kind \<Rightarrow> nat \<Rightarrow> clk_prov \<Rightarrow> hw \<times> clk_prov" where
  "esp32s31_reg_register reg name parent ops off =
     clk_register reg \<lparr>d_name = name, d_parents = [parent], d_off = off, d_kind = ops\<rparr>"

abbreviation (input) ESP32S31_LP_CLK_MPLL :: nat where "ESP32S31_LP_CLK_MPLL \<equiv> 0"
abbreviation (input) ESP32S31_CLK_CPU :: nat where "ESP32S31_CLK_CPU \<equiv> 0"
abbreviation (input) ESP32S31_CLK_SYS :: nat where "ESP32S31_CLK_SYS \<equiv> 1"
abbreviation (input) ESP32S31_CLK_APB :: nat where "ESP32S31_CLK_APB \<equiv> 2"
abbreviation (input) ESP32S31_CLK_EMAC_SYS :: nat where "ESP32S31_CLK_EMAC_SYS \<equiv> 3"
abbreviation (input) ESP32S31_CLK_I2C0_APB :: nat where "ESP32S31_CLK_I2C0_APB \<equiv> 4"
abbreviation (input) ESP32S31_CLK_I2C1_APB :: nat where "ESP32S31_CLK_I2C1_APB \<equiv> 6"
abbreviation (input) ESP32S31_CLK_RMT_SYS :: nat where "ESP32S31_CLK_RMT_SYS \<equiv> 8"
abbreviation (input) ESP32S31_CLK_SDMMC_SYS :: nat where "ESP32S31_CLK_SDMMC_SYS \<equiv> 10"
abbreviation (input) ESP32S31_CLK_SDIO_LS :: nat where "ESP32S31_CLK_SDIO_LS \<equiv> 11"
abbreviation (input) ESP32S31_CNNT_CLK_EMAC_REF :: nat where "ESP32S31_CNNT_CLK_EMAC_REF \<equiv> 0"

definition esp32s31_lp_init :: "(string \<Rightarrow> errno option) \<Rightarrow> clk_prov \<Rightarrow> errno option \<times> clk_prov" where
  "esp32s31_lp_init reg k =
     (None, set_hw ESP32S31_LP_CLK_MPLL (esp32s31_reg_register reg ''mpll'' ''xtal'' Mpll LP_MSPI_DIV k))"

record esp32s31_periph =
  pe_names :: "string list"
  pe_offset :: nat
  pe_bus :: nat
  pe_nsrc :: nat
  pe_sel_shift :: nat
  pe_sel_width :: nat
  pe_en_shift :: nat
  pe_div_shift :: nat
  pe_id :: nat

definition esp32s31_periphs :: "esp32s31_periph list" where
  "esp32s31_periphs =
     [\<lparr>pe_names = [''i2c0-apb'', ''i2c0-sel'', ''i2c0-div'', ''i2c0''], pe_offset = HP_I2C_CTRL0 0, pe_bus = ESP32S31_CLK_APB,
       pe_nsrc = 2, pe_sel_shift = 3, pe_sel_width = 1, pe_en_shift = 4, pe_div_shift = 5, pe_id = ESP32S31_CLK_I2C0_APB\<rparr>,
      \<lparr>pe_names = [''i2c1-apb'', ''i2c1-sel'', ''i2c1-div'', ''i2c1''], pe_offset = HP_I2C_CTRL0 1, pe_bus = ESP32S31_CLK_APB,
       pe_nsrc = 2, pe_sel_shift = 3, pe_sel_width = 1, pe_en_shift = 4, pe_div_shift = 5, pe_id = ESP32S31_CLK_I2C1_APB\<rparr>,
      \<lparr>pe_names = [''rmt-sys'', ''rmt-sel'', ''rmt-div'', ''rmt''], pe_offset = HP_RMT_CTRL0, pe_bus = ESP32S31_CLK_SYS,
       pe_nsrc = 3, pe_sel_shift = 3, pe_sel_width = 2, pe_en_shift = 5, pe_div_shift = 6, pe_id = ESP32S31_CLK_RMT_SYS\<rparr>]"

definition esp32s31_periph_register :: "(string \<Rightarrow> errno option) \<Rightarrow> esp32s31_periph \<Rightarrow> clk_prov \<Rightarrow> hw \<times> clk_prov" where
  "esp32s31_periph_register reg p k =
     (let off = pe_offset p;
          k = set_hw (pe_id p) (clk_register reg \<lparr>d_name = pe_names p ! 0, d_parents = [hw_name (k_hws k (pe_bus p))],
                d_off = off, d_kind = Gate HP_PERIPH_BUS_CLK_EN\<rparr> k)
      in case clk_register reg \<lparr>d_name = pe_names p ! 1, d_parents = take (pe_nsrc p) [''xtal'', ''rc-fast'', ''pll-f80m''],
                d_off = off, d_kind = Mux (pe_sel_shift p) (pe_sel_width p) False\<rparr> k of
           (Inl e, k) \<Rightarrow> (Inl e, k)
         | (Inr mux, k) \<Rightarrow>
             (case clk_register reg \<lparr>d_name = pe_names p ! 2, d_parents = [mux], d_off = off, d_kind = Divider (pe_div_shift p) 8\<rparr> k of
                (Inl e, k) \<Rightarrow> (Inl e, k)
              | (Inr d, k) \<Rightarrow>
                  let (hw, k) = clk_register reg \<lparr>d_name = pe_names p ! 3, d_parents = [d], d_off = off, d_kind = Gate (pe_en_shift p)\<rparr> k
                  in (hw, set_hw (pe_id p + 1) (hw, k))))"

text \<open>The root dividers, each the parent of the next, until one fails.\<close>

fun chain_loop :: "(string \<Rightarrow> errno option) \<Rightarrow> (string \<times> nat \<times> nat) list \<Rightarrow> hw \<Rightarrow> clk_prov \<Rightarrow> hw \<times> clk_prov" where
  "chain_loop reg [] hw k = (hw, k)"
| "chain_loop reg ((name, i, off) # cs) hw k =
     (case hw of
        Inl e \<Rightarrow> (hw, k)
      | Inr parent \<Rightarrow> let (hw, k) = esp32s31_reg_register reg name parent Frac off k in chain_loop reg cs hw (set_hw i (hw, k)))"

fun periph_loop :: "(string \<Rightarrow> errno option) \<Rightarrow> esp32s31_periph list \<Rightarrow> clk_prov \<Rightarrow> errno option \<times> clk_prov" where
  "periph_loop reg [] k = (None, k)"
| "periph_loop reg (p # ps) k =
     (case esp32s31_periph_register reg p k of (Inl e, k) \<Rightarrow> (Some e, k) | (Inr _, k) \<Rightarrow> periph_loop reg ps k)"

definition esp32s31_hp_init :: "(string \<Rightarrow> errno option) \<Rightarrow> clk_prov \<Rightarrow> errno option \<times> clk_prov" where
  "esp32s31_hp_init reg k =
     (let (hw, k) = clk_register reg \<lparr>d_name = ''soc-root'', d_parents = [''xtal'', ''cpll'', ''rc-fast'', ''pll-f240m''],
            d_off = HP_SOC_CLK_SEL, d_kind = Mux 0 2 True\<rparr> k;
          (hw, k) = chain_loop reg [(''cpu'', ESP32S31_CLK_CPU, HP_CPU_FREQ_CTRL0), (''sys'', ESP32S31_CLK_SYS, HP_SYS_FREQ_CTRL0),
            (''apb'', ESP32S31_CLK_APB, HP_APB_FREQ_CTRL0)] hw k
      in case hw of
           Inl e \<Rightarrow> (Some e, k)
         | Inr _ \<Rightarrow>
             let k = set_hw ESP32S31_CLK_EMAC_SYS (clk_register reg \<lparr>d_name = ''emac-sys'', d_parents = [hw_name (k_hws k ESP32S31_CLK_SYS)],
                   d_off = HP_EMAC_CTRL0, d_kind = Gate 0\<rparr> k)
             in case periph_loop reg esp32s31_periphs k of
                  (Some e, k) \<Rightarrow> (Some e, k)
                | (None, k) \<Rightarrow>
                    let k = set_hw ESP32S31_CLK_SDMMC_SYS (clk_register reg \<lparr>d_name = ''sdmmc-sys'',
                          d_parents = [hw_name (k_hws k ESP32S31_CLK_SYS)], d_off = HP_SDIO_HOST_CTRL0, d_kind = Gate HP_PERIPH_BUS_CLK_EN\<rparr> k)
                    in case esp32s31_reg_register reg ''sdio-ls-div'' ''mpll'' Sdio HP_SDIO_HOST_FUNC_CTRL0 k of
                         (Inl e, k) \<Rightarrow> (Some e, k)
                       | (Inr d, k) \<Rightarrow> (None, set_hw ESP32S31_CLK_SDIO_LS (clk_register reg \<lparr>d_name = ''sdio-ls'', d_parents = [d],
                           d_off = HP_SDIO_HOST_CTRL0, d_kind = Gate HP_SDIO_LS_CLK_EN\<rparr> k)))"

text \<open>\<open>regmap\<close>, \<open>syscon\<close>: the results of the register map of the EMAC glue.\<close>

definition esp32s31_cnnt_init :: "errno option \<Rightarrow> errno option \<Rightarrow> (string \<Rightarrow> errno option) \<Rightarrow> clk_prov \<Rightarrow> errno option \<times> clk_prov" where
  "esp32s31_cnnt_init regmap syscon reg k =
     (case clk_register reg \<lparr>d_name = ''emac-ref-mux'', d_parents = [''mpll'', ''cpll'', ''apll''], d_off = CNNT_EMAC_REF_CTRL, d_kind = Mux 0 2 False\<rparr> k of
        (Inl e, k) \<Rightarrow> (Some e, k)
      | (Inr mux, k) \<Rightarrow>
          (case clk_register reg \<lparr>d_name = ''emac-ref-div'', d_parents = [mux], d_off = CNNT_EMAC_REF_CTRL, d_kind = Divider 8 8\<rparr> k of
             (Inl e, k) \<Rightarrow> (Some e, k)
           | (Inr d, k) \<Rightarrow>
               let k = set_hw ESP32S31_CNNT_CLK_EMAC_REF (clk_register reg \<lparr>d_name = ''emac-ref'', d_parents = [d],
                     d_off = CNNT_EMAC_REF_CTRL, d_kind = Gate 2\<rparr> k)
               in (if regmap \<noteq> None then regmap else syscon, k)))"

section \<open>Resets\<close>

record esp32s31_reset =
  r_offset :: nat
  r_mask :: u32

definition esp32s31_hp_resets :: "esp32s31_reset list" where
  "esp32s31_hp_resets = [\<lparr>r_offset = HP_I2C_CTRL0 0, r_mask = HP_PERIPH_RST_EN\<rparr>, \<lparr>r_offset = HP_I2C_CTRL0 1, r_mask = HP_PERIPH_RST_EN\<rparr>,
     \<lparr>r_offset = HP_RMT_CTRL0, r_mask = HP_PERIPH_RST_EN\<rparr>]"

definition esp32s31_cnnt_resets :: "esp32s31_reset list" where
  "esp32s31_cnnt_resets = [\<lparr>r_offset = CNNT_EMAC_CTRL, r_mask = CNNT_EMAC_RST_EN\<rparr>, \<lparr>r_offset = CNNT_SDMMC_CTRL, r_mask = CNNT_SDMMC_RST_EN\<rparr>]"

definition esp32s31_reset_update :: "esp32s31_reset list \<Rightarrow> nat \<Rightarrow> bool \<Rightarrow> clk_regs \<Rightarrow> clk_regs" where
  "esp32s31_reset_update resets i assert r =
     (let rst = resets ! i; val = r (r_offset rst) AND NOT (r_mask rst)
      in r(r_offset rst := val OR (if assert then r_mask rst else 0)))"

definition esp32s31_reset_assert :: "esp32s31_reset list \<Rightarrow> nat \<Rightarrow> clk_regs \<Rightarrow> clk_regs" where
  "esp32s31_reset_assert resets i = esp32s31_reset_update resets i True"

definition esp32s31_reset_deassert :: "esp32s31_reset list \<Rightarrow> nat \<Rightarrow> clk_regs \<Rightarrow> clk_regs" where
  "esp32s31_reset_deassert resets i = esp32s31_reset_update resets i False"

section \<open>Probing\<close>

datatype block = Lp_block | Hp_block | Cnnt_block

definition block_nclks :: "block \<Rightarrow> nat" where
  "block_nclks b = (case b of Lp_block \<Rightarrow> ESP32S31_LP_CLK_MPLL + 1 | Hp_block \<Rightarrow> ESP32S31_CLK_SDIO_LS + 1 | Cnnt_block \<Rightarrow> ESP32S31_CNNT_CLK_EMAC_REF + 1)"

definition block_init :: "errno option \<Rightarrow> errno option \<Rightarrow> block \<Rightarrow> (string \<Rightarrow> errno option) \<Rightarrow> clk_prov \<Rightarrow> errno option \<times> clk_prov" where
  "block_init regmap syscon b = (case b of Lp_block \<Rightarrow> esp32s31_lp_init | Hp_block \<Rightarrow> esp32s31_hp_init | Cnnt_block \<Rightarrow> esp32s31_cnnt_init regmap syscon)"

definition block_resets :: "block \<Rightarrow> esp32s31_reset list" where
  "block_resets b = (case b of Lp_block \<Rightarrow> [] | Hp_block \<Rightarrow> esp32s31_hp_resets | Cnnt_block \<Rightarrow> esp32s31_cnnt_resets)"

definition hw_error :: "hw option \<Rightarrow> errno option" where
  "hw_error h = (case h of Some (Inl e) \<Rightarrow> Some e | _ \<Rightarrow> None)"

text \<open>\<open>early\<close>: the first error of allocating memory and mapping the registers;
  \<open>rst\<close>, \<open>provider\<close>: the results of registering the resets and the clocks.\<close>

definition esp32s31_clk_probe :: "block \<Rightarrow> errno option \<Rightarrow> errno option \<Rightarrow> errno option \<Rightarrow> (string \<Rightarrow> errno option) \<Rightarrow> errno option \<Rightarrow> errno option
    \<Rightarrow> errno option \<times> clk_prov" where
  "esp32s31_clk_probe b early regmap syscon reg rst provider =
     (if early \<noteq> None then (early, \<lparr>k_hws = (\<lambda>_. None), k_tab = []\<rparr>)
      else let (ret, k) = block_init regmap syscon b reg \<lparr>k_hws = (\<lambda>_. None), k_tab = []\<rparr>
      in if ret \<noteq> None then (ret, k)
         else case find (\<lambda>i. hw_error (k_hws k i) \<noteq> None) [0..<block_nclks b] of
           Some i \<Rightarrow> (hw_error (k_hws k i), k)
         | None \<Rightarrow> if block_resets b \<noteq> [] \<and> rst \<noteq> None then (rst, k) else (provider, k))"

section \<open>Who owns which bits\<close>

definition kind_bits :: "clk_kind \<Rightarrow> nat list" where
  "kind_bits k = (case k of Gate b \<Rightarrow> [b] | Mux s n ro \<Rightarrow> [s..<s + n] | Divider s n \<Rightarrow> [s..<s + n] | Mpll \<Rightarrow> [0..<8] | Frac \<Rightarrow> [0..<14] | Sdio \<Rightarrow> [0..<32])"

definition desc_bits :: "clk_desc \<Rightarrow> (nat \<times> nat) list" where
  "desc_bits d = map (Pair (d_off d)) (kind_bits (d_kind d))"

definition reset_bits :: "esp32s31_reset \<Rightarrow> (nat \<times> nat) list" where
  "reset_bits r = map (Pair (r_offset r)) (filter (bit (r_mask r)) [0..<32])"

definition block_bits :: "block \<Rightarrow> clk_prov \<Rightarrow> (nat \<times> nat) list" where
  "block_bits b k = concat (map desc_bits (k_tab k)) @ concat (map reset_bits (block_resets b))"

definition block_names :: "block \<Rightarrow> string list" where
  "block_names b = (case b of Lp_block \<Rightarrow> [''mpll'']
     | Hp_block \<Rightarrow> [''soc-root'', ''cpu'', ''sys'', ''apb'', ''emac-sys''] @ concat (map pe_names esp32s31_periphs) @ [''sdmmc-sys'', ''sdio-ls-div'', ''sdio-ls'']
     | Cnnt_block \<Rightarrow> [''emac-ref-mux'', ''emac-ref-div'', ''emac-ref''])"

section \<open>The divider of the SD host\<close>

lemma sdio_div_nat:
  assumes "unat parent \<le> 2 ^ 31" and "rate \<noteq> 0"
  shows "unat (esp32s31_sdio_div rate parent) = max 2 (min 16 ((unat parent + unat rate - 1) div unat rate))"
proof -
  let ?c = "(unat parent + unat rate - 1) div unat rate" and ?w = "(parent + rate - 1) div rate"
  have z: "0 < unat rate"
    using assms(2) by (simp add: unat_gt_0)
  have "unat (parent + rate - 1) div unat rate = (if unat parent + unat rate - 1 < 2 ^ 32 then ?c else 0)"
  proof (cases "unat parent + unat rate < 2 ^ 32")
    case True
    then have s: "unat (parent + rate) = unat parent + unat rate"
      by (simp add: unat_word_ariths)
    then have "1 \<le> parent + rate"
      using z by (simp add: word_le_nat_alt)
    then have "unat (parent + rate - 1) = unat parent + unat rate - 1"
      using s by (simp add: unat_sub)
    then show ?thesis
      using True by simp
  next
    case False
    have b: "unat rate < 2 ^ 32"
      using unat_below [of rate] by simp
    show ?thesis
    proof (cases "unat parent + unat rate = 2 ^ 32")
      case True
      then have "parent + rate = 0"
        by (simp add: unat_eq_zero [symmetric] unat_word_ariths)
      then have "unat (parent + rate - 1) = 2 ^ 32 - 1"
        by (simp add: unsigned_minus_1_eq_mask mask_eq_exp_minus_1)
      then show ?thesis
        using True by simp
    next
      case ne: False
      have s: "unat (parent + rate) = unat parent + unat rate - 2 ^ 32"
        using False b assms(1) by (simp add: unat_word_ariths mod_if)
      then have "1 \<le> parent + rate"
        using False ne by (simp add: word_le_nat_alt)
      then have "unat (parent + rate - 1) = unat parent + unat rate - 2 ^ 32 - 1"
        using s by (simp add: unat_sub)
      moreover have "unat parent + unat rate - 2 ^ 32 - 1 < unat rate"
        using assms(1) z by simp
      ultimately show ?thesis
        using False ne by simp
    qed
  qed
  then have w: "unat ?w = (if unat parent + unat rate - 1 < 2 ^ 32 then ?c else 0)"
    by (simp add: unat_div)
  have "?c \<le> 1" if "\<not> unat parent + unat rate - 1 < 2 ^ 32"
  proof -
    have "unat parent + unat rate - 1 < 2 * unat rate"
      using that assms(1) by simp
    then have "?c < 2"
      using z by (simp add: div_less_iff_less_mult)
    then show ?thesis
      by simp
  qed
  then have "max 2 (min 16 ?c) = max 2 (min 16 (unat ?w))"
    unfolding w by (cases "unat parent + unat rate - 1 < 2 ^ 32") simp_all
  moreover have "unat (esp32s31_sdio_div rate parent) = max 2 (min 16 (unat ?w))"
    using assms(2) by (auto simp: esp32s31_sdio_div_def Let_def word_less_nat_alt)
  ultimately show ?thesis
    by simp
qed

lemma sdio_div_bounds: "2 \<le> unat (esp32s31_sdio_div rate parent)" "unat (esp32s31_sdio_div rate parent) \<le> 16"
  by (auto simp: esp32s31_sdio_div_def Let_def word_less_nat_alt)


lemma ceil_le:
  fixes p r d :: nat
  assumes "0 < r"
  shows "(p + r - 1) div r \<le> d \<longleftrightarrow> p \<le> d * r"
proof -
  have "(p + r - 1) div r \<le> d \<longleftrightarrow> p + r - 1 < (d + 1) * r"
    using assms by (simp add: div_less_iff_less_mult less_Suc_eq_le [symmetric])
  also have "\<dots> \<longleftrightarrow> p \<le> d * r"
    using assms by auto
  finally show ?thesis .
qed

text \<open>The divider is the smallest one from 2 to 16 that does not exceed the rate, or 16.\<close>

lemma sdio_div_least:
  assumes "unat parent \<le> 2 ^ 31" and "rate \<noteq> 0"
  shows "unat (esp32s31_sdio_div rate parent) \<le> n \<longleftrightarrow> 2 \<le> n \<and> (16 \<le> n \<or> unat parent \<le> n * unat rate)"
  using ceil_le [of "unat rate" "unat parent" n] assms sdio_div_nat [OF assms] by (auto simp: unat_gt_0)

lemma field_get_or: "field_get s n (x OR y) = field_get s n x OR field_get s n y"
  unfolding field_get_def by (rule bit_word_eqI) (auto simp: bit_simps)

lemma field_get_prep: "s + n \<le> 32 \<Longrightarrow> field_get s n (field_prep s n v) = v AND mask n"
  unfolding field_get_def field_prep_def by (rule bit_word_eqI) (auto simp: bit_simps)

lemma field_get_other: "s + n \<le> t \<or> t + k \<le> s \<Longrightarrow> field_get s n (field_prep t k v) = 0"
  unfolding field_get_def field_prep_def by (rule bit_word_eqI) (auto simp: bit_simps)

lemmas field_gets = field_get_or field_get_prep field_get_other

lemma sdio_fields:
  assumes "2 \<le> unat d" and "unat d \<le> 16"
  defines "val \<equiv> field_prep 1 4 (d - 1) OR field_prep 5 4 (d div 2 - 1) OR field_prep 9 4 (d - 1) OR field_prep 16 3 1 OR 0x1c00000"
  shows "field_get 1 4 val = d - 1" "field_get 5 4 val = d div 2 - 1" "field_get 9 4 val = d - 1" "field_get 0 1 val = 0"
    "field_get 0 1 (val OR 1) = 1" "field_get 1 31 (val OR 1) = field_get 1 31 val"
proof -
  have m: "unat (d - 1) < 2 ^ 4" "unat (d div 2 - 1) < 2 ^ 4"
    using assms(1,2) by (simp_all add: unat_sub word_le_nat_alt unat_div)
  have t: "x AND mask 4 = x" if "unat x < 2 ^ 4" for x :: u32
    using that by (simp add: unat_and_mask word_unat_eq_iff)
  have c: "(0x1c00000 :: u32) = field_prep 22 3 7" "(1 :: u32) = field_prep 0 1 1"
    by (simp_all add: field_prep_def mask_eq_exp_minus_1)
  have v: "val = field_prep 1 4 (d - 1) OR field_prep 5 4 (d div 2 - 1) OR field_prep 9 4 (d - 1) OR field_prep 16 3 1 OR field_prep 22 3 7"
    unfolding val_def c(1) by (rule refl)
  show "field_get 1 4 val = d - 1" "field_get 5 4 val = d div 2 - 1" "field_get 9 4 val = d - 1"
    unfolding v using t m by (simp_all add: field_gets)
  show "field_get 0 1 val = 0"
    unfolding v by (simp add: field_gets)
  then show "field_get 0 1 (val OR 1) = 1"
    by (simp add: field_get_or field_get_def mask_eq_exp_minus_1)
  show "field_get 1 31 (val OR 1) = field_get 1 31 val"
    using field_get_other [of 1 31 0 1 1] unfolding field_get_or c(2) [symmetric] by simp
qed

text \<open>A second round: the rate that is determined is rounded down, and the framework
  sets that one.\<close>

lemma sdio_again:
  fixes rate parent :: u32
  assumes "256 \<le> unat parent" and "unat parent \<le> 2 ^ 31"
  defines "d \<equiv> unat (esp32s31_sdio_div rate parent)"
  shows "unat (esp32s31_sdio_div (esp32s31_sdio_determine_rate rate parent) parent) = (if d dvd unat parent then d else min 16 (d + 1))"
proof -
  let ?p = "unat parent" and ?q = "unat parent div d"
  have d: "2 \<le> d" "d \<le> 16"
    unfolding d_def by (rule sdio_div_bounds)+
  have q: "unat (esp32s31_sdio_determine_rate rate parent) = ?q"
    by (simp add: esp32s31_sdio_determine_rate_def unat_div d_def)
  have q16: "16 \<le> ?q"
    using assms(1) d by (simp add: less_eq_div_iff_mult_less_eq)
  then have ne: "esp32s31_sdio_determine_rate rate parent \<noteq> 0"
    using q by (auto simp: unat_eq_zero [symmetric])
  have dm: "?p = d * ?q + ?p mod d" "?p mod d < d"
    using d by simp_all
  have e: "d * ?q \<le> ?p" "?p \<le> (d + 1) * ?q" "d dvd ?p \<longleftrightarrow> ?p \<le> d * ?q"
  proof -
    have "(d + 1) * ?q = d * ?q + ?q"
      by simp
    moreover have "d dvd ?p \<longleftrightarrow> ?p mod d = 0"
      by (rule dvd_eq_mod_eq_0)
    ultimately show "d * ?q \<le> ?p" "?p \<le> (d + 1) * ?q" "d dvd ?p \<longleftrightarrow> ?p \<le> d * ?q"
      using dm q16 d by linarith+
  qed
  have lt: "\<not> ?p \<le> n * ?q" if "n < d" for n
  proof -
    have "n * ?q < d * ?q"
      using that q16 by simp
    then show ?thesis
      using e(1) by linarith
  qed
  have up: "?p \<le> n * ?q" if "?p \<le> k * ?q" "k \<le> n" for n k
    using that(1) mult_le_mono1 [OF that(2), of ?q] by linarith
  have least: "unat (esp32s31_sdio_div (esp32s31_sdio_determine_rate rate parent) parent) \<le> n \<longleftrightarrow> 2 \<le> n \<and> (16 \<le> n \<or> ?p \<le> n * ?q)" for n
    unfolding sdio_div_least [OF assms(2) ne] q by (rule refl)
  have eqI: "unat (esp32s31_sdio_div (esp32s31_sdio_determine_rate rate parent) parent) = k"
    if "\<And>n. 2 \<le> n \<and> (16 \<le> n \<or> ?p \<le> n * ?q) \<longleftrightarrow> k \<le> n" for k
    using that unfolding least [symmetric] by (meson order_antisym order_refl)
  show ?thesis
  proof (cases "d dvd ?p")
    case True
    have "2 \<le> n \<and> (16 \<le> n \<or> ?p \<le> n * ?q) \<longleftrightarrow> d \<le> n" for n
    proof (cases "n < d")
      case False
      then show ?thesis
        using up [of d n] e(3) True d by simp
    qed (use lt [of n] d in simp)
    then show ?thesis
      using eqI True by simp
  next
    case False
    have "2 \<le> n \<and> (16 \<le> n \<or> ?p \<le> n * ?q) \<longleftrightarrow> min 16 (d + 1) \<le> n" for n
    proof (cases "n < d + 1")
      case True
      then have "n < d \<or> n = d"
        by linarith
      then show ?thesis
        using lt [of n] e(3) \<open>\<not> d dvd ?p\<close> d by auto
    next
      case False
      then show ?thesis
        using up [of "d + 1" n] e(2) d by simp
    qed
    then show ?thesis
      using eqI False by simp
  qed
qed

text \<open>C36: the rate of the SD host.  From any rate, and a parent of at most 2 GHz, the
  divider is the smallest from 2 to 16 whose rate is at most the requested one,
  else 16; the counters of the register follow it, the last write only clears the
  update bit, and the register reads back as the rate that was determined.  The
  clock framework sets the rate that was determined: this keeps the divider
  exactly when it divides the parent (or is 16), else it becomes one larger.\<close>

theorem sdio_rate:
  assumes "unat parent \<le> 2 ^ 31"
  shows "let d = unat (esp32s31_sdio_div rate parent); ws = esp32s31_sdio_set_rate rate parent; w = last ws;
      d2 = unat (esp32s31_sdio_div (esp32s31_sdio_determine_rate rate parent) parent) in
    2 \<le> d \<and> d \<le> 16 \<and>
    (rate \<noteq> 0 \<longrightarrow> d < 16 \<longrightarrow> unat parent \<le> d * unat rate) \<and>
    (\<forall>n. 2 \<le> n \<and> n < d \<longrightarrow> n * unat rate < unat parent \<or> rate = 0) \<and>
    length ws = 2 \<and> field_get 0 1 (hd ws) = 1 \<and> field_get 0 1 w = 0 \<and> field_get 1 31 (hd ws) = field_get 1 31 w \<and>
    unat (field_get 1 4 w) = d - 1 \<and> unat (field_get 5 4 w) = d div 2 - 1 \<and> unat (field_get 9 4 w) = d - 1 \<and>
    esp32s31_sdio_recalc_rate w parent = esp32s31_sdio_determine_rate rate parent \<and>
    (256 \<le> unat parent \<longrightarrow> d2 = (if d dvd unat parent then d else min 16 (d + 1)))"
proof -
  let ?d = "esp32s31_sdio_div rate parent"
  note b = sdio_div_bounds [of rate parent]
  let ?val = "field_prep 1 4 (?d - 1) OR field_prep 5 4 (?d div 2 - 1) OR field_prep 9 4 (?d - 1) OR field_prep 16 3 1 OR 0x1c00000"
  have ws: "esp32s31_sdio_set_rate rate parent = [?val OR 1, ?val]"
    by (simp add: esp32s31_sdio_set_rate_def Let_def)
  note f = sdio_fields [OF b]
  have n: "unat (?d - 1) = unat ?d - 1" "unat (?d div 2 - 1) = unat ?d div 2 - 1"
    using b by (simp_all add: unat_sub word_le_nat_alt unat_div)
  have "esp32s31_sdio_recalc_rate ?val parent = esp32s31_sdio_determine_rate rate parent"
    unfolding esp32s31_sdio_recalc_rate_def f(3) esp32s31_sdio_determine_rate_def by simp
  moreover have "rate \<noteq> 0 \<longrightarrow> unat ?d < 16 \<longrightarrow> unat parent \<le> unat ?d * unat rate"
    using sdio_div_least [OF assms, of rate "unat ?d"] by auto
  moreover have "\<forall>n. 2 \<le> n \<and> n < unat ?d \<longrightarrow> n * unat rate < unat parent \<or> rate = 0"
    using sdio_div_least [OF assms, of rate] by (metis not_le)
  moreover have "256 \<le> unat parent \<longrightarrow>
      unat (esp32s31_sdio_div (esp32s31_sdio_determine_rate rate parent) parent) = (if unat ?d dvd unat parent then unat ?d else min 16 (unat ?d + 1))"
    using sdio_again [OF _ assms] by blast
  ultimately show ?thesis
    unfolding Let_def ws list.sel last.simps using b f n by simp
qed

theorem sdio_rate_witness:
  "unat (esp32s31_sdio_div 200000000 500000000) = 3 \<and> unat (esp32s31_sdio_div (esp32s31_sdio_determine_rate 200000000 500000000) 500000000) = 4"
proof -
  have d: "unat (esp32s31_sdio_div 200000000 500000000) = 3"
    by (simp add: esp32s31_sdio_div_def)
  have "unat (500000000 :: u32) \<le> 2 ^ 31"
    by simp
  from sdio_rate [OF this, of 200000000] show ?thesis
    unfolding Let_def d by simp
qed

section \<open>Probing and resets\<close>

lemmas clk_defs = esp32s31_clk_probe_def esp32s31_lp_init_def esp32s31_hp_init_def esp32s31_cnnt_init_def esp32s31_periph_register_def
  esp32s31_reg_register_def clk_register_def set_hw_def esp32s31_periphs_def hw_error_def hw_name_def

text \<open>When every registration succeeds, every clock is there, and no bit of a
  register is owned twice, by clocks or resets.\<close>

lemma probe_all:
  shows "\<exists>k. esp32s31_clk_probe b None None None (\<lambda>_. None) None None = (None, k) \<and> (\<forall>i \<in> set [0..<block_nclks b]. \<exists>n. k_hws k i = Some (Inr n)) \<and>
    map d_name (k_tab k) = block_names b \<and> distinct (block_bits b k)"
  by (cases b) (simp_all add: clk_defs block_init_def block_nclks_def block_names_def upt_rec[of _ "numeral _"] upt_rec[of _ "Suc _"] block_bits_def desc_bits_def kind_bits_def reset_bits_def block_resets_def HP_I2C_CTRL0_def  esp32s31_hp_resets_def  esp32s31_cnnt_resets_def bit_simps)

text \<open>A reset changes its own bit only, and the two operations undo each other.\<close>

lemma reset_bit:
  fixes r :: clk_regs
  shows "bit (esp32s31_reset_update rs i a r off) n = (if off = r_offset (rs ! i) \<and> bit (r_mask (rs ! i)) n then a else bit (r off) n)"
  by (auto simp: esp32s31_reset_update_def Let_def bit_simps dest: bit_imp_le_length)

lemma reset_last: "esp32s31_reset_deassert rs i (esp32s31_reset_assert rs i r) = esp32s31_reset_deassert rs i r"
  unfolding esp32s31_reset_deassert_def esp32s31_reset_assert_def by (rule ext, rule bit_word_eqI) (simp add: reset_bit)

text \<open>The kernel's \<open>mult_frac\<close> is the product divided, without its overflow.\<close>

lemma mult_frac_nat:
  assumes "d \<noteq> 0" and "unat d * unat n < 2 ^ 32" and "unat x * unat n div unat d < 2 ^ 32"
  shows "unat (mult_frac x n d) = unat x * unat n div unat d"
proof -
  let ?x = "unat x" and ?n = "unat n" and ?d = "unat d"
  have d: "0 < ?d"
    using assms(1) by (simp add: unat_gt_0)
  have "?x * ?n = ?d * (?x div ?d * ?n) + ?x mod ?d * ?n"
    by (metis add_mult_distrib mult.assoc mult_div_mod_eq)
  then have e: "?x * ?n div ?d = ?x div ?d * ?n + ?x mod ?d * ?n div ?d"
    using d by simp
  have m: "?x mod ?d * ?n < 2 ^ 32"
    using le_less_trans [OF mult_le_mono1 assms(2)] mod_less_divisor [OF d, of ?x] less_imp_le by blast
  have "unat (x div d * n) = ?x div ?d * ?n" "unat (x mod d * n) = ?x mod ?d * ?n"
    using e m assms(3) by (simp_all add: unat_word_ariths(2) unat_div unat_mod)
  then show ?thesis
    using e assms(3) by (simp add: mult_frac_def unat_word_ariths(1) unat_div)
qed

end
