(* ===== verification/Clic_Driver.thy ===== *)
theory Clic_Driver
  imports Prelude
begin

text \<open>
  The interrupt controller driver (\<open>linux/drivers/irqchip/irq-esp32s31-clic.c\<close>).
  The supervisor window of the CLIC is a map from byte offsets to bytes, the block
  of the interrupt matrix one from byte offsets to words.  What the interrupt core
  of Linux does (its domains, \<open>request_irq\<close>, the handler of the local causes) is a
  parameter, or, for the deferred work, the steps of a relation.

  The lemmas show what the allocation of an interrupt writes, and what it leaves;
  that a cause comes back unchanged from its handler; that a failed probe keeps
  nothing; and that no deferred work is lost, in any order of queueing and
  interrupts.
\<close>

section \<open>Registers\<close>

abbreviation (input) ESP32S31_CLIC_CTRL_OFF :: nat where "ESP32S31_CLIC_CTRL_OFF \<equiv> 0x1000"
abbreviation (input) ESP32S31_CLIC_INT_STRIDE :: nat where "ESP32S31_CLIC_INT_STRIDE \<equiv> 4"
abbreviation (input) ESP32S31_CLIC_INT_IP :: nat where "ESP32S31_CLIC_INT_IP \<equiv> 0"
abbreviation (input) ESP32S31_CLIC_INT_IE :: nat where "ESP32S31_CLIC_INT_IE \<equiv> 1"
abbreviation (input) ESP32S31_CLIC_INT_ATTR :: nat where "ESP32S31_CLIC_INT_ATTR \<equiv> 2"
abbreviation (input) ESP32S31_CLIC_INT_CTL :: nat where "ESP32S31_CLIC_INT_CTL \<equiv> 3"
abbreviation (input) CLIC_EXT_MIN_ID :: nat where "CLIC_EXT_MIN_ID \<equiv> 16"
abbreviation (input) CLIC_NR_IRQS :: nat where "CLIC_NR_IRQS \<equiv> 48"
abbreviation (input) ESP32S31_CLIC_IRQ_WORK_ID :: nat where "ESP32S31_CLIC_IRQ_WORK_ID \<equiv> CLIC_EXT_MIN_ID"
abbreviation (input) CLIC_CAUSE_EXCCODE_MASK :: u32 where "CLIC_CAUSE_EXCCODE_MASK \<equiv> 0xfff"
abbreviation (input) ESP32S31_MAX_PRIORITY :: u8 where "ESP32S31_MAX_PRIORITY \<equiv> 3"
abbreviation (input) CLIC_ATTR_TRIG_LEVEL :: u8 where "CLIC_ATTR_TRIG_LEVEL \<equiv> 0"
abbreviation (input) CLIC_ATTR_TRIG_EDGE :: u8 where "CLIC_ATTR_TRIG_EDGE \<equiv> 2"
abbreviation (input) CLIC_ATTR_MODE_S :: u8 where "CLIC_ATTR_MODE_S \<equiv> 0x40"
abbreviation (input) ESP32S31_INTMATRIX_CORE_STRIDE :: u32 where "ESP32S31_INTMATRIX_CORE_STRIDE \<equiv> 0x800"
abbreviation (input) ESP32S31_INTMATRIX_MAP_MASK :: u32 where "ESP32S31_INTMATRIX_MAP_MASK \<equiv> 0x3f"
abbreviation (input) ESP32S31_INTMATRIX_PASS_LEVEL_MASK :: u32 where "ESP32S31_INTMATRIX_PASS_LEVEL_MASK \<equiv> 0x300"
abbreviation (input) ESP32S31_INTMATRIX_PASS_LEVEL_S :: u32 where "ESP32S31_INTMATRIX_PASS_LEVEL_S \<equiv> 0x100"
abbreviation (input) CAUSE_IRQ_FLAG :: u32 where "CAUSE_IRQ_FLAG \<equiv> 0x80000000"
abbreviation (input) IRQ_TYPE_NONE :: u32 where "IRQ_TYPE_NONE \<equiv> 0"
abbreviation (input) IRQ_TYPE_LEVEL_MASK :: u32 where "IRQ_TYPE_LEVEL_MASK \<equiv> 0xc"
abbreviation (input) IRQ_TYPE_SENSE_MASK :: u32 where "IRQ_TYPE_SENSE_MASK \<equiv> 0xf"

definition CLICCTL_MAKE :: "u8 \<Rightarrow> u8 \<Rightarrow> u8" where
  "CLICCTL_MAKE level prio = push_bit 7 level OR push_bit 5 prio"

text \<open>The threshold register, the two windows, and the information of the
  interrupts which the core of Linux keeps: the input of each virtual number.\<close>

record esp32s31_clic =
  c_regs :: "nat \<Rightarrow> u8"
  c_matrix :: "nat \<Rightarrow> u32"
  c_thresh :: u32
  c_info :: "nat \<Rightarrow> nat option"

definition clic_addr :: "nat \<Rightarrow> nat \<Rightarrow> nat" where
  "clic_addr irq_id byte_off = ESP32S31_CLIC_CTRL_OFF + irq_id * ESP32S31_CLIC_INT_STRIDE + byte_off"

definition clic_readb :: "esp32s31_clic \<Rightarrow> nat \<Rightarrow> nat \<Rightarrow> u8" where
  "clic_readb c irq_id byte_off = c_regs c (clic_addr irq_id byte_off)"

definition clic_writeb :: "nat \<Rightarrow> nat \<Rightarrow> u8 \<Rightarrow> esp32s31_clic \<Rightarrow> esp32s31_clic" where
  "clic_writeb irq_id byte_off val c = c\<lparr>c_regs := (c_regs c)(clic_addr irq_id byte_off := val)\<rparr>"

section \<open>The chip\<close>

definition esp32s31_clic_irq_enable :: "nat \<Rightarrow> u8 \<Rightarrow> esp32s31_clic \<Rightarrow> esp32s31_clic" where
  "esp32s31_clic_irq_enable hwirq enable = clic_writeb hwirq ESP32S31_CLIC_INT_IE enable"

definition esp32s31_clic_irq_mask :: "nat \<Rightarrow> esp32s31_clic \<Rightarrow> esp32s31_clic" where
  "esp32s31_clic_irq_mask hwirq = esp32s31_clic_irq_enable hwirq 0"

definition esp32s31_clic_irq_unmask :: "nat \<Rightarrow> esp32s31_clic \<Rightarrow> esp32s31_clic" where
  "esp32s31_clic_irq_unmask hwirq = esp32s31_clic_irq_enable hwirq 1"

text \<open>Empty: \<open>chained_irq_enter\<close> then does not mask.\<close>

definition esp32s31_clic_irq_eoi :: "nat \<Rightarrow> esp32s31_clic \<Rightarrow> esp32s31_clic" where
  "esp32s31_clic_irq_eoi hwirq c = c"

definition esp32s31_clic_set_type :: "nat \<Rightarrow> u32 \<Rightarrow> esp32s31_clic \<Rightarrow> errno option \<times> esp32s31_clic" where
  "esp32s31_clic_set_type hwirq flow_type c =
     (if flow_type AND IRQ_TYPE_LEVEL_MASK = 0 then (Some EINVAL, c)
      else (None, clic_writeb hwirq ESP32S31_CLIC_INT_ATTR (CLIC_ATTR_MODE_S OR CLIC_ATTR_TRIG_LEVEL) c))"

text \<open>The local causes are masked in the CLIC also.\<close>

definition esp32s31_intc_clic_irq_mask :: "nat \<Rightarrow> esp32s31_clic \<Rightarrow> esp32s31_clic" where
  "esp32s31_intc_clic_irq_mask hwirq = clic_writeb hwirq ESP32S31_CLIC_INT_IE 0"

definition esp32s31_intc_clic_irq_unmask :: "nat \<Rightarrow> esp32s31_clic \<Rightarrow> esp32s31_clic" where
  "esp32s31_intc_clic_irq_unmask hwirq = clic_writeb hwirq ESP32S31_CLIC_INT_IE 1"

section \<open>The domain\<close>

definition esp32s31_intmatrix_route :: "u32 \<Rightarrow> u32 \<Rightarrow> esp32s31_clic \<Rightarrow> esp32s31_clic" where
  "esp32s31_intmatrix_route source hwirq c =
     (if source \<ge> ESP32S31_INTMATRIX_CORE_STRIDE div 4 then c
      else let reg = unat source * 4;
               val = c_matrix c reg AND NOT (ESP32S31_INTMATRIX_MAP_MASK OR ESP32S31_INTMATRIX_PASS_LEVEL_MASK);
               val = val OR ((hwirq AND ESP32S31_INTMATRIX_MAP_MASK) OR ESP32S31_INTMATRIX_PASS_LEVEL_S)
           in c\<lparr>c_matrix := (c_matrix c)(reg := val)\<rparr>)"

text \<open>The three cells of an interrupt: its input, its source and its type.\<close>

definition esp32s31_clic_parse_fwspec :: "u32 list \<Rightarrow> errno + u32 \<times> u32 \<times> u32" where
  "esp32s31_clic_parse_fwspec param =
     (if length param \<noteq> 3 then Inl EINVAL else Inr (param ! 0, param ! 1, param ! 2 AND IRQ_TYPE_SENSE_MASK))"

definition esp32s31_clic_domain_map :: "nat \<Rightarrow> nat \<Rightarrow> esp32s31_clic \<Rightarrow> esp32s31_clic" where
  "esp32s31_clic_domain_map irq hwirq c = c\<lparr>c_info := (c_info c)(irq \<mapsto> hwirq)\<rparr>"

definition esp32s31_clic_domain_translate :: "u32 list \<Rightarrow> errno + u32 \<times> u32" where
  "esp32s31_clic_domain_translate param =
     (case esp32s31_clic_parse_fwspec param of Inl e \<Rightarrow> Inl e | Inr (hwirq, source, type) \<Rightarrow> Inr (hwirq, type))"

definition esp32s31_clic_domain_alloc :: "nat \<Rightarrow> u32 list \<Rightarrow> esp32s31_clic \<Rightarrow> errno option \<times> esp32s31_clic" where
  "esp32s31_clic_domain_alloc virq fwspec c =
     (case esp32s31_clic_parse_fwspec fwspec of
        Inl _ \<Rightarrow> (Some EINVAL, c)
      | Inr (hwirq, source, type) \<Rightarrow>
          if unat hwirq \<ge> CLIC_NR_IRQS then (Some EINVAL, c)
          else
            let c = esp32s31_intmatrix_route source hwirq c;
                c = esp32s31_clic_domain_map virq (unat hwirq) c;
                c = clic_writeb (unat hwirq) ESP32S31_CLIC_INT_CTL (CLICCTL_MAKE 1 ESP32S31_MAX_PRIORITY) c;
                c = (if type \<noteq> IRQ_TYPE_NONE then snd (esp32s31_clic_set_type (unat hwirq) type c) else c)
            in (None, c))"

definition esp32s31_clic_domain_free :: "nat \<Rightarrow> esp32s31_clic \<Rightarrow> esp32s31_clic" where
  "esp32s31_clic_domain_free virq c = c\<lparr>c_info := (c_info c)(virq := None)\<rparr>"

section \<open>The handler\<close>

text \<open>\<open>cause\<close> is the field of the saved registers, which the fallback also sees;
  \<open>domain_irq\<close> is the handling of an input by the domain.\<close>

definition esp32s31_clic_handle_irq ::
    "(u32 \<times> esp32s31_clic \<Rightarrow> u32 \<times> esp32s31_clic) option \<Rightarrow> (nat \<Rightarrow> u32 \<times> esp32s31_clic \<Rightarrow> u32 \<times> esp32s31_clic)
     \<Rightarrow> bool \<Rightarrow> u32 \<times> esp32s31_clic \<Rightarrow> u32 \<times> esp32s31_clic" where
  "esp32s31_clic_handle_irq fallback domain_irq probed regs =
     (if \<not> probed then regs
      else
        let (raw_cause, c) = regs; irq_id = unat (raw_cause AND CLIC_CAUSE_EXCCODE_MASK)
        in if irq_id < CLIC_EXT_MIN_ID then
             let attr = clic_readb c irq_id ESP32S31_CLIC_INT_ATTR;
                 c = (if attr AND CLIC_ATTR_TRIG_EDGE \<noteq> 0 then clic_writeb irq_id ESP32S31_CLIC_INT_IP 0 c else c);
                 regs = (CAUSE_IRQ_FLAG OR of_nat irq_id, c);
                 regs = (case fallback of Some f \<Rightarrow> f regs | None \<Rightarrow> regs)
             in (raw_cause, snd regs)
           else if irq_id \<ge> CLIC_NR_IRQS then regs
           else domain_irq irq_id regs)"

section \<open>Deferred work\<close>

text \<open>\<open>clic_per_cpu\<close>, when set, is the controller of the raise.\<close>

definition arch_irq_work_raise :: "bool \<Rightarrow> esp32s31_clic \<Rightarrow> esp32s31_clic" where
  "arch_irq_work_raise probed c =
     (if \<not> probed then c else clic_writeb ESP32S31_CLIC_IRQ_WORK_ID ESP32S31_CLIC_INT_IP 1 c)"

text \<open>The handler as its calls in order: a write of the pending byte, and the run
  of the work that is queued.\<close>

datatype work_call = Write_ip u8 | Irq_work_run

definition esp32s31_irq_work_interrupt :: "work_call list" where
  "esp32s31_irq_work_interrupt = [Write_ip 0, Irq_work_run]"

text \<open>\<open>virq\<close>: the mapping of the input, 0 when there is none; \<open>req\<close>: the result of
  \<open>request_irq\<close>.\<close>

definition esp32s31_irq_work_init :: "nat \<Rightarrow> errno option \<Rightarrow> esp32s31_clic \<Rightarrow> errno option \<times> esp32s31_clic" where
  "esp32s31_irq_work_init virq req c =
     (let c = clic_writeb ESP32S31_CLIC_IRQ_WORK_ID ESP32S31_CLIC_INT_IP 0 c;
          c = clic_writeb ESP32S31_CLIC_IRQ_WORK_ID ESP32S31_CLIC_INT_ATTR (CLIC_ATTR_MODE_S OR CLIC_ATTR_TRIG_EDGE) c;
          c = clic_writeb ESP32S31_CLIC_IRQ_WORK_ID ESP32S31_CLIC_INT_CTL (CLICCTL_MAKE 1 ESP32S31_MAX_PRIORITY) c
      in if virq = 0 then (Some ENOMEM, c)
         else
           let c = esp32s31_clic_domain_map virq ESP32S31_CLIC_IRQ_WORK_ID c
           in if req \<noteq> None then (req, esp32s31_clic_domain_free virq c)
              else (None, clic_writeb ESP32S31_CLIC_IRQ_WORK_ID ESP32S31_CLIC_INT_IP 1 c))"

section \<open>Initialization\<close>

definition init_input :: "nat \<Rightarrow> esp32s31_clic \<Rightarrow> esp32s31_clic" where
  "init_input i c =
     (let c = clic_writeb i ESP32S31_CLIC_INT_IP 0 c;
          c = clic_writeb i ESP32S31_CLIC_INT_IE 0 c;
          c = clic_writeb i ESP32S31_CLIC_INT_ATTR (CLIC_ATTR_MODE_S OR CLIC_ATTR_TRIG_LEVEL) c
      in clic_writeb i ESP32S31_CLIC_INT_CTL (CLICCTL_MAKE 1 ESP32S31_MAX_PRIORITY) c)"

definition esp32s31_clic_init_cpu :: "esp32s31_clic \<Rightarrow> esp32s31_clic" where
  "esp32s31_clic_init_cpu c = fold init_input [CLIC_EXT_MIN_ID..<CLIC_NR_IRQS] (c\<lparr>c_thresh := 0\<rparr>)"

text \<open>The results of the calls of the probe.\<close>

record clic_env =
  e_alloc :: bool
  e_regs :: "errno option"
  e_map_regs :: bool
  e_matrix :: "errno + u32"
  e_hart :: u32
  e_map_matrix :: bool
  e_domain :: bool
  e_intc :: bool
  e_virq :: nat
  e_req :: "errno option"

datatype clic_held = Memory | Regs_window | Matrix_window | Domain

text \<open>The last step of the probe, after everything is mapped: its failure is only a
  warning.\<close>

definition probe_finish :: "clic_env \<Rightarrow> esp32s31_clic \<Rightarrow> esp32s31_clic" where
  "probe_finish e c =
     (let c = esp32s31_clic_init_cpu c
      in if e_intc e then snd (esp32s31_irq_work_init (e_virq e) (e_req e) c) else c)"

text \<open>The result, what the driver still holds, and the controller.\<close>

definition esp32s31_clic_probe :: "clic_env \<Rightarrow> esp32s31_clic \<Rightarrow> errno option \<times> clic_held set \<times> esp32s31_clic" where
  "esp32s31_clic_probe e c =
     (let err_free = (\<lambda>held. held - {Memory});
          err_unmap = (\<lambda>held. err_free (held - {Matrix_window, Regs_window}))
      in if \<not> e_alloc e then (Some ENOMEM, {}, c)
         else let held = {Memory}
         in if e_regs e \<noteq> None then (e_regs e, err_free held, c)
         else if \<not> e_map_regs e then (Some ENOMEM, err_free held, c)
         else let held = insert Regs_window held
         in case e_matrix e of
              Inl r \<Rightarrow> (Some r, err_unmap held, c)
            | Inr room \<Rightarrow>
                if (e_hart e + 1) * ESP32S31_INTMATRIX_CORE_STRIDE > room then (Some EINVAL, err_unmap held, c)
                else if \<not> e_map_matrix e then (Some ENOMEM, err_unmap held, c)
                else let held = insert Matrix_window held
                in if \<not> e_domain e then (Some ENOMEM, err_unmap held, c)
                else (None, insert Domain held, probe_finish e c))"

section \<open>The deferred work as steps\<close>

text \<open>The work that is queued, taken by a run, and done, in order; the calls of the
  handler that are left; the additions to an empty list whose raise is still to
  come.  \<open>w_ready\<close>: the handler is requested.\<close>

record work_state =
  w_clic :: esp32s31_clic
  w_probed :: bool
  w_ready :: bool
  w_list :: "nat list"
  w_raise :: nat
  w_todo :: "work_call list"
  w_running :: "nat list"
  w_ran :: "nat list"
  w_all :: "nat list"

definition work_start :: "esp32s31_clic \<Rightarrow> work_state" where
  "work_start c = \<lparr>w_clic = c, w_probed = False, w_ready = False, w_list = [], w_raise = 0, w_todo = [], w_running = [],
     w_ran = [], w_all = []\<rparr>"

text \<open>What the processor and the handler do.\<close>

inductive serve :: "work_state \<Rightarrow> work_state \<Rightarrow> bool" where
  raised: "0 < w_raise s \<Longrightarrow>
    serve s (s\<lparr>w_raise := w_raise s - 1, w_clic := arch_irq_work_raise (w_probed s) (w_clic s)\<rparr>)"
| interrupt: "w_ready s \<Longrightarrow> clic_readb (w_clic s) ESP32S31_CLIC_IRQ_WORK_ID ESP32S31_CLIC_INT_IP \<noteq> 0 \<Longrightarrow> w_todo s = [] \<Longrightarrow> w_running s = [] \<Longrightarrow>
    serve s (s\<lparr>w_todo := esp32s31_irq_work_interrupt\<rparr>)"
| write_ip: "w_todo s = Write_ip v # cs \<Longrightarrow> w_running s = [] \<Longrightarrow>
    serve s (s\<lparr>w_todo := cs, w_clic := clic_writeb ESP32S31_CLIC_IRQ_WORK_ID ESP32S31_CLIC_INT_IP v (w_clic s)\<rparr>)"
| run: "w_todo s = Irq_work_run # cs \<Longrightarrow> w_running s = [] \<Longrightarrow>
    serve s (s\<lparr>w_todo := cs, w_running := w_list s, w_list := []\<rparr>)"
| item: "w_running s = x # xs \<Longrightarrow> serve s (s\<lparr>w_running := xs, w_ran := w_ran s @ [x]\<rparr>)"

text \<open>Besides, the probe, once, and additions at any time: by other code, and by the
  items that run.  The queue raises when it adds to an empty list.\<close>

inductive work_step :: "work_state \<Rightarrow> work_state \<Rightarrow> bool" where
  serve: "serve s t \<Longrightarrow> work_step s t"
| queue: "work_step s (s\<lparr>w_list := w_list s @ [x], w_all := w_all s @ [x], w_raise := w_raise s + (if w_list s = [] then 1 else 0)\<rparr>)"
| probe: "\<not> w_probed s \<Longrightarrow> esp32s31_clic_probe e (w_clic s) = (None, held, c) \<Longrightarrow>
    work_step s (s\<lparr>w_probed := True, w_clic := c,
      w_ready := e_intc e \<and> fst (esp32s31_irq_work_init (e_virq e) (e_req e) (esp32s31_clic_init_cpu (w_clic s))) = None\<rparr>)"

definition work_reach :: "work_state \<Rightarrow> bool" where
  "work_reach s = (\<exists>c. work_step\<^sup>*\<^sup>* (work_start c) s)"

text \<open>The handler is at a suffix of its calls; what was added is done, running or
  queued, in this order; work that is queued has a raise, a run or a pending
  interrupt to come.\<close>

definition work_ok :: "work_state \<Rightarrow> bool" where
  "work_ok s = (w_todo s \<in> {esp32s31_irq_work_interrupt, tl esp32s31_irq_work_interrupt, []} \<and>
     (w_running s \<noteq> [] \<longrightarrow> w_todo s = []) \<and>
     w_all s = w_ran s @ w_running s @ w_list s \<and> (w_ready s \<longrightarrow> w_probed s) \<and>
     (w_ready s \<and> w_list s \<noteq> [] \<longrightarrow> clic_readb (w_clic s) ESP32S31_CLIC_IRQ_WORK_ID ESP32S31_CLIC_INT_IP = 1 \<or> Irq_work_run \<in> set (w_todo s) \<or> 0 < w_raise s))"

section \<open>Lemmas: registers\<close>

lemma clic_addr_eq: "o1 < 4 \<Longrightarrow> o2 < 4 \<Longrightarrow> clic_addr i o1 = clic_addr j o2 \<longleftrightarrow> i = j \<and> o1 = o2"
  unfolding clic_addr_def by presburger

lemma clic_read_write:
  "o1 < 4 \<Longrightarrow> o2 < 4 \<Longrightarrow> clic_readb (clic_writeb i o1 v c) j o2 = (if i = j \<and> o1 = o2 then v else clic_readb c j o2)"
  by (auto simp: clic_readb_def clic_writeb_def clic_addr_eq)

lemma clic_write_rest [simp]:
  "c_matrix (clic_writeb i b v c) = c_matrix c" "c_info (clic_writeb i b v c) = c_info c" "c_thresh (clic_writeb i b v c) = c_thresh c"
  by (simp_all add: clic_writeb_def)

lemma clic_route_rest [simp]:
  "c_regs (esp32s31_intmatrix_route s h c) = c_regs c" "c_info (esp32s31_intmatrix_route s h c) = c_info c"
  by (simp_all add: esp32s31_intmatrix_route_def Let_def)

lemma clic_map_rest [simp]:
  "c_regs (esp32s31_clic_domain_map v h c) = c_regs c" "c_matrix (esp32s31_clic_domain_map v h c) = c_matrix c"
  by (simp_all add: esp32s31_clic_domain_map_def)

lemma clic_read_regs: "c_regs c = c_regs c' \<Longrightarrow> clic_readb c i b = clic_readb c' i b"
  by (simp add: clic_readb_def)

lemmas clic_reads = clic_read_write clic_read_regs [OF clic_route_rest(1)] clic_read_regs [OF clic_map_rest(1)]

lemma clic_ctl: "CLICCTL_MAKE 1 ESP32S31_MAX_PRIORITY = 0xe0"
  by (simp add: CLICCTL_MAKE_def)

text \<open>Initialization sets every external input alike, and no other.\<close>

lemma init_input_read:
  "b < 4 \<Longrightarrow> clic_readb (init_input i c) j b =
     (if i = j then (if b = ESP32S31_CLIC_INT_ATTR then CLIC_ATTR_MODE_S else if b = ESP32S31_CLIC_INT_CTL then 0xe0 else 0) else clic_readb c j b)"
  by (auto simp: init_input_def Let_def clic_read_write clic_ctl less_Suc_eq numeral_eq_Suc)

lemma init_inputs_read:
  "b < 4 \<Longrightarrow> clic_readb (fold init_input is c) j b =
     (if j \<in> set is then (if b = ESP32S31_CLIC_INT_ATTR then CLIC_ATTR_MODE_S else if b = ESP32S31_CLIC_INT_CTL then 0xe0 else 0) else clic_readb c j b)"
  by (induction "is" arbitrary: c) (simp_all add: init_input_read)

lemma init_cpu_read:
  "b < 4 \<Longrightarrow> clic_readb (esp32s31_clic_init_cpu c) j b =
     (if CLIC_EXT_MIN_ID \<le> j \<and> j < CLIC_NR_IRQS then (if b = ESP32S31_CLIC_INT_ATTR then CLIC_ATTR_MODE_S else if b = ESP32S31_CLIC_INT_CTL then 0xe0 else 0)
      else clic_readb c j b)"
  unfolding esp32s31_clic_init_cpu_def
  by (simp add: init_inputs_read del: upt_rec_numeral) (simp add: clic_readb_def)

text \<open>The local inputs: the handler leaves the cause as it was, and passes the local
  ones, without the level bits, to the fallback; an edge input is cleared first.\<close>

lemma handle_irq_cases:
  fixes cause :: u32
  defines "n \<equiv> unat (cause AND CLIC_CAUSE_EXCCODE_MASK)"
  shows "n < CLIC_EXT_MIN_ID \<Longrightarrow> fst (esp32s31_clic_handle_irq fb handle True (cause, c)) = cause"
    and "n < CLIC_EXT_MIN_ID \<Longrightarrow> snd (esp32s31_clic_handle_irq (Some (\<lambda>r. r)) handle True (cause, c)) =
      (if clic_readb c n ESP32S31_CLIC_INT_ATTR AND CLIC_ATTR_TRIG_EDGE \<noteq> 0 then clic_writeb n ESP32S31_CLIC_INT_IP 0 c else c)"
    and "CLIC_EXT_MIN_ID \<le> n \<Longrightarrow> n < CLIC_NR_IRQS \<Longrightarrow> esp32s31_clic_handle_irq fb handle True (cause, c) = handle n (cause, c)"
    and "CLIC_NR_IRQS \<le> n \<Longrightarrow> esp32s31_clic_handle_irq fb handle True (cause, c) = (cause, c)"
  unfolding n_def esp32s31_clic_handle_irq_def by (simp_all add: Let_def)

text \<open>A probe that fails keeps nothing, and has not touched the controller.\<close>

lemma probe_cleanup:
  assumes "esp32s31_clic_probe e c = (ret, held, c')"
  shows "if ret = None then held = {Memory, Regs_window, Matrix_window, Domain} \<and> c' = probe_finish e c else held = {} \<and> c' = c"
  using assms by (auto simp: esp32s31_clic_probe_def Let_def dest: sym split: if_splits sum.splits)

section \<open>Lemmas: deferred work\<close>

lemma irq_work_init_ip:
  assumes "esp32s31_irq_work_init virq req c = (None, c')"
  shows "clic_readb c' ESP32S31_CLIC_IRQ_WORK_ID ESP32S31_CLIC_INT_IP = 1"
  using assms by (auto simp: esp32s31_irq_work_init_def Let_def clic_read_write split: if_splits)

lemma serve_ok: "serve s t \<Longrightarrow> work_ok s \<Longrightarrow> work_ok t"
  by (induction rule: serve.induct)
    (auto simp: work_ok_def esp32s31_irq_work_interrupt_def arch_irq_work_raise_def clic_read_write)

lemma work_step_ok: "work_step s t \<Longrightarrow> work_ok s \<Longrightarrow> work_ok t"
proof (induction rule: work_step.induct)
  case (probe s e held c)
  then have "c = probe_finish e (w_clic s)"
    using probe_cleanup by fastforce
  then have "e_intc e \<Longrightarrow> fst (esp32s31_irq_work_init (e_virq e) (e_req e) (esp32s31_clic_init_cpu (w_clic s))) = None \<Longrightarrow>
      clic_readb c ESP32S31_CLIC_IRQ_WORK_ID ESP32S31_CLIC_INT_IP = 1"
    by (simp add: probe_finish_def Let_def irq_work_init_ip prod_eq_iff)
  then show ?case
    using probe by (auto simp: work_ok_def)
next
  case (serve s t)
  then show ?case
    by (rule serve_ok)
next
  case (queue s x)
  then show ?case
    by (simp add: work_ok_def)
qed

lemma work_reach_ok: "work_reach s \<Longrightarrow> work_ok s"
proof -
  have "work_ok t" if "work_step\<^sup>*\<^sup>* (work_start c) t" for c t
    using that by (induction rule: rtranclp_induct) (auto simp: work_step_ok, simp add: work_ok_def work_start_def)
  then show "work_reach s \<Longrightarrow> work_ok s"
    by (auto simp: work_reach_def)
qed
section \<open>Allocation\<close>

lemma route_entry:
  fixes source hwirq :: u32
  assumes "unat source < 512" and "unat hwirq < CLIC_NR_IRQS"
  shows "c_matrix (esp32s31_intmatrix_route source hwirq c) (unat source * 4) AND ESP32S31_INTMATRIX_MAP_MASK = hwirq"
    and "c_matrix (esp32s31_intmatrix_route source hwirq c) (unat source * 4) AND ESP32S31_INTMATRIX_PASS_LEVEL_MASK = ESP32S31_INTMATRIX_PASS_LEVEL_S"
    and "c_matrix (esp32s31_intmatrix_route source hwirq c) (unat source * 4) AND NOT 0x33f = c_matrix c (unat source * 4) AND NOT 0x33f"
    and "r \<noteq> unat source * 4 \<Longrightarrow> c_matrix (esp32s31_intmatrix_route source hwirq c) r = c_matrix c r"
proof -
  let ?old = "c_matrix c (unat source * 4)"
  have e: "c_matrix (esp32s31_intmatrix_route source hwirq c) (unat source * 4) = (?old AND NOT 0x33f) OR ((hwirq AND 0x3f) OR 0x100)"
    using assms(1) by (simp add: esp32s31_intmatrix_route_def Let_def word_le_nat_alt)
  have "unat (hwirq AND mask 6) = unat hwirq"
    using assms(2) unat_and_mask [of hwirq 6] by simp
  then have h: "hwirq AND 0x3f = hwirq"
    by (simp add: mask_eq_exp_minus_1 word_unat_eq_iff)
  have k: "(0x3f :: u32) AND 0x33f = 0x3f" "(0x300 :: u32) AND 0x33f = 0x300"
    by simp_all
  have z: "hwirq AND 0x300 = 0" "(hwirq AND 0x3f) AND NOT 0x33f = 0"
  proof -
    have "hwirq AND 0x300 = hwirq AND (0x3f AND 0x300)"
      unfolding and.assoc [symmetric] h by (rule refl)
    then show "hwirq AND 0x300 = 0"
      by simp
    have "(0x3f :: u32) AND NOT 0x33f = 0"
      by simp
    then show "(hwirq AND 0x3f) AND NOT 0x33f = 0"
      by (simp only: and.assoc) simp
  qed
  show "c_matrix (esp32s31_intmatrix_route source hwirq c) (unat source * 4) AND ESP32S31_INTMATRIX_MAP_MASK = hwirq"
    unfolding e field_sub [OF k(1)] by (simp only: h bit.conj_disj_distrib2) simp
  show "c_matrix (esp32s31_intmatrix_route source hwirq c) (unat source * 4) AND ESP32S31_INTMATRIX_PASS_LEVEL_MASK = ESP32S31_INTMATRIX_PASS_LEVEL_S"
    unfolding e field_sub [OF k(2)] by (simp only: h bit.conj_disj_distrib2 z) simp
  have "((?old AND NOT 0x33f) OR b) AND NOT 0x33f = (?old AND NOT 0x33f) OR (b AND NOT 0x33f)" for b
    by (rule bit_word_eqI) (auto simp: bit_simps)
  then show "c_matrix (esp32s31_intmatrix_route source hwirq c) (unat source * 4) AND NOT 0x33f = ?old AND NOT 0x33f"
    unfolding e bit.conj_disj_distrib2 z by simp
  show "r \<noteq> unat source * 4 \<Longrightarrow> c_matrix (esp32s31_intmatrix_route source hwirq c) r = c_matrix c r"
    by (simp add: esp32s31_intmatrix_route_def Let_def)
qed

lemma route_out: "512 \<le> unat (source :: u32) \<Longrightarrow> esp32s31_intmatrix_route source hwirq c = c"
  by (simp add: esp32s31_intmatrix_route_def word_le_nat_alt)

lemma set_type_rest [simp]:
  "c_matrix (snd (esp32s31_clic_set_type h t c)) = c_matrix c" "c_info (snd (esp32s31_clic_set_type h t c)) = c_info c"
  by (simp_all add: esp32s31_clic_set_type_def)

lemma alloc_fields:
  assumes "esp32s31_clic_domain_alloc virq fw c = (None, c')"
  defines "h \<equiv> unat (fw ! 0)"
  shows "length fw = 3" "h < CLIC_NR_IRQS" "c_info c' = (c_info c)(virq \<mapsto> h)" "c_matrix c' = c_matrix (esp32s31_intmatrix_route (fw ! 1) (fw ! 0) c)"
    "b < 4 \<Longrightarrow> clic_readb c' i b =
      (if i = h \<and> b = ESP32S31_CLIC_INT_CTL then 0xe0
       else if i = h \<and> b = ESP32S31_CLIC_INT_ATTR \<and> (fw ! 2) AND IRQ_TYPE_LEVEL_MASK \<noteq> 0 then CLIC_ATTR_MODE_S
       else clic_readb c i b)"
proof -
  let ?c = "clic_writeb h ESP32S31_CLIC_INT_CTL 0xe0 (esp32s31_clic_domain_map virq h (esp32s31_intmatrix_route (fw ! 1) (fw ! 0) c))"
  have "c' = (if (fw ! 2) AND 0xf \<noteq> 0 then snd (esp32s31_clic_set_type h ((fw ! 2) AND 0xf) ?c) else ?c) \<and> length fw = 3 \<and> h < CLIC_NR_IRQS"
    using assms(1) unfolding h_def
    by (auto simp: esp32s31_clic_domain_alloc_def esp32s31_clic_parse_fwspec_def Let_def clic_ctl split: if_splits)
  then have c': "c' = (if (fw ! 2) AND 0xf \<noteq> 0 then snd (esp32s31_clic_set_type h ((fw ! 2) AND 0xf) ?c) else ?c)"
    and l: "length fw = 3" "h < CLIC_NR_IRQS"
    by blast+
  show "length fw = 3" "h < CLIC_NR_IRQS"
    by (fact l)+
  show "c_info c' = (c_info c)(virq \<mapsto> h)"
    unfolding c' by (simp add: esp32s31_clic_domain_map_def)
  show "c_matrix c' = c_matrix (esp32s31_intmatrix_route (fw ! 1) (fw ! 0) c)"
    unfolding c' by simp
  have m: "(w AND 0xf) AND 0xc = w AND 0xc" "w AND 0xf = 0 \<Longrightarrow> w AND 0xc = 0" for w :: u32
  proof -
    show a: "(w AND 0xf) AND 0xc = w AND 0xc"
      by (simp add: and.assoc)
    show "w AND 0xf = 0 \<Longrightarrow> w AND 0xc = 0"
      using a by simp
  qed
  show "b < 4 \<Longrightarrow> clic_readb c' i b =
      (if i = h \<and> b = ESP32S31_CLIC_INT_CTL then 0xe0
       else if i = h \<and> b = ESP32S31_CLIC_INT_ATTR \<and> (fw ! 2) AND IRQ_TYPE_LEVEL_MASK \<noteq> 0 then CLIC_ATTR_MODE_S
       else clic_readb c i b)"
    unfolding c' using m(2) [of "fw ! 2"] by (auto simp: esp32s31_clic_set_type_def m(1) clic_reads)
qed

text \<open>An interrupt is allocated as its three cells say.  A wrong number of
  cells or an input of 48 or more is an error that changes nothing.  Otherwise the
  virtual number gets the input, the matrix entry of the source (when it is one of
  the 512) gets the input and the supervisor level and keeps its other bits, the
  control byte of the input gets its priority, and its attribute is written exactly
  for a level type; every other entry and byte register is as it was, so the
  allocation of one interrupt leaves the inputs and the sources of the others.\<close>

theorem interrupt_alloc:
  assumes "esp32s31_clic_domain_alloc virq fw c = (ret, c')"
  shows "(case ret of
      Some e \<Rightarrow> e = EINVAL \<and> c' = c \<and> (length fw \<noteq> 3 \<or> CLIC_NR_IRQS \<le> unat (fw ! 0))
    | None \<Rightarrow> length fw = 3 \<and> unat (fw ! 0) < CLIC_NR_IRQS \<and> c_info c' = (c_info c)(virq \<mapsto> unat (fw ! 0)) \<and>
        (if unat (fw ! 1) < 512
         then c_matrix c' (unat (fw ! 1) * 4) AND ESP32S31_INTMATRIX_MAP_MASK = fw ! 0 \<and>
           c_matrix c' (unat (fw ! 1) * 4) AND ESP32S31_INTMATRIX_PASS_LEVEL_MASK = ESP32S31_INTMATRIX_PASS_LEVEL_S \<and>
           c_matrix c' (unat (fw ! 1) * 4) AND NOT 0x33f = c_matrix c (unat (fw ! 1) * 4) AND NOT 0x33f \<and>
           (\<forall>r. r \<noteq> unat (fw ! 1) * 4 \<longrightarrow> c_matrix c' r = c_matrix c r)
         else c_matrix c' = c_matrix c) \<and>
        (\<forall>i b. b < 4 \<longrightarrow> clic_readb c' i b =
          (if i = unat (fw ! 0) \<and> b = ESP32S31_CLIC_INT_CTL then 0xe0
           else if i = unat (fw ! 0) \<and> b = ESP32S31_CLIC_INT_ATTR \<and> (fw ! 2) AND IRQ_TYPE_LEVEL_MASK \<noteq> 0 then CLIC_ATTR_MODE_S
           else clic_readb c i b)))"
proof (cases ret)
  case None
  note f = alloc_fields [OF assms [unfolded None]]
  show ?thesis
    unfolding None option.case using f route_entry [OF _ f(2)] route_out [of "fw ! 1"] by (auto simp: not_less)
next
  case (Some e)
  then show ?thesis
    using assms by (auto simp: esp32s31_clic_domain_alloc_def esp32s31_clic_parse_fwspec_def Let_def split: if_splits)
qed

text \<open>UART 0: input 32, source 9, level high.\<close>

theorem interrupt_alloc_witness:
  "\<exists>c c'. esp32s31_clic_domain_alloc 3 [32, 9, 4] c = (None, c') \<and> c_matrix c 36 = 0xffffffff \<and> c_matrix c' 36 AND 0x3f = 32 \<and> clic_readb c' 32 3 = 0xe0"
proof -
  let ?c = "\<lparr>c_regs = (\<lambda>_. 0), c_matrix = (\<lambda>_. 0xffffffff), c_thresh = 0, c_info = (\<lambda>_. None)\<rparr>"
  obtain c' where "esp32s31_clic_domain_alloc 3 [32, 9, 4] ?c = (None, c')"
    by (simp add: esp32s31_clic_domain_alloc_def esp32s31_clic_parse_fwspec_def Let_def)
  with interrupt_alloc [OF this] show ?thesis
    by (intro exI [of _ ?c] exI [of _ c']) simp
qed

section \<open>Deferred work\<close>

text \<open>From any state the processor can finish: the raises first, then the handler as
  often as it takes.\<close>

lemma finish_raises: "\<exists>t. serve\<^sup>*\<^sup>* s t \<and> w_raise t = 0 \<and> w_all t = w_all s \<and> w_ready t = w_ready s"
proof (induction "w_raise s" arbitrary: s)
  case 0
  then show ?case
    by auto
next
  case (Suc n)
  let ?t = "s\<lparr>w_raise := w_raise s - 1, w_clic := arch_irq_work_raise (w_probed s) (w_clic s)\<rparr>"
  have "serve s ?t"
    using Suc(2) by (intro serve.raised) simp
  moreover have "n = w_raise ?t"
    using Suc(2) by simp
  then obtain t where "serve\<^sup>*\<^sup>* ?t t" "w_raise t = 0" "w_all t = w_all s" "w_ready t = w_ready s"
    using Suc(1) [of ?t] by auto
  ultimately show ?case
    by (meson converse_rtranclp_into_rtranclp)
qed

lemma finish_items: "\<exists>t. serve\<^sup>*\<^sup>* s t \<and> w_running t = [] \<and> w_raise t = w_raise s \<and> w_all t = w_all s \<and> w_ready t = w_ready s \<and> w_list t = w_list s \<and> w_todo t = w_todo s"
proof (induction "w_running s" arbitrary: s)
  case Nil
  then show ?case
    by auto
next
  case (Cons x xs)
  let ?t = "s\<lparr>w_running := xs, w_ran := w_ran s @ [x]\<rparr>"
  have "serve s ?t"
    using Cons(2) by (intro serve.item) simp
  moreover obtain t where "serve\<^sup>*\<^sup>* ?t t" "w_running t = []" "w_raise t = w_raise s" "w_all t = w_all s" "w_ready t = w_ready s" "w_list t = w_list s"
      "w_todo t = w_todo s"
    using Cons(1) [of ?t] by auto
  ultimately show ?case
    by (meson converse_rtranclp_into_rtranclp)
qed

text \<open>What is left of the handler runs to its end, and empties the list if its run was
  to come.\<close>

lemma finish_handler:
  "w_running s = [] \<Longrightarrow> \<exists>t. serve\<^sup>*\<^sup>* s t \<and> w_todo t = [] \<and> w_running t = [] \<and> w_raise t = w_raise s \<and> w_all t = w_all s \<and> w_ready t = w_ready s \<and>
    (if Irq_work_run \<in> set (w_todo s) then w_list t = [] else w_list t = w_list s)"
proof (induction "w_todo s" arbitrary: s)
  case Nil
  then show ?case
    by (intro exI [of _ s]) simp
next
  case (Cons call cs)
  show ?case
  proof (cases call)
    case (Write_ip v)
    let ?t = "s\<lparr>w_todo := cs, w_clic := clic_writeb ESP32S31_CLIC_IRQ_WORK_ID ESP32S31_CLIC_INT_IP v (w_clic s)\<rparr>"
    have "serve s ?t"
      using Cons(2,3) Write_ip by (intro serve.write_ip) simp_all
    moreover obtain t where "serve\<^sup>*\<^sup>* ?t t" "w_todo t = []" "w_running t = []" "w_raise t = w_raise s" "w_all t = w_all s" "w_ready t = w_ready s"
        "if Irq_work_run \<in> set cs then w_list t = [] else w_list t = w_list s"
      using Cons(1) [of ?t] Cons(3) by auto
    moreover have "w_todo s = Write_ip v # cs"
      using Cons(2) Write_ip by simp
    ultimately show ?thesis
      by (intro exI [of _ t]) (simp add: converse_rtranclp_into_rtranclp)
  next
    case Irq_work_run
    let ?u = "s\<lparr>w_todo := cs, w_running := w_list s, w_list := []\<rparr>"
    have a: "serve s ?u"
      using Cons(2,3) Irq_work_run by (intro serve.run) simp_all
    obtain u where u: "serve\<^sup>*\<^sup>* ?u u" "w_running u = []" "w_raise u = w_raise s" "w_all u = w_all s" "w_ready u = w_ready s" "w_list u = []"
        "w_todo u = cs"
      using finish_items [of ?u] by auto
    obtain t where t: "serve\<^sup>*\<^sup>* u t" "w_todo t = []" "w_running t = []" "w_raise t = w_raise s" "w_all t = w_all s" "w_ready t = w_ready s" "w_list t = []"
      using Cons(1) [of u] u by (auto split: if_splits)
    have "serve\<^sup>*\<^sup>* s t"
      using a u(1) t(1) by (meson converse_rtranclp_into_rtranclp rtranclp_trans)
    moreover have "Irq_work_run \<in> set (w_todo s)"
      using Cons(2) Irq_work_run by (metis list.set_intros(1))
    ultimately show ?thesis
      using t by (intro exI [of _ t]) simp
  qed
qed

lemma serve_star_ok: "serve\<^sup>*\<^sup>* s t \<Longrightarrow> work_ok s \<Longrightarrow> work_ok t"
  by (induction rule: rtranclp_induct) (auto simp: serve_ok)

lemma finish_work:
  assumes "work_ok s" and "w_ready s"
  shows "\<exists>t. serve\<^sup>*\<^sup>* s t \<and> w_all t = w_all s \<and> w_ran t = w_all s"
proof -
  obtain a where a: "serve\<^sup>*\<^sup>* s a" "w_raise a = 0" "w_all a = w_all s" "w_ready a"
    using finish_raises [of s] assms(2) by auto
  obtain b where b: "serve\<^sup>*\<^sup>* a b" "w_running b = []" "w_raise b = 0" "w_all b = w_all s" "w_ready b"
    using finish_items [of a] a by auto
  obtain c where c: "serve\<^sup>*\<^sup>* b c" "w_todo c = []" "w_running c = []" "w_raise c = 0" "w_all c = w_all s" "w_ready c"
    using finish_handler [OF b(2)] b by auto
  have sc: "serve\<^sup>*\<^sup>* s c"
    using a(1) b(1) c(1) by (meson rtranclp_trans)
  have ok: "work_ok c"
    using serve_star_ok [OF sc assms(1)] .
  show ?thesis
  proof (cases "w_list c")
    case Nil
    then have "w_ran c = w_all s"
      using ok c by (simp add: work_ok_def)
    then show ?thesis
      using sc c(5) by blast
  next
    case (Cons x xs)
    let ?d = "c\<lparr>w_todo := esp32s31_irq_work_interrupt\<rparr>"
    have d: "serve c ?d"
      using ok c Cons by (intro serve.interrupt) (simp_all add: work_ok_def)
    obtain t where t: "serve\<^sup>*\<^sup>* ?d t" "w_todo t = []" "w_running t = []" "w_raise t = 0" "w_all t = w_all s" "w_list t = []"
      using finish_handler [of ?d] c by (auto simp: esp32s31_irq_work_interrupt_def)
    have st: "serve\<^sup>*\<^sup>* s t"
      using sc d t(1) by (meson converse_rtranclp_into_rtranclp rtranclp_trans)
    have "w_ran t = w_all s"
      using serve_star_ok [OF st assms(1)] t by (simp add: work_ok_def)
    then show ?thesis
      using st t(5) by blast
  qed
qed

text \<open>C37: no deferred work is lost.  After the handler is requested, in every state
  that additions (at any time, from any context), raises, interrupts, the calls of
  the handler and the probe can lead to: what was added is exactly what ran, runs or
  is queued, in the order of the additions; when work is queued and no handler and
  no raise is under way, the pending bit of the input is set; and the processor can
  go on until everything that was added has run, in order.\<close>

theorem irq_work_not_lost:
  assumes "work_reach s" and "w_ready s"
  shows "w_all s = w_ran s @ w_running s @ w_list s \<and>
    (w_list s \<noteq> [] \<and> w_todo s = [] \<and> w_raise s = 0 \<longrightarrow>
       clic_readb (w_clic s) ESP32S31_CLIC_IRQ_WORK_ID ESP32S31_CLIC_INT_IP = 1) \<and>
    (\<exists>t. serve\<^sup>*\<^sup>* s t \<and> w_all t = w_all s \<and> w_ran t = w_all s)"
  using work_reach_ok [OF assms(1)] finish_work [OF work_reach_ok [OF assms(1)] assms(2)] assms(2)
  by (auto simp: work_ok_def)

theorem irq_work_not_lost_witness:
  "\<exists>s t. w_list s = [7] \<and> w_running s = [] \<and> serve\<^sup>*\<^sup>* s t \<and> w_ran t = [7]"
proof -
  let ?e = "\<lparr>e_alloc = True, e_regs = None, e_map_regs = True, e_matrix = Inr 0x1000, e_hart = 1, e_map_matrix = True, e_domain = True,
     e_intc = True, e_virq = 5, e_req = None\<rparr>"
  let ?c = "\<lparr>c_regs = (\<lambda>_. 0), c_matrix = (\<lambda>_. 0), c_thresh = 0, c_info = (\<lambda>_. None)\<rparr>"
  have "esp32s31_clic_probe ?e ?c = (None, {Memory, Regs_window, Matrix_window, Domain}, probe_finish ?e ?c)"
    by (auto simp: esp32s31_clic_probe_def)
  then have p: "work_step (work_start ?c) (work_start ?c\<lparr>w_probed := True, w_clic := probe_finish ?e ?c, w_ready := True\<rparr>)"
    using work_step.probe [of "work_start ?c" ?e] by (simp add: work_start_def esp32s31_irq_work_init_def Let_def)
  have q: "work_step s (s\<lparr>w_list := [7], w_all := [7], w_raise := 1\<rparr>)" if "w_list s = []" "w_all s = []" "w_raise s = 0" for s
    using work_step.queue [of s 7] that by simp
  let ?s = "work_start ?c\<lparr>w_probed := True, w_clic := probe_finish ?e ?c, w_ready := True, w_list := [7], w_all := [7], w_raise := 1\<rparr>"
  have "work_step\<^sup>*\<^sup>* (work_start ?c) ?s"
    using p q [of "work_start ?c\<lparr>w_probed := True, w_clic := probe_finish ?e ?c, w_ready := True\<rparr>"]
    by (simp add: work_start_def rtranclp.rtrancl_into_rtrancl [OF r_into_rtranclp])
  then have "work_reach ?s"
    by (auto simp: work_reach_def)
  moreover have s: "w_ready ?s" "w_all ?s = [7]" "w_list ?s = [7]" "w_running ?s = []"
    by (simp_all add: work_start_def)
  ultimately have "\<exists>t. serve\<^sup>*\<^sup>* ?s t \<and> w_ran t = [7]"
    using irq_work_not_lost [of ?s] by (simp only: s) blast
  then show ?thesis
    using s by blast
qed

end
