(* ===== verification/Sys_Calls.thy ===== *)
theory Sys_Calls
  imports Prelude "HOL-Library.State_Monad"
begin

text \<open>
  The system calls that open, set up and close the descriptors of the tools
  (\<open>tools/ble-ha\<close>, \<open>tools/thread-relay\<close>), as programs of the state monad over a kernel
  that is a parameter: from a call and its state to a result (below 0 for an error),
  the data that came, and its new state.  \<open>kernel_ok\<close> is what the programs rely on: a
  table of open descriptors that only these calls change, and in which a new
  descriptor was not yet.

  \<open>keeps\<close> says that a program leaves the table as it was, \<open>opens\<close> that it returns a
  descriptor that was not open and is the only change, or an error and no change.
  The rules follow the structure of the programs.
\<close>

section \<open>Calls\<close>

datatype domain = Af_inet | Af_inet6 | Af_unix | Af_bluetooth

datatype address = Any6 u16 | Any4 u16 | Hci_user u16 | Unix_path bytes

datatype sockopt =
  Reuseaddr | V6only bool | Nodelay | Keepalive | Keepidle nat | Keepintvl nat | Keepcnt nat | User_timeout nat

datatype syscall =
  Sys_socket domain
| Sys_open string
| Sys_accept int
| Sys_close int
| Sys_setsockopt int sockopt
| Sys_nonblock int
| Sys_bind int address
| Sys_listen int nat
| Sys_connect int address
| Sys_send int bytes
| Sys_write int bytes
| Sys_poll int nat
| Sys_recv int
| Sys_unlink bytes
| Sys_hci_down int int
| Sys_tcgetattr int
| Sys_set_raw int
| Sys_access string
| Sys_system string

type_synonym 'w kernel = "syscall \<Rightarrow> 'w \<Rightarrow> (int \<times> bytes) \<times> 'w"

definition sys :: "'w kernel \<Rightarrow> syscall \<Rightarrow> ('w, int) state" where
  "sys k c = State (\<lambda>w. case k c w of ((r, _), w) \<Rightarrow> (r, w))"

text \<open>\<open>recv\<close> of a datagram into \<open>n\<close> bytes: its first \<open>n\<close> bytes, or None for an error.\<close>

definition sys_recv :: "'w kernel \<Rightarrow> int \<Rightarrow> nat \<Rightarrow> ('w, bytes option) state" where
  "sys_recv k fd n = State (\<lambda>w. case k (Sys_recv fd) w of ((r, d), w) \<Rightarrow> (if r < 0 then None else Some (take n d), w))"

text \<open>Calls whose result the code ignores.\<close>

fun sys_all :: "'w kernel \<Rightarrow> syscall list \<Rightarrow> ('w, unit) state" where
  "sys_all k [] = State_Monad.return ()"
| "sys_all k (c # cs) = do { sys k c; sys_all k cs }"

section \<open>Descriptors\<close>

fun creates :: "syscall \<Rightarrow> bool" where
  "creates (Sys_socket _) = True"
| "creates (Sys_open _) = True"
| "creates (Sys_accept _) = True"
| "creates _ = False"

fun closes :: "syscall \<Rightarrow> int set" where
  "closes (Sys_close fd) = {fd}"
| "closes _ = {}"

text \<open>A call with result \<open>r\<close> may change the table from \<open>t\<close> to \<open>t'\<close>.\<close>

definition call_ok :: "syscall \<Rightarrow> int \<Rightarrow> int set \<Rightarrow> int set \<Rightarrow> bool" where
  "call_ok c r t t' \<longleftrightarrow> (if creates c \<and> r \<ge> 0 then r \<notin> t \<and> t' = insert r t else t' = t - closes c)"

definition kernel_ok :: "'w kernel \<Rightarrow> ('w \<Rightarrow> int set) \<Rightarrow> bool" where
  "kernel_ok k tbl \<longleftrightarrow> (\<forall>c w. call_ok c (fst (fst (k c w))) (tbl w) (tbl (snd (k c w))))"

definition keeps :: "('w \<Rightarrow> int set) \<Rightarrow> ('w, 'a) state \<Rightarrow> bool" where
  "keeps tbl m \<longleftrightarrow> (\<forall>w. tbl (snd (run_state m w)) = tbl w)"

definition opened :: "int \<Rightarrow> int set \<Rightarrow> int set \<Rightarrow> bool" where
  "opened r t t' \<longleftrightarrow> (if r < 0 then t' = t else r \<notin> t \<and> t' = insert r t)"

definition opens :: "('w \<Rightarrow> int set) \<Rightarrow> ('w, int) state \<Rightarrow> bool" where
  "opens tbl m \<longleftrightarrow> (\<forall>w. opened (fst (run_state m w)) (tbl w) (tbl (snd (run_state m w))))"

text \<open>A program on an open descriptor that returns it or else closes it, and one that
  closes it.\<close>

definition hands_on :: "('w \<Rightarrow> int set) \<Rightarrow> int \<Rightarrow> ('w, int) state \<Rightarrow> bool" where
  "hands_on tbl fd m \<longleftrightarrow>
     (\<forall>w. if fst (run_state m w) < 0 then tbl (snd (run_state m w)) = tbl w - {fd}
          else fst (run_state m w) = fd \<and> tbl (snd (run_state m w)) = tbl w)"

definition releases :: "('w \<Rightarrow> int set) \<Rightarrow> int \<Rightarrow> ('w, 'a) state \<Rightarrow> bool" where
  "releases tbl fd m \<longleftrightarrow> (\<forall>w. tbl (snd (run_state m w)) = tbl w - {fd})"

section \<open>Rules\<close>

lemma run_bind: "run_state (State_Monad.bind m f) w = run_state (f (fst (run_state m w))) (snd (run_state m w))"
  by (simp add: split_beta)

lemma run_sys: "run_state (sys k c) w = (fst (fst (k c w)), snd (k c w))"
  by (simp add: sys_def split_beta)

lemma call_law: "kernel_ok k tbl \<Longrightarrow> call_ok c (fst (fst (k c w))) (tbl w) (tbl (snd (k c w)))"
  by (simp add: kernel_ok_def)

lemma keeps_return: "keeps tbl (State_Monad.return x)"
  by (simp add: keeps_def)

lemma keeps_bind: "keeps tbl m \<Longrightarrow> (\<And>x. keeps tbl (f x)) \<Longrightarrow> keeps tbl (State_Monad.bind m f)"
  by (simp add: keeps_def run_bind del: run_state_bind)

lemma keeps_sys:
  assumes "kernel_ok k tbl" and "\<not> creates c" and "closes c = {}"
  shows "keeps tbl (sys k c)"
  unfolding keeps_def run_sys using assms call_law [OF assms(1), of c] by (simp add: call_ok_def)

lemma keeps_recv: "kernel_ok k tbl \<Longrightarrow> keeps tbl (sys_recv k fd n)"
  using call_law [of k tbl "Sys_recv fd"] by (simp add: keeps_def sys_recv_def split_beta call_ok_def)

lemma opens_sys:
  assumes "kernel_ok k tbl" and "creates c"
  shows "opens tbl (sys k c)"
proof -
  have "closes c = {}"
    using assms(2) by (cases c) simp_all
  then show ?thesis
    unfolding opens_def run_sys using assms(2) call_law [OF assms(1), of c] by (simp add: call_ok_def opened_def not_less)
qed

lemma opens_fail: "r < 0 \<Longrightarrow> opens tbl (State_Monad.return r)"
  by (simp add: opens_def opened_def)

lemma opens_bind:
  assumes "opens tbl m" and "\<And>fd. 0 \<le> fd \<Longrightarrow> hands_on tbl fd (f fd)" and "\<And>fd. fd < 0 \<Longrightarrow> opens tbl (f fd)"
  shows "opens tbl (State_Monad.bind m f)"
  unfolding opens_def run_bind
proof
  fix w
  let ?r = "fst (run_state m w)" and ?w = "snd (run_state m w)"
  have m: "opened ?r (tbl w) (tbl ?w)"
    using assms(1) by (simp add: opens_def)
  show "opened (fst (run_state (f ?r) ?w)) (tbl w) (tbl (snd (run_state (f ?r) ?w)))"
  proof (cases "?r < 0")
    case True
    then have "opened (fst (run_state (f ?r) ?w)) (tbl ?w) (tbl (snd (run_state (f ?r) ?w)))"
      using assms(3) by (simp add: opens_def)
    with m True show ?thesis
      by (simp add: opened_def)
  next
    case False
    then have "hands_on tbl ?r (f ?r)"
      using assms(2) by simp
    with m False show ?thesis
      by (auto simp: hands_on_def opened_def split: if_splits)
  qed
qed

lemma hands_on_return: "0 \<le> fd \<Longrightarrow> hands_on tbl fd (State_Monad.return fd)"
  by (simp add: hands_on_def)

lemma hands_on_bind: "keeps tbl m \<Longrightarrow> (\<And>x. hands_on tbl fd (f x)) \<Longrightarrow> hands_on tbl fd (State_Monad.bind m f)"
  by (simp add: keeps_def hands_on_def run_bind del: run_state_bind)

lemma releases_close: "kernel_ok k tbl \<Longrightarrow> releases tbl fd (sys k (Sys_close fd))"
  unfolding releases_def run_sys using call_law [of k tbl "Sys_close fd"] by (simp add: call_ok_def)

lemma hands_on_fail: "releases tbl fd m \<Longrightarrow> r < 0 \<Longrightarrow> hands_on tbl fd (State_Monad.bind m (\<lambda>_. State_Monad.return r))"
  by (simp add: releases_def hands_on_def run_bind del: run_state_bind)

lemma releases_bind: "keeps tbl m \<Longrightarrow> (\<And>x. releases tbl fd (f x)) \<Longrightarrow> releases tbl fd (State_Monad.bind m f)"
  by (simp add: releases_def keeps_def run_bind del: run_state_bind)

text \<open>One call of a program that closes its descriptor, or may.\<close>

lemma releases_step:
  assumes "kernel_ok k tbl" and "\<not> creates c"
    and "if closes c = {fd} then \<forall>x. keeps tbl (f x) else closes c = {} \<and> (\<forall>x. releases tbl fd (f x))"
  shows "releases tbl fd (State_Monad.bind (sys k c) f)"
  unfolding releases_def run_bind run_sys
  using assms call_law [OF assms(1), of c] by (simp add: call_ok_def keeps_def releases_def split: if_splits)

definition fails :: "('w, int) state \<Rightarrow> bool" where
  "fails m \<longleftrightarrow> (\<forall>w. fst (run_state m w) < 0 \<and> snd (run_state m w) = w)"

lemma fails_return [simp]: "fails (State_Monad.return r) \<longleftrightarrow> r < 0"
  by (simp add: fails_def)

lemma hands_on_step:
  assumes "kernel_ok k tbl" and "\<not> creates c"
    and "if closes c = {fd} then \<forall>x. fails (f x) else closes c = {} \<and> (\<forall>x. hands_on tbl fd (f x))"
  shows "hands_on tbl fd (State_Monad.bind (sys k c) f)"
  unfolding hands_on_def run_bind run_sys
  using assms call_law [OF assms(1), of c] by (simp add: call_ok_def fails_def hands_on_def split: if_splits)

text \<open>A program that opens a descriptor and closes it again.\<close>

lemma keeps_open:
  assumes "opens tbl m" and "\<And>fd. 0 \<le> fd \<Longrightarrow> releases tbl fd (f fd)" and "\<And>fd. fd < 0 \<Longrightarrow> keeps tbl (f fd)"
  shows "keeps tbl (State_Monad.bind m f)"
  unfolding keeps_def run_bind
proof
  fix w
  let ?r = "fst (run_state m w)" and ?w = "snd (run_state m w)"
  have m: "opened ?r (tbl w) (tbl ?w)"
    using assms(1) by (simp add: opens_def)
  show "tbl (snd (run_state (f ?r) ?w)) = tbl w"
  proof (cases "?r < 0")
    case True
    with m assms(3) show ?thesis
      by (simp add: keeps_def opened_def)
  next
    case False
    then have "releases tbl ?r (f ?r)"
      using assms(2) by simp
    with m False show ?thesis
      by (auto simp: releases_def opened_def)
  qed
qed

section \<open>The calls that were made\<close>

text \<open>A kernel that also keeps the calls with their results, and the end of the calls
  that make a listener: it does not block, it has its address and it listens.\<close>

definition logged_kernel :: "'w kernel \<Rightarrow> ('w \<times> (syscall \<times> int) list) kernel" where
  "logged_kernel k c wl =
     (case k c (fst wl) of ((r, d), w) \<Rightarrow> ((r, d), (w, snd wl @ [(c, r)])))"

definition listens :: "int \<Rightarrow> address \<Rightarrow> nat \<Rightarrow> (syscall \<times> int) list \<Rightarrow> bool" where
  "listens fd addr n l \<longleftrightarrow> (\<exists>pre. l = pre @ [(Sys_nonblock fd, 0), (Sys_bind fd addr, 0), (Sys_listen fd n, 0)])"

lemma run_logged:
  "run_state (sys (logged_kernel k) c) wl =
     (fst (fst (k c (fst wl))), (snd (k c (fst wl)), snd wl @ [(c, fst (fst (k c (fst wl))))]))"
  by (simp add: run_sys logged_kernel_def split_beta)

section \<open>A kernel for examples\<close>

text \<open>Its state is the list of open descriptors; calls in \<open>bad\<close> fail, and every
  datagram is \<open>d\<close>.\<close>

fun answer :: "syscall \<Rightarrow> int" where
  "answer (Sys_poll _ _) = 1"
| "answer _ = 0"

definition list_kernel :: "(syscall \<Rightarrow> bool) \<Rightarrow> bytes \<Rightarrow> int list kernel" where
  "list_kernel bad d c fds =
     (if bad c then ((-1, []), filter (\<lambda>fd. fd \<notin> closes c) fds)
      else if creates c then let fd = 1 + Max (insert 2 (set fds)) in ((fd, []), fd # fds)
      else ((answer c, d), filter (\<lambda>fd. fd \<notin> closes c) fds))"

lemma list_kernel_ok: "kernel_ok (list_kernel bad d) set"
  unfolding kernel_ok_def
proof (intro allI)
  fix c and fds :: "int list"
  let ?m = "Max (insert 2 (set fds))"
  have "x \<le> ?m" if "x \<in> insert 2 (set fds)" for x
    using that by (intro Max_ge) simp_all
  note m = this
  have "1 + ?m \<notin> set fds"
    using m [OF insertI2, of "1 + ?m"] by linarith
  moreover have "0 \<le> 1 + ?m"
    using m [OF insertI1] by linarith
  moreover have "creates c \<Longrightarrow> closes c = {}"
    by (cases c) simp_all
  ultimately show "call_ok c (fst (fst (list_kernel bad d c fds))) (set fds) (set (snd (list_kernel bad d c fds)))"
    by (cases "bad c"; cases "creates c") (auto simp: call_ok_def list_kernel_def Let_def split del: if_split)
qed

end
