(* ===== verification/Thread_Relay.thy ===== *)
theory Thread_Relay
  imports Sys_Calls "HOL-Library.Sublist"
begin

text \<open>
  The relay of the Thread radio (\<open>tools/thread-relay/thread-relay.c\<close>): one TCP
  client at a time gets the bytes of the device, and the device those of the
  client.  The results of the system calls are scripts: a list of write results for
  each \<open>write_all\<close>, and the events and results of each round of the loop.  What the
  relay does is a log, newest first.

  The lemmas show that \<open>write_all\<close> writes everything or a prefix, and that over
  every run each client gets, in order and without a gap, the bytes that the
  device sent while it was the client, the device gets those of the clients, and
  every client is closed once.
\<close>

section \<open>Writing\<close>

datatype write_result = Wrote nat | Write_eintr | Write_error
datatype outcome = Done | Failed | Blocked

text \<open>The loop over one buffer: its outcome, and the bytes that were written.  It is
  blocked where the script ends.\<close>

fun write_all :: "write_result list \<Rightarrow> bytes \<Rightarrow> outcome \<times> bytes" where
  "write_all ws [] = (Done, [])"
| "write_all [] buf = (Blocked, [])"
| "write_all (Write_eintr # ws) buf = write_all ws buf"
| "write_all (Write_error # ws) buf = (Failed, [])"
| "write_all (Wrote n # ws) buf =
     (if n = 0 then (Failed, []) else let (r, out) = write_all ws (drop n buf) in (r, take n buf @ out))"

section \<open>Opening\<close>

text \<open>The programs over the kernel's calls.  \<open>listen_on\<close> stops at the first call that fails.\<close>

definition open_device :: "'w kernel \<Rightarrow> string \<Rightarrow> ('w, int) state" where
  "open_device k path = do {
     fd \<leftarrow> sys k (Sys_open path);
     tio \<leftarrow> (if 0 \<le> fd then sys k (Sys_tcgetattr fd) else State_Monad.return (-1));
     (if tio = 0 then sys_all k [Sys_set_raw fd] else State_Monad.return ());
     State_Monad.return fd
   }"

definition listen_on :: "'w kernel \<Rightarrow> int \<Rightarrow> address \<Rightarrow> ('w, int) state" where
  "listen_on k fd addr = do {
     sys k (Sys_setsockopt fd Reuseaddr);
     r \<leftarrow> sys k (Sys_nonblock fd);
     r \<leftarrow> (if r = 0 then sys k (Sys_bind fd addr) else State_Monad.return r);
     r \<leftarrow> (if r = 0 then sys k (Sys_listen fd 1) else State_Monad.return r);
     if r = 0 then State_Monad.return fd
     else do { sys k (Sys_close fd); State_Monad.return (-1) }
   }"

definition open_listener :: "'w kernel \<Rightarrow> int \<Rightarrow> ('w, int) state" where
  "open_listener k port = do {
     fd \<leftarrow> sys k (Sys_socket Af_inet6);
     fd \<leftarrow> (if 0 \<le> fd then do { sys k (Sys_setsockopt fd (V6only False)); listen_on k fd (Any6 (of_int port)) }
           else State_Monad.return fd);
     if 0 \<le> fd then State_Monad.return fd
     else do {
       fd \<leftarrow> sys k (Sys_socket Af_inet);
       if fd < 0 then State_Monad.return (-1) else listen_on k fd (Any4 (of_int port))
     }
   }"

text \<open>\<open>tune_client\<close>, with the times of \<open>sockopt-linux.c\<close>; a build for the host sets no times.\<close>

definition relay_dead_peer_timeout :: "int \<Rightarrow> syscall list" where
  "relay_dead_peer_timeout fd = map (Sys_setsockopt fd) [Keepidle 5, Keepintvl 2, Keepcnt 3, User_timeout 10000]"

definition host_dead_peer_timeout :: "int \<Rightarrow> syscall list" where
  "host_dead_peer_timeout fd = []"

definition tune_client :: "'w kernel \<Rightarrow> (int \<Rightarrow> syscall list) \<Rightarrow> int \<Rightarrow> ('w, unit) state" where
  "tune_client k timeouts fd = sys_all k ([Sys_setsockopt fd Nodelay, Sys_setsockopt fd Keepalive] @ timeouts fd)"

section \<open>The loop\<close>

datatype relay_read = Read bytes | Read_eintr | Read_error
datatype poll_result = Poll_eintr | Poll_error | Poll bool bool bool

text \<open>One round: the events of the device, the listener and the client, and the
  results of the calls that follow, each used when the call is made.\<close>

record relay_input =
  i_poll :: poll_result
  i_accept :: int
  i_dev_read :: relay_read
  i_client_write :: "write_result list"
  i_client_read :: relay_read
  i_dev_write :: "write_result list"

datatype relay_event = Accept int | Close int | From_dev bytes | To_client int bytes | From_client int bytes | To_dev bytes

record relay_state =
  r_client :: int
  r_log :: "relay_event list"

definition logged :: "relay_event \<Rightarrow> relay_state \<Rightarrow> relay_state" where
  "logged e s = s\<lparr>r_log := e # r_log s\<rparr>"

definition close_client :: "relay_state \<Rightarrow> relay_state" where
  "close_client s = (logged (Close (r_client s)) s)\<lparr>r_client := -1\<rparr>"

text \<open>\<open>fd\<close> is the result of \<open>accept\<close>.\<close>

definition accept_client :: "int \<Rightarrow> relay_state \<Rightarrow> relay_state" where
  "accept_client fd s =
     (if fd < 0 then s
      else let old = r_client s; s = logged (Accept fd) s; s = (if old \<ge> 0 then logged (Close old) s else s)
      in s\<lparr>r_client := fd\<rparr>)"

datatype flow = Go | Break | Stuck

text \<open>The device's part of a round, with the client's events left as they are.\<close>

definition relay_dev :: "relay_input \<Rightarrow> relay_state \<Rightarrow> flow \<times> relay_state" where
  "relay_dev i s =
     (case i_dev_read i of
        Read_error \<Rightarrow> (Break, s)
      | Read_eintr \<Rightarrow> (Go, s)
      | Read buf \<Rightarrow>
          if buf = [] then (Break, s)
          else let s = logged (From_dev buf) s
          in if r_client s \<ge> 0 then
               let (r, out) = write_all (i_client_write i) buf; s = logged (To_client (r_client s) out) s
               in case r of Done \<Rightarrow> (Go, s) | Failed \<Rightarrow> (Go, close_client s) | Blocked \<Rightarrow> (Stuck, s)
             else (Go, s))"

definition relay_client :: "relay_input \<Rightarrow> relay_state \<Rightarrow> flow \<times> relay_state" where
  "relay_client i s =
     (case i_client_read i of
        Read_error \<Rightarrow> (Go, close_client s)
      | Read_eintr \<Rightarrow> (Go, s)
      | Read buf \<Rightarrow>
          if buf = [] then (Go, close_client s)
          else let s = logged (From_client (r_client s) buf) s; (r, out) = write_all (i_dev_write i) buf; s = logged (To_dev out) s
          in case r of Done \<Rightarrow> (Go, s) | Failed \<Rightarrow> (Break, s) | Blocked \<Rightarrow> (Stuck, s))"

definition relay_round :: "relay_input \<Rightarrow> relay_state \<Rightarrow> flow \<times> relay_state" where
  "relay_round i s =
     (case i_poll i of
        Poll_eintr \<Rightarrow> (Go, s)
      | Poll_error \<Rightarrow> (Break, s)
      | Poll dev lis cli \<Rightarrow>
          let old = r_client s;
              s = (if lis then accept_client (i_accept i) s else s);
              cli = (cli \<and> r_client s = old);
              (f, s) = (if dev then relay_dev i s else (Go, s))
          in if f = Go \<and> r_client s \<ge> 0 \<and> cli then relay_client i s else (f, s))"

text \<open>The loop over the rounds; at its end the client is closed.  It goes on, or is
  blocked in a write, where the rounds end.\<close>

fun relay_loop :: "relay_input list \<Rightarrow> relay_state \<Rightarrow> flow \<times> relay_state" where
  "relay_loop [] s = (Go, s)"
| "relay_loop (i # is) s = (case relay_round i s of (Go, s) \<Rightarrow> relay_loop is s | (f, s) \<Rightarrow> (f, s))"

definition relay :: "relay_input list \<Rightarrow> flow \<times> relay_state" where
  "relay is =
     (let (f, s) = relay_loop is \<lparr>r_client = -1, r_log = []\<rparr>
      in (f, if f = Break \<and> r_client s \<ge> 0 then close_client s else s))"

section \<open>The program\<close>

text \<open>The options that \<open>getopt\<close> finds, with their arguments, and how many words are
  left after them: the exit status, or the port.\<close>

fun relay_options :: "(char \<times> string) list \<Rightarrow> int \<Rightarrow> int + int" where
  "relay_options [] port = Inr port"
| "relay_options ((opt, arg) # os) port =
     (if opt = CHR ''p'' then relay_options os (atoi arg) else if opt = CHR ''h'' then Inl 0 else Inl 2)"

definition relay_args :: "(char \<times> string) list \<Rightarrow> nat \<Rightarrow> int + int" where
  "relay_args opts left =
     (case relay_options opts 6638 of
        Inl e \<Rightarrow> Inl e
      | Inr port \<Rightarrow> if left \<noteq> 1 \<or> port \<le> 0 \<or> port > 65535 then Inl 2 else Inr port)"

text \<open>The endless loop over the openings of the device: an error of each, or the
  rounds of the relay.  \<open>err\<close> is the last error that was reported, 0 for none.\<close>

datatype main_event = Say_error int | Say_open | Relayed "flow \<times> relay_state"

fun main_loop :: "(int + relay_input list) list \<Rightarrow> int \<Rightarrow> main_event list" where
  "main_loop [] err = []"
| "main_loop (Inl e # os) err = (if e \<noteq> err then Say_error e # main_loop os e else main_loop os err)"
| "main_loop (Inr is # os) err =
     Say_open # Relayed (relay is) # (if fst (relay is) = Break then main_loop os 0 else [])"

definition main :: "(char \<times> string) list \<Rightarrow> nat \<Rightarrow> int \<Rightarrow> (int + relay_input list) list \<Rightarrow> int option \<times> main_event list" where
  "main opts left lfd openings =
     (case relay_args opts left of
        Inl e \<Rightarrow> (Some e, [])
      | Inr port \<Rightarrow> if lfd < 0 then (Some 1, []) else (None, main_loop openings 0))"

section \<open>What a log means\<close>

text \<open>The clients of a log, newest first: descriptor, open, the bytes of the device
  while it was open, and the bytes written to it.\<close>

record session =
  s_fd :: int
  s_open :: bool
  s_dev :: bytes
  s_out :: bytes

definition on_open :: "(session \<Rightarrow> session) \<Rightarrow> session list \<Rightarrow> session list" where
  "on_open f = map (\<lambda>s. if s_open s then f s else s)"

fun sessions :: "relay_event list \<Rightarrow> session list" where
  "sessions [] = []"
| "sessions (Accept fd # l) = \<lparr>s_fd = fd, s_open = True, s_dev = [], s_out = []\<rparr> # sessions l"
| "sessions (Close fd # l) = on_open (\<lambda>s. if s_fd s = fd then s\<lparr>s_open := False\<rparr> else s) (sessions l)"
| "sessions (From_dev b # l) = on_open (\<lambda>s. s\<lparr>s_dev := s_dev s @ b\<rparr>) (sessions l)"
| "sessions (To_client fd b # l) = on_open (\<lambda>s. if s_fd s = fd then s\<lparr>s_out := s_out s @ b\<rparr> else s) (sessions l)"
| "sessions (From_client fd b # l) = sessions l"
| "sessions (To_dev b # l) = sessions l"

text \<open>The bytes read from the clients and written to the device.\<close>

fun client_bytes :: "relay_event list \<Rightarrow> bytes" where
  "client_bytes [] = []"
| "client_bytes (From_client fd b # l) = client_bytes l @ b"
| "client_bytes (_ # l) = client_bytes l"

fun dev_bytes :: "relay_event list \<Rightarrow> bytes" where
  "dev_bytes [] = []"
| "dev_bytes (To_dev b # l) = dev_bytes l @ b"
| "dev_bytes (_ # l) = dev_bytes l"

text \<open>The kernel gives a new connection a descriptor that is not open.\<close>

fun accepts_fresh :: "relay_input list \<Rightarrow> relay_state \<Rightarrow> bool" where
  "accepts_fresh [] s = True"
| "accepts_fresh (i # is) s =
     ((i_accept i \<ge> 0 \<longrightarrow> i_accept i \<noteq> r_client s) \<and> (case relay_round i s of (Go, s) \<Rightarrow> accepts_fresh is s | _ \<Rightarrow> True))"

text \<open>Between rounds the client has what the device sent, and everyone before it is
  closed with a prefix.\<close>

definition closed_ok :: "session list \<Rightarrow> bool" where
  "closed_ok xs = (\<forall>x \<in> set xs. \<not> s_open x \<and> prefix (s_out x) (s_dev x))"

definition relay_ok :: "relay_state \<Rightarrow> bool" where
  "relay_ok s = (dev_bytes (r_log s) = client_bytes (r_log s) \<and> -1 \<le> r_client s \<and>
     (if r_client s \<ge> 0 then \<exists>d rest. sessions (r_log s) = \<lparr>s_fd = r_client s, s_open = True, s_dev = d, s_out = d\<rparr> # rest \<and> closed_ok rest
      else closed_ok (sessions (r_log s))))"

text \<open>Wherever the loop stops.\<close>

definition stop_ok :: "flow \<Rightarrow> relay_state \<Rightarrow> bool" where
  "stop_ok f s = (prefix (dev_bytes (r_log s)) (client_bytes (r_log s)) \<and> -1 \<le> r_client s \<and>
     (if r_client s \<ge> 0 then \<exists>x rest. sessions (r_log s) = x # rest \<and> s_fd x = r_client s \<and> s_open x \<and> prefix (s_out x) (s_dev x) \<and> closed_ok rest
      else closed_ok (sessions (r_log s))))"

section \<open>Lemmas\<close>

lemma write_all_result:
  "fst (write_all ws buf) = Done \<Longrightarrow> snd (write_all ws buf) = buf"
  "prefix (snd (write_all ws buf)) buf"
proof (induction ws buf rule: write_all.induct)
  case (5 n ws b bs)
  {
    case 1
    then show ?case
      using 5(1) by (auto simp: split_beta Let_def split: if_splits)
  next
    case 2
    have "prefix (snd (write_all ws (drop n (b # bs)))) (drop n (b # bs))" if "n \<noteq> 0"
      using 5(2) [OF that] by simp
    then show ?case
      by (auto simp: split_beta Let_def) (metis append_take_drop_id same_prefix_prefix)
  }
qed auto

text \<open>Interrupted writes cost nothing, and enough of the others finish the buffer.\<close>

lemma write_all_done:
  "Write_error \<notin> set ws \<Longrightarrow> Wrote 0 \<notin> set ws \<Longrightarrow> length buf \<le> length (filter (\<lambda>w. w \<noteq> Write_eintr) ws) \<Longrightarrow> write_all ws buf = (Done, buf)"
proof (induction ws buf rule: write_all.induct)
  case (5 n ws b bs)
  then have "write_all ws (drop n (b # bs)) = (Done, drop n (b # bs))"
    by (cases n) auto
  then show ?case
    using 5(3) by (auto simp: Let_def simp del: take.simps drop.simps)
qed auto

lemma listen_on_fd: "kernel_ok k tbl \<Longrightarrow> 0 \<le> fd \<Longrightarrow> hands_on tbl fd (listen_on k fd addr)"
  unfolding listen_on_def
  by (auto intro!: hands_on_bind keeps_sys keeps_return hands_on_return hands_on_fail releases_close)

lemma listener_opens:
  assumes "kernel_ok k tbl"
  shows "opens tbl (open_listener k port)"
proof -
  let ?six = "do {
    fd \<leftarrow> sys k (Sys_socket Af_inet6);
    if 0 \<le> fd then do { sys k (Sys_setsockopt fd (V6only False)); listen_on k fd (Any6 (of_int port)) }
    else State_Monad.return fd }"
  have "opens tbl ?six"
    by (rule opens_bind) (auto intro!: opens_sys opens_fail hands_on_bind keeps_sys listen_on_fd assms)
  then have "opens tbl (State_Monad.bind ?six (\<lambda>fd. if 0 \<le> fd then State_Monad.return fd
      else do { fd \<leftarrow> sys k (Sys_socket Af_inet);
                if fd < 0 then State_Monad.return (-1) else listen_on k fd (Any4 (of_int port)) }))"
    by (rule opens_bind)
       (auto intro!: hands_on_return opens_bind [of _ "sys k _"] opens_sys opens_fail listen_on_fd assms)
  then show ?thesis
    by (simp add: open_listener_def if_distrib [of "\<lambda>m. State_Monad.bind m _"] cong: if_cong)
qed

lemma listen_on_listens:
  assumes "run_state (listen_on (logged_kernel k) fd addr) wl = (r, wl')" and "0 \<le> r"
  shows "r = fd \<and> listens fd addr 1 (snd wl')"
  using assms by (auto simp: listen_on_def listens_def run_logged split_beta split: if_splits)

lemma listener_listens:
  assumes "run_state (open_listener (logged_kernel k) port) wl = (fd, wl')" and "0 \<le> fd"
  shows "listens fd (Any6 (of_int port)) 1 (snd wl') \<or> listens fd (Any4 (of_int port)) 1 (snd wl')"
  using assms by (auto simp: open_listener_def run_logged split: if_splits prod.splits dest!: listen_on_listens)

lemma device_opens:
  assumes "kernel_ok k tbl"
  shows "opens tbl (open_device k path)"
  unfolding open_device_def
  by (rule opens_bind, rule opens_sys)
     (auto intro!: assms hands_on_bind keeps_sys keeps_bind keeps_return hands_on_return opens_fail)

lemma on_open_closed [simp]: "closed_ok xs \<Longrightarrow> on_open f xs = xs"
  by (auto simp: on_open_def closed_ok_def intro: map_idI)

lemma on_open_Cons [simp]: "on_open f (x # xs) = (if s_open x then f x else x) # on_open f xs"
  by (simp add: on_open_def)

lemma closed_ok_Cons [simp]: "closed_ok (x # xs) \<longleftrightarrow> \<not> s_open x \<and> prefix (s_out x) (s_dev x) \<and> closed_ok xs"
  by (auto simp: closed_ok_def)

lemma closed_ok_Nil [simp]: "closed_ok []"
  by (simp add: closed_ok_def)

lemma relay_ok_stop: "relay_ok s \<Longrightarrow> stop_ok f s"
  by (auto simp: relay_ok_def stop_ok_def)

lemma close_client_ok: "stop_ok f s \<Longrightarrow> r_client s \<ge> 0 \<Longrightarrow> dev_bytes (r_log s) = client_bytes (r_log s) \<Longrightarrow> relay_ok (close_client s)"
  by (auto simp: stop_ok_def relay_ok_def close_client_def logged_def)

lemma close_client_stop: "stop_ok f s \<Longrightarrow> r_client s \<ge> 0 \<Longrightarrow> stop_ok f (close_client s)"
  by (auto simp: stop_ok_def close_client_def logged_def)

lemma relay_accept_ok: "relay_ok s \<Longrightarrow> (fd \<ge> 0 \<Longrightarrow> fd \<noteq> r_client s) \<Longrightarrow> relay_ok (accept_client fd s)"
  by (auto simp: relay_ok_def accept_client_def logged_def Let_def)

lemma relay_dev_ok:
  assumes "relay_ok s" and "relay_dev i s = (f, t)"
  shows "if f = Go then relay_ok t else stop_ok f t"
proof (cases "i_dev_read i")
  case (Read buf)
  obtain r out where w: "write_all (i_client_write i) buf = (r, out)"
    by (cases "write_all (i_client_write i) buf") auto
  then have o: "r = Done \<Longrightarrow> out = buf" "prefix out buf"
    using write_all_result [of "i_client_write i" buf] by auto
  let ?u = "logged (To_client (r_client s) out) (logged (From_dev buf) s)"
  have u: "stop_ok f ?u" "dev_bytes (r_log ?u) = client_bytes (r_log ?u)" if "0 \<le> r_client s" for f
    using assms(1) that o(2) by (auto simp: relay_ok_def stop_ok_def logged_def)
  show ?thesis
  proof (cases "buf \<noteq> [] \<and> 0 \<le> r_client s")
    case True
    then show ?thesis
    proof (cases r)
      case Done
      then have "relay_ok ?u"
        using assms(1) True o by (auto simp: relay_ok_def logged_def)
      then show ?thesis
        using assms(2) Read True w Done by (auto simp: relay_dev_def Let_def logged_def)
    next
      case Failed
      have "relay_ok (close_client ?u)"
        using close_client_ok [OF u(1) _ u(2)] True by (simp add: logged_def)
      then show ?thesis
        using assms(2) Read True w Failed by (auto simp: relay_dev_def Let_def logged_def)
    next
      case Blocked
      then show ?thesis
        using assms(2) Read True w u(1) by (auto simp: relay_dev_def Let_def logged_def)
    qed
  next
    case False
    have "\<not> 0 \<le> r_client s \<Longrightarrow> relay_ok (logged (From_dev buf) s)"
      using assms(1) by (auto simp: relay_ok_def logged_def)
    then show ?thesis
      using False assms Read relay_ok_stop by (auto simp: relay_dev_def Let_def logged_def split: if_splits)
  qed
qed (use assms relay_ok_stop in \<open>auto simp: relay_dev_def\<close>)

lemma relay_client_ok:
  assumes "relay_ok s" and "0 \<le> r_client s" and "relay_client i s = (f, t)"
  shows "if f = Go then relay_ok t else stop_ok f t"
proof -
  have c: "relay_ok (close_client s)"
    using close_client_ok [OF relay_ok_stop [OF assms(1)] assms(2)] assms(1) by (simp add: relay_ok_def)
  show ?thesis
  proof (cases "i_client_read i")
    case (Read buf)
    obtain r out where w: "write_all (i_dev_write i) buf = (r, out)"
      by (cases "write_all (i_dev_write i) buf") auto
    then have o: "r = Done \<Longrightarrow> out = buf" "prefix out buf"
      using write_all_result [of "i_dev_write i" buf] by auto
    let ?u = "logged (To_dev out) (logged (From_client (r_client s) buf) s)"
    have u: "stop_ok f ?u" for f
      using assms(1,2) o(2) by (auto simp: relay_ok_def stop_ok_def logged_def)
    have d: "r = Done \<Longrightarrow> relay_ok ?u"
      using assms(1) o(1) by (auto simp: relay_ok_def logged_def)
    show ?thesis
      using assms(3) Read w u d c by (cases r) (auto simp: relay_client_def Let_def split: if_splits)
  qed (use assms c in \<open>auto simp: relay_client_def\<close>)
qed

lemma relay_round_ok:
  assumes "relay_ok s" and "i_accept i \<ge> 0 \<longrightarrow> i_accept i \<noteq> r_client s" and "relay_round i s = (f, t)"
  shows "if f = Go then relay_ok t else stop_ok f t"
proof (cases "i_poll i")
  case (Poll dev lis cli)
  define u where "u = (if lis then accept_client (i_accept i) s else s)"
  have u: "relay_ok u"
    using assms(1,2) relay_accept_ok by (simp add: u_def)
  obtain g v where v: "(if dev then relay_dev i u else (Go, u)) = (g, v)"
    by (cases "if dev then relay_dev i u else (Go, u)") auto
  have ok: "if g = Go then relay_ok v else stop_ok g v"
    using v u relay_dev_ok [OF u] by (auto split: if_splits)
  have "(f, t) = (if g = Go \<and> r_client v \<ge> 0 \<and> cli \<and> r_client u = r_client s then relay_client i v else (g, v))"
    using assms(3) by (simp add: relay_round_def Poll Let_def v [unfolded u_def] u_def)
  then show ?thesis
    using ok relay_client_ok [of v i f t] by (auto split: if_splits)
qed (use assms relay_ok_stop in \<open>auto simp: relay_round_def\<close>)

lemma relay_loop_ok:
  "relay_ok s \<Longrightarrow> accepts_fresh is s \<Longrightarrow> relay_loop is s = (f, t) \<Longrightarrow> if f = Go then relay_ok t else stop_ok f t"
proof (induction "is" arbitrary: s)
  case (Cons i "is")
  obtain g u where u: "relay_round i s = (g, u)"
    by (cases "relay_round i s") auto
  then have "if g = Go then relay_ok u else stop_ok g u"
    using relay_round_ok [OF Cons(2) _ u] Cons(3) by simp
  then show ?case
    using Cons u by (cases g) auto
qed auto

text \<open>A client that was accepted in this round is not read in it: the events were
  those of the client before it.\<close>

lemma new_client_not_read:
  assumes "relay_round i s = (f, t)" and "i_poll i = Poll dev True cli" and "0 \<le> i_accept i" and "i_accept i \<noteq> r_client s"
  shows "client_bytes (r_log t) = client_bytes (r_log s)"
proof -
  have a: "r_client (accept_client (i_accept i) s) \<noteq> r_client s" "client_bytes (r_log (accept_client (i_accept i) s)) = client_bytes (r_log s)"
    using assms(3,4) by (auto simp: accept_client_def logged_def Let_def)
  have d: "client_bytes (r_log (snd (relay_dev i u))) = client_bytes (r_log u)" for u
    by (auto simp: relay_dev_def logged_def close_client_def Let_def split_beta split: relay_read.splits outcome.splits)
  have "t = (if dev then snd (relay_dev i (accept_client (i_accept i) s)) else accept_client (i_accept i) s)"
    using assms a(1) by (auto simp: relay_round_def Let_def split: if_splits prod.splits)
  then show ?thesis
    using a(2) d by simp
qed

text \<open>C39: the relay of the Thread radio.  Over any rounds of events and results, with
  descriptors that were not open: each client got a prefix of the bytes that the
  device sent while it was the client, and the device a prefix of those that the
  clients sent, in order.  While the relay runs, only the current client is open, it
  got everything, and so did the device.  When the relay returns, every client is
  closed.\<close>

theorem relay_streams:
  assumes "accepts_fresh is \<lparr>r_client = -1, r_log = []\<rparr>"
  shows "case relay is of (f, s) \<Rightarrow>
    (\<forall>x \<in> set (sessions (r_log s)). prefix (s_out x) (s_dev x)) \<and> prefix (dev_bytes (r_log s)) (client_bytes (r_log s)) \<and>
    (f = Go \<longrightarrow> dev_bytes (r_log s) = client_bytes (r_log s) \<and>
       map (\<lambda>x. (s_fd x, s_out x = s_dev x)) (filter s_open (sessions (r_log s))) = (if r_client s \<ge> 0 then [(r_client s, True)] else [])) \<and>
    (f = Break \<longrightarrow> r_client s = -1 \<and> filter s_open (sessions (r_log s)) = [])"
proof -
  obtain f u where u: "relay_loop is \<lparr>r_client = -1, r_log = []\<rparr> = (f, u)"
    by fastforce
  have "relay_ok \<lparr>r_client = -1, r_log = []\<rparr>"
    by (simp add: relay_ok_def)
  from relay_loop_ok [OF this assms u] have ok: "if f = Go then relay_ok u else stop_ok f u" .
  define s where "s = (if f = Break \<and> r_client u \<ge> 0 then close_client u else u)"
  have r: "relay is = (f, s)"
    by (simp add: relay_def u s_def)
  have st: "stop_ok f s" "f = Go \<Longrightarrow> relay_ok s" "f = Break \<Longrightarrow> \<not> 0 \<le> r_client s"
    using ok relay_ok_stop [of u] close_client_stop [of f u] by (auto simp: s_def close_client_def split: if_splits)
  have cl: "closed_ok xs \<Longrightarrow> filter s_open xs = [] \<and> (\<forall>x \<in> set xs. prefix (s_out x) (s_dev x))" for xs
    by (auto simp: closed_ok_def filter_empty_conv)
  have "(\<forall>x \<in> set (sessions (r_log s)). prefix (s_out x) (s_dev x)) \<and> prefix (dev_bytes (r_log s)) (client_bytes (r_log s))"
    using st(1) cl by (auto simp: stop_ok_def split: if_splits)
  moreover have "f = Go \<Longrightarrow> dev_bytes (r_log s) = client_bytes (r_log s) \<and>
       map (\<lambda>x. (s_fd x, s_out x = s_dev x)) (filter s_open (sessions (r_log s))) = (if r_client s \<ge> 0 then [(r_client s, True)] else [])"
    using st(2) cl by (auto simp: relay_ok_def split: if_splits)
  moreover have "f = Break \<Longrightarrow> r_client s = -1 \<and> filter s_open (sessions (r_log s)) = []"
    using st(1,3) cl by (auto simp: stop_ok_def)
  ultimately show ?thesis
    unfolding r by simp
qed

text \<open>A client, replaced by another whose events were stale, and the end of the device.\<close>

theorem relay_streams_witness:
  "let is = [\<lparr>i_poll = Poll False True False, i_accept = 7, i_dev_read = Read [], i_client_write = [], i_client_read = Read [], i_dev_write = []\<rparr>,
     \<lparr>i_poll = Poll True False True, i_accept = 0, i_dev_read = Read [1, 2], i_client_write = [Wrote 1, Write_eintr, Wrote 1],
       i_client_read = Read [9], i_dev_write = [Wrote 1]\<rparr>,
     \<lparr>i_poll = Poll True True True, i_accept = 8, i_dev_read = Read [], i_client_write = [], i_client_read = Read [5], i_dev_write = []\<rparr>] in
   fst (relay is) = Break \<and> r_client (snd (relay is)) = -1 \<and>
   sessions (r_log (snd (relay is))) =
     [\<lparr>s_fd = 8, s_open = False, s_dev = [], s_out = []\<rparr>, \<lparr>s_fd = 7, s_open = False, s_dev = [1, 2], s_out = [1, 2]\<rparr>]"
proof -
  let ?is = "[\<lparr>i_poll = Poll False True False, i_accept = 7, i_dev_read = Read [], i_client_write = [], i_client_read = Read [], i_dev_write = []\<rparr>,
     \<lparr>i_poll = Poll True False True, i_accept = 0, i_dev_read = Read [1, 2], i_client_write = [Wrote 1, Write_eintr, Wrote 1],
       i_client_read = Read [9], i_dev_write = [Wrote 1]\<rparr>,
     \<lparr>i_poll = Poll True True True, i_accept = 8, i_dev_read = Read [], i_client_write = [], i_client_read = Read [5], i_dev_write = []\<rparr>]"
  note d = relay_def relay_round_def relay_dev_def relay_client_def accept_client_def close_client_def logged_def Let_def
  have "accepts_fresh ?is \<lparr>r_client = -1, r_log = []\<rparr>"
    by (simp add: d)
  from relay_streams [OF this] have "fst (relay ?is) = Break \<Longrightarrow> r_client (snd (relay ?is)) = -1"
    by (simp add: split_beta)
  moreover have "fst (relay ?is) = Break \<and> sessions (r_log (snd (relay ?is))) =
     [\<lparr>s_fd = 8, s_open = False, s_dev = [], s_out = []\<rparr>, \<lparr>s_fd = 7, s_open = False, s_dev = [1, 2], s_out = [1, 2]\<rparr>]"
    by (simp add: d on_open_def)
  ultimately show ?thesis
    unfolding Let_def by blast
qed

end
