(* ===== verification/Ble_Sockets.thy ===== *)
theory Ble_Sockets
  imports Sys_Calls Ble_Wpa
begin

text \<open>
  The sockets and files of ble-ha, as programs over the kernel's calls: the HCI user
  channel (\<open>hci-linux.c\<close>), the listener, the clients and the LED (\<open>ble-ha.c\<close>), and one
  exchange with wpa_supplicant (\<open>request\<close> of \<open>wpa.c\<close>), which is an instance of the
  supplicant that the rest of the client takes as a parameter.  The lemmas show
  that no program leaves a descriptor open but the one it returns.
\<close>

section \<open>The adapter\<close>

text \<open>The number of the device is the 16 bits of the address.\<close>

definition hci_open_user :: "'w kernel \<Rightarrow> int \<Rightarrow> ('w, int) state" where
  "hci_open_user k dev = do {
     fd \<leftarrow> sys k (Sys_socket Af_bluetooth);
     if fd < 0 then State_Monad.return (-1)
     else do {
       sys k (Sys_hci_down fd dev);
       r \<leftarrow> sys k (Sys_bind fd (Hci_user (of_int dev)));
       if r = 0 then State_Monad.return fd
       else do { sys k (Sys_close fd); State_Monad.return (-1) }
     }
   }"

section \<open>The clients of the API\<close>

definition open_listener :: "'w kernel \<Rightarrow> ('w, int) state" where
  "open_listener k = do {
     fd \<leftarrow> sys k (Sys_socket Af_inet6);
     if fd < 0 then State_Monad.return (-1)
     else do {
       sys k (Sys_setsockopt fd (V6only False));
       sys k (Sys_setsockopt fd Reuseaddr);
       r \<leftarrow> sys k (Sys_nonblock fd);
       r \<leftarrow> (if r = 0 then sys k (Sys_bind fd (Any6 6053)) else State_Monad.return r);
       r \<leftarrow> (if r = 0 then sys k (Sys_listen fd 4) else State_Monad.return r);
       if r \<noteq> 0 then do { sys k (Sys_close fd); State_Monad.return (-1) }
       else State_Monad.return fd
     }
   }"

definition tune_client :: "'w kernel \<Rightarrow> int \<Rightarrow> ('w, unit) state" where
  "tune_client k fd =
     sys_all k (Sys_nonblock fd #
       map (Sys_setsockopt fd) [Keepalive, Keepidle 20, Keepintvl 5, Keepcnt 4, User_timeout 30000])"

text \<open>The calls of \<open>accept_client\<close>; \<open>free\<close>: one of the slots is free.  The result is the
  client's descriptor, or below 0.\<close>

definition accept_calls :: "'w kernel \<Rightarrow> int \<Rightarrow> bool \<Rightarrow> ('w, int) state" where
  "accept_calls k lfd free = do {
     fd \<leftarrow> sys k (Sys_accept lfd);
     if fd < 0 then State_Monad.return fd
     else if free then do { tune_client k fd; State_Monad.return fd }
     else do { sys k (Sys_close fd); State_Monad.return (-1) }
   }"

section \<open>The LED\<close>

definition write_file :: "'w kernel \<Rightarrow> string \<Rightarrow> string \<Rightarrow> ('w, unit) state" where
  "write_file k path v = do {
     fd \<leftarrow> sys k (Sys_open path);
     if 0 \<le> fd then sys_all k [Sys_write fd (c_str v), Sys_close fd]
     else State_Monad.return ()
   }"

definition LED :: string where
  "LED = ''/sys/class/leds/rgb:status''"

definition LED_INIT :: string where
  "LED_INIT = ''/etc/init.d/S16led''"

definition identify_calls :: "'w kernel \<Rightarrow> bool \<Rightarrow> ('w, unit) state" where
  "identify_calls k on = do {
     write_file k (LED @ ''/trigger'') (if on then ''timer'' else ''none'');
     if on then State_Monad.return ()
     else do {
       write_file k (LED @ ''/brightness'') ''0'';
       r \<leftarrow> sys k (Sys_access LED_INIT);
       if r = 0 then sys_all k [Sys_system (LED_INIT @ '' start >/dev/null 2>&1'')] else State_Monad.return ()
     }
   }"

section \<open>An exchange with wpa_supplicant\<close>

definition WPA_CTRL :: bytes where
  "WPA_CTRL = c_str ''/var/run/wpa_supplicant/wlan0''"

definition local_path :: "nat \<Rightarrow> bytes" where
  "local_path pid = c_str ''/tmp/ble-ha-wpa-'' @ dec_digits pid"

text \<open>The exchange, with at most \<open>n\<close> bytes of the answer.\<close>

definition exchange :: "'w kernel \<Rightarrow> nat \<Rightarrow> bytes \<Rightarrow> nat \<Rightarrow> ('w, bytes option) state" where
  "exchange k pid cmd n = do {
     fd \<leftarrow> sys k (Sys_socket Af_unix);
     if fd < 0 then State_Monad.return None
     else do {
       sys k (Sys_unlink (local_path pid));
       r \<leftarrow> sys k (Sys_bind fd (Unix_path (local_path pid)));
       r \<leftarrow> (if r = 0 then sys k (Sys_connect fd (Unix_path WPA_CTRL)) else State_Monad.return (-1));
       r \<leftarrow> (if r = 0 then sys k (Sys_send fd cmd) else State_Monad.return (-1));
       r \<leftarrow> (if 0 \<le> r then sys k (Sys_poll fd 3000) else State_Monad.return (-1));
       ans \<leftarrow> (if r = 1 then sys_recv k fd n else State_Monad.return None);
       sys k (Sys_close fd);
       sys k (Sys_unlink (local_path pid));
       State_Monad.return ans
     }
   }"

text \<open>\<open>request\<close> with a buffer of \<open>len\<close> bytes, as a C string, and the supplicant behind
  its socket: no buffer of the callers has more than 2048 bytes.\<close>

definition request_calls :: "'w kernel \<Rightarrow> nat \<Rightarrow> bytes \<Rightarrow> nat \<Rightarrow> ('w, bytes option) state" where
  "request_calls k pid cmd len = do {
     ans \<leftarrow> exchange k pid cmd (len - 1);
     State_Monad.return (map_option (takeWhile (\<lambda>b. b \<noteq> 0)) ans)
   }"

definition socket_supplicant :: "'w kernel \<Rightarrow> nat \<Rightarrow> 'w supplicant" where
  "socket_supplicant k pid cmd w = run_state (exchange k pid cmd 2047) w"

section \<open>Lemmas\<close>

lemma exchange_prefix:
  assumes "n \<le> m"
  shows "run_state (exchange k pid cmd n) w = apfst (map_option (take n)) (run_state (exchange k pid cmd m) w)"
  using assms
  by (simp add: exchange_def sys_recv_def split_beta min_absorb1 if_distrib [of "\<lambda>m. run_state m _"] cong: if_cong)

lemma request_socket:
  assumes "len \<le> 2048"
  shows "request (socket_supplicant k pid) cmd len w = run_state (request_calls k pid cmd len) w"
  using exchange_prefix [of "len - 1" 2047 k pid cmd w] assms
  by (auto simp: request_def socket_supplicant_def request_calls_def apfst_def map_prod_def split: prod.splits option.splits)

lemma hci_opens: "kernel_ok k tbl \<Longrightarrow> opens tbl (hci_open_user k dev)"
  unfolding hci_open_user_def
  by (rule opens_bind)
     (auto intro!: opens_sys opens_fail hands_on_bind keeps_sys hands_on_return hands_on_fail releases_close)

lemma api_listener_opens: "kernel_ok k tbl \<Longrightarrow> opens tbl (open_listener k)"
  unfolding open_listener_def
  by (rule opens_bind)
     (auto intro!: opens_sys opens_fail hands_on_bind keeps_sys keeps_return hands_on_return hands_on_fail releases_close)

lemma accept_opens: "kernel_ok k tbl \<Longrightarrow> opens tbl (accept_calls k lfd free)"
  unfolding accept_calls_def tune_client_def
  by (rule opens_bind)
     (auto intro!: opens_sys opens_fail hands_on_step hands_on_return)

lemma write_file_keeps: "kernel_ok k tbl \<Longrightarrow> keeps tbl (write_file k path v)"
  unfolding write_file_def
  by (rule keeps_open) (auto intro!: opens_sys keeps_return releases_step)

lemma identify_keeps: "kernel_ok k tbl \<Longrightarrow> keeps tbl (identify_calls k on)"
  unfolding identify_calls_def
  by (auto intro!: keeps_bind write_file_keeps keeps_sys keeps_return)

lemma exchange_keeps: "kernel_ok k tbl \<Longrightarrow> keeps tbl (exchange k pid cmd n)"
  unfolding exchange_def
  by (rule keeps_open)
     (auto intro!: opens_sys keeps_return releases_step releases_bind [OF keeps_recv] keeps_sys keeps_bind)

lemma api_listener_listens:
  assumes "run_state (open_listener (logged_kernel k)) (w, l) = (fd, wl)" and "0 \<le> fd"
  shows "listens fd (Any6 6053) 4 (snd wl)"
  using assms by (auto simp: open_listener_def listens_def run_logged Let_def split_beta split: if_splits)

text \<open>What every exchange keeps, a join keeps.\<close>

lemma request_keeps: "(\<And>cmd w. P (snd (req cmd w)) = P w) \<Longrightarrow> P (snd (request req cmd len w)) = P w"
  by (auto simp: request_def split: prod.splits option.splits) (metis snd_conv)+

lemma request_ok_keeps: "(\<And>cmd w. P (snd (req cmd w)) = P w) \<Longrightarrow> P (snd (request_ok req cmd w)) = P w"
  using request_keeps [of P req cmd 64 w] by (auto simp: request_ok_def split: prod.splits option.splits)

lemma wpa_finish_keeps: "(\<And>cmd w. P (snd (req cmd w)) = P w) \<Longrightarrow> P (snd (wpa_finish req nid keep w)) = P w"
  by (simp add: wpa_finish_def Let_def request_ok_keeps)

lemma wpa_join_keeps:
  assumes "\<And>cmd w. P (snd (req cmd w)) = P w"
  shows "P (snd (wpa_join req ssid pass w)) = P w"
  using request_keeps [of P, OF assms] request_ok_keeps [of P, OF assms] wpa_finish_keeps [of P, OF assms]
  by (simp add: wpa_join_def Let_def split_beta split: option.split prod.split)

lemma supplicant_keeps: "kernel_ok k tbl \<Longrightarrow> tbl (snd (socket_supplicant k pid cmd w)) = tbl w"
  using exchange_keeps [of k tbl pid cmd 2047] by (simp add: keeps_def socket_supplicant_def)

end
