(* ===== verification/Soc_Devices.thy ===== *)
theory Soc_Devices
  imports Prelude
begin

text \<open>
  Four small drivers of the chip: the RGB LED (\<open>linux/drivers/leds/rgb/leds-esp32s31-ws2812.c\<close>),
  the eFuse (\<open>linux/drivers/nvmem/esp32s31-efuse.c\<close>), the USB PHY
  (\<open>linux/drivers/phy/phy-esp32s31-usb.c\<close>) and the glue of the Ethernet MAC
  (\<open>linux/drivers/net/ethernet/stmicro/stmmac/dwmac-esp32s31.c\<close>).  Registers are maps;
  where the order matters an operation gives the list of its writes.

  The lemmas show that the pulses of a colour decode to it and that a frame starts
  after the latch gap; that the addresses of the interfaces are distinct and the odd
  ones local; that the PHY releases its resets in order and keeps the bits of
  others; and that the interface mode is set without touching other fields.
\<close>

type_synonym dev_regs = "nat \<Rightarrow> u32"

text \<open>The writes of a list, in order.\<close>

definition writes :: "(nat \<times> u32) list \<Rightarrow> dev_regs \<Rightarrow> dev_regs" where
  "writes ws r = fold (\<lambda>(a, v) r. r(a := v)) ws r"

section \<open>The LED\<close>

abbreviation (input) RMT_CH0_CONF0 :: nat where "RMT_CH0_CONF0 \<equiv> 0x20"
abbreviation (input) RMT_CONF0_TX_START :: u32 where "RMT_CONF0_TX_START \<equiv> 0x1"
abbreviation (input) RMT_CONF0_MEM_RD_RST :: u32 where "RMT_CONF0_MEM_RD_RST \<equiv> 0x2"
abbreviation (input) RMT_CONF0_APB_MEM_RST :: u32 where "RMT_CONF0_APB_MEM_RST \<equiv> 0x4"
abbreviation (input) RMT_CONF0_IDLE_OUT_EN :: u32 where "RMT_CONF0_IDLE_OUT_EN \<equiv> 0x40"
abbreviation (input) RMT_CONF0_CONF_UPDATE :: u32 where "RMT_CONF0_CONF_UPDATE \<equiv> 0x1000000"
abbreviation (input) RMT_INT_CLR :: nat where "RMT_INT_CLR \<equiv> 0x7c"
abbreviation (input) RMT_INT_CH0_TX_END :: u32 where "RMT_INT_CH0_TX_END \<equiv> 0x1"
abbreviation (input) RMT_SYS_CONF :: nat where "RMT_SYS_CONF \<equiv> 0xc0"
abbreviation (input) RMT_SYS_APB_FIFO_MASK :: u32 where "RMT_SYS_APB_FIFO_MASK \<equiv> 0x1"
abbreviation (input) RMT_CH0_RAM :: nat where "RMT_CH0_RAM \<equiv> 0x800"
abbreviation (input) RMT_TICK_HZ :: u32 where "RMT_TICK_HZ \<equiv> 20000000"
abbreviation (input) WS2812_T0H :: u32 where "WS2812_T0H \<equiv> 8"
abbreviation (input) WS2812_T0L :: u32 where "WS2812_T0L \<equiv> 17"
abbreviation (input) WS2812_T1H :: u32 where "WS2812_T1H \<equiv> 16"
abbreviation (input) WS2812_T1L :: u32 where "WS2812_T1L \<equiv> 9"
abbreviation (input) WS2812_RESET_US :: int where "WS2812_RESET_US \<equiv> 300"

definition RMT_WORD :: "u32 \<Rightarrow> u32 \<Rightarrow> u32 \<Rightarrow> u32 \<Rightarrow> u32" where
  "RMT_WORD d0 l0 d1 l1 = d0 OR push_bit 15 l0 OR push_bit 16 d1 OR push_bit 31 l1"

definition bit_word :: "bool \<Rightarrow> u32" where
  "bit_word one = (if one then RMT_WORD WS2812_T1H 1 WS2812_T1L 0 else RMT_WORD WS2812_T0H 1 WS2812_T0L 0)"

definition esp32s31_ws2812_conf0 :: "u32 \<Rightarrow> dev_regs \<Rightarrow> (nat \<times> u32) list" where
  "esp32s31_ws2812_conf0 bits r = [(RMT_CH0_CONF0, r RMT_CH0_CONF0 OR bits)]"

text \<open>The words of the channel memory: 24 bits from bit 23 down, and the end.\<close>

definition frame_writes :: "u32 \<Rightarrow> (nat \<times> u32) list" where
  "frame_writes grb = map (\<lambda>i. (RMT_CH0_RAM + 4 * i, bit_word (bit grb (23 - i)))) [0..<24] @ [(RMT_CH0_RAM + 4 * 24, 0)]"

text \<open>\<open>gap\<close>: the microseconds since the end of the last frame.  The results are the
  microseconds of the delay and the writes before the wait for the end; after it the
  interrupt is cleared again, and \<open>poll\<close> is the result.\<close>

definition esp32s31_ws2812_send :: "int \<Rightarrow> errno option \<Rightarrow> u32 \<Rightarrow> dev_regs \<Rightarrow> int \<times> (nat \<times> u32) list \<times> errno option" where
  "esp32s31_ws2812_send gap poll grb r =
     (let delay = (if 0 \<le> gap \<and> gap < WS2812_RESET_US then WS2812_RESET_US - gap else 0);
          w1 = frame_writes grb;
          conf0 = writes w1 r RMT_CH0_CONF0;
          w2 = [(RMT_CH0_CONF0, conf0 OR RMT_CONF0_MEM_RD_RST OR RMT_CONF0_APB_MEM_RST),
                (RMT_CH0_CONF0, conf0 AND NOT (RMT_CONF0_MEM_RD_RST OR RMT_CONF0_APB_MEM_RST)),
                (RMT_INT_CLR, RMT_INT_CH0_TX_END)];
          w3 = esp32s31_ws2812_conf0 RMT_CONF0_CONF_UPDATE (writes (w1 @ w2) r);
          w4 = esp32s31_ws2812_conf0 RMT_CONF0_TX_START (writes (w1 @ w2 @ w3) r)
      in (delay, w1 @ w2 @ w3 @ w4 @ [(RMT_INT_CLR, RMT_INT_CH0_TX_END)], poll))"

text \<open>The brightness of the three colours to the order of the wire.\<close>

definition grb_of :: "u32 \<Rightarrow> u32 \<Rightarrow> u32 \<Rightarrow> u32" where
  "grb_of red green blue = push_bit 16 green OR push_bit 8 red OR blue"

definition esp32s31_ws2812_set :: "u32 \<times> u32 \<times> u32 \<Rightarrow> int \<Rightarrow> errno option \<Rightarrow> dev_regs \<Rightarrow> int \<times> (nat \<times> u32) list \<times> errno option" where
  "esp32s31_ws2812_set rgb gap poll r = (case rgb of (red, green, blue) \<Rightarrow> esp32s31_ws2812_send gap poll (grb_of red green blue) r)"

definition ws2812_div :: "u32 \<Rightarrow> u32" where
  "ws2812_div rate = (rate + RMT_TICK_HZ div 2) div RMT_TICK_HZ"

text \<open>The results of the calls of the probe, in order; after the clock rate the writes
  are those of the memory power (second component), then of the channel.\<close>

definition esp32s31_ws2812_probe ::
    "errno option list \<Rightarrow> u32 \<Rightarrow> u32 \<Rightarrow> int \<Rightarrow> dev_regs \<Rightarrow> errno option \<Rightarrow> bool \<Rightarrow> errno option \<Rightarrow> errno option \<times> u32 \<times> (nat \<times> u32) list" where
  "esp32s31_ws2812_probe calls rate mem_lp gap r poll child reg =
     (case first_error calls of
        Some e \<Rightarrow> (Some e, mem_lp, [])
      | None \<Rightarrow>
          let d = ws2812_div rate
          in if d = 0 \<or> d > 255 then (Some EINVAL, mem_lp, [])
             else
               let w = [(RMT_SYS_CONF, r RMT_SYS_CONF OR RMT_SYS_APB_FIFO_MASK),
                     (RMT_CH0_CONF0, push_bit 8 (d AND 0xff) OR push_bit 16 1 OR RMT_CONF0_IDLE_OUT_EN)];
                   (_, ws, ret) = esp32s31_ws2812_send gap poll 0 (writes w r)
               in (if ret \<noteq> None then ret else if \<not> child then Some EINVAL else reg, mem_lp AND NOT (0x4 OR 0x8), w @ ws))"

section \<open>The eFuse\<close>

fun esp32s31_efuse_read :: "dev_regs \<Rightarrow> nat \<Rightarrow> nat \<Rightarrow> bytes" where
  "esp32s31_efuse_read r offset 0 = []"
| "esp32s31_efuse_read r offset (Suc n) =
     ucast (drop_bit (8 * (offset mod 4)) (r (offset - offset mod 4))) # esp32s31_efuse_read r (offset + 1) n"

definition swap_bytes :: "nat \<Rightarrow> nat \<Rightarrow> bytes \<Rightarrow> bytes" where
  "swap_bytes i j mac = mac[i := mac ! j, j := mac ! i]"

definition esp32s31_efuse_mac_pp :: "int \<Rightarrow> bytes \<Rightarrow> errno + bytes" where
  "esp32s31_efuse_mac_pp index mac =
     (if length mac \<noteq> 6 \<or> index < 0 \<or> index > 3 then Inl EINVAL
      else
        let mac = fold (\<lambda>i mac. swap_bytes i (5 - i) mac) [0..<3] mac;
            mac = mac[5 := mac ! 5 + of_int (index div 2)]
        in if odd index then
             let universal = mac ! 0; mac = mac[0 := mac ! 0 OR 0x02]
             in Inr (if mac ! 0 = universal then mac[0 := mac ! 0 XOR 0x04] else mac)
           else Inr mac)"

definition esp32s31_efuse_fixup_cell_info :: "string option \<Rightarrow> bool" where
  "esp32s31_efuse_fixup_cell_info name \<longleftrightarrow> name = Some ''mac-address''"

text \<open>The size of the device, which is that of its registers.\<close>

definition esp32s31_efuse_probe :: "bool \<Rightarrow> errno + nat \<Rightarrow> errno option \<Rightarrow> errno + nat" where
  "esp32s31_efuse_probe alloc_ok res register =
     (if \<not> alloc_ok then Inl ENOMEM
      else case res of
        Inl e \<Rightarrow> Inl e
      | Inr n \<Rightarrow> (case register of Some e \<Rightarrow> Inl e | None \<Rightarrow> Inr n))"

section \<open>The USB PHY\<close>

text \<open>Its five registers.\<close>

abbreviation (input) usb_clkrst :: nat where "usb_clkrst \<equiv> 0"
abbreviation (input) usb_cnnt :: nat where "usb_cnnt \<equiv> 1"
abbreviation (input) usb_ctrl :: nat where "usb_ctrl \<equiv> 2"
abbreviation (input) usb_otghs_ctrl :: nat where "usb_otghs_ctrl \<equiv> 3"
abbreviation (input) usb_utmi_fc06 :: nat where "usb_utmi_fc06 \<equiv> 4"
abbreviation (input) ESP32S31_USB_PHY_RST_EN :: u32 where "ESP32S31_USB_PHY_RST_EN \<equiv> 0x20000000"
abbreviation (input) ESP32S31_USB_AHB_RST_EN :: u32 where "ESP32S31_USB_AHB_RST_EN \<equiv> 0x40000000"
abbreviation (input) ESP32S31_USB_APB_RST_EN :: u32 where "ESP32S31_USB_APB_RST_EN \<equiv> 0x80000000"
abbreviation (input) ESP32S31_USB_ALL_RST_EN :: u32 where "ESP32S31_USB_ALL_RST_EN \<equiv> 0xe0000000"

definition esp32s31_usb_set_bits :: "nat \<Rightarrow> u32 \<Rightarrow> bool \<Rightarrow> dev_regs \<Rightarrow> (nat \<times> u32) list" where
  "esp32s31_usb_set_bits reg bits on r = [(reg, if on then r reg OR bits else r reg AND NOT bits)]"

text \<open>One update after the other: the writes and the registers so far.\<close>

definition usb_step :: "nat \<Rightarrow> u32 \<Rightarrow> bool \<Rightarrow> (nat \<times> u32) list \<times> dev_regs \<Rightarrow> (nat \<times> u32) list \<times> dev_regs" where
  "usb_step reg bits on = (\<lambda>(ws, r). let w = esp32s31_usb_set_bits reg bits on r in (ws @ w, writes w r))"

definition usb_reset :: "(nat \<times> u32) list \<times> dev_regs \<Rightarrow> (nat \<times> u32) list \<times> dev_regs" where
  "usb_reset = (\<lambda>(ws, r).
     let val = r usb_cnnt OR ESP32S31_USB_ALL_RST_EN;
         w1 = (usb_cnnt, val);
         val = val AND NOT ESP32S31_USB_PHY_RST_EN;
         w2 = (usb_cnnt, val);
         val = val AND NOT (ESP32S31_USB_AHB_RST_EN OR ESP32S31_USB_APB_RST_EN);
         w = [w1, w2, (usb_cnnt, val)]
     in (ws @ w, writes w r))"

definition esp32s31_usb_phy_init :: "dev_regs \<Rightarrow> (nat \<times> u32) list \<times> dev_regs" where
  "esp32s31_usb_phy_init r =
     (let s = usb_step usb_clkrst (0x1 OR 0x2) True ([], r);
          s = usb_step usb_cnnt (0x800000 OR 0x8000000) True s;
          s = usb_step usb_otghs_ctrl (0x1 OR 0x4) False s;
          s = usb_reset s;
          s = usb_step usb_otghs_ctrl 0x80 True s;
          s = usb_step usb_utmi_fc06 (0x1 OR 0x8) True s
      in usb_step usb_ctrl (0x4 OR 0x8) True s)"

definition esp32s31_usb_phy_exit :: "dev_regs \<Rightarrow> (nat \<times> u32) list \<times> dev_regs" where
  "esp32s31_usb_phy_exit r =
     (let s = usb_step usb_ctrl (0x4 OR 0x8) False ([], r);
          s = usb_step usb_cnnt (0x800000 OR 0x8000000) False s
      in usb_step usb_clkrst (0x1 OR 0x2) False s)"

text \<open>The five mappings, then the PHY and its provider; no register is written.\<close>

definition esp32s31_usb_phy_probe :: "bool \<Rightarrow> errno option list \<Rightarrow> errno option \<Rightarrow> errno option \<Rightarrow> errno option" where
  "esp32s31_usb_phy_probe alloc_ok maps phy provider =
     (if \<not> alloc_ok then Some ENOMEM else first_error (maps @ [phy, provider]))"

section \<open>The Ethernet glue\<close>

record esp32s31_reg_update =
  ru_reg :: nat
  ru_mask :: u32
  ru_val :: u32

definition esp32s31_rgmii :: "esp32s31_reg_update list" where
  "esp32s31_rgmii =
     [\<lparr>ru_reg = 0x60, ru_mask = 0x1c, ru_val = push_bit 2 1\<rparr>,
      \<lparr>ru_reg = 0x44, ru_mask = 0x2 OR 0x4, ru_val = 0\<rparr>,
      \<lparr>ru_reg = 0x48, ru_mask = 0x1 OR 0x2 OR 0x4, ru_val = 0x4\<rparr>,
      \<lparr>ru_reg = 0x4c, ru_mask = 0x1 OR 0x2 OR 0x4 OR 0x8, ru_val = 0x1 OR 0x4 OR 0x8\<rparr>,
      \<lparr>ru_reg = 0x50, ru_mask = 0x1 OR 0x4 OR 0x8, ru_val = 0x8\<rparr>]"

text \<open>\<open>fails i\<close>: the error of the i-th \<open>regmap_update_bits\<close>, which then changes nothing.\<close>

fun rgmii_loop :: "(nat \<Rightarrow> errno option) \<Rightarrow> nat \<Rightarrow> esp32s31_reg_update list \<Rightarrow> dev_regs \<Rightarrow> errno option \<times> dev_regs" where
  "rgmii_loop fails i [] r = (None, r)"
| "rgmii_loop fails i (u # us) r =
     (if fails i \<noteq> None then (fails i, r)
      else rgmii_loop fails (i + 1) us (r(ru_reg u := (r (ru_reg u) AND NOT (ru_mask u)) OR (ru_val u AND ru_mask u))))"

definition esp32s31_dwmac_init :: "(nat \<Rightarrow> errno option) \<Rightarrow> dev_regs \<Rightarrow> errno option \<times> dev_regs" where
  "esp32s31_dwmac_init fails r = rgmii_loop fails 0 esp32s31_rgmii r"

text \<open>The results of the calls of the probe; \<open>rgmii\<close>: the mode of the device tree.\<close>

definition esp32s31_dwmac_probe :: "errno option \<Rightarrow> errno option \<Rightarrow> bool \<Rightarrow> errno option \<Rightarrow> errno option \<Rightarrow> errno option \<Rightarrow> errno option" where
  "esp32s31_dwmac_probe resources plat rgmii regmap clk stmmac =
     (if resources \<noteq> None then resources
      else if plat \<noteq> None then plat
      else if \<not> rgmii then Some EINVAL
      else if regmap \<noteq> None then regmap
      else if clk \<noteq> None then clk
      else stmmac)"

text \<open>What the odd addresses have for a first byte \<open>b\<close>.\<close>

definition local_byte :: "u8 \<Rightarrow> u8" where
  "local_byte b = (if b OR 2 = b then b XOR 4 else b OR 2)"

section \<open>What the LED receives\<close>

text \<open>The high time of each pulse decides; the sequence ends at a duration of 0.\<close>

fun decode_words :: "u32 list \<Rightarrow> bool list" where
  "decode_words [] = []"
| "decode_words (w # ws) = (if w AND 0x7fff = 0 then [] else (unat (w AND 0x7fff) > 12) # decode_words ws)"

text \<open>The memory that the channel sends: from its start to the first word without a duration.\<close>

lemma writes_append: "writes (xs @ ys) r = writes ys (writes xs r)"
  by (simp add: writes_def)

lemma writes_Cons: "writes ((a, v) # ws) r = writes ws (r(a := v))"
  by (simp add: writes_def)

lemma writes_Nil: "writes [] r = r"
  by (simp add: writes_def)

lemma writes_other: "a \<notin> fst ` set ws \<Longrightarrow> writes ws r a = r a"
  by (induction ws arbitrary: r) (auto simp: writes_Cons writes_Nil)

lemma writes_map:
  assumes "inj_on f (set xs)" and "distinct xs" and "x \<in> set xs"
  shows "writes (map (\<lambda>x. (f x, g x)) xs) r (f x) = g x"
  using assms
proof (induction xs arbitrary: r)
  case (Cons y ys)
  show ?case
  proof (cases "x \<in> set ys")
    case True
    then show ?thesis
      using Cons by (simp add: writes_Cons)
  next
    case False
    then have "f x \<notin> f ` set ys"
      using Cons(2,4) by (auto simp: inj_on_def)
    then have "writes (map (\<lambda>x. (f x, g x)) ys) (r(f y := g y)) (f x) = (r(f y := g y)) (f x)"
      by (intro writes_other) (simp add: image_image)
    then show ?thesis
      using False Cons(4) by (simp add: writes_Cons)
  qed
qed simp

text \<open>A word decodes to the bit that it was made of.\<close>

lemma bit_word_pulses: "bit_word b AND 0x7fff = (if b then 16 else 8)" "bit_word b \<noteq> 0"
  by (simp_all add: bit_word_def RMT_WORD_def)

lemma decode_bits: "decode_words (map bit_word bs @ [0]) = bs"
  by (induction bs) (simp_all add: bit_word_pulses)

lemma frame_mem:
  "i < 24 \<Longrightarrow> writes (frame_writes grb) r (RMT_CH0_RAM + 4 * i) = bit_word (bit grb (23 - i))"
  "writes (frame_writes grb) r (RMT_CH0_RAM + 4 * 24) = 0"
proof -
  let ?f = "\<lambda>i :: nat. RMT_CH0_RAM + 4 * i"
  have "writes (map (\<lambda>i. (?f i, bit_word (bit grb (23 - i)))) [0..<24]) r (?f i) = bit_word (bit grb (23 - i))" if "i < 24"
    by (rule writes_map) (use that in \<open>auto simp: inj_on_def simp del: upt_rec_numeral\<close>)
  then show "i < 24 \<Longrightarrow> writes (frame_writes grb) r (?f i) = bit_word (bit grb (23 - i))"
    unfolding frame_writes_def writes_append by (simp add: writes_Cons writes_Nil del: upt_rec_numeral)
  show "writes (frame_writes grb) r (RMT_CH0_RAM + 4 * 24) = 0"
    unfolding frame_writes_def writes_append by (simp add: writes_Cons writes_Nil del: upt_rec_numeral)
qed

lemma frame_other: "a < RMT_CH0_RAM \<Longrightarrow> writes (frame_writes grb) r a = r a"
  by (rule writes_other) (auto simp: frame_writes_def simp del: upt_rec_numeral)

text \<open>The LED decodes the channel memory, as it is when the transmission starts, to the
  24 bits of the colour, from the highest one; the transmission is started as the
  last write of the channel, after the memory pointers are reset; and at least the
  latch gap lies between two frames.\<close>

lemma led_frame:
  assumes "esp32s31_ws2812_send gap poll grb r = (delay, ws, ret)"
  shows "decode_words (map (\<lambda>i. writes ws r (RMT_CH0_RAM + 4 * i)) [0..<25]) = map (\<lambda>i. bit grb (23 - i)) [0..<24]"
    and "0 \<le> gap \<Longrightarrow> 300 \<le> gap + delay" and "0 \<le> delay" "delay \<le> 300" and "ret = poll"
    and "\<exists>pre v. ws = frame_writes grb @ pre @ [(RMT_CH0_CONF0, v), (RMT_INT_CLR, 1)] \<and> v AND 1 = 1 \<and> v AND 0x6 = 0 \<and>
      (r RMT_CH0_CONF0 AND 1 = 0 \<longrightarrow> (\<forall>(a, x) \<in> set pre. a = RMT_CH0_CONF0 \<longrightarrow> x AND 1 = 0))"
proof -
  define c where "c = r RMT_CH0_CONF0"
  let ?pre = "[(RMT_CH0_CONF0, c OR 0x2 OR 0x4), (RMT_CH0_CONF0, c AND NOT (0x2 OR 0x4)), (RMT_INT_CLR, 1),
      (RMT_CH0_CONF0, (c AND NOT (0x2 OR 0x4)) OR 0x1000000)]"
  let ?v = "((c AND NOT (0x2 OR 0x4)) OR 0x1000000) OR 1"
  have ws: "ws = frame_writes grb @ ?pre @ [(RMT_CH0_CONF0, ?v), (RMT_INT_CLR, 1)]"
    and rest: "delay = (if 0 \<le> gap \<and> gap < 300 then 300 - gap else 0)" "ret = poll"
    using assms
    by (auto simp: esp32s31_ws2812_send_def Let_def esp32s31_ws2812_conf0_def writes_append writes_Cons writes_Nil frame_other c_def)
  have split: "[0..<25] = [0..<24] @ [24 :: nat]"
    using upt_Suc_append [of 0 24] by (simp del: upt_rec_numeral)
  have mem: "writes ws r (RMT_CH0_RAM + 4 * i) = writes (frame_writes grb) r (RMT_CH0_RAM + 4 * i)" for i
    unfolding ws by (simp add: writes_append writes_Cons writes_Nil)
  have "map (\<lambda>i. writes ws r (RMT_CH0_RAM + 4 * i)) [0..<25] = map bit_word (map (\<lambda>i. bit grb (23 - i)) [0..<24]) @ [0]"
    unfolding split map_append mem using frame_mem by (simp del: upt_rec_numeral)
  then show "decode_words (map (\<lambda>i. writes ws r (RMT_CH0_RAM + 4 * i)) [0..<25]) = map (\<lambda>i. bit grb (23 - i)) [0..<24]"
    by (simp only: decode_bits)
  show "0 \<le> gap \<Longrightarrow> 300 \<le> gap + delay" "0 \<le> delay" "delay \<le> 300" "ret = poll"
    using rest by auto
  have v: "?v = (c AND NOT 6) OR 0x1000001"
    by (simp add: or.assoc)
  have o: "(y AND 1) OR 1 = (1 :: u32)" for y
    by (rule bit_word_eqI) (auto simp: bit_simps)
  have b: "?v AND 1 = 1" "?v AND 0x6 = 0"
  proof -
    show "?v AND 1 = 1"
      using o [of "(c AND NOT 6)"] unfolding v bit.conj_disj_distrib2 by simp
    show "?v AND 0x6 = 0"
      unfolding v field_set by simp
  qed
  have "c AND 1 = 0 \<Longrightarrow> \<forall>(a, x) \<in> set ?pre. a = RMT_CH0_CONF0 \<longrightarrow> x AND 1 = 0"
  proof -
    assume c: "c AND 1 = 0"
    have "(c AND NOT 6) AND 1 = 0"
      using c by (simp add: and.assoc)
    then show ?thesis
      using c by (simp add: bit.conj_disj_distrib2)
  qed
  then show "\<exists>pre v. ws = frame_writes grb @ pre @ [(RMT_CH0_CONF0, v), (RMT_INT_CLR, 1)] \<and> v AND 1 = 1 \<and> v AND 0x6 = 0 \<and>
      (r RMT_CH0_CONF0 AND 1 = 0 \<longrightarrow> (\<forall>(a, x) \<in> set pre. a = RMT_CH0_CONF0 \<longrightarrow> x AND 1 = 0))"
    using ws b unfolding c_def by blast
qed

text \<open>The tick is 50 ns up to the rounding, in every rate that the probe accepts.\<close>

lemma ws2812_div_rate:
  assumes "unat rate < 2 ^ 32 - 10000000"
  shows "unat (ws2812_div rate) = (unat rate + 10000000) div 20000000"
  using assms by (simp add: ws2812_div_def unat_div unat_word_ariths)

section \<open>The addresses of the interfaces\<close>

text \<open>The bytes of a block, as the little-endian words hold them.\<close>

lemma efuse_bytes:
  "esp32s31_efuse_read r offset n = map (\<lambda>i. ucast (drop_bit (8 * (i mod 4)) (r (i - i mod 4)))) [offset..<offset + n]"
  by (induction n arbitrary: offset) (simp_all add: upt_conv_Cons del: upt_Suc)

lemma mac_reverse: "length mac = 6 \<Longrightarrow> fold (\<lambda>i mac. swap_bytes i (5 - i) mac) [0..<3] mac = rev mac"
proof -
  assume "length mac = 6"
  then obtain a b c d e f where "mac = [a, b, c, d, e, f]"
    by (auto simp: numeral_eq_Suc length_Suc_conv)
  then show ?thesis
    by (simp add: swap_bytes_def upt_rec numeral_eq_Suc)
qed

text \<open>The four addresses: the first is the factory address, the next differs by one in
  its last byte, the odd ones are the same as the even ones before them but local.\<close>

lemma mac_of:
  assumes "rev mac = [a, b, c, d, e, f]"
  shows "esp32s31_efuse_mac_pp 0 mac = Inr [a, b, c, d, e, f]"
    "esp32s31_efuse_mac_pp 1 mac = Inr [local_byte a, b, c, d, e, f]"
    "esp32s31_efuse_mac_pp 2 mac = Inr [a, b, c, d, e, f + 1]"
    "esp32s31_efuse_mac_pp 3 mac = Inr [local_byte a, b, c, d, e, f + 1]"
proof -
  have l: "length mac = 6"
    using arg_cong [where f = length, OF assms] by simp
  show "esp32s31_efuse_mac_pp 0 mac = Inr [a, b, c, d, e, f]"
    "esp32s31_efuse_mac_pp 1 mac = Inr [local_byte a, b, c, d, e, f]"
    "esp32s31_efuse_mac_pp 2 mac = Inr [a, b, c, d, e, f + 1]"
    "esp32s31_efuse_mac_pp 3 mac = Inr [local_byte a, b, c, d, e, f + 1]"
    unfolding esp32s31_efuse_mac_pp_def mac_reverse [OF l] Let_def assms using l by (simp_all add: local_byte_def)
qed

lemma local_byte_bit: "local_byte a \<noteq> a" "local_byte a AND 2 = 2"
proof -
  have "a XOR 4 \<noteq> a"
  proof
    assume "a XOR 4 = a"
    then have "a XOR (a XOR 4) = a XOR a"
      by simp
    then show False
      by (simp add: xor.assoc [symmetric])
  qed
  then show "local_byte a \<noteq> a"
    by (auto simp: local_byte_def)
  have "(a OR 2) AND 2 = 2"
    by (simp add: word_ao_absorbs)
  moreover have "a OR 2 = a \<Longrightarrow> (a XOR 4) AND 2 = 2"
  proof -
    assume "a OR 2 = a"
    then have "a AND 2 = 2"
      using \<open>(a OR 2) AND 2 = 2\<close> by simp
    moreover have "(a XOR 4) AND 2 = (a AND 2) XOR (4 AND 2)"
      by (rule bit_word_eqI) (auto simp: bit_simps)
    ultimately show ?thesis
      by simp
  qed
  ultimately show "local_byte a AND 2 = 2"
    by (auto simp: local_byte_def)
qed

lemma mac_distinct:
  assumes "length mac = 6"
  shows "distinct (map (\<lambda>i. esp32s31_efuse_mac_pp i mac) [0, 1, 2, 3])"
proof -
  obtain a b c d e f where "rev mac = [a, b, c, d, e, f]"
    using assms by (auto simp: numeral_eq_Suc length_Suc_conv)
  note m = mac_of [OF this]
  have "f + 1 \<noteq> f"
    by simp
  then show ?thesis
    using local_byte_bit(1) [of a] local_byte_bit(1) [of a, symmetric] by (simp add: m)
qed

section \<open>The PHY and the interface mode\<close>

lemma usb_step_regs: "snd (usb_step reg bits on s) = (snd s)(reg := if on then snd s reg OR bits else snd s reg AND NOT bits)"
  by (cases s) (simp add: usb_step_def Let_def esp32s31_usb_set_bits_def writes_Cons writes_Nil)

lemma usb_reset_regs: "snd (usb_reset s) = (snd s)(usb_cnnt := snd s usb_cnnt AND NOT ESP32S31_USB_ALL_RST_EN)"
proof -
  have "(((x OR 0xe0000000) AND NOT 0x20000000) AND NOT (0x40000000 OR 0x80000000)) = x AND NOT (0xe0000000 :: u32)" for x
  proof -
    have "((x OR 0xe0000000) AND NOT 0x20000000) AND NOT (0x40000000 OR 0x80000000) = (x OR 0xe0000000) AND NOT (0xe0000000 :: u32)"
      by (simp add: and.assoc)
    also have "\<dots> = x AND NOT 0xe0000000"
      by (simp only: bit.conj_disj_distrib2) simp
    finally show ?thesis .
  qed
  then show ?thesis
    by (cases s) (simp add: usb_reset_def Let_def writes_Cons writes_Nil)
qed

text \<open>The PHY leaves reset before the core, which is the order of the writes.\<close>

lemma usb_reset_order:
  "fst (usb_reset (ws, r)) = ws @ [(usb_cnnt, r usb_cnnt OR 0xe0000000), (usb_cnnt, (r usb_cnnt OR 0xe0000000) AND NOT 0x20000000),
     (usb_cnnt, ((r usb_cnnt OR 0xe0000000) AND NOT 0x20000000) AND NOT 0xc0000000)]"
  by (simp add: usb_reset_def Let_def)

lemma usb_phy_init_regs:
  "snd (esp32s31_usb_phy_init r) = r(usb_clkrst := r usb_clkrst OR 3, usb_cnnt := (r usb_cnnt OR 0x8800000) AND NOT ESP32S31_USB_ALL_RST_EN,
     usb_otghs_ctrl := (r usb_otghs_ctrl AND NOT 5) OR 0x80, usb_utmi_fc06 := r usb_utmi_fc06 OR 9, usb_ctrl := r usb_ctrl OR 0xc)"
  unfolding esp32s31_usb_phy_init_def Let_def
  by (simp add: usb_step_regs usb_reset_regs fun_eq_iff)

text \<open>Every field of the mode is as the table says, or the first error stops it.\<close>

lemma dwmac_fields:
  "esp32s31_dwmac_init (\<lambda>_. None) r = (None, r') \<Longrightarrow> u \<in> set esp32s31_rgmii \<Longrightarrow> r' (ru_reg u) AND ru_mask u = ru_val u"
  "esp32s31_dwmac_init (\<lambda>_. None) r = (None, r') \<Longrightarrow> u \<in> set esp32s31_rgmii \<Longrightarrow> r' (ru_reg u) AND NOT (ru_mask u) = r (ru_reg u) AND NOT (ru_mask u)"
  "esp32s31_dwmac_init (\<lambda>_. None) r = (None, r') \<Longrightarrow> a \<notin> ru_reg ` set esp32s31_rgmii \<Longrightarrow> r' a = r a"
proof -
  have o: "((x AND NOT m) OR (b AND m)) AND NOT m = x AND NOT (m :: u32)" for x b m
    by (rule bit_word_eqI) (auto simp: bit_simps)
  note os = o [of _ "0x1c" 4, simplified] o [of _ 6 0, simplified] o [of _ 7 4, simplified] o [of _ "0xf" "0xd", simplified] o [of _ "0xd" 8, simplified]
  note fs = field_set [of _ "0x1c" 4, simplified] field_set [of _ 6 0, simplified] field_set [of _ 7 4, simplified]
    field_set [of _ "0xf" "0xd", simplified] field_set [of _ "0xd" 8, simplified]
  assume r: "esp32s31_dwmac_init (\<lambda>_. None) r = (None, r')"
  let ?w = "\<lambda>(a :: nat) m v. (r a AND NOT m) OR (v AND m)"
  have r': "r' = r(0x60 := ?w 0x60 0x1c 4, 0x44 := ?w 0x44 6 0, 0x48 := ?w 0x48 7 4, 0x4c := ?w 0x4c 0xf 0xd, 0x50 := ?w 0x50 0xd 8)"
    using r by (simp add: esp32s31_dwmac_init_def esp32s31_rgmii_def)
  show "u \<in> set esp32s31_rgmii \<Longrightarrow> r' (ru_reg u) AND ru_mask u = ru_val u"
    unfolding r' by (auto simp: esp32s31_rgmii_def fs)
  show "u \<in> set esp32s31_rgmii \<Longrightarrow> r' (ru_reg u) AND NOT (ru_mask u) = r (ru_reg u) AND NOT (ru_mask u)"
    unfolding r' by (auto simp: esp32s31_rgmii_def os)
  show "a \<notin> ru_reg ` set esp32s31_rgmii \<Longrightarrow> r' a = r a"
    unfolding r' by (simp add: esp32s31_rgmii_def)
qed

end
