(* ===== verification/Spec2Isabelle.thy ===== *)
theory Spec2Isabelle
  imports Pin_Main Shm_Channel Shm_Doorbell Flash_Mailbox Ble_Ha_Inv Pin_Driver I2c_Driver Sbi_Platform Uart_Driver Boot_Loader Clk_Driver
    Clic_Driver Thread_Relay Ble_Sockets Soc_Devices Soc_Protection
begin

text \<open>
  The ESP32-S31 runs Linux on one of its two RV32 harts.  Hart 0 starts as the boot
  loader and then runs the ESP-Hosted radio firmware; hart 1 runs OpenSBI in machine
  mode and the kernel above it.  This development models the C code of the port: the
  shared-memory transport between the harts, the loader, the OpenSBI platform, the kernel
  drivers, and the three tools of the image.  Paths below are relative to \<open>src/\<close>; a
  definition has the name of the function or type that it translates, and what has no
  name in C (a loop, a part of a function) has a name of its own.

  \<^bold>\<open>Parts and their theories\<close>

  \<^item> Prelude: the integer types of the C code as words, byte strings, encodings, a
    byte-addressed memory, error numbers, fields of registers.
  \<^item> Shm_Ring, Shm_Linux, Shm_Firmware, Shm_Channel: the block of
    \<open>shared/esp32s31-hosted-shm.h\<close> with its two byte rings; the Linux side
    \<open>linux/.../esp_hosted/esp_shm.c\<close>, whose state is \<open>esp_shm_context\<close> with the block, the queue
    of waiting frames and a log of calls; the firmware side
    \<open>bootloader/components/esp_hosted/shm_slave_api.c\<close>.  The locale \<open>byte_ring\<close> has the laws of
    a ring, \<open>frame_channel\<close> and \<open>bounded_channel\<close> what a user of a ring relies on; both rings with
    both implementations are instances, from which first-in-first-out delivery follows.
  \<^item> Shm_Doorbell: the same protocol as a step relation of single accesses of the two harts
    with their interrupt handlers; sleeping receivers and waiting senders are woken.
  \<^item> Flash_Mailbox: the MTD device \<open>esp_shm_flash.c\<close> and the service \<open>shm_flash.c\<close> around the
    mailbox in the block.  The SPI flash driver is a parameter with the laws of a NOR flash.
  \<^item> Boot_Loader: \<open>bootloader/main/main.c\<close>, \<open>display.c\<close>, \<open>radio_coex.c\<close>.  The memory is a map of
    bytes; the sequence to the start of hart 1 is a list of actions.
  \<^item> Sbi_Platform: \<open>opensbi/platform/esp32s31/platform.c\<close> as lists of bus accesses, with the
    kernel's \<open>cache/esp32s31-cache.c\<close>; the lock of the cache engine is a step relation of both
    harts.
  \<^item> Soc_Protection: the protection of memory that the loader and OpenSBI set up together, the
    filter of the bus masters and the PMP of hart 0.
  \<^item> Uart_Driver, Clk_Driver, Clic_Driver, I2c_Driver, Pin_Driver, Soc_Devices: the kernel
    drivers under \<open>linux/drivers\<close> for the serial port, the clocks and resets, the interrupt
    controller, I2C, the pins, and four small devices (LED, eFuse, USB PHY, Ethernet glue).
    Registers are a map from offsets to words; devices that act on their own (the two FIFOs,
    the I2C command list, an interrupt) have their state in the record of the driver.
  \<^item> Pin_Signals, Pin_Chip, Pin_Tool, Pin_Snapshot, Pin_Main: the tool \<open>tools/pinctrl\<close>, from the
    tables of names to \<open>main\<close>.  The locale \<open>gpio_backend\<close> is what its operations need of the
    registers; snapshots and the hardware are instances.
  \<^item> Ble_Api, Ble_Hci, Ble_Improv, Ble_Gatt, Ble_Wpa, Ble_Ha, Ble_Ha_Inv: the daemon
    \<open>tools/ble-ha\<close>, one theory per file, with its static state in the record \<open>ha\<close>.  The locales
    \<open>packet_inv\<close> and \<open>setup_inv\<close> carry an invariant through all handlers; five invariants are
    instances.
  \<^item> Thread_Relay: \<open>tools/thread-relay/thread-relay.c\<close> and the two \<open>sockopt\<close> files.
  \<^item> Sys_Calls, Ble_Sockets: the system calls of the two daemons as programs of the state
    monad over a kernel that is a parameter; the sockets and files of ble-ha
    (\<open>hci-linux.c\<close>, and parts of \<open>ble-ha.c\<close> and \<open>wpa.c\<close>).

  \<^bold>\<open>What the lemmas show\<close>

  \<^item> The transport: both implementations refine a bounded queue of frames; reads stay in
    their buffers whatever the other side wrote; no doorbell is missed; what the flash
    service does stays in the window, and data that was written is read back.
  \<^item> The loader accepts exactly the images whose length, magic numbers and checksum fit, and
    hands over only after everything it loads and protects is in place.  Two harts never
    use the cache engine at once; DMA synchronisation covers each line of a buffer.
  \<^item> The drivers: registers get what was asked for and other fields stay; rates and
    dividers are the nearest or the next one; values that a field cannot hold are refused;
    an interrupt is allocated or all is undone; pending work of the interrupt controller is
    not lost; the UART never overfills its FIFO and keeps the order of bytes; an I2C transfer
    works with any behaviour of the controller and ends.
  \<^item> The tools: parsers accept exactly the encodings and stay in their input; ble-ha keeps its
    invariants over every sequence of packets, timers and clients, and its output is a
    stream of whole messages; the pin tool changes only what is allowed, agrees with the
    kernel's driver, and shows with a snapshot what it showed on the hardware; the relay
    passes on both streams unchanged.  On every path, errors included, the daemons close each
    descriptor that they do not return (\<open>tools_keep_descriptors\<close>, below).
  \<^item> The protection: on its way from the loader to OpenSBI the area of OpenSBI is closed
    without a moment in which another address is closed.

  \<^bold>\<open>Conventions and bounds\<close>

  Integers have the width of the C code and wrap; \<open>size_t\<close> and \<open>long\<close> have 32 bits.  Errors are
  \<open>Inl\<close> of an error number or \<open>None\<close>.  Loops are recursive functions with termination proofs;
  a loop that waits for a device or another process takes a list of what it meets
  (\<open>rounds\<close>, scripts of results of system calls) and has a result of its own for the end of
  that list, so that no claim of success rests on a bound: where the code must end, the
  lemma says for which lists (a round after the timeout, \<open>shm_write_spec\<close>) or for all.
  Polls of registers with a limit are functions of the answers of the device.  Time, random
  data, allocation, files and the results of the kernel's and of ESP-IDF's functions are
  parameters.  Code outside this repository appears only as such a parameter; what is
  assumed of it is a named hypothesis or a locale (\<open>nor_dev\<close>, the laws of the flash, set and clear
  registers of the GPIO block), and each has an instance.

  \<^bold>\<open>Not modelled\<close>

  The kernel, OpenSBI, ESP-IDF and BlueZ themselves; device trees, bindings, patches,
  scripts, build files and the Python tools; the tables that register drivers and their
  resources; spin locks where every operation is one step (the concurrent parts, the
  doorbell, the cache lock and the interrupt work, are step relations); weak memory order
  beyond the fences, which the step relation takes as written; logging and signal
  handlers; analogue behaviour and the timing tables of the panel; the tests.
  The manifest lists each part with what it leaves out.
\<close>

section \<open>The descriptors of the tools\<close>

text \<open>C38: on every path, errors included, the functions of the two daemons that open a
  descriptor return the only new one or leave the table of descriptors as it was: the
  device and the listener of the relay, the HCI channel, the listener and the clients of
  ble-ha; the LED and a whole join over the socket of wpa_supplicant leave no
  descriptor open.  A listener that is returned does not block, has its
  address and listens, by its last three calls; the relay tries IPv6 and then IPv4.
  An exchange of the daemon is the request of the model of the client.\<close>

theorem tools_keep_descriptors:
  assumes "kernel_ok k tbl"
  shows "opens tbl (open_device k path) \<and> opens tbl (Thread_Relay.open_listener k port) \<and>
     opens tbl (hci_open_user k dev) \<and> opens tbl (Ble_Sockets.open_listener k) \<and> opens tbl (accept_calls k lfd free) \<and>
     keeps tbl (identify_calls k on) \<and>
     tbl (snd (wpa_join (socket_supplicant k pid) ssid pass w)) = tbl w \<and>
     (len \<le> 2048 \<longrightarrow> request (socket_supplicant k pid) cmd len w = run_state (request_calls k pid cmd len) w) \<and>
     (case run_state (Thread_Relay.open_listener (logged_kernel k) port) (w, l) of (fd, wl) \<Rightarrow>
        0 \<le> fd \<longrightarrow> listens fd (Any6 (of_int port)) 1 (snd wl) \<or> listens fd (Any4 (of_int port)) 1 (snd wl)) \<and>
     (case run_state (Ble_Sockets.open_listener (logged_kernel k)) (w, l) of (fd, wl) \<Rightarrow>
        0 \<le> fd \<longrightarrow> listens fd (Any6 6053) 4 (snd wl))"
proof -
  have "keeps tbl (identify_calls k on)" and "opens tbl (open_device k path)" and "opens tbl (Thread_Relay.open_listener k port)"
    and "opens tbl (hci_open_user k dev)" and "opens tbl (Ble_Sockets.open_listener k)" and "opens tbl (accept_calls k lfd free)"
    using assms by (simp_all add: device_opens listener_opens hci_opens api_listener_opens accept_opens identify_keeps)
  moreover have "tbl (snd (wpa_join (socket_supplicant k pid) ssid pass w)) = tbl w"
    by (rule wpa_join_keeps) (rule supplicant_keeps [OF assms])
  moreover have "len \<le> 2048 \<longrightarrow> request (socket_supplicant k pid) cmd len w = run_state (request_calls k pid cmd len) w"
    by (simp add: request_socket)
  moreover have "case run_state (Thread_Relay.open_listener (logged_kernel k) port) (w, l) of (fd, wl) \<Rightarrow>
      0 \<le> fd \<longrightarrow> listens fd (Any6 (of_int port)) 1 (snd wl) \<or> listens fd (Any4 (of_int port)) 1 (snd wl)"
    using listener_listens by fastforce
  moreover have "case run_state (Ble_Sockets.open_listener (logged_kernel k)) (w, l) of (fd, wl) \<Rightarrow>
      0 \<le> fd \<longrightarrow> listens fd (Any6 6053) 4 (snd wl)"
    using api_listener_listens by fastforce
  ultimately show ?thesis
    by blast
qed

text \<open>Without IPv6 the relay's first socket is closed, and the second one listens.\<close>

definition no_ipv6 :: "syscall \<Rightarrow> bool" where
  "no_ipv6 c = (case c of Sys_bind _ (Any6 _) \<Rightarrow> True | _ \<Rightarrow> False)"

lemma tools_keep_descriptors_witness:
  "opens set (Thread_Relay.open_listener (list_kernel no_ipv6 []) 6638) \<and>
   run_state (Thread_Relay.open_listener (list_kernel no_ipv6 []) 6638) [0, 1, 2] = (3, [3, 0, 1, 2]) \<and>
   run_state (Ble_Sockets.open_listener (list_kernel no_ipv6 [])) [0, 1, 2] = (-1, [0, 1, 2])"
proof -
  have "run_state (Thread_Relay.open_listener (list_kernel no_ipv6 []) 6638) [0, 1, 2] = (3, [3, 0, 1, 2])"
    and "run_state (Ble_Sockets.open_listener (list_kernel no_ipv6 [])) [0, 1, 2] = (-1, [0, 1, 2])"
    by code_simp+
  then show ?thesis
    using tools_keep_descriptors [OF list_kernel_ok [of no_ipv6 "[]"]] by blast
qed

end
